(* ===== verification/Triage_Prelude.thy ===== *)
theory Triage_Prelude
  imports Complex_Main "HOL-Library.Char_ord" "HOL-Library.List_Lexorder" "HOL-Library.Multiset"
begin

text \<open>
  Shared ground of the development: Go's strings as byte lists, instants and durations in
  nanoseconds with 64-bit wrap-around written out, floating-point numbers with their special values,
  and generic lemmas on lists and tables.

  Strings. A Go string is a byte sequence, so it is a \<^typ>\<open>string\<close> (a list of 8-bit characters).
  The functions of package \<open>strings\<close> the program calls are modelled on bytes; case mapping and
  white space are those of ASCII, bytes above 127 being left alone.

  Time. A \<open>time.Time\<close> is an instant in nanoseconds relative to the Unix epoch, an unbounded integer;
  Go's zero time (1 January of year 1) is the instant \<open>zero_time\<close>. \<open>UnixNano\<close> reduces it to
  64 bits, a \<open>time.Duration\<close> is a 64-bit count of nanoseconds.
\<close>

named_theorems triage_simps \<open>unfolding rules of the model's small operations\<close>
named_theorems table_laws \<open>laws of the table operations\<close>

section \<open>Time and 64-bit integers\<close>

type_synonym gotime = int
type_synonym duration = int

definition int64 :: "int \<Rightarrow> int" where
  "int64 n = (n + 2 ^ 63) mod 2 ^ 64 - 2 ^ 63"

definition in_int64 :: "int \<Rightarrow> bool" where
  "in_int64 n \<longleftrightarrow> - (2 ^ 63) \<le> n \<and> n < 2 ^ 63"

lemma int64_id [simp]: "in_int64 n \<Longrightarrow> int64 n = n"
  by (simp add: int64_def in_int64_def)

lemma in_int64_int64 [simp]: "in_int64 (int64 n)"
proof -
  have "0 \<le> (n + 2 ^ 63) mod 2 ^ 64" and "(n + 2 ^ 63) mod 2 ^ 64 < (2 ^ 64 :: int)"
    by (simp_all only: pos_mod_sign pos_mod_bound zero_less_power zero_less_numeral)
  then show ?thesis by (simp add: int64_def in_int64_def)
qed

definition zero_time :: gotime where
  "zero_time = -62135596800000000000"

definition is_zero_time :: "gotime \<Rightarrow> bool" where
  "is_zero_time t \<longleftrightarrow> t = zero_time"

definition unix_nano :: "gotime \<Rightarrow> int" where
  "unix_nano t = int64 t"

definition time_add :: "gotime \<Rightarrow> duration \<Rightarrow> gotime" where
  "time_add t d = t + d"

text \<open>\<open>Time.Sub\<close> saturates at the ends of the duration range.\<close>

definition time_sub :: "gotime \<Rightarrow> gotime \<Rightarrow> duration" where
  "time_sub t u = max (- (2 ^ 63)) (min (2 ^ 63 - 1) (t - u))"

definition dur_second :: duration where "dur_second = 1000000000"
definition dur_minute :: duration where "dur_minute = 60 * dur_second"
definition dur_hour :: duration where "dur_hour = 3600 * dur_second"
definition dur_day :: duration where "dur_day = 86400 * dur_second"

lemmas dur_defs [triage_simps] = dur_second_def dur_minute_def dur_hour_def dur_day_def

lemma not_in_int64_zero_time: "\<not> in_int64 zero_time"
  by (simp add: in_int64_def zero_time_def)

text \<open>Go's integer division truncates toward zero.\<close>

definition trunc_div :: "int \<Rightarrow> int \<Rightarrow> int" where
  "trunc_div a b = (let q = \<bar>a\<bar> div \<bar>b\<bar> in if (a < 0) = (b < 0) then q else - q)"

text \<open>Midnight UTC of the day of an instant.\<close>

definition utc_midnight :: "gotime \<Rightarrow> gotime" where
  "utc_midnight t = t - t mod dur_day"

lemma utc_midnight_le: "utc_midnight t \<le> t"
  by (simp add: utc_midnight_def dur_defs)

lemma utc_midnight_mono: "t \<le> u \<Longrightarrow> utc_midnight t \<le> utc_midnight u"
proof -
  assume "t \<le> u"
  then have "t div dur_day \<le> u div dur_day"
    by (simp add: dur_defs zdiv_mono1)
  then have "dur_day * (t div dur_day) \<le> dur_day * (u div dur_day)"
    by (simp add: dur_defs)
  then show ?thesis
    by (simp add: utc_midnight_def minus_mod_eq_mult_div)
qed

section \<open>Floating-point numbers\<close>

text \<open>
  A \<open>float64\<close> is a finite rational, an infinity or not-a-number; the program only compares,
  takes maxima and renders such values. Rounding arises where an integer is converted, and is written out there.
\<close>

datatype float64 = Fin rat | PosInf | NegInf | NaN

fun flt_less :: "float64 \<Rightarrow> float64 \<Rightarrow> bool" where
  "flt_less (Fin a) (Fin b) = (a < b)"
| "flt_less (Fin a) PosInf = True"
| "flt_less NegInf (Fin b) = True"
| "flt_less NegInf PosInf = True"
| "flt_less _ _ = False"

fun flt_ge :: "float64 \<Rightarrow> float64 \<Rightarrow> bool" where
  "flt_ge NaN b = False"
| "flt_ge a NaN = False"
| "flt_ge a b = (\<not> flt_less a b)"

text \<open>\<open>math.Max\<close>: plus infinity wins, then not-a-number.\<close>

fun flt_max :: "float64 \<Rightarrow> float64 \<Rightarrow> float64" where
  "flt_max PosInf b = PosInf"
| "flt_max a PosInf = PosInf"
| "flt_max NaN b = NaN"
| "flt_max a NaN = NaN"
| "flt_max NegInf b = b"
| "flt_max a NegInf = a"
| "flt_max (Fin a) (Fin b) = Fin (max a b)"

definition is_nan_or_inf :: "float64 \<Rightarrow> bool" where
  "is_nan_or_inf f \<longleftrightarrow> (case f of Fin _ \<Rightarrow> False | _ \<Rightarrow> True)"

text \<open>\<open>float64(n)\<close>: the nearest number of 53 significant bits, the even one of two.\<close>

fun bit_len :: "nat \<Rightarrow> nat" where
  "bit_len n = (if n = 0 then 0 else Suc (bit_len (n div 2)))"

declare bit_len.simps [simp del]

definition round53 :: "int \<Rightarrow> int" where
  "round53 n =
     (let unit = 2 ^ (bit_len (nat \<bar>n\<bar>) - 53); q = \<bar>n\<bar> div unit; r = \<bar>n\<bar> mod unit
      in sgn n * ((if unit < 2 * r \<or> unit = 2 * r \<and> odd q then q + 1 else q) * unit))"

definition float_of_int :: "int \<Rightarrow> float64" where
  "float_of_int n = Fin (of_int (round53 n))"

lemma bit_len_le: "n < 2 ^ k \<Longrightarrow> bit_len n \<le> k"
proof (induction k arbitrary: n)
  case 0
  then show ?case by (simp add: bit_len.simps)
next
  case (Suc k)
  then have "bit_len (n div 2) \<le> k" by (intro Suc.IH) simp
  then show ?case by (subst bit_len.simps) simp
qed

lemma round53_exact:
  assumes "\<bar>n\<bar> < 2 ^ 53"
  shows "round53 n = n"
proof -
  have "nat \<bar>n\<bar> < nat (2 ^ 53)" using assms by (intro nat_mono_iff [THEN iffD2]) simp_all
  then have "bit_len (nat \<bar>n\<bar>) \<le> 53" by (intro bit_len_le) simp
  then show ?thesis by (simp add: round53_def sgn_mult_abs)
qed

lemma float_of_int_finite [simp]: "\<not> is_nan_or_inf (float_of_int n)"
  by (simp add: is_nan_or_inf_def float_of_int_def)

section \<open>Dynamically typed values\<close>

text \<open>A value of Go's type \<open>any\<close> as the program stores it in extracted fields and audit payloads.\<close>

datatype any_val =
    ANil
  | AFloat64 float64
  | AFloat32 float64
  | AInt int
  | AInt64 int
  | AString string
  | ABool bool
  | AStrings "string list"
  | ATime gotime
  | AMaps "((string \<times> any_val) list) list"
  | AOther

section \<open>Strings\<close>

abbreviation LF :: char where "LF \<equiv> CHR 0x0A"
abbreviation NUL :: char where "NUL \<equiv> CHR 0x00"
abbreviation US :: char where "US \<equiv> CHR 0x1F"

text \<open>The em dash, U+2014, in UTF-8.\<close>

abbreviation EMDASH :: string where "EMDASH \<equiv> [CHR 0xE2, CHR 0x80, CHR 0x94]"

definition char_code :: "char \<Rightarrow> nat" where
  "char_code c = of_char c"

definition to_lower_char :: "char \<Rightarrow> char" where
  "to_lower_char c = (if 65 \<le> char_code c \<and> char_code c \<le> 90 then char_of (char_code c + 32) else c)"

definition to_lower :: "string \<Rightarrow> string" where
  "to_lower s = map to_lower_char s"

definition is_space :: "char \<Rightarrow> bool" where
  "is_space c \<longleftrightarrow> char_code c \<in> {9, 10, 11, 12, 13, 32}"

definition is_control :: "char \<Rightarrow> bool" where
  "is_control c \<longleftrightarrow> char_code c < 32 \<or> char_code c = 127"

definition trim_left_by :: "(char \<Rightarrow> bool) \<Rightarrow> string \<Rightarrow> string" where
  "trim_left_by p s = dropWhile p s"

definition trim_by :: "(char \<Rightarrow> bool) \<Rightarrow> string \<Rightarrow> string" where
  "trim_by p s = rev (dropWhile p (rev (dropWhile p s)))"

definition trim_space :: "string \<Rightarrow> string" where
  "trim_space s = trim_by is_space s"

definition has_prefix :: "string \<Rightarrow> string \<Rightarrow> bool" where
  "has_prefix s p \<longleftrightarrow> take (length p) s = p"

definition has_suffix :: "string \<Rightarrow> string \<Rightarrow> bool" where
  "has_suffix s p \<longleftrightarrow> has_prefix (rev s) (rev p)"

text \<open>\<open>strings.Index\<close>: the first position of a substring, \<^const>\<open>None\<close> for minus one.\<close>

fun str_index :: "string \<Rightarrow> string \<Rightarrow> nat option" where
  "str_index [] p = (if p = [] then Some 0 else None)"
| "str_index (c # s) p = (if has_prefix (c # s) p then Some 0 else map_option Suc (str_index s p))"

definition str_contains :: "string \<Rightarrow> string \<Rightarrow> bool" where
  "str_contains s p \<longleftrightarrow> str_index s p \<noteq> None"

definition contains_any :: "string \<Rightarrow> string \<Rightarrow> bool" where
  "contains_any s cs \<longleftrightarrow> list_ex (\<lambda>c. c \<in> set cs) s"

text \<open>\<open>strings.Fields\<close>: the maximal runs of non-space characters.\<close>

fun fields_acc :: "string \<Rightarrow> string \<Rightarrow> string list" where
  "fields_acc [] w = (if w = [] then [] else [rev w])"
| "fields_acc (c # s) w =
     (if is_space c then (if w = [] then fields_acc s [] else rev w # fields_acc s [])
      else fields_acc s (c # w))"

definition str_fields :: "string \<Rightarrow> string list" where
  "str_fields s = fields_acc s []"

text \<open>\<open>strings.Split\<close> with a one-character separator, and \<open>strings.Join\<close>.\<close>

fun split_on :: "char \<Rightarrow> string \<Rightarrow> string list" where
  "split_on d [] = [[]]"
| "split_on d (c # s) =
     (if c = d then [] # split_on d s
      else (case split_on d s of [] \<Rightarrow> [[c]] | w # ws \<Rightarrow> (c # w) # ws))"

fun str_join :: "string list \<Rightarrow> string \<Rightarrow> string" where
  "str_join [] sep = []"
| "str_join [w] sep = w"
| "str_join (w # v # ws) sep = w @ sep @ str_join (v # ws) sep"

text \<open>The \<open>%d\<close> verb.\<close>

fun nat_str :: "nat \<Rightarrow> string" where
  "nat_str n = (if n < 10 then [char_of (48 + n)] else nat_str (n div 10) @ [char_of (48 + n mod 10)])"

declare nat_str.simps [simp del]

definition int_str :: "int \<Rightarrow> string" where
  "int_str i = (if i < 0 then CHR ''-'' # nat_str (nat (- i)) else nat_str (nat i))"

subsection \<open>Lemmas on strings\<close>

lemma to_lower_char_idem [simp]: "to_lower_char (to_lower_char c) = to_lower_char c"
  by (auto simp: to_lower_char_def char_code_def)

lemma to_lower_idem [simp]: "to_lower (to_lower s) = to_lower s"
  by (simp add: to_lower_def)

lemma to_lower_append [simp]: "to_lower (s @ t) = to_lower s @ to_lower t"
  by (simp add: to_lower_def)

lemma length_to_lower [simp]: "length (to_lower s) = length s"
  by (simp add: to_lower_def)

lemma has_prefix_iff: "has_prefix s p \<longleftrightarrow> (\<exists>t. s = p @ t)"
  unfolding has_prefix_def by (metis append_eq_conv_conj append_take_drop_id)

lemma has_prefix_append [simp]: "has_prefix (p @ t) p"
  by (simp add: has_prefix_def)

lemma str_index_Some:
  "str_index s p = Some i \<Longrightarrow> has_prefix (drop i s) p \<and> i \<le> length s"
  by (induction s arbitrary: i) (auto simp: has_prefix_def split: if_splits)

lemma str_index_least:
  "str_index s p = Some i \<Longrightarrow> j < i \<Longrightarrow> \<not> has_prefix (drop j s) p"
proof (induction s arbitrary: i j)
  case Nil
  then show ?case by (simp split: if_splits)
next
  case (Cons c s)
  then show ?case by (cases j) (auto split: if_splits)
qed

lemma str_index_None: "str_index s p = None \<Longrightarrow> \<not> has_prefix (drop j s) p"
proof (induction s arbitrary: j)
  case Nil
  then show ?case by (auto simp: has_prefix_def split: if_splits)
next
  case (Cons c s)
  then show ?case by (cases j) (auto split: if_splits)
qed

lemma str_contains_iff: "str_contains s p \<longleftrightarrow> (\<exists>u v. s = u @ p @ v)"
proof
  assume "str_contains s p"
  then obtain i where "str_index s p = Some i" by (auto simp: str_contains_def)
  from str_index_Some [OF this] obtain v where "drop i s = p @ v" by (auto simp: has_prefix_iff)
  then have "s = take i s @ p @ v" by (metis append_take_drop_id)
  then show "\<exists>u v. s = u @ p @ v" by blast
next
  assume "\<exists>u v. s = u @ p @ v"
  then obtain u v where "s = u @ p @ v" by blast
  then have "has_prefix (drop (length u) s) p" by simp
  then show "str_contains s p"
    unfolding str_contains_def using str_index_None by blast
qed

lemma str_contains_appendI1: "str_contains s p \<Longrightarrow> str_contains (s @ t) p"
  unfolding str_contains_iff by (metis append.assoc)

lemma str_contains_appendI2: "str_contains t p \<Longrightarrow> str_contains (s @ t) p"
  unfolding str_contains_iff by (metis append.assoc)

lemma str_contains_refl [simp]: "str_contains s s"
  unfolding str_contains_iff by (metis append_Nil append_Nil2)

lemma dropWhile_idem [simp]: "dropWhile p (dropWhile p s) = dropWhile p s"
  by (induction s) auto

lemma set_trim_by: "set (trim_by p s) \<subseteq> set s"
  unfolding trim_by_def by (metis set_dropWhileD set_rev subsetI)

lemma set_trim_space: "set (trim_space s) \<subseteq> set s"
  by (simp add: trim_space_def set_trim_by)

lemma dropWhile_fixed_iff: "dropWhile p s = s \<longleftrightarrow> s = [] \<or> \<not> p (hd s)"
proof (cases s)
  case (Cons c t)
  have "dropWhile p t \<noteq> c # t"
    using length_dropWhile_le [of p t] by (metis impossible_Cons)
  then show ?thesis using Cons by auto
qed simp

lemma dropWhile_rev_hd:
  assumes "dropWhile p s = s"
  shows "dropWhile p (rev (dropWhile p (rev s))) = rev (dropWhile p (rev s))"
proof -
  let ?r = "rev (dropWhile p (rev s))"
  have "s = rev (takeWhile p (rev s) @ dropWhile p (rev s))" by simp
  then have split: "s = ?r @ rev (takeWhile p (rev s))" by (simp only: rev_append)
  show ?thesis
  proof (cases "?r = []")
    case False
    then have "hd ?r = hd s" using split by (metis hd_append2)
    moreover have "s \<noteq> []" using split False by (metis append_is_Nil_conv)
    ultimately show ?thesis using assms False by (simp add: dropWhile_fixed_iff)
  next
    case True
    then show ?thesis by (simp only: dropWhile.simps(1))
  qed
qed

lemma trim_space_idem [simp]: "trim_space (trim_space s) = trim_space s"
proof -
  let ?d = "dropWhile is_space"
  have "?d (rev (?d (rev (?d s)))) = rev (?d (rev (?d s)))"
    by (rule dropWhile_rev_hd) simp
  then show ?thesis by (simp add: trim_space_def trim_by_def)
qed

lemma fields_acc_nonempty: "w \<in> set (fields_acc s v) \<Longrightarrow> w \<noteq> []"
  by (induction s v rule: fields_acc.induct) (auto split: if_splits)

lemma str_fields_nonempty: "w \<in> set (str_fields s) \<Longrightarrow> w \<noteq> []"
  unfolding str_fields_def by (rule fields_acc_nonempty)

lemma nat_str_nonempty [simp]: "nat_str n \<noteq> []"
  by (subst nat_str.simps) simp

section \<open>Lists\<close>

lemma map_filter_update_id:
  "(\<And>x. x \<in> set xs \<Longrightarrow> p x \<Longrightarrow> f x = x) \<Longrightarrow> map (\<lambda>x. if p x then f x else x) xs = xs"
  by (induction xs) auto

text \<open>Both sides are cut at the first separator.\<close>

lemma first_separator_inj:
  "a @ z # u = b @ z # v \<Longrightarrow> z \<notin> set a \<Longrightarrow> z \<notin> set b \<Longrightarrow> a = b \<and> u = v"
proof (induction a arbitrary: b)
  case Nil
  then show ?case by (cases b) auto
next
  case (Cons c a)
  then show ?case by (cases b) auto
qed

text \<open>\<open>sort.SliceStable\<close>: a stable insertion sort under a comparison function.\<close>

fun insert_stable :: "('a \<Rightarrow> 'a \<Rightarrow> bool) \<Rightarrow> 'a \<Rightarrow> 'a list \<Rightarrow> 'a list" where
  "insert_stable lt x [] = [x]"
| "insert_stable lt x (y # ys) = (if lt y x then y # insert_stable lt x ys else x # y # ys)"

definition sort_stable :: "('a \<Rightarrow> 'a \<Rightarrow> bool) \<Rightarrow> 'a list \<Rightarrow> 'a list" where
  "sort_stable lt xs = foldr (insert_stable lt) xs []"

lemma mset_insert_stable: "mset (insert_stable lt x ys) = add_mset x (mset ys)"
  by (induction ys) auto

lemma mset_sort_stable [simp]: "mset (sort_stable lt xs) = mset xs"
  unfolding sort_stable_def by (induction xs) (simp_all add: mset_insert_stable)

lemma set_sort_stable [simp]: "set (sort_stable lt xs) = set xs"
  by (metis mset_sort_stable set_mset_mset)

lemma length_sort_stable [simp]: "length (sort_stable lt xs) = length xs"
  by (metis mset_sort_stable size_mset)

lemma set_insert_stable: "set (insert_stable lt x ys) = insert x (set ys)"
  by (induction ys) auto

text \<open>
  A comparison that is asymmetric and whose negation is transitive (a strict weak order) sorts: no
  element is less than one before it.
\<close>

lemma sorted_insert_stable:
  assumes asym: "\<And>a b. lt a b \<Longrightarrow> \<not> lt b a"
    and trans: "\<And>a b c. \<not> lt b a \<Longrightarrow> \<not> lt c b \<Longrightarrow> \<not> lt c a"
  shows "sorted_wrt (\<lambda>a b. \<not> lt b a) ys \<Longrightarrow> sorted_wrt (\<lambda>a b. \<not> lt b a) (insert_stable lt x ys)"
proof (induction ys)
  case (Cons y ys)
  show ?case
  proof (cases "lt y x")
    case True
    then show ?thesis using Cons asym by (auto simp: set_insert_stable)
  next
    case False
    then show ?thesis using Cons trans by auto
  qed
qed simp

lemma sorted_sort_stable:
  assumes "\<And>a b. lt a b \<Longrightarrow> \<not> lt b a"
    and "\<And>a b c. \<not> lt b a \<Longrightarrow> \<not> lt c b \<Longrightarrow> \<not> lt c a"
  shows "sorted_wrt (\<lambda>a b. \<not> lt b a) (sort_stable lt xs)"
  unfolding sort_stable_def
  by (induction xs) (simp_all add: sorted_insert_stable [OF assms])

lemma find_Some_mem: "find p xs = Some x \<Longrightarrow> x \<in> set xs \<and> p x"
  by (auto simp: find_Some_iff)

lemma distinct_map_find:
  "distinct (map k xs) \<Longrightarrow> x \<in> set xs \<Longrightarrow> k x = i \<Longrightarrow> find (\<lambda>y. k y = i) xs = Some x"
proof (induction xs)
  case (Cons y ys)
  then show ?case by (cases "k y = i") (auto simp: image_iff)
qed simp

lemma find_None: "find p xs = None \<longleftrightarrow> (\<forall>x\<in>set xs. \<not> p x)"
  by (auto simp: find_None_iff)

lemma set_take_subset_list: "x \<in> set (take n xs) \<Longrightarrow> x \<in> set xs"
  by (meson in_set_takeD)

section \<open>Invariants of transition systems\<close>

text \<open>
  The contract between a step relation and an invariant. It is interpreted on the life of a
  submission, the statements of the outbox, of the whole database and of the ingest control, and the steps of the service.
\<close>

locale invariant_system =
  fixes start :: "'s \<Rightarrow> bool" and step :: "'s \<Rightarrow> 's \<Rightarrow> bool" and good :: "'s \<Rightarrow> bool"
  assumes start_good: "start s \<Longrightarrow> good s"
    and step_good: "step s t \<Longrightarrow> good s \<Longrightarrow> good t"
begin

lemma steps_good: "step\<^sup>*\<^sup>* s t \<Longrightarrow> good s \<Longrightarrow> good t"
  by (induction rule: rtranclp_induct) (auto intro: step_good)

lemma run_good: "start s \<Longrightarrow> step\<^sup>*\<^sup>* s t \<Longrightarrow> good t"
  using steps_good start_good by blast

lemma steps_rel:
  assumes "step\<^sup>*\<^sup>* s t" and "good s" and "\<And>x. R x x" and "\<And>x y z. R x y \<Longrightarrow> R y z \<Longrightarrow> R x z"
    and "\<And>x y. step x y \<Longrightarrow> good x \<Longrightarrow> R x y"
  shows "R s t"
  using assms(1)
proof (induction rule: rtranclp_induct)
  case (step y z)
  then show ?case using assms(4,5) steps_good [OF step(1) assms(2)] by blast
qed (rule assms(3))

end

end
