(* ===== verification/Submission_Model.thy ===== *)
theory Submission_Model
  imports Triage_Prelude
begin

text \<open>
  The data of \<open>internal/model\<close> (\<open>submission.go\<close>, \<open>email.go\<close>, \<open>document.go\<close>, \<open>outbox.go\<close>,
  \<open>audit.go\<close> and the item types of \<open>checklist.go\<close>) and the submission state machine: the table of
  allowed transitions, \<open>TransitionTo\<close>, \<open>MarkAction\<close> and the attach operations. A field \<open>F\<close> of
  the Go struct \<open>Submission\<close> is \<open>s_F\<close>, and so on with one prefix per struct. A pointer field is an
  option. The string-typed enumerations are datatypes with one constructor for a value outside the
  enumeration, since such a value can be read from the database.

  The lemmas show which transitions succeed and that the escalation and completion stamps agree with
  the state along every life of a submission.
\<close>

section \<open>Errors\<close>

text \<open>
  Sentinel errors keep their identity through wrapping (\<open>%w\<close>, tested with \<open>errors.Is\<close>); the
  added message text is dropped.
\<close>

datatype error =
    ErrInvalidTransition
  | ErrSubmissionNotFound
  | ErrDuplicateEmail
  | ErrSpendCapReached
  | ErrOther string

section \<open>States, reason codes and events\<close>

datatype state =
    StateOpen | StateAwaiting | StateComplete | StateEscalated | StateClosed
  | StateOther string

fun state_str :: "state \<Rightarrow> string" where
  "state_str StateOpen = ''open''"
| "state_str StateAwaiting = ''awaiting''"
| "state_str StateComplete = ''complete''"
| "state_str StateEscalated = ''escalated''"
| "state_str StateClosed = ''closed''"
| "state_str (StateOther s) = s"

definition known_state :: "state \<Rightarrow> bool" where
  "known_state st \<longleftrightarrow> st \<in> {StateOpen, StateAwaiting, StateComplete, StateEscalated, StateClosed}"

definition PolicyTypeUnknown :: string where
  "PolicyTypeUnknown = ''unknown''"

datatype reason_code =
    ReasonNotProvided | ReasonLowConfidence | ReasonUnreadable | ReasonFieldShortfall
  | ReasonEncrypted | ReasonMissingAttachment | ReasonPolicyUnknown
  | ReasonOther string

fun reason_str :: "reason_code \<Rightarrow> string" where
  "reason_str ReasonNotProvided = ''not_provided''"
| "reason_str ReasonLowConfidence = ''low_confidence''"
| "reason_str ReasonUnreadable = ''unreadable''"
| "reason_str ReasonFieldShortfall = ''field_shortfall''"
| "reason_str ReasonEncrypted = ''encrypted''"
| "reason_str ReasonMissingAttachment = ''missing_attachment''"
| "reason_str ReasonPolicyUnknown = ''policy_unknown''"
| "reason_str (ReasonOther s) = s"

datatype event_type =
    EventEmailReceived | EventEmailDuplicate | EventDocumentClassified | EventDocumentUnreadable
  | EventDocumentEncrypted | EventFieldExtracted | EventIdentityExtracted | EventChecklistEvaluated
  | EventPolicyUnknown | EventPolicyResolved | EventStateTransitioned | EventNeedsReview
  | EventReplySent | EventReplyFailed | EventReplySuppressed | EventReplyBounced
  | EventDeliveryRetried | EventReplyDisabled | EventMailFileFailed | EventAuthFailed
  | EventLLMCall | EventLLMFailed | EventLLMCapped | EventEscalated | EventClosed
  | EventDigestSent | EventThreadMatched | EventThreadMatchedByContent | EventThreadAmbiguous
  | EventHeld | EventReleased | EventWorkerPanic

section \<open>Records\<close>

record missing_item =
  m_ID :: string
  m_Description :: string
  m_Reason :: string
  m_Code :: reason_code
  m_Confidence :: float64

datatype direction = DirectionInbound | DirectionOutbound

record attachment =
  t_Filename :: string
  t_ContentType :: string
  t_Size :: int
  t_SHA256 :: string
  t_Content :: string

record email =
  e_DeterministicID :: string
  e_SubmissionID :: string
  e_Direction :: direction
  e_MessageID :: string
  e_InReplyTo :: string
  e_References :: "string list"
  e_FromAddress :: string
  e_FromName :: string
  e_ReplyTo :: string
  e_ToAddresses :: "string list"
  e_Subject :: string
  e_BodyText :: string
  e_ReceivedAt :: gotime
  e_ProviderMsgID :: string
  e_Attachments :: "attachment list"

text \<open>A nil map of extracted fields is \<^const>\<open>None\<close>, a non-nil one an association list.\<close>

record document =
  d_ID :: string
  d_SubmissionID :: string
  d_EmailID :: string
  d_Filename :: string
  d_ContentType :: string
  d_SizeBytes :: int
  d_SHA256 :: string
  d_ClassifiedAs :: string
  d_Confidence :: float64
  d_ClassifiedBy :: string
  d_ExtractedText :: string
  d_ExtractedFields :: "(string \<times> any_val) list option"
  d_Unreadable :: bool
  d_Encrypted :: bool
  d_CreatedAt :: gotime

definition ClassifiedByFilename :: string where "ClassifiedByFilename = ''filename''"
definition ClassifiedByKeyword :: string where "ClassifiedByKeyword = ''keyword''"
definition ClassifiedByFilenameKeyword :: string where
  "ClassifiedByFilenameKeyword = ''filename+keyword''"
definition ClassifiedByLLM :: string where "ClassifiedByLLM = ''llm''"
definition ClassifiedByHeuristic :: string where "ClassifiedByHeuristic = ''heuristic''"

lemmas ClassifiedBy_defs = ClassifiedByFilename_def ClassifiedByKeyword_def
  ClassifiedByFilenameKeyword_def ClassifiedByLLM_def ClassifiedByHeuristic_def

record reply =
  r_SubmissionID :: string
  r_ToAddress :: string
  r_Subject :: string
  r_BodyText :: string
  r_InReplyTo :: string
  r_References :: "string list"

datatype outbox_status = OutboxPending | OutboxSent | OutboxFailed | OutboxOther string

record outbox_entry =
  o_ID :: string
  o_SubmissionID :: string
  o_Reply :: reply
  o_Status :: outbox_status
  o_Attempts :: int
  o_LastError :: string
  o_CreatedAt :: gotime
  o_UpdatedAt :: gotime
  o_NotBefore :: gotime

record audit_entry =
  a_ID :: string
  a_SubmissionID :: string
  a_EventType :: event_type
  a_Payload :: "(string \<times> any_val) list"
  a_RequestID :: string
  a_CreatedAt :: gotime

record submission =
  s_ID :: string
  s_PolicyType :: string
  s_State :: state
  s_SubjectLine :: string
  s_FromAddress :: string
  s_FromName :: string
  s_ThreadKey :: string
  s_CreatedAt :: gotime
  s_UpdatedAt :: gotime
  s_LastActionAt :: gotime
  s_LastReplyAt :: gotime
  s_EscalatedAt :: "gotime option"
  s_NeedsReview :: bool
  s_OnHold :: bool
  s_DeliveryFailed :: bool
  s_NamedInsured :: string
  s_EffectiveDate :: "gotime option"
  s_LastEscalatedAt :: "gotime option"
  s_CompletedAt :: "gotime option"
  s_LastReplyHash :: string
  s_PolicyClarifyAsks :: int
  s_Emails :: "email list"
  s_Documents :: "document list"
  s_MissingItems :: "missing_item list"

section \<open>Operations\<close>

text \<open>The table \<open>allowed\<close>; \<^const>\<open>None\<close> for a state that is no key of it.\<close>

fun allowed :: "state \<Rightarrow> state list option" where
  "allowed StateOpen = Some [StateAwaiting, StateComplete, StateEscalated, StateClosed]"
| "allowed StateAwaiting = Some [StateAwaiting, StateComplete, StateEscalated, StateClosed]"
| "allowed StateComplete = Some [StateAwaiting, StateClosed]"
| "allowed StateEscalated = Some [StateAwaiting, StateComplete, StateClosed]"
| "allowed StateClosed = Some [StateAwaiting, StateComplete]"
| "allowed (StateOther _) = None"

definition newSubmission ::
  "string \<Rightarrow> string \<Rightarrow> string \<Rightarrow> string \<Rightarrow> string \<Rightarrow> string \<Rightarrow> gotime \<Rightarrow> submission" where
  "newSubmission sid policyType subject fromAddress fromName threadKey now =
     \<lparr> s_ID = sid, s_PolicyType = policyType, s_State = StateOpen, s_SubjectLine = subject,
       s_FromAddress = fromAddress, s_FromName = fromName, s_ThreadKey = threadKey,
       s_CreatedAt = now, s_UpdatedAt = now, s_LastActionAt = now, s_LastReplyAt = zero_time,
       s_EscalatedAt = None, s_NeedsReview = False, s_OnHold = False, s_DeliveryFailed = False,
       s_NamedInsured = '''', s_EffectiveDate = None, s_LastEscalatedAt = None,
       s_CompletedAt = None, s_LastReplyHash = '''', s_PolicyClarifyAsks = 0,
       s_Emails = [], s_Documents = [], s_MissingItems = [] \<rparr>"

text \<open>The stamps \<open>TransitionTo\<close> sets for the state it enters.\<close>

fun entry_stamps :: "state \<Rightarrow> gotime \<Rightarrow> submission \<Rightarrow> submission" where
  "entry_stamps StateEscalated now s = s\<lparr>s_EscalatedAt := Some now\<rparr>"
| "entry_stamps StateComplete now s = s\<lparr>s_EscalatedAt := None, s_CompletedAt := Some now\<rparr>"
| "entry_stamps StateAwaiting now s = s\<lparr>s_EscalatedAt := None, s_CompletedAt := None\<rparr>"
| "entry_stamps _ now s = s"

definition transitionTo :: "submission \<Rightarrow> state \<Rightarrow> gotime \<Rightarrow> error + submission" where
  "transitionTo s next now =
     (if s_State s = next then Inr (s\<lparr>s_UpdatedAt := now\<rparr>)
      else case allowed (s_State s) of
        None \<Rightarrow> Inl ErrInvalidTransition
      | Some nexts \<Rightarrow>
          if next \<in> set nexts
          then Inr (entry_stamps next now (s\<lparr>s_State := next, s_UpdatedAt := now, s_LastActionAt := now\<rparr>))
          else Inl ErrInvalidTransition)"

definition markAction :: "submission \<Rightarrow> gotime \<Rightarrow> submission" where
  "markAction s now = s\<lparr>s_UpdatedAt := now, s_LastActionAt := now\<rparr>"

definition attachEmail :: "submission \<Rightarrow> email \<Rightarrow> submission" where
  "attachEmail s e = s\<lparr>s_Emails := s_Emails s @ [e]\<rparr>"

definition attachDocument :: "submission \<Rightarrow> document \<Rightarrow> submission" where
  "attachDocument s d = s\<lparr>s_Documents := s_Documents s @ [d]\<rparr>"

lemmas submission_ops [triage_simps] = markAction_def attachEmail_def attachDocument_def

section \<open>Behaviour of the transitions\<close>

lemma transitionTo_Inr_iff:
  "(\<exists>s'. transitionTo s next now = Inr s') \<longleftrightarrow>
     s_State s = next \<or> (\<exists>ns. allowed (s_State s) = Some ns \<and> next \<in> set ns)"
  by (auto simp: transitionTo_def split: option.splits if_splits)

lemma entry_stamps_frame [simp]:
  "s_State (entry_stamps st now s) = s_State s" "s_ID (entry_stamps st now s) = s_ID s"
  "s_UpdatedAt (entry_stamps st now s) = s_UpdatedAt s"
  "s_LastActionAt (entry_stamps st now s) = s_LastActionAt s"
  "s_CreatedAt (entry_stamps st now s) = s_CreatedAt s"
  "s_OnHold (entry_stamps st now s) = s_OnHold s"
  "s_DeliveryFailed (entry_stamps st now s) = s_DeliveryFailed s"
  "s_MissingItems (entry_stamps st now s) = s_MissingItems s"
  "s_Emails (entry_stamps st now s) = s_Emails s"
  "s_Documents (entry_stamps st now s) = s_Documents s"
  "s_PolicyType (entry_stamps st now s) = s_PolicyType s"
  "s_LastReplyHash (entry_stamps st now s) = s_LastReplyHash s"
  "s_LastReplyAt (entry_stamps st now s) = s_LastReplyAt s"
  "s_FromAddress (entry_stamps st now s) = s_FromAddress s"
  "s_NamedInsured (entry_stamps st now s) = s_NamedInsured s"
  "s_NeedsReview (entry_stamps st now s) = s_NeedsReview s"
  "s_PolicyClarifyAsks (entry_stamps st now s) = s_PolicyClarifyAsks s"
  "s_EffectiveDate (entry_stamps st now s) = s_EffectiveDate s"
  "s_LastEscalatedAt (entry_stamps st now s) = s_LastEscalatedAt s"
  by (cases st; simp)+

text \<open>What a successful transition leaves alone.\<close>

lemma transitionTo_frame:
  assumes "transitionTo s next now = Inr s'"
  shows "s_State s' = next" "s_ID s' = s_ID s" "s_UpdatedAt s' = now" "s_CreatedAt s' = s_CreatedAt s"
    "s_OnHold s' = s_OnHold s" "s_DeliveryFailed s' = s_DeliveryFailed s"
    "s_MissingItems s' = s_MissingItems s" "s_Emails s' = s_Emails s"
    "s_Documents s' = s_Documents s" "s_PolicyType s' = s_PolicyType s"
    "s_LastReplyHash s' = s_LastReplyHash s" "s_LastReplyAt s' = s_LastReplyAt s"
    "s_FromAddress s' = s_FromAddress s" "s_NeedsReview s' = s_NeedsReview s"
    "s_NamedInsured s' = s_NamedInsured s"
    "s_PolicyClarifyAsks s' = s_PolicyClarifyAsks s" "s_EffectiveDate s' = s_EffectiveDate s"
  using assms by (auto simp: transitionTo_def split: option.splits if_splits)

lemma transitionTo_lastAction:
  assumes "transitionTo s next now = Inr s'"
  shows "s_LastActionAt s' = (if s_State s = next then s_LastActionAt s else now)"
  using assms by (auto simp: transitionTo_def split: option.splits if_splits)

text \<open>Awaiting, complete: the two states an ingest enters, always enterable from a known state.\<close>

lemma transitionTo_ingestable:
  assumes "known_state (s_State s)" and "next = StateAwaiting \<or> next = StateComplete"
  shows "\<exists>s'. transitionTo s next now = Inr s'"
  using assms unfolding transitionTo_Inr_iff known_state_def by (cases "s_State s") auto

section \<open>Lives of a submission\<close>

text \<open>
  One step of a submission's life: any of the model's operations, at a time not before the last
  update, or an assignment by the service to the fields that are not part of the clock (flags, policy
  type, reply fingerprint, identity). The reachable submissions are those a fresh one becomes.
\<close>

definition same_clock :: "submission \<Rightarrow> submission \<Rightarrow> bool" where
  "same_clock s t \<longleftrightarrow>
     s_State t = s_State s \<and> s_CreatedAt t = s_CreatedAt s \<and> s_UpdatedAt t = s_UpdatedAt s \<and>
     s_LastActionAt t = s_LastActionAt s \<and> s_EscalatedAt t = s_EscalatedAt s \<and>
     s_CompletedAt t = s_CompletedAt s"

inductive life_step :: "submission \<Rightarrow> submission \<Rightarrow> bool" where
  transition: "transitionTo s next now = Inr s' \<Longrightarrow> s_UpdatedAt s \<le> now \<Longrightarrow> life_step s s'"
| action: "s_UpdatedAt s \<le> now \<Longrightarrow> life_step s (markAction s now)"
| email: "life_step s (attachEmail s e)"
| document: "life_step s (attachDocument s d)"
| assignment: "same_clock s t \<Longrightarrow> life_step s t"

inductive born :: "submission \<Rightarrow> bool" where
  fresh: "born (newSubmission i p subj fa fn tk now)"
| step: "born s \<Longrightarrow> life_step s t \<Longrightarrow> born t"

text \<open>The escalation and completion stamps agree with the state, and no stamp is from the future.\<close>

definition stamps_agree :: "submission \<Rightarrow> bool" where
  "stamps_agree s \<longleftrightarrow> (case s_State s of
       StateOpen \<Rightarrow> s_EscalatedAt s = None \<and> s_CompletedAt s = None
     | StateAwaiting \<Rightarrow> s_EscalatedAt s = None \<and> s_CompletedAt s = None
     | StateComplete \<Rightarrow> s_EscalatedAt s = None \<and> s_CompletedAt s \<noteq> None
     | StateEscalated \<Rightarrow> s_EscalatedAt s \<noteq> None \<and> s_CompletedAt s = None
     | StateClosed \<Rightarrow> s_EscalatedAt s = None \<or> s_CompletedAt s = None
     | StateOther _ \<Rightarrow> False)"

definition times_ordered :: "submission \<Rightarrow> bool" where
  "times_ordered s \<longleftrightarrow>
     s_CreatedAt s \<le> s_LastActionAt s \<and> s_LastActionAt s \<le> s_UpdatedAt s \<and>
     (case s_EscalatedAt s of None \<Rightarrow> True | Some t \<Rightarrow> s_CreatedAt s \<le> t \<and> t \<le> s_LastActionAt s) \<and>
     (case s_CompletedAt s of None \<Rightarrow> True | Some t \<Rightarrow> s_CreatedAt s \<le> t \<and> t \<le> s_LastActionAt s)"

lemma allowed_never_other: "allowed st = Some ns \<Longrightarrow> StateOther x \<notin> set ns \<and> StateOpen \<notin> set ns"
  by (cases st) auto

lemma transitionTo_stamps_agree:
  assumes "transitionTo s next now = Inr s'" and "stamps_agree s"
  shows "stamps_agree s'"
proof (cases "s_State s = next")
  case True
  with assms show ?thesis by (auto simp: transitionTo_def stamps_agree_def split: state.splits)
next
  case False
  with assms(1) obtain ns where ns: "allowed (s_State s) = Some ns" "next \<in> set ns"
    and s': "s' = entry_stamps next now (s\<lparr>s_State := next, s_UpdatedAt := now, s_LastActionAt := now\<rparr>)"
    by (auto simp: transitionTo_def split: option.splits if_splits)
  show ?thesis using ns assms(2) unfolding s' stamps_agree_def
    by (cases "s_State s"; cases "next") auto
qed

lemma transitionTo_times_ordered:
  assumes "transitionTo s next now = Inr s'" and "times_ordered s" and "s_UpdatedAt s \<le> now"
  shows "times_ordered s'"
proof (cases "s_State s = next")
  case True
  with assms show ?thesis by (auto simp: transitionTo_def times_ordered_def split: option.splits)
next
  case False
  with assms(1) have s': "s' = entry_stamps next now (s\<lparr>s_State := next, s_UpdatedAt := now, s_LastActionAt := now\<rparr>)"
    by (auto simp: transitionTo_def split: option.splits if_splits)
  show ?thesis using assms(2,3) unfolding s' times_ordered_def
    by (cases "next") (auto split: option.splits)
qed

lemma same_clock_stamps:
  "same_clock s t \<Longrightarrow> stamps_agree t = stamps_agree s \<and> times_ordered t = times_ordered s"
  by (simp add: same_clock_def stamps_agree_def times_ordered_def split: state.split option.split)

lemma same_clock_attach: "same_clock s (attachEmail s e)" "same_clock s (attachDocument s d)"
  by (simp_all add: same_clock_def submission_ops)

lemma life_step_invariant:
  assumes "life_step s t" and "stamps_agree s" and "times_ordered s"
  shows "stamps_agree t \<and> times_ordered t"
  using assms(1)
proof (cases rule: life_step.cases)
  case (transition nxt now)
  then show ?thesis
    using assms(2,3) transitionTo_stamps_agree transitionTo_times_ordered by blast
next
  case (action now)
  then show ?thesis
    using assms(2,3) by (auto simp: submission_ops stamps_agree_def times_ordered_def split: option.splits state.splits)
qed (use assms(2,3) same_clock_stamps same_clock_attach in blast)+

interpretation life: invariant_system "\<lambda>s. \<exists>i p subj fa fn tk now. s = newSubmission i p subj fa fn tk now" life_step
  "\<lambda>s. stamps_agree s \<and> times_ordered s"
proof
  fix s t
  show "\<exists>i p subj fa fn tk now. s = newSubmission i p subj fa fn tk now \<Longrightarrow> stamps_agree s \<and> times_ordered s"
    by (auto simp: newSubmission_def stamps_agree_def times_ordered_def)
  show "life_step s t \<Longrightarrow> stamps_agree s \<and> times_ordered s \<Longrightarrow> stamps_agree t \<and> times_ordered t"
    using life_step_invariant by blast
qed

lemma born_invariant: "born s \<Longrightarrow> stamps_agree s \<and> times_ordered s"
proof (induction rule: born.induct)
  case fresh
  show ?case by (rule life.start_good) blast
next
  case (step s t)
  then show ?case using life.step_good by blast
qed

lemma born_known: "born s \<Longrightarrow> known_state (s_State s)"
  using born_invariant [of s] by (auto simp: stamps_agree_def known_state_def split: state.splits)

section \<open>Properties\<close>

text \<open>
  C26. The clock of a submission: along every history of transitions, actions, attachments and
  assignments whose times do not run backwards, the escalation stamp is set exactly in the escalated
  state and the completion stamp exactly in the complete one (a closed submission keeps at most one of
  them), and every stamp lies between creation and the last action, which lies before the last update.
\<close>

theorem submission_clock_invariant:
  assumes "born s"
  shows "known_state (s_State s) \<and> times_ordered s \<and>
         (s_State s \<noteq> StateClosed \<longrightarrow>
            (s_EscalatedAt s \<noteq> None \<longleftrightarrow> s_State s = StateEscalated) \<and> (s_CompletedAt s \<noteq> None \<longleftrightarrow> s_State s = StateComplete)) \<and>
         \<not> (s_EscalatedAt s \<noteq> None \<and> s_CompletedAt s \<noteq> None)"
  using born_invariant [OF assms] born_known [OF assms]
  by (auto simp: stamps_agree_def known_state_def split: state.splits)

theorem submission_clock_invariant_witness:
  "\<exists>s. transitionTo (newSubmission ''s1'' ''cgl'' ''x'' ''b@x'' ''B'' ''t'' 5) StateAwaiting 9 = Inr s \<and> times_ordered s"
proof -
  let ?n = "newSubmission ''s1'' ''cgl'' ''x'' ''b@x'' ''B'' ''t'' 5"
  obtain s where s: "transitionTo ?n StateAwaiting 9 = Inr s" by (simp add: transitionTo_def newSubmission_def)
  have "life_step ?n s" by (rule life_step.transition [OF s]) (simp add: newSubmission_def)
  then have "born s" using born.step born.fresh by blast
  from submission_clock_invariant [OF this] s show ?thesis by blast
qed

end
