(* ===== verification/Checklist_Model.thy ===== *)
theory Checklist_Model
  imports Submission_Model
begin

text \<open>
  \<open>internal/model/checklist.go\<close>: checklists, the bucketing of a submission's documents per required
  item, the field rules and \<open>EvaluateChecklist\<close>, with \<open>RequiresReview\<close> and \<open>BrokerActionable\<close>,
  which route an unsatisfied item to the agency or to the broker. Parsing and rendering of decimal
  numbers (\<open>strconv\<close>) are the two functions of the record \<open>numfmt\<close>.

  The lemmas compare the single pass over the documents with a declarative reading of each item
  (\<open>item_satisfied\<close>, \<open>item_code\<close>), which refers to the documents only as a set.
\<close>

section \<open>Checklists\<close>

datatype field_type = FieldTypeNumber | FieldTypeString | FieldTypeOther string

record requires_field =
  f_Name :: string
  f_Type :: field_type
  f_MinValue :: "float64 option"
  f_Unit :: string

record match_rules =
  mr_FilenamePatterns :: "string list"
  mr_ContentKeywords :: "string list"

record required_item =
  i_ID :: string
  i_Description :: string
  i_Match :: match_rules
  i_RequiresField :: "requires_field option"

record escalation_policy =
  ep_ThresholdHours :: int
  ep_DigestRecipient :: string

record checklist =
  c_Name :: string
  c_PolicyType :: string
  c_Required :: "required_item list"
  c_Escalation :: escalation_policy

record checklist_options =
  co_ConfidenceFloor :: float64

record numfmt =
  x_ParseFloat :: "string \<Rightarrow> float64 option"
  x_FormatFloat :: "float64 \<Rightarrow> string"

definition reasonNotProvidedText :: string where
  "reasonNotProvidedText = ''document not provided''"
definition reasonLowConfidenceText :: string where
  "reasonLowConfidenceText = ''received but not confidently identified''"
definition reasonUnreadableText :: string where
  "reasonUnreadableText = ''received but no readable text (appears scanned)''"
definition reasonEncryptedText :: string where
  "reasonEncryptedText = ''received but password-protected (cannot open)''"
definition reasonPolicyUnknownText :: string where
  "reasonPolicyUnknownText = ''awaiting clarification from sender''"

definition policyUnknownItem :: missing_item where
  "policyUnknownItem = \<lparr> m_ID = ''policy_unknown'', m_Description = ''Policy type not yet determined'',
     m_Reason = reasonPolicyUnknownText, m_Code = ReasonPolicyUnknown, m_Confidence = Fin 0 \<rparr>"

section \<open>Routing of missing items\<close>

fun requiresReview :: "missing_item list \<Rightarrow> bool" where
  "requiresReview [] = False"
| "requiresReview (m # ms) =
     (if m_Code m = ReasonUnreadable \<or> m_Code m = ReasonLowConfidence then True else requiresReview ms)"

definition broker_code :: "reason_code \<Rightarrow> bool" where
  "broker_code c \<longleftrightarrow> c \<in> {ReasonNotProvided, ReasonFieldShortfall, ReasonEncrypted,
     ReasonMissingAttachment, ReasonPolicyUnknown}"

definition brokerActionable :: "missing_item list \<Rightarrow> missing_item list" where
  "brokerActionable missing = filter (\<lambda>m. broker_code (m_Code m)) missing"

section \<open>Field rules\<close>

definition numericValue :: "numfmt \<Rightarrow> any_val \<Rightarrow> float64 option" where
  "numericValue x v =
     (let fin = (\<lambda>f. if is_nan_or_inf f then None else Some f)
      in case v of
           AFloat64 f \<Rightarrow> fin f
         | AFloat32 f \<Rightarrow> fin f
         | AInt n \<Rightarrow> fin (float_of_int n)
         | AInt64 n \<Rightarrow> fin (float_of_int n)
         | AString s \<Rightarrow> (case x_ParseFloat x (trim_space s) of None \<Rightarrow> None | Some f \<Rightarrow> fin f)
         | _ \<Rightarrow> None)"

definition formatNum :: "numfmt \<Rightarrow> float64 \<Rightarrow> string" where
  "formatNum x f = x_FormatFloat x f"

definition shortfallReason :: "numfmt \<Rightarrow> string \<Rightarrow> float64 \<Rightarrow> float64 \<Rightarrow> string" where
  "shortfallReason x unit have_v need =
     (if unit \<noteq> '''' then ''covers only '' @ formatNum x have_v @ '' '' @ unit @ '', need at least '' @ formatNum x need
      else ''only '' @ formatNum x have_v @ '' provided, need at least '' @ formatNum x need)"

definition unconfirmedReason :: "string \<Rightarrow> string" where
  "unconfirmedReason unit =
     (if unit \<noteq> '''' then ''could not confirm the number of '' @ unit @ '' covered''
      else ''could not confirm the required detail on this document'')"

text \<open>The triple (reason, ok, ran).\<close>

definition evaluateField :: "numfmt \<Rightarrow> requires_field \<Rightarrow> document \<Rightarrow> string \<times> bool \<times> bool" where
  "evaluateField x rf doc =
     (case d_ExtractedFields doc of
        None \<Rightarrow> ('''', True, False)
      | Some fs \<Rightarrow>
          (case map_of fs (f_Name rf) of
             None \<Rightarrow> ('''', True, False)
           | Some raw \<Rightarrow>
               if raw = ANil then (unconfirmedReason (f_Unit rf), False, True)
               else (case f_MinValue rf of
                 Some mn \<Rightarrow>
                   (case numericValue x raw of
                      None \<Rightarrow> (unconfirmedReason (f_Unit rf), False, True)
                    | Some f \<Rightarrow>
                        if flt_less f mn then (shortfallReason x (f_Unit rf) f mn, False, True)
                        else ('''', True, True))
               | None \<Rightarrow>
                   if f_Type rf = FieldTypeNumber \<and> numericValue x raw = None
                   then (unconfirmedReason (f_Unit rf), False, True)
                   else ('''', True, True))))"

section \<open>Evaluation\<close>

record item_docs =
  b_qualifying :: "document list"
  b_unreadable :: bool
  b_encrypted :: bool
  b_lowConfidence :: bool
  b_topConfidence :: float64

definition empty_bucket :: item_docs where
  "empty_bucket = \<lparr> b_qualifying = [], b_unreadable = False, b_encrypted = False,
     b_lowConfidence = False, b_topConfidence = Fin 0 \<rparr>"

definition bucket_add :: "float64 \<Rightarrow> document \<Rightarrow> item_docs \<Rightarrow> item_docs" where
  "bucket_add floor_v d b =
     (if d_Encrypted d then b\<lparr>b_encrypted := True\<rparr>
      else if d_Unreadable d then b\<lparr>b_unreadable := True\<rparr>
      else if flt_less (d_Confidence d) floor_v
        then b\<lparr>b_lowConfidence := True, b_topConfidence := flt_max (b_topConfidence b) (d_Confidence d)\<rparr>
      else b\<lparr>b_qualifying := b_qualifying b @ [d]\<rparr>)"

definition place_doc :: "float64 \<Rightarrow> (string \<rightharpoonup> item_docs) \<Rightarrow> document \<Rightarrow> (string \<rightharpoonup> item_docs)" where
  "place_doc floor_v byItem d =
     (if d_ClassifiedAs d = '''' then byItem
      else let b = (case byItem (d_ClassifiedAs d) of None \<Rightarrow> empty_bucket | Some b \<Rightarrow> b)
           in byItem(d_ClassifiedAs d \<mapsto> bucket_add floor_v d b))"

definition group_docs :: "float64 \<Rightarrow> document list \<Rightarrow> (string \<rightharpoonup> item_docs)" where
  "group_docs floor_v docs = foldl (place_doc floor_v) Map.empty docs"

definition unsatisfiedItem :: "required_item \<Rightarrow> item_docs option \<Rightarrow> missing_item" where
  "unsatisfiedItem item b =
     (let m = \<lparr> m_ID = i_ID item, m_Description = i_Description item, m_Reason = '''',
                m_Code = ReasonOther '''', m_Confidence = Fin 0 \<rparr>
      in case b of
           Some v \<Rightarrow>
             if b_encrypted v then m\<lparr>m_Reason := reasonEncryptedText, m_Code := ReasonEncrypted\<rparr>
             else if b_unreadable v then m\<lparr>m_Reason := reasonUnreadableText, m_Code := ReasonUnreadable\<rparr>
             else if b_lowConfidence v
               then m\<lparr>m_Reason := reasonLowConfidenceText, m_Code := ReasonLowConfidence,
                      m_Confidence := b_topConfidence v\<rparr>
             else m\<lparr>m_Reason := reasonNotProvidedText, m_Code := ReasonNotProvided\<rparr>
         | None \<Rightarrow> m\<lparr>m_Reason := reasonNotProvidedText, m_Code := ReasonNotProvided\<rparr>)"

text \<open>The loop over the qualifying documents: (affirmed, failed, last failure reason).\<close>

fun field_scan :: "numfmt \<Rightarrow> requires_field \<Rightarrow> document list \<Rightarrow> bool \<Rightarrow> string \<Rightarrow> bool \<times> bool \<times> string" where
  "field_scan x rf [] failed reason = (False, failed, reason)"
| "field_scan x rf (d # ds) failed reason =
     (let (r, ok, ran) = evaluateField x rf d
      in if ok \<and> ran then (True, failed, reason)
         else if \<not> ok then field_scan x rf ds True r
         else field_scan x rf ds failed reason)"

definition eval_item :: "numfmt \<Rightarrow> (string \<rightharpoonup> item_docs) \<Rightarrow> required_item \<Rightarrow> missing_item option" where
  "eval_item x byItem item =
     (case byItem (i_ID item) of
        None \<Rightarrow> Some (unsatisfiedItem item None)
      | Some b \<Rightarrow>
          if b_qualifying b = [] then Some (unsatisfiedItem item (Some b))
          else (case i_RequiresField item of
             None \<Rightarrow> None
           | Some rf \<Rightarrow>
               (let (affirmed, failed, failReason) = field_scan x rf (b_qualifying b) False ''''
                in if \<not> affirmed \<and> failed
                   then Some \<lparr> m_ID = i_ID item, m_Description = i_Description item, m_Reason = failReason,
                               m_Code = ReasonFieldShortfall, m_Confidence = Fin 0 \<rparr>
                   else None)))"

definition evaluateChecklist ::
  "numfmt \<Rightarrow> submission \<Rightarrow> checklist \<Rightarrow> checklist_options \<Rightarrow> missing_item list" where
  "evaluateChecklist x s c opts =
     List.map_filter (eval_item x (group_docs (co_ConfidenceFloor opts) (s_Documents s))) (c_Required c)"

section \<open>The declarative reading\<close>

definition doc_for :: "required_item \<Rightarrow> document \<Rightarrow> bool" where
  "doc_for item d \<longleftrightarrow> d_ClassifiedAs d = i_ID item \<and> d_ClassifiedAs d \<noteq> ''''"

definition qualifies :: "float64 \<Rightarrow> required_item \<Rightarrow> document \<Rightarrow> bool" where
  "qualifies floor_v item d \<longleftrightarrow>
     doc_for item d \<and> \<not> d_Encrypted d \<and> \<not> d_Unreadable d \<and> \<not> flt_less (d_Confidence d) floor_v"

definition affirms :: "numfmt \<Rightarrow> requires_field \<Rightarrow> document \<Rightarrow> bool" where
  "affirms x rf d \<longleftrightarrow> (\<exists>r. evaluateField x rf d = (r, True, True))"

definition refutes :: "numfmt \<Rightarrow> requires_field \<Rightarrow> document \<Rightarrow> bool" where
  "refutes x rf d \<longleftrightarrow> (\<exists>r ran. evaluateField x rf d = (r, False, ran))"

text \<open>
  An item is satisfied when some document qualifies for it and, if it has a field rule, some
  qualifying document affirms the rule or none refutes it.
\<close>

definition item_satisfied :: "numfmt \<Rightarrow> float64 \<Rightarrow> document set \<Rightarrow> required_item \<Rightarrow> bool" where
  "item_satisfied x floor_v D item \<longleftrightarrow>
     (\<exists>d\<in>D. qualifies floor_v item d) \<and>
     (case i_RequiresField item of None \<Rightarrow> True
      | Some rf \<Rightarrow> (\<exists>d\<in>D. qualifies floor_v item d \<and> affirms x rf d) \<or>
                   (\<forall>d\<in>D. qualifies floor_v item d \<longrightarrow> \<not> refutes x rf d))"

text \<open>The reason code of an unsatisfied item, most specific cause first.\<close>

definition item_code :: "float64 \<Rightarrow> document set \<Rightarrow> required_item \<Rightarrow> reason_code" where
  "item_code floor_v D item =
     (if \<exists>d\<in>D. qualifies floor_v item d then ReasonFieldShortfall
      else if \<exists>d\<in>D. doc_for item d \<and> d_Encrypted d then ReasonEncrypted
      else if \<exists>d\<in>D. doc_for item d \<and> \<not> d_Encrypted d \<and> d_Unreadable d then ReasonUnreadable
      else if \<exists>d\<in>D. doc_for item d \<and> \<not> d_Encrypted d \<and> \<not> d_Unreadable d then ReasonLowConfidence
      else ReasonNotProvided)"

section \<open>The pass agrees with the declarative reading\<close>

lemma requiresReview_iff:
  "requiresReview ms \<longleftrightarrow> (\<exists>m\<in>set ms. m_Code m = ReasonUnreadable \<or> m_Code m = ReasonLowConfidence)"
  by (induction ms) auto

text \<open>What a bucket holds after the documents \<open>docs\<close> have been placed.\<close>

definition bucket_of :: "float64 \<Rightarrow> string \<Rightarrow> document list \<Rightarrow> item_docs" where
  "bucket_of floor_v k docs = foldl (\<lambda>b d. bucket_add floor_v d b) empty_bucket
     (filter (\<lambda>d. d_ClassifiedAs d = k) docs)"

lemma bucket_of_snoc [simp]:
  "bucket_of floor_v k (docs @ [d]) =
     (if d_ClassifiedAs d = k then bucket_add floor_v d (bucket_of floor_v k docs)
      else bucket_of floor_v k docs)"
  by (simp add: bucket_of_def)

lemma group_docs_lookup:
  "group_docs floor_v docs k =
     (if k \<noteq> '''' \<and> (\<exists>d\<in>set docs. d_ClassifiedAs d = k) then Some (bucket_of floor_v k docs) else None)"
proof (induction docs rule: rev_induct)
  case Nil
  show ?case by (simp add: group_docs_def)
next
  case (snoc d docs)
  have step: "group_docs floor_v (docs @ [d]) = place_doc floor_v (group_docs floor_v docs) d"
    by (simp add: group_docs_def)
  have empty: "bucket_of floor_v k docs = empty_bucket" if "\<forall>d\<in>set docs. d_ClassifiedAs d \<noteq> k"
    using that by (simp add: bucket_of_def filter_False)
  show ?case
    using snoc.IH empty unfolding step place_doc_def by (auto simp: Let_def)
qed

lemma bucket_add_simps [simp]:
  "b_qualifying (bucket_add floor_v d b) =
     b_qualifying b @ (if \<not> d_Encrypted d \<and> \<not> d_Unreadable d \<and> \<not> flt_less (d_Confidence d) floor_v then [d] else [])"
  "b_encrypted (bucket_add floor_v d b) \<longleftrightarrow> b_encrypted b \<or> d_Encrypted d"
  "b_unreadable (bucket_add floor_v d b) \<longleftrightarrow> b_unreadable b \<or> \<not> d_Encrypted d \<and> d_Unreadable d"
  "b_lowConfidence (bucket_add floor_v d b) \<longleftrightarrow> b_lowConfidence b \<or>
     \<not> d_Encrypted d \<and> \<not> d_Unreadable d \<and> flt_less (d_Confidence d) floor_v"
  by (simp_all add: bucket_add_def)

lemma bucket_of_contents:
  assumes "i_ID item \<noteq> ''''"
  shows "b_qualifying (bucket_of floor_v (i_ID item) docs) = filter (qualifies floor_v item) docs"
    and "b_encrypted (bucket_of floor_v (i_ID item) docs) \<longleftrightarrow>
           (\<exists>d\<in>set docs. doc_for item d \<and> d_Encrypted d)"
    and "b_unreadable (bucket_of floor_v (i_ID item) docs) \<longleftrightarrow>
           (\<exists>d\<in>set docs. doc_for item d \<and> \<not> d_Encrypted d \<and> d_Unreadable d)"
    and "b_lowConfidence (bucket_of floor_v (i_ID item) docs) \<longleftrightarrow>
           (\<exists>d\<in>set docs. doc_for item d \<and> \<not> d_Encrypted d \<and> \<not> d_Unreadable d \<and> flt_less (d_Confidence d) floor_v)"
  using assms
  by (induction docs rule: rev_induct)
     (auto simp: bucket_of_def empty_bucket_def qualifies_def doc_for_def simp del: bucket_of_snoc)

lemma field_scan_affirmed:
  "fst (field_scan x rf ds failed r) \<longleftrightarrow> (\<exists>d\<in>set ds. affirms x rf d)"
  by (induction x rf ds failed r rule: field_scan.induct)
     (auto simp: affirms_def split: prod.splits)

lemma field_scan_failed:
  "\<not> fst (field_scan x rf ds failed r) \<Longrightarrow>
     fst (snd (field_scan x rf ds failed r)) \<longleftrightarrow> failed \<or> (\<exists>d\<in>set ds. refutes x rf d)"
  by (induction x rf ds failed r rule: field_scan.induct)
     (auto simp: refutes_def split: prod.splits if_splits)

text \<open>An item none of whose documents was placed, and one with a bucket.\<close>

lemma eval_item_no_bucket:
  assumes "group_docs floor_v docs (i_ID item) = None"
  shows "\<forall>d\<in>set docs. \<not> doc_for item d"
  using assms by (auto simp: group_docs_lookup doc_for_def split: if_splits)

lemma eval_item_bucket:
  assumes "group_docs floor_v docs (i_ID item) = Some b"
  shows "i_ID item \<noteq> ''''" and "b = bucket_of floor_v (i_ID item) docs"
  using assms by (auto simp: group_docs_lookup split: if_splits)

lemma eval_item_satisfied:
  "eval_item x (group_docs floor_v docs) item = None \<longleftrightarrow> item_satisfied x floor_v (set docs) item"
proof (cases "group_docs floor_v docs (i_ID item)")
  case None
  then have "\<forall>d\<in>set docs. \<not> qualifies floor_v item d"
    using eval_item_no_bucket by (auto simp: qualifies_def)
  then show ?thesis using None by (auto simp: eval_item_def item_satisfied_def)
next
  case (Some b)
  note b = eval_item_bucket [OF Some]
  note contents = bucket_of_contents [OF b(1)]
  show ?thesis
  proof (cases "filter (qualifies floor_v item) docs = []")
    case True
    then have "\<forall>d\<in>set docs. \<not> qualifies floor_v item d" by (simp add: filter_empty_conv)
    then show ?thesis using Some True b(2) contents(1) by (auto simp: eval_item_def item_satisfied_def)
  next
    case False
    then have some: "\<exists>d\<in>set docs. qualifies floor_v item d" by (auto simp: filter_empty_conv)
    show ?thesis
    proof (cases "i_RequiresField item")
      case None
      then show ?thesis using Some False b(2) contents(1) some by (simp add: eval_item_def item_satisfied_def)
    next
      case (Some rf)
      let ?r = "field_scan x rf (filter (qualifies floor_v item) docs) False ''''"
      have "eval_item x (group_docs floor_v docs) item = None \<longleftrightarrow> fst ?r \<or> \<not> fst (snd ?r)"
        using \<open>group_docs floor_v docs (i_ID item) = Some b\<close> Some False b(2) contents(1)
        by (simp add: eval_item_def split: prod.splits)
      also have "\<dots> \<longleftrightarrow> (\<exists>d\<in>set docs. qualifies floor_v item d \<and> affirms x rf d) \<or>
          \<not> (\<exists>d\<in>set docs. qualifies floor_v item d \<and> refutes x rf d)"
        using field_scan_affirmed [of x rf "filter (qualifies floor_v item) docs" False "[]"]
          field_scan_failed [of x rf "filter (qualifies floor_v item) docs" False "[]"]
        by auto
      finally show ?thesis using some Some by (auto simp: item_satisfied_def)
    qed
  qed
qed

lemma eval_item_code:
  assumes "eval_item x (group_docs floor_v docs) item = Some m"
  shows "m_ID m = i_ID item \<and> m_Description m = i_Description item \<and>
         m_Code m = item_code floor_v (set docs) item"
proof (cases "group_docs floor_v docs (i_ID item)")
  case None
  then have none: "\<forall>d\<in>set docs. \<not> doc_for item d" by (rule eval_item_no_bucket)
  then have "item_code floor_v (set docs) item = ReasonNotProvided"
    by (simp add: item_code_def qualifies_def)
  then show ?thesis using None assms by (auto simp: eval_item_def unsatisfiedItem_def)
next
  case (Some b)
  note b = eval_item_bucket [OF Some]
  note contents = bucket_of_contents [OF b(1)]
  show ?thesis
  proof (cases "filter (qualifies floor_v item) docs = []")
    case True
    then have no: "\<not> (\<exists>d\<in>set docs. qualifies floor_v item d)" by (simp add: filter_empty_conv)
    have m: "m = unsatisfiedItem item (Some b)"
      using assms Some True b(2) contents(1) by (simp add: eval_item_def)
    have low: "b_lowConfidence b \<longleftrightarrow>
        (\<exists>d\<in>set docs. doc_for item d \<and> \<not> d_Encrypted d \<and> \<not> d_Unreadable d)"
      using no unfolding b(2) contents(4) by (auto simp: qualifies_def)
    have enc: "b_encrypted b \<longleftrightarrow> (\<exists>d\<in>set docs. doc_for item d \<and> d_Encrypted d)"
      and unr: "b_unreadable b \<longleftrightarrow> (\<exists>d\<in>set docs. doc_for item d \<and> \<not> d_Encrypted d \<and> d_Unreadable d)"
      unfolding b(2) contents by (rule refl)+
    show ?thesis
      unfolding m unsatisfiedItem_def item_code_def low [symmetric] enc [symmetric] unr [symmetric]
      using no by (simp add: Let_def)
  next
    case False
    then have "\<exists>d\<in>set docs. qualifies floor_v item d" by (auto simp: filter_empty_conv)
    then show ?thesis
      using assms Some False b(2) contents(1)
      by (auto simp: eval_item_def item_code_def split: option.splits prod.splits if_splits)
  qed
qed

lemma evaluateChecklist_reading:
  "map (\<lambda>m. (m_ID m, m_Description m, m_Code m)) (evaluateChecklist x s c opts) =
   map (\<lambda>i. (i_ID i, i_Description i, item_code (co_ConfidenceFloor opts) (set (s_Documents s)) i))
     (filter (\<lambda>i. \<not> item_satisfied x (co_ConfidenceFloor opts) (set (s_Documents s)) i) (c_Required c))"
proof -
  let ?e = "eval_item x (group_docs (co_ConfidenceFloor opts) (s_Documents s))"
  have "map (\<lambda>m. (m_ID m, m_Description m, m_Code m)) (List.map_filter ?e is) =
        map (\<lambda>i. (i_ID i, i_Description i, item_code (co_ConfidenceFloor opts) (set (s_Documents s)) i))
          (filter (\<lambda>i. \<not> item_satisfied x (co_ConfidenceFloor opts) (set (s_Documents s)) i) is)" for "is"
  proof (induction "is")
    case Nil
    show ?case by (simp add: map_filter_simps)
  next
    case (Cons i "is")
    show ?case
    proof (cases "?e i")
      case None
      then have "item_satisfied x (co_ConfidenceFloor opts) (set (s_Documents s)) i"
        by (simp only: eval_item_satisfied)
      then show ?thesis using None Cons by (simp add: map_filter_simps)
    next
      case (Some m)
      then have "\<not> item_satisfied x (co_ConfidenceFloor opts) (set (s_Documents s)) i"
        using eval_item_satisfied by (metis option.distinct(1))
      then show ?thesis using Some Cons eval_item_code [OF Some] by (simp add: map_filter_simps)
    qed
  qed
  then show ?thesis by (simp add: evaluateChecklist_def)
qed

text \<open>Consequences the clients of the evaluation use.\<close>

lemma evaluateChecklist_codes:
  assumes "m \<in> set (evaluateChecklist x s c opts)"
  shows "\<exists>i\<in>set (c_Required c). m_ID m = i_ID i \<and> m_Description m = i_Description i \<and>
           m_Code m = item_code (co_ConfidenceFloor opts) (set (s_Documents s)) i \<and>
           \<not> item_satisfied x (co_ConfidenceFloor opts) (set (s_Documents s)) i"
proof -
  have "(m_ID m, m_Description m, m_Code m) \<in>
      set (map (\<lambda>m. (m_ID m, m_Description m, m_Code m)) (evaluateChecklist x s c opts))"
    using assms by force
  then show ?thesis unfolding evaluateChecklist_reading by auto
qed

lemma item_code_cases:
  "item_code floor_v D i \<in> {ReasonFieldShortfall, ReasonEncrypted, ReasonUnreadable,
     ReasonLowConfidence, ReasonNotProvided}"
  by (simp add: item_code_def)

text \<open>Every item the evaluation reports goes to exactly one of the agency and the broker.\<close>

lemma evaluated_item_routed:
  assumes "m \<in> set (evaluateChecklist x s c opts)"
  shows "(m_Code m = ReasonUnreadable \<or> m_Code m = ReasonLowConfidence) \<noteq> broker_code (m_Code m)"
proof -
  from evaluateChecklist_codes [OF assms] have "m_Code m \<in> {ReasonFieldShortfall, ReasonEncrypted,
      ReasonUnreadable, ReasonLowConfidence, ReasonNotProvided}"
    using item_code_cases by force
  then show ?thesis by (auto simp: broker_code_def)
qed

section \<open>Properties\<close>

text \<open>
  C24. The evaluation of a checklist reports, in the checklist's order and with its descriptions,
  exactly the required items the submission's documents do not satisfy, each with the reason code of
  its most specific cause: a document counts only when it is readable, unlocked and at or above the
  confidence floor, and a field rule fails only when some qualifying document refutes it and none
  affirms it.
\<close>

theorem checklist_reports_unsatisfied:
  "map (\<lambda>m. (m_ID m, m_Description m, m_Code m)) (evaluateChecklist x s c opts) =
   map (\<lambda>i. (i_ID i, i_Description i, item_code (co_ConfidenceFloor opts) (set (s_Documents s)) i))
     (filter (\<lambda>i. \<not> item_satisfied x (co_ConfidenceFloor opts) (set (s_Documents s)) i) (c_Required c))"
  by (rule evaluateChecklist_reading)

text \<open>
  Each item an evaluation reports is either asked of the broker or flagged for the agency, never
  both and never neither: the report is the disjoint union of \<open>BrokerActionable\<close>'s items and the
  items that make \<open>RequiresReview\<close> true.
\<close>

theorem checklist_items_routed:
  "mset (evaluateChecklist x s c opts) =
     mset (brokerActionable (evaluateChecklist x s c opts)) +
     mset (filter (\<lambda>m. requiresReview [m]) (evaluateChecklist x s c opts))"
proof -
  let ?ms = "evaluateChecklist x s c opts"
  have "filter (\<lambda>m. requiresReview [m]) ?ms = filter (\<lambda>m. \<not> broker_code (m_Code m)) ?ms"
    using evaluated_item_routed [of _ x s c opts] by (intro filter_cong) auto
  then show ?thesis by (simp add: brokerActionable_def)
qed

text \<open>
  More documents never undo a satisfied item: an item without a field rule, and an item whose
  rule a qualifying document affirms, stays satisfied when documents are added.
\<close>

theorem checklist_documents_monotone:
  assumes "item_satisfied x floor_v (set docs) item"
    and "i_RequiresField item = None \<or>
         (\<exists>rf d. i_RequiresField item = Some rf \<and> d \<in> set docs \<and> qualifies floor_v item d \<and> affirms x rf d)"
  shows "eval_item x (group_docs floor_v (docs @ extra)) item = None"
  unfolding eval_item_satisfied using assms by (auto simp: item_satisfied_def)

definition sample_numfmt :: numfmt where
  "sample_numfmt = \<lparr> x_ParseFloat = (\<lambda>s. if s = ''5'' then Some (Fin 5) else None),
     x_FormatFloat = (\<lambda>f. if f = Fin 3 then ''3'' else ''5'') \<rparr>"

definition sample_doc :: "string \<Rightarrow> float64 \<Rightarrow> any_val \<Rightarrow> document" where
  "sample_doc cls conf v = \<lparr> d_ID = ''doc1'', d_SubmissionID = ''s1'', d_EmailID = ''e1'', d_Filename = ''f.pdf'',
     d_ContentType = ''application/pdf'', d_SizeBytes = 10, d_SHA256 = ''h'', d_ClassifiedAs = cls,
     d_Confidence = conf, d_ClassifiedBy = ClassifiedByLLM, d_ExtractedText = ''t'',
     d_ExtractedFields = Some [(''years'', v)], d_Unreadable = False, d_Encrypted = False, d_CreatedAt = 0 \<rparr>"

definition sample_item :: required_item where
  "sample_item = \<lparr> i_ID = ''loss_runs'', i_Description = ''Loss runs'',
     i_Match = \<lparr> mr_FilenamePatterns = [], mr_ContentKeywords = [] \<rparr>,
     i_RequiresField = Some \<lparr> f_Name = ''years'', f_Type = FieldTypeNumber, f_MinValue = Some (Fin 5), f_Unit = ''years'' \<rparr> \<rparr>"

lemma sample_affirms:
  "qualifies (Fin (8/10)) sample_item (sample_doc ''loss_runs'' (Fin (9/10)) (AString ''5''))"
  "affirms sample_numfmt (the (i_RequiresField sample_item)) (sample_doc ''loss_runs'' (Fin (9/10)) (AString ''5''))"
  by (simp_all add: qualifies_def doc_for_def sample_doc_def sample_item_def affirms_def evaluateField_def
      numericValue_def sample_numfmt_def is_nan_or_inf_def trim_space_def trim_by_def is_space_def char_code_def)

theorem checklist_documents_monotone_witness:
  "eval_item sample_numfmt (group_docs (Fin (8/10))
     ([sample_doc ''loss_runs'' (Fin (9/10)) (AString ''5'')] @ [sample_doc ''loss_runs'' (Fin (9/10)) (AInt 3)]))
     sample_item = None"
proof (rule checklist_documents_monotone)
  show "item_satisfied sample_numfmt (Fin (8/10)) (set [sample_doc ''loss_runs'' (Fin (9/10)) (AString ''5'')]) sample_item"
    using sample_affirms by (simp add: item_satisfied_def sample_item_def)
  show "i_RequiresField sample_item = None \<or>
     (\<exists>rf d. i_RequiresField sample_item = Some rf \<and>
        d \<in> set [sample_doc ''loss_runs'' (Fin (9/10)) (AString ''5'')] \<and>
        qualifies (Fin (8/10)) sample_item d \<and> affirms sample_numfmt rf d)"
    using sample_affirms by (simp add: sample_item_def)
qed

end
