(* ===== verification/Reply_Model.thy ===== *)
theory Reply_Model
  imports Checklist_Model
begin

text \<open>
  \<open>internal/model/reply.go\<close>: the three replies a broker can receive, the fingerprint that recognises
  a repeated ask, and the choice of greeting and addressee. The hexadecimal SHA-256 digest is the
  parameter \<open>sha\<close>.

  The lemmas show that a fingerprint determines the kind of reply and the multiset of items with
  their reason codes, that every reply continues the broker's thread and that what the sender wrote
  in the address fields cannot inject line breaks through the greeting.
\<close>

datatype reply_kind = ReplyKindPolicyUnknown | ReplyKindCompletion | ReplyKindMissingItems

fun kind_str :: "reply_kind \<Rightarrow> string" where
  "kind_str ReplyKindPolicyUnknown = ''policy_unknown''"
| "kind_str ReplyKindCompletion = ''completion''"
| "kind_str ReplyKindMissingItems = ''missing_items''"

section \<open>Fingerprint\<close>

definition fingerprint_key :: "missing_item \<Rightarrow> string" where
  "fingerprint_key m = m_ID m @ [US] @ reason_str (m_Code m)"

definition fingerprint_input :: "reply_kind \<Rightarrow> missing_item list \<Rightarrow> string" where
  "fingerprint_input kind items =
     kind_str kind @ concat (map (\<lambda>k. NUL # k) (sort (map fingerprint_key items)))"

definition replyFingerprint :: "(string \<Rightarrow> string) \<Rightarrow> reply_kind \<Rightarrow> missing_item list \<Rightarrow> string" where
  "replyFingerprint sha kind items = sha (fingerprint_input kind items)"

section \<open>Greeting and addressee\<close>

definition sanitizeGreeting :: "string \<Rightarrow> string" where
  "sanitizeGreeting s = filter (\<lambda>c. \<not> is_control c) s"

definition roleLocalParts :: "string list" where
  "roleLocalParts = [''submissions'', ''info'', ''noreply'', ''no-reply'', ''support'']"

definition usableGreeting :: "string \<Rightarrow> bool" where
  "usableGreeting local \<longleftrightarrow>
     (if length local < 3 then False
      else if list_ex is_control local then False
      else if contains_any local ''0123456789'' then False
      else \<not> List.member roleLocalParts (to_lower local))"

definition greetingFromAddress :: "email \<Rightarrow> string" where
  "greetingFromAddress e =
     (case str_index (e_FromAddress e) ''@'' of
        Some n \<Rightarrow>
          if 0 < n \<and> usableGreeting (take n (e_FromAddress e)) then take n (e_FromAddress e) else ''there''
      | None \<Rightarrow> ''there'')"

definition greetingName :: "email \<Rightarrow> string" where
  "greetingName e =
     (if e_FromName e \<noteq> '''' then
        (case str_fields (e_FromName e) of
           p # _ \<Rightarrow> if sanitizeGreeting p \<noteq> '''' then sanitizeGreeting p else greetingFromAddress e
         | [] \<Rightarrow> greetingFromAddress e)
      else greetingFromAddress e)"

definition replyTarget :: "email \<Rightarrow> string" where
  "replyTarget e = (if trim_space (e_ReplyTo e) \<noteq> '''' then trim_space (e_ReplyTo e) else e_FromAddress e)"

section \<open>Replies\<close>

definition newReply :: "submission \<Rightarrow> string \<Rightarrow> email \<Rightarrow> reply" where
  "newReply s body lastInbound =
     \<lparr> r_SubmissionID = s_ID s,
       r_ToAddress = replyTarget lastInbound,
       r_Subject = (if has_prefix (to_lower (e_Subject lastInbound)) ''re:'' then e_Subject lastInbound
                    else ''Re: '' @ e_Subject lastInbound),
       r_BodyText = body,
       r_InReplyTo = e_MessageID lastInbound,
       r_References = e_References lastInbound @ (if e_MessageID lastInbound \<noteq> '''' then [e_MessageID lastInbound] else []) \<rparr>"

definition missingAttachmentLine :: string where
  "missingAttachmentLine = ''We didn't find any attachments on this message. If you sent a download link, could you attach the files directly instead?''"

definition encryptedLine :: "string \<Rightarrow> string" where
  "encryptedLine desc = ''We received '' @ desc @ '' but it's password-protected and we can't open it. Could you resend it unlocked, or send the password separately?''"

fun hasCode :: "missing_item list \<Rightarrow> reason_code \<Rightarrow> bool" where
  "hasCode [] code = False"
| "hasCode (m # ms) code = (if m_Code m = code then True else hasCode ms code)"

definition hi_line :: "email \<Rightarrow> string" where
  "hi_line e = ''Hi '' @ greetingName e @ '','' @ [LF, LF]"

definition absent_line :: "missing_item \<Rightarrow> string" where
  "absent_line m =
     (if m_Code m = ReasonFieldShortfall
      then ''  - '' @ m_Description m @ '' ('' @ m_Reason m @ '')'' @ [LF]
      else ''  - '' @ m_Description m @ [LF])"

definition missing_body :: "missing_item list \<Rightarrow> string" where
  "missing_body missing =
     (let encrypted = filter (\<lambda>m. m_Code m = ReasonEncrypted) missing;
          absent = filter (\<lambda>m. m_Code m \<noteq> ReasonEncrypted) missing
      in (if absent \<noteq> []
          then ''Thanks for the submission. To finish the file we still need:'' @ [LF, LF] @ concat (map absent_line absent)
          else []) @
         concat (map (\<lambda>m. [LF] @ encryptedLine (m_Description m) @ [LF]) encrypted) @
         [LF] @ ''Reply to this thread with the documents and we'll continue.'' @ [LF])"

definition buildMissingItemsReply :: "submission \<Rightarrow> missing_item list \<Rightarrow> email \<Rightarrow> reply" where
  "buildMissingItemsReply s missing lastInbound =
     (if hasCode missing ReasonMissingAttachment
      then newReply s (hi_line lastInbound @ missingAttachmentLine @ [LF]) lastInbound
      else newReply s (hi_line lastInbound @ missing_body missing) lastInbound)"

definition buildPolicyUnknownReply :: "submission \<Rightarrow> email \<Rightarrow> string list \<Rightarrow> reply" where
  "buildPolicyUnknownReply s lastInbound knownTypes =
     (let hint = (if knownTypes \<noteq> [] then ''the line of business (e.g., '' @ str_join knownTypes '', '' @ '')''
                  else ''the line of business'')
      in newReply s (hi_line lastInbound @
           ''Thanks for the submission. We couldn't determine the policy type '' @
           ''from the subject line. Could you reply with '' @ hint @ '' so we can pull the '' @
           ''right checklist?'' @ [LF]) lastInbound)"

text \<open>The dash of the completion note is the UTF-8 encoding of U+2014.\<close>

definition buildCompletionReply :: "submission \<Rightarrow> email \<Rightarrow> reply" where
  "buildCompletionReply s lastInbound =
     newReply s (hi_line lastInbound @
       ''Thanks '' @ EMDASH @
       '' everything on our checklist for this submission is now accounted for. '' @
       ''Nothing further is needed from you at this time.'' @ [LF]) lastInbound"

section \<open>Lemmas\<close>

subsection \<open>The fingerprint determines the ask\<close>

text \<open>Chunks without the separator are determined by their concatenation behind separators.\<close>

lemma sep_chunk_inj:
  assumes "a @ concat (map (\<lambda>k. z # k) ks) = b @ concat (map (\<lambda>k. z # k) ls)"
    and "z \<notin> set a" and "z \<notin> set b"
    and "\<And>k. k \<in> set ks \<Longrightarrow> z \<notin> set k" and "\<And>k. k \<in> set ls \<Longrightarrow> z \<notin> set k"
  shows "a = b \<and> ks = ls"
  using assms
proof (induction ks arbitrary: a b ls)
  case Nil
  then have "a = b @ concat (map (\<lambda>k. z # k) ls)" by simp
  with Nil.prems(2) have "ls = []" by (cases ls) auto
  with Nil show ?case by simp
next
  case (Cons k ks)
  obtain l ls' where ls: "ls = l # ls'"
  proof (cases ls)
    case Nil
    then have "b = a @ z # (k @ concat (map (\<lambda>k. z # k) ks))" using Cons.prems(1) by simp
    then have "z \<in> set b" by simp
    then show ?thesis using Cons.prems(3) by blast
  qed blast
  have eq: "a @ z # (k @ concat (map (\<lambda>k. z # k) ks)) = b @ z # (l @ concat (map (\<lambda>k. z # k) ls'))"
    using Cons.prems(1) ls by simp
  note cut = first_separator_inj [OF eq Cons.prems(2,3)]
  then have ab: "a = b" ..
  from cut have "k @ concat (map (\<lambda>k. z # k) ks) = l @ concat (map (\<lambda>k. z # k) ls')" ..
  then have "k = l \<and> ks = ls'"
    by (rule Cons.IH) (use Cons.prems(4,5) ls in auto)
  then show ?case using ab ls by simp
qed

definition proper_code :: "reason_code \<Rightarrow> bool" where
  "proper_code c \<longleftrightarrow> (case c of ReasonOther _ \<Rightarrow> False | _ \<Rightarrow> True)"

definition clean_item :: "missing_item \<Rightarrow> bool" where
  "clean_item m \<longleftrightarrow> NUL \<notin> set (m_ID m) \<and> US \<notin> set (m_ID m) \<and> proper_code (m_Code m)"

lemma reason_str_inj: "proper_code c \<Longrightarrow> proper_code d \<Longrightarrow> reason_str c = reason_str d \<Longrightarrow> c = d"
  by (cases c; cases d) (simp_all add: proper_code_def)

lemma reason_str_clean: "proper_code c \<Longrightarrow> NUL \<notin> set (reason_str c) \<and> US \<notin> set (reason_str c)"
  by (cases c) (simp_all add: proper_code_def)

lemma kind_str_clean: "NUL \<notin> set (kind_str k)"
  by (cases k) simp_all

lemma kind_str_inj: "kind_str k = kind_str l \<Longrightarrow> k = l"
  by (cases k; cases l) simp_all

lemma fingerprint_key_inj:
  assumes "clean_item m" and "clean_item n" and "fingerprint_key m = fingerprint_key n"
  shows "m_ID m = m_ID n \<and> m_Code m = m_Code n"
proof -
  from assms(3) have "m_ID m @ US # reason_str (m_Code m) = m_ID n @ US # reason_str (m_Code n)"
    by (simp add: fingerprint_key_def)
  then have "m_ID m = m_ID n \<and> reason_str (m_Code m) = reason_str (m_Code n)"
    by (rule first_separator_inj) (use assms(1,2) in \<open>auto simp: clean_item_def\<close>)
  then show ?thesis using assms(1,2) reason_str_inj by (auto simp: clean_item_def)
qed

lemma clean_key: "clean_item m \<Longrightarrow> NUL \<notin> set (fingerprint_key m)"
  using reason_str_clean by (auto simp: clean_item_def fingerprint_key_def)

lemma mset_map_via_inj:
  assumes "mset (map f xs) = mset (map f ys)"
    and "\<And>x y. x \<in> set xs \<union> set ys \<Longrightarrow> y \<in> set xs \<union> set ys \<Longrightarrow> f x = f y \<Longrightarrow> g x = g y"
  shows "mset (map g xs) = mset (map g ys)"
proof -
  define h where "h v = g (SOME x. x \<in> set xs \<union> set ys \<and> f x = v)" for v
  have h: "h (f x) = g x" if "x \<in> set xs \<union> set ys" for x
  proof -
    let ?y = "SOME y. y \<in> set xs \<union> set ys \<and> f y = f x"
    have "?y \<in> set xs \<union> set ys \<and> f ?y = f x" by (rule someI_ex) (use that in blast)
    then show ?thesis using assms(2) that unfolding h_def by metis
  qed
  have xs: "map g xs = map h (map f xs)" and ys: "map g ys = map h (map f ys)" using h by auto
  have "mset (map h (map f xs)) = image_mset h (mset (map f xs))" by (simp only: mset_map)
  also have "\<dots> = image_mset h (mset (map f ys))" by (simp only: assms(1))
  finally show ?thesis unfolding xs ys by (simp only: mset_map)
qed

lemma fingerprint_input_determines:
  assumes "\<forall>m\<in>set ms. clean_item m" and "\<forall>m\<in>set ns. clean_item m"
  shows "fingerprint_input k ms = fingerprint_input l ns \<longleftrightarrow>
         k = l \<and> mset (map (\<lambda>m. (m_ID m, m_Code m)) ms) = mset (map (\<lambda>m. (m_ID m, m_Code m)) ns)"
proof
  assume eq: "fingerprint_input k ms = fingerprint_input l ns"
  have "kind_str k = kind_str l \<and> sort (map fingerprint_key ms) = sort (map fingerprint_key ns)"
  proof (rule sep_chunk_inj)
    show "kind_str k @ concat (map (\<lambda>k. NUL # k) (sort (map fingerprint_key ms))) =
          kind_str l @ concat (map (\<lambda>k. NUL # k) (sort (map fingerprint_key ns)))"
      using eq by (simp add: fingerprint_input_def)
  qed (use kind_str_clean clean_key assms in auto)
  then have k: "k = l" and keys: "mset (map fingerprint_key ms) = mset (map fingerprint_key ns)"
    using kind_str_inj by (auto dest: arg_cong [where f = mset])
  have "mset (map (\<lambda>m. (m_ID m, m_Code m)) ms) = mset (map (\<lambda>m. (m_ID m, m_Code m)) ns)"
    by (rule mset_map_via_inj [OF keys]) (use fingerprint_key_inj assms in blast)
  with k show "k = l \<and> mset (map (\<lambda>m. (m_ID m, m_Code m)) ms) = mset (map (\<lambda>m. (m_ID m, m_Code m)) ns)" ..
next
  assume r: "k = l \<and> mset (map (\<lambda>m. (m_ID m, m_Code m)) ms) = mset (map (\<lambda>m. (m_ID m, m_Code m)) ns)"
  have "mset (map fingerprint_key ms) = mset (map fingerprint_key ns)"
    by (rule mset_map_via_inj [OF conjunct2 [OF r]]) (auto simp: fingerprint_key_def)
  then have "sort (map fingerprint_key ms) = sort (map fingerprint_key ns)"
    by (metis properties_for_sort sorted_sort mset_sort)
  with r show "fingerprint_input k ms = fingerprint_input l ns" by (simp add: fingerprint_input_def)
qed

subsection \<open>Greeting and thread\<close>

definition safe_name :: "string \<Rightarrow> bool" where
  "safe_name n \<longleftrightarrow> n \<noteq> '''' \<and> (\<forall>c\<in>set n. \<not> is_control c)"

lemma safe_there: "safe_name ''there''"
  by (simp add: safe_name_def is_control_def char_code_def)

lemma safe_sanitized: "sanitizeGreeting p \<noteq> '''' \<Longrightarrow> safe_name (sanitizeGreeting p)"
  by (simp add: safe_name_def sanitizeGreeting_def)

lemma safe_usable: "usableGreeting l \<Longrightarrow> safe_name l"
  by (auto simp: safe_name_def usableGreeting_def list_ex_iff split: if_splits)

lemma safe_greetingFromAddress: "safe_name (greetingFromAddress e)"
  using safe_there safe_usable by (auto simp: greetingFromAddress_def split: option.split)

lemma safe_greetingName: "safe_name (greetingName e)"
  using safe_sanitized safe_greetingFromAddress by (simp add: greetingName_def split: list.split)

lemma re_prefix_lower: "to_lower ''Re: '' = ''re: ''"
  by code_simp

lemma newReply_subject: "has_prefix (to_lower (r_Subject (newReply s b e))) ''re:''"
proof -
  have "has_prefix (to_lower (''Re: '' @ e_Subject e)) ''re:''"
    unfolding to_lower_append re_prefix_lower by (simp add: has_prefix_def)
  then show ?thesis by (simp add: newReply_def)
qed

lemma hasCode_iff: "hasCode ms c \<longleftrightarrow> (\<exists>m\<in>set ms. m_Code m = c)"
  by (induction ms) auto

subsection \<open>What the missing-items reply says\<close>

lemma concat_map_contains: "m \<in> set ms \<Longrightarrow> str_contains (concat (map f ms)) (f m)"
  by (metis concat_append concat.simps(2) in_set_conv_decomp_first list.simps(9) map_append
      str_contains_appendI1 str_contains_appendI2 str_contains_refl)

lemma str_contains_trans: "str_contains s t \<Longrightarrow> str_contains t u \<Longrightarrow> str_contains s u"
  unfolding str_contains_iff by (metis append.assoc)

lemma absent_line_names: "str_contains (absent_line m) (''  - '' @ m_Description m)"
  unfolding str_contains_iff absent_line_def by (metis append.assoc append_Nil)

lemma missing_body_absent:
  assumes "m \<in> set ms" and "m_Code m \<noteq> ReasonEncrypted"
  shows "str_contains (missing_body ms) (''  - '' @ m_Description m)"
proof -
  let ?abs = "filter (\<lambda>m. m_Code m \<noteq> ReasonEncrypted) ms"
  have mem: "m \<in> set ?abs" and ne: "?abs \<noteq> []" using assms by (auto simp: filter_empty_conv)
  have "str_contains (concat (map absent_line ?abs)) (''  - '' @ m_Description m)"
    using concat_map_contains [OF mem] absent_line_names by (rule str_contains_trans)
  then show ?thesis
    unfolding missing_body_def Let_def using ne
    by (simp only: if_True not_False_eq_True) (intro str_contains_appendI1 str_contains_appendI2; assumption)
qed

lemma missing_body_encrypted:
  assumes "m \<in> set ms" and "m_Code m = ReasonEncrypted"
  shows "str_contains (missing_body ms) (encryptedLine (m_Description m))"
proof -
  let ?enc = "filter (\<lambda>m. m_Code m = ReasonEncrypted) ms"
  let ?f = "\<lambda>m. [LF] @ encryptedLine (m_Description m) @ [LF]"
  have mem: "m \<in> set ?enc" using assms by simp
  have "str_contains (?f m) (encryptedLine (m_Description m))"
    by (intro str_contains_appendI2 str_contains_appendI1 str_contains_refl)
  then have c: "str_contains (concat (map ?f ?enc)) (encryptedLine (m_Description m))"
    using concat_map_contains [OF mem, of ?f] str_contains_trans by blast
  show ?thesis
    unfolding missing_body_def Let_def
    by (rule str_contains_appendI2, rule str_contains_appendI1, rule c)
qed

section \<open>Properties\<close>

text \<open>
  C38. Two reply fingerprints are equal exactly when the replies are of the same kind and name the
  same multiset of item ids and reason codes, in whatever order, as long as SHA-256 does not collide
  on the two inputs and item ids contain neither of the two separator bytes.
\<close>

theorem fingerprint_identifies_ask:
  assumes "\<forall>m\<in>set ms. clean_item m" and "\<forall>m\<in>set ns. clean_item m"
    and no_collision: "sha (fingerprint_input k ms) = sha (fingerprint_input l ns) \<longrightarrow>
           fingerprint_input k ms = fingerprint_input l ns"
  shows "replyFingerprint sha k ms = replyFingerprint sha l ns \<longleftrightarrow>
         k = l \<and> mset (map (\<lambda>m. (m_ID m, m_Code m)) ms) = mset (map (\<lambda>m. (m_ID m, m_Code m)) ns)"
  using fingerprint_input_determines [OF assms(1,2)] no_collision unfolding replyFingerprint_def by metis

definition sample_missing :: "string \<Rightarrow> reason_code \<Rightarrow> missing_item" where
  "sample_missing i c = \<lparr> m_ID = i, m_Description = ''d'', m_Reason = '''', m_Code = c, m_Confidence = Fin 0 \<rparr>"

theorem fingerprint_identifies_ask_witness:
  "replyFingerprint (\<lambda>s. s) ReplyKindMissingItems [sample_missing ''a'' ReasonNotProvided, sample_missing ''b'' ReasonEncrypted] =
   replyFingerprint (\<lambda>s. s) ReplyKindMissingItems [sample_missing ''b'' ReasonEncrypted, sample_missing ''a'' ReasonNotProvided]"
proof -
  let ?ms = "[sample_missing ''a'' ReasonNotProvided, sample_missing ''b'' ReasonEncrypted]"
  let ?ns = "[sample_missing ''b'' ReasonEncrypted, sample_missing ''a'' ReasonNotProvided]"
  have "\<forall>m\<in>set ?ms. clean_item m" and "\<forall>m\<in>set ?ns. clean_item m"
    by (simp_all add: clean_item_def sample_missing_def proper_code_def)
  from fingerprint_identifies_ask [OF this, of "\<lambda>s. s" ReplyKindMissingItems ReplyKindMissingItems]
  show ?thesis by (simp add: sample_missing_def add_mset_commute)
qed

text \<open>
  Every reply continues the broker's thread: its subject carries exactly one reply prefix more
  than needed to start with one, it answers the inbound message, extends that message's references,
  and the greeting is a non-empty name without control characters, whatever the address fields hold.
\<close>

theorem reply_continues_thread:
  "has_prefix (to_lower (r_Subject (newReply s b e))) ''re:'' \<and>
   r_Subject (newReply s b (e\<lparr>e_Subject := r_Subject (newReply s b e)\<rparr>)) = r_Subject (newReply s b e) \<and>
   r_InReplyTo (newReply s b e) = e_MessageID e \<and>
   take (length (e_References e)) (r_References (newReply s b e)) = e_References e \<and>
   greetingName e \<noteq> '''' \<and> list_all (\<lambda>c. \<not> is_control c) (greetingName e)"
  using newReply_subject [of s b e] safe_greetingName [of e]
  by (auto simp: newReply_def safe_name_def list_all_iff)

text \<open>
  A missing-items reply names every outstanding item it is given: each absent item as a bullet
  with its description, each password-protected item with its own request to resend it unlocked,
  unless the message is answered by the single request to attach the files.
\<close>

theorem missing_reply_names_items:
  assumes "m \<in> set ms" and "\<not> hasCode ms ReasonMissingAttachment"
  shows "str_contains (r_BodyText (buildMissingItemsReply s ms e))
           (if m_Code m = ReasonEncrypted then encryptedLine (m_Description m) else ''  - '' @ m_Description m)"
proof -
  have "r_BodyText (buildMissingItemsReply s ms e) = hi_line e @ missing_body ms"
    using assms(2) by (simp add: buildMissingItemsReply_def newReply_def)
  then show ?thesis
    using missing_body_absent [OF assms(1)] missing_body_encrypted [OF assms(1)]
    by (auto intro: str_contains_appendI2)
qed

definition sample_email :: email where
  "sample_email = \<lparr> e_DeterministicID = ''e1'', e_SubmissionID = ''s1'', e_Direction = DirectionInbound,
     e_MessageID = ''m1'', e_InReplyTo = '''', e_References = [], e_FromAddress = ''diane@acme.com'',
     e_FromName = ''Diane Doe'', e_ReplyTo = '''', e_ToAddresses = [], e_Subject = ''New CGL submission'',
     e_BodyText = ''see files'', e_ReceivedAt = 0, e_ProviderMsgID = '''', e_Attachments = [] \<rparr>"

definition sample_sub :: submission where
  "sample_sub = newSubmission ''s1'' ''cgl'' ''New CGL submission'' ''diane@acme.com'' ''Diane Doe'' ''m1'' 0"

theorem missing_reply_names_items_witness:
  "str_contains (r_BodyText (buildMissingItemsReply sample_sub [sample_missing ''a'' ReasonNotProvided] sample_email)) ''  - d''"
  using missing_reply_names_items [of "sample_missing ''a'' ReasonNotProvided" "[sample_missing ''a'' ReasonNotProvided]" sample_sub sample_email]
  by (simp add: sample_missing_def)

end
