(* ===== verification/Digest_Model.thy ===== *)
theory Digest_Model
  imports Reply_Model
begin

text \<open>
  \<open>internal/model/digest.go\<close> and \<open>FilenameOnlyMatches\<close> of \<open>document.go\<close>: the daily status digest.
  The map from submission id to unverified item names is a function with the empty list for an
  absent key, the set of withheld replies a predicate. The whole minutes, hours and days of
  \<open>humanDuration\<close> are truncating integer divisions.

  The lemmas show that the digest lists each submission exactly once, in the section its flags and
  state give it, most urgent bind date first, and that the bind label counts UTC calendar days.
\<close>

section \<open>Filename-only matches\<close>

definition classified_by_name :: "document list \<Rightarrow> string list" where
  "classified_by_name docs =
     remdups (map d_ClassifiedAs (filter (\<lambda>d. d_ClassifiedAs d \<noteq> '''' \<and> d_ClassifiedBy d = ClassifiedByFilename) docs))"

definition corroborated :: "document list \<Rightarrow> string \<Rightarrow> bool" where
  "corroborated docs k \<longleftrightarrow> list_ex (\<lambda>d. d_ClassifiedAs d \<noteq> '''' \<and> d_ClassifiedAs d = k \<and>
     d_ClassifiedBy d \<in> {ClassifiedByKeyword, ClassifiedByFilenameKeyword, ClassifiedByLLM}) docs"

definition filenameOnlyMatches :: "document list \<Rightarrow> string list" where
  "filenameOnlyMatches docs = sort (filter (\<lambda>k. \<not> corroborated docs k) (classified_by_name docs))"

section \<open>Sections\<close>

datatype digest_section =
    SectionReplyBlocked | SectionDeliveryFailed | SectionEscalated | SectionAwaiting
  | SectionHeld | SectionComplete | SectionUnknown

definition digestSections :: "(digest_section \<times> string) list" where
  "digestSections =
     [(SectionReplyBlocked, ''Reply withheld '' @ EMDASH @ '' REPLIES_ENABLED=false, nothing was sent''),
      (SectionDeliveryFailed, ''Delivery failed '' @ EMDASH @ '' address unreachable, needs a human''),
      (SectionEscalated, ''Escalated '' @ EMDASH @ '' broker went quiet''),
      (SectionAwaiting, ''Awaiting the broker''),
      (SectionHeld, ''On hold '' @ EMDASH @ '' paused by a human''),
      (SectionComplete, ''Complete''),
      (SectionUnknown, ''Unknown policy type'')]"

definition digestGroup :: "submission \<Rightarrow> bool \<Rightarrow> digest_section" where
  "digestGroup s replyBlocked =
     (if replyBlocked then SectionReplyBlocked
      else if s_DeliveryFailed s then SectionDeliveryFailed
      else if s_OnHold s then SectionHeld
      else if s_State s = StateEscalated then SectionEscalated
      else if s_PolicyType s = PolicyTypeUnknown then SectionUnknown
      else if s_State s = StateComplete then SectionComplete
      else SectionAwaiting)"

definition bindLess :: "submission \<Rightarrow> submission \<Rightarrow> bool" where
  "bindLess a b =
     (case (s_EffectiveDate a, s_EffectiveDate b) of
        (Some t, Some u) \<Rightarrow> t < u
      | (Some _, None) \<Rightarrow> True
      | _ \<Rightarrow> False)"

section \<open>Rows\<close>

definition digestSubject :: "submission \<Rightarrow> string" where
  "digestSubject s =
     (if trim_space (s_NamedInsured s) \<noteq> '''' then trim_space (s_NamedInsured s)
      else if trim_space (s_SubjectLine s) = '''' then ''(no subject)''
      else s_SubjectLine s)"

definition digestFrom :: "submission \<Rightarrow> string" where
  "digestFrom s = (if s_FromAddress s = '''' then ''(unknown sender)'' else s_FromAddress s)"

definition bindLabel :: "gotime \<Rightarrow> gotime \<Rightarrow> string" where
  "bindLabel effective now =
     (let days = trunc_div (time_sub (utc_midnight effective) (utc_midnight now)) dur_day
      in if days < 0 then ''bound '' @ int_str (- days) @ ''d ago''
         else if days = 0 then ''binds today''
         else ''binds in '' @ int_str days @ ''d'')"

definition humanDuration :: "duration \<Rightarrow> string" where
  "humanDuration d =
     (if d < dur_minute then ''just now''
      else if d < dur_hour then int_str (trunc_div d dur_minute) @ ''m''
      else if d < dur_day then int_str (trunc_div d dur_hour) @ ''h''
      else int_str (trunc_div d dur_day) @ ''d'')"

definition digest_item_line :: "missing_item \<Rightarrow> string" where
  "digest_item_line m =
     (if m_Reason m \<noteq> '''' then ''      '' @ m_Description m @ '': '' @ m_Reason m @ [LF]
      else ''      '' @ m_Description m @ [LF])"

definition writeDigestRow :: "submission \<Rightarrow> string list \<Rightarrow> gotime \<Rightarrow> string" where
  "writeDigestRow s filenameOnly now =
     (let flag = (if s_NeedsReview s then '' [needs review]'' else '''');
          bind_txt = (case s_EffectiveDate s of None \<Rightarrow> '''' | Some t \<Rightarrow> '' | '' @ bindLabel t now)
      in ''  - '' @ digestSubject s @ '' | from '' @ digestFrom s @
         '' | age '' @ humanDuration (time_sub now (s_CreatedAt s)) @
         '' | idle '' @ humanDuration (time_sub now (s_LastActionAt s)) @ bind_txt @ flag @ [LF] @
         concat (map digest_item_line (s_MissingItems s)) @
         concat (map (\<lambda>n. ''      Matched on filename only, content not verified: '' @ n @ [LF]) filenameOnly))"

section \<open>The digest\<close>

definition digest_byKey :: "(string \<Rightarrow> bool) \<Rightarrow> submission list \<Rightarrow> digest_section \<Rightarrow> submission list" where
  "digest_byKey replyBlocked subs =
     foldl (\<lambda>m s. let k = digestGroup s (replyBlocked (s_ID s)) in m(k := m k @ [s])) (\<lambda>_. []) subs"

definition digest_group_rows :: "(string \<Rightarrow> bool) \<Rightarrow> submission list \<Rightarrow> digest_section \<Rightarrow> submission list" where
  "digest_group_rows replyBlocked subs k = sort_stable bindLess (digest_byKey replyBlocked subs k)"

definition digest_section_text ::
  "(string \<Rightarrow> string list) \<Rightarrow> gotime \<Rightarrow> digest_section \<times> string \<Rightarrow> submission list \<Rightarrow> string" where
  "digest_section_text filenameOnly now sec rows =
     (if rows = [] then ''''
      else [LF] @ snd sec @ '' ('' @ nat_str (length rows) @ ''):'' @ [LF] @
           concat (map (\<lambda>s. writeDigestRow s
             (if fst sec = SectionAwaiting \<or> fst sec = SectionComplete then filenameOnly (s_ID s) else []) now) rows))"

definition buildDigest ::
  "submission list \<Rightarrow> (string \<Rightarrow> string list) \<Rightarrow> (string \<Rightarrow> bool) \<Rightarrow> int \<Rightarrow> gotime \<Rightarrow> string" where
  "buildDigest subs filenameOnly replyBlocked omitted now =
     (if subs = [] then ''''
      else (let review = length (filter s_NeedsReview subs)
            in (if review > 0 then nat_str review @ '' submission(s) need review (marked below).'' @ [LF, LF] else '''') @
               ''Open submissions:'' @ [LF] @
               concat (map (\<lambda>sec. digest_section_text filenameOnly now sec
                 (digest_group_rows replyBlocked subs (fst sec))) digestSections) @
               (if omitted > 0
                then [LF] @ ''(+'' @ int_str omitted @ '' more open submissions omitted; raise DIGEST_MAX_ROWS to include them)'' @ [LF]
                else '''')))"

section \<open>Lemmas\<close>

lemma digest_byKey_filter:
  "digest_byKey replyBlocked subs k = filter (\<lambda>s. digestGroup s (replyBlocked (s_ID s)) = k) subs"
proof (induction subs rule: rev_induct)
  case Nil
  show ?case by (simp add: digest_byKey_def)
next
  case (snoc s subs)
  then show ?case by (auto simp: digest_byKey_def Let_def)
qed

lemma bindLess_asym: "bindLess a b \<Longrightarrow> \<not> bindLess b a"
  by (auto simp: bindLess_def split: option.splits)

lemma bindLess_neg_trans: "\<not> bindLess b a \<Longrightarrow> \<not> bindLess c b \<Longrightarrow> \<not> bindLess c a"
  by (auto simp: bindLess_def split: option.splits)

lemma digest_group_sorted:
  "sorted_wrt (\<lambda>a b. \<not> bindLess b a) (digest_group_rows replyBlocked subs k)"
  unfolding digest_group_rows_def
  by (rule sorted_sort_stable) (fact bindLess_asym bindLess_neg_trans)+

lemma digest_section_listed: "k \<in> set (map fst digestSections)"
  by (cases k) (simp_all add: digestSections_def)

lemma digest_sections_distinct: "distinct (map fst digestSections)"
  by (simp add: digestSections_def)

lemma mset_filter_partition:
  assumes "distinct ks" and "\<And>x. x \<in> set xs \<Longrightarrow> f x \<in> set ks"
  shows "mset (concat (map (\<lambda>k. filter (\<lambda>x. f x = k) xs) ks)) = mset xs"
  using assms
proof (induction ks arbitrary: xs)
  case Nil
  then show ?case by (cases xs) auto
next
  case (Cons k ks)
  let ?rest = "filter (\<lambda>x. f x \<noteq> k) xs"
  have "filter (\<lambda>x. f x = l) xs = filter (\<lambda>x. f x = l) ?rest" if "l \<in> set ks" for l
    using that Cons.prems(1) by (auto intro: filter_cong)
  then have "concat (map (\<lambda>l. filter (\<lambda>x. f x = l) xs) ks) = concat (map (\<lambda>l. filter (\<lambda>x. f x = l) ?rest) ks)"
    by (metis (no_types, lifting) map_cong)
  moreover have "mset (concat (map (\<lambda>l. filter (\<lambda>x. f x = l) ?rest) ks)) = mset ?rest"
    by (rule Cons.IH) (use Cons.prems in auto)
  ultimately show ?case by simp
qed

lemma mset_concat_cong: "(\<And>k. k \<in> set ks \<Longrightarrow> mset (f k) = mset (g k)) \<Longrightarrow> mset (concat (map f ks)) = mset (concat (map g ks))"
  by (induction ks) auto

lemma digest_rows_partition:
  "mset (concat (map (\<lambda>sec. digest_group_rows replyBlocked subs (fst sec)) digestSections)) = mset subs"
proof -
  let ?f = "\<lambda>s. digestGroup s (replyBlocked (s_ID s))"
  have "mset (concat (map (\<lambda>sec. digest_group_rows replyBlocked subs (fst sec)) digestSections)) =
        mset (concat (map (\<lambda>sec. filter (\<lambda>s. ?f s = fst sec) subs) digestSections))"
    by (rule mset_concat_cong) (simp add: digest_group_rows_def digest_byKey_filter)
  also have "\<dots> = mset (concat (map (\<lambda>k. filter (\<lambda>s. ?f s = k) subs) (map fst digestSections)))"
    by (simp add: comp_def)
  also have "\<dots> = mset subs"
    by (rule mset_filter_partition [OF digest_sections_distinct digest_section_listed])
  finally show ?thesis .
qed

lemma trunc_div_multiple: "0 < b \<Longrightarrow> trunc_div (b * k) b = k"
  by (simp add: trunc_div_def Let_def abs_mult mult_less_0_iff)

lemma utc_midnight_days: "utc_midnight t = dur_day * (t div dur_day)"
  by (simp add: utc_midnight_def minus_mod_eq_mult_div)

lemma midnight_distance:
  assumes "\<bar>e - n\<bar> \<le> 2 ^ 62"
  shows "time_sub (utc_midnight e) (utc_midnight n) = dur_day * (e div dur_day - n div dur_day)"
proof -
  have "utc_midnight e - utc_midnight n \<le> 2 ^ 62 + dur_day \<and> - (2 ^ 62 + dur_day) \<le> utc_midnight e - utc_midnight n"
    using assms by (auto simp: utc_midnight_def dur_defs)
  then have "time_sub (utc_midnight e) (utc_midnight n) = utc_midnight e - utc_midnight n"
    by (simp add: time_sub_def dur_defs)
  then show ?thesis by (simp add: utc_midnight_days right_diff_distrib)
qed

lemma bind_days:
  assumes "\<bar>e - n\<bar> \<le> 2 ^ 62"
  shows "trunc_div (time_sub (utc_midnight e) (utc_midnight n)) dur_day = e div dur_day - n div dur_day"
  unfolding midnight_distance [OF assms] by (rule trunc_div_multiple) (simp add: dur_defs)

section \<open>Properties\<close>

text \<open>
  The digest lists every submission it is given exactly once, in the section of its flags and
  state, the rows of a section ordered by bind date with unknown dates last, and it is empty exactly
  when there is nothing to list.
\<close>

theorem digest_lists_each_once:
  "mset (concat (map (\<lambda>sec. digest_group_rows replyBlocked subs (fst sec)) digestSections)) = mset subs \<and>
   list_all (\<lambda>sec. list_all (\<lambda>s. digestGroup s (replyBlocked (s_ID s)) = fst sec)
      (digest_group_rows replyBlocked subs (fst sec))) digestSections \<and>
   list_all (\<lambda>sec. sorted_wrt (\<lambda>a b. \<not> bindLess b a) (digest_group_rows replyBlocked subs (fst sec))) digestSections \<and>
   (buildDigest subs filenameOnly replyBlocked omitted now = '''' \<longleftrightarrow> subs = [])"
proof (intro conjI)
  show "list_all (\<lambda>sec. list_all (\<lambda>s. digestGroup s (replyBlocked (s_ID s)) = fst sec)
      (digest_group_rows replyBlocked subs (fst sec))) digestSections"
    by (simp add: list_all_iff digest_group_rows_def digest_byKey_filter)
  show "buildDigest subs filenameOnly replyBlocked omitted now = '''' \<longleftrightarrow> subs = []"
    by (simp add: buildDigest_def Let_def)
qed (simp_all add: digest_rows_partition digest_group_sorted list_all_iff)

text \<open>
  The bind label counts UTC calendar days: today when both instants fall on the same day,
  otherwise the difference of the day numbers, for instants up to 146 years apart (beyond that the
  duration saturates).
\<close>

theorem bind_label_calendar_days:
  assumes "\<bar>effective - now\<bar> \<le> 2 ^ 62"
  shows "bindLabel effective now =
    (let days = effective div dur_day - now div dur_day
     in if days < 0 then ''bound '' @ int_str (- days) @ ''d ago''
        else if days = 0 then ''binds today'' else ''binds in '' @ int_str days @ ''d'')"
  unfolding bindLabel_def bind_days [OF assms] ..

theorem bind_label_calendar_days_witness:
  "bindLabel (3 * dur_day) (2 * dur_day - 1) = ''binds in 2d''"
proof -
  have "\<bar>3 * dur_day - (2 * dur_day - 1)\<bar> \<le> 2 ^ 62" by (simp add: dur_defs)
  from bind_label_calendar_days [OF this] show ?thesis
    by (simp add: dur_defs int_str_def nat_str.simps) code_simp
qed

text \<open>
  \<open>FilenameOnlyMatches\<close> returns, sorted and without repetition, exactly the item ids some
  document matched by its file name and no document matched by keyword or by the model.
\<close>

theorem filename_only_exact:
  "sorted (filenameOnlyMatches docs) \<and> distinct (filenameOnlyMatches docs) \<and>
   set (filenameOnlyMatches docs) =
     {k. k \<noteq> '''' \<and> (\<exists>d\<in>set docs. d_ClassifiedAs d = k \<and> d_ClassifiedBy d = ClassifiedByFilename) \<and>
         \<not> (\<exists>d\<in>set docs. d_ClassifiedAs d = k \<and>
              d_ClassifiedBy d \<in> {ClassifiedByKeyword, ClassifiedByFilenameKeyword, ClassifiedByLLM})}"
  by (auto simp: filenameOnlyMatches_def classified_by_name_def corroborated_def list_ex_iff)

end
