(* ===== verification/Sql_Table.thy ===== *)
theory Sql_Table
  imports Triage_Prelude
begin

text \<open>
  Tables of the SQLite database as lists of rows in insertion order, with the statement shapes the
  repositories issue: \<open>SELECT ... WHERE\<close>, \<open>UPDATE ... SET ... WHERE\<close>, \<open>DELETE ... WHERE\<close>,
  \<open>ORDER BY ... LIMIT\<close> and \<open>INSERT ... ON CONFLICT(key)\<close>. An ordered query is a stable sort:
  rows with equal sort keys come in insertion order.

  Two interfaces are stated as locales: a table keyed by a primary key that an upsert merges into,
  and a table with a partial unique index, at most one active row per slot.
\<close>

definition update_where :: "('r \<Rightarrow> bool) \<Rightarrow> ('r \<Rightarrow> 'r) \<Rightarrow> 'r list \<Rightarrow> 'r list" where
  "update_where p f tbl = map (\<lambda>r. if p r then f r else r) tbl"

definition delete_where :: "('r \<Rightarrow> bool) \<Rightarrow> 'r list \<Rightarrow> 'r list" where
  "delete_where p tbl = filter (\<lambda>r. \<not> p r) tbl"

definition count_where :: "('r \<Rightarrow> bool) \<Rightarrow> 'r list \<Rightarrow> int" where
  "count_where p tbl = int (length (filter p tbl))"

definition lookup_by :: "('r \<Rightarrow> 'k) \<Rightarrow> 'k \<Rightarrow> 'r list \<Rightarrow> 'r option" where
  "lookup_by key k tbl = find (\<lambda>r. key r = k) tbl"

definition upsert_by :: "('r \<Rightarrow> 'k) \<Rightarrow> ('r \<Rightarrow> 'r \<Rightarrow> 'r) \<Rightarrow> 'r \<Rightarrow> 'r list \<Rightarrow> 'r list" where
  "upsert_by key merge r tbl =
     (if list_ex (\<lambda>o'. key o' = key r) tbl
      then update_where (\<lambda>o'. key o' = key r) (\<lambda>o'. merge o' r) tbl
      else tbl @ [r])"

text \<open>A \<open>LIMIT\<close> argument that is not positive is replaced by the query's default.\<close>

definition order_limit :: "('r \<Rightarrow> 'k::linorder) \<Rightarrow> int \<Rightarrow> 'r list \<Rightarrow> 'r list" where
  "order_limit k n tbl = take (nat n) (sort_key k tbl)"

definition limit_or :: "int \<Rightarrow> int \<Rightarrow> int" where
  "limit_or dflt n = (if n \<le> 0 then dflt else n)"

text \<open>Instants as columns: a zero time is stored as the present or as 0, never as the year 1754.\<close>

definition nanoOrNow :: "gotime \<Rightarrow> gotime \<Rightarrow> int" where
  "nanoOrNow now t = (if is_zero_time t then unix_nano now else unix_nano t)"

definition nanoOrZero :: "gotime \<Rightarrow> int" where
  "nanoOrZero t = (if is_zero_time t then 0 else unix_nano t)"

text \<open>Reading such a column back: 0 is the zero time.\<close>

definition time_of_nano :: "int \<Rightarrow> gotime" where
  "time_of_nano n = (if n \<noteq> 0 then n else zero_time)"

definition nonEmpty :: "string list \<Rightarrow> string list" where
  "nonEmpty xs = filter (\<lambda>v. v \<noteq> []) (map trim_space xs)"

section \<open>Laws\<close>

lemma time_of_nano_nanoOrZero [simp]:
  "in_int64 t \<Longrightarrow> t \<noteq> 0 \<Longrightarrow> time_of_nano (nanoOrZero t) = t"
  by (auto simp: time_of_nano_def nanoOrZero_def is_zero_time_def unix_nano_def not_in_int64_zero_time)

lemma time_of_nano_nanoOrZero_zero [simp]: "time_of_nano (nanoOrZero zero_time) = zero_time"
  by (simp add: time_of_nano_def nanoOrZero_def is_zero_time_def)

lemma nanoOrNow_id [simp]: "in_int64 t \<Longrightarrow> nanoOrNow now t = t"
  by (auto simp: nanoOrNow_def is_zero_time_def unix_nano_def not_in_int64_zero_time)

lemma in_nonEmpty: "v \<in> set (nonEmpty xs) \<longleftrightarrow> v \<noteq> [] \<and> (\<exists>x\<in>set xs. v = trim_space x)"
  by (auto simp: nonEmpty_def)

lemma length_update_where [simp]: "length (update_where p f tbl) = length tbl"
  by (simp add: update_where_def)

lemma map_update_where_key:
  "(\<And>r. r \<in> set tbl \<Longrightarrow> p r \<Longrightarrow> k (f r) = k r) \<Longrightarrow> map k (update_where p f tbl) = map k tbl"
  by (auto simp: update_where_def)

lemma image_update_where:
  assumes "\<And>r. k (f r) = k r"
  shows "k ` set (update_where p f tbl) = k ` set tbl"
proof -
  have "map k (update_where p f tbl) = map k tbl" by (rule map_update_where_key) (simp add: assms)
  then have "set (map k (update_where p f tbl)) = set (map k tbl)" by (simp only:)
  then show ?thesis by simp
qed

lemma list_ex_key: "list_ex (\<lambda>r. k r = x) tbl \<longleftrightarrow> x \<in> k ` set tbl"
  unfolding list_ex_iff image_iff by (simp add: eq_commute)

lemma update_where_append [simp]:
  "update_where p f (xs @ ys) = update_where p f xs @ update_where p f ys"
  by (simp add: update_where_def)

lemma update_where_none: "(\<And>r. r \<in> set tbl \<Longrightarrow> \<not> p r) \<Longrightarrow> update_where p f tbl = tbl"
  by (simp add: update_where_def map_idI)

lemma in_update_where:
  "r \<in> set (update_where p f tbl) \<longleftrightarrow> (\<exists>o'\<in>set tbl. r = (if p o' then f o' else o'))"
  by (auto simp: update_where_def)

lemma in_delete_where [simp]: "r \<in> set (delete_where p tbl) \<longleftrightarrow> r \<in> set tbl \<and> \<not> p r"
  by (simp add: delete_where_def)

lemma lookup_by_Some: "lookup_by k i tbl = Some r \<Longrightarrow> r \<in> set tbl \<and> k r = i"
  unfolding lookup_by_def by (drule find_Some_mem)

lemma lookup_by_None: "lookup_by k i tbl = None \<longleftrightarrow> i \<notin> k ` set tbl"
  by (auto simp: lookup_by_def find_None)

lemma lookup_by_distinct:
  "distinct (map k tbl) \<Longrightarrow> r \<in> set tbl \<Longrightarrow> lookup_by k (k r) tbl = Some r"
  unfolding lookup_by_def by (rule distinct_map_find) auto

lemma lookup_by_update_where:
  assumes "\<And>r. k (f r) = k r"
  shows "lookup_by k i (update_where p f tbl) =
           map_option (\<lambda>r. if p r then f r else r) (lookup_by k i tbl)"
  unfolding lookup_by_def update_where_def by (induction tbl) (auto simp: assms)

lemma find_append:
  "find p (xs @ ys) = (case find p xs of None \<Rightarrow> find p ys | Some x \<Rightarrow> Some x)"
  by (induction xs) auto

lemma lookup_by_append:
  "lookup_by k i (xs @ ys) = (case lookup_by k i xs of None \<Rightarrow> lookup_by k i ys | Some r \<Rightarrow> Some r)"
  unfolding lookup_by_def by (induction xs) auto

lemma lookup_by_singleton [simp]: "lookup_by k i [r] = (if k r = i then Some r else None)"
  by (simp add: lookup_by_def)

lemma in_order_limit: "r \<in> set (order_limit k n tbl) \<Longrightarrow> r \<in> set tbl"
  unfolding order_limit_def using in_set_takeD by fastforce

lemma sorted_order_limit: "sorted (map k (order_limit k n tbl))"
  unfolding order_limit_def by (metis sorted_sort_key sorted_wrt_take take_map)

lemma length_order_limit: "length (order_limit k n tbl) \<le> nat n"
  by (simp add: order_limit_def)

lemma order_limit_all: "length tbl \<le> nat n \<Longrightarrow> set (order_limit k n tbl) = set tbl"
  by (simp add: order_limit_def)

lemma distinct_order_limit: "distinct (map g tbl) \<Longrightarrow> distinct (map g (order_limit k n tbl))"
  unfolding order_limit_def
  by (metis (no_types, lifting) distinct_map distinct_sort distinct_take inj_on_subset set_sort set_take_subset)

text \<open>What a limited query leaves out sorts after everything it returns.\<close>

lemma order_limit_omitted:
  assumes "r \<in> set tbl" and "r \<notin> set (order_limit k n tbl)" and "q \<in> set (order_limit k n tbl)"
  shows "k q \<le> k r"
proof -
  let ?s = "sort_key k tbl"
  have split: "?s = take (nat n) ?s @ drop (nat n) ?s" by simp
  have "r \<in> set (drop (nat n) ?s)"
    using assms(1,2) split unfolding order_limit_def by (metis UnE set_append set_sort)
  moreover have "q \<in> set (take (nat n) ?s)" using assms(3) by (simp add: order_limit_def)
  moreover have "sorted (map k (take (nat n) ?s @ drop (nat n) ?s))" by simp
  ultimately show ?thesis unfolding map_append sorted_append by auto
qed

section \<open>A table keyed by a primary key\<close>

text \<open>The merge of the \<open>DO UPDATE\<close> or \<open>DO NOTHING\<close> clause leaves the key alone.\<close>

locale keyed_upsert =
  fixes key :: "'r \<Rightarrow> 'k" and merge :: "'r \<Rightarrow> 'r \<Rightarrow> 'r"
  assumes key_merge: "key (merge o' r) = key o'"
begin

lemma keys_upsert:
  "map key (upsert_by key merge r tbl) =
     (if key r \<in> key ` set tbl then map key tbl else map key tbl @ [key r])"
proof -
  have "map key (update_where (\<lambda>o'. key o' = key r) (\<lambda>o'. merge o' r) tbl) = map key tbl"
    by (rule map_update_where_key) (simp add: key_merge)
  moreover have "list_ex (\<lambda>o'. key o' = key r) tbl \<longleftrightarrow> key r \<in> key ` set tbl"
    unfolding list_ex_iff image_iff by (simp add: eq_commute)
  ultimately show ?thesis by (simp add: upsert_by_def)
qed

lemma distinct_upsert: "distinct (map key tbl) \<Longrightarrow> distinct (map key (upsert_by key merge r tbl))"
  by (auto simp: keys_upsert)

lemma lookup_upsert:
  "lookup_by key i (upsert_by key merge r tbl) =
     (if i = key r
      then Some (case lookup_by key i tbl of None \<Rightarrow> r | Some o' \<Rightarrow> merge o' r)
      else lookup_by key i tbl)"
proof (cases "lookup_by key (key r) tbl")
  case None
  then have "\<not> list_ex (\<lambda>o'. key o' = key r) tbl" unfolding list_ex_iff lookup_by_None image_iff by (simp add: eq_commute)
  then show ?thesis using None
    by (auto simp: upsert_by_def lookup_by_append split: option.split)
next
  case (Some o')
  then have "list_ex (\<lambda>o'. key o' = key r) tbl" using lookup_by_Some [OF Some] by (auto simp: list_ex_iff)
  then have "lookup_by key i (upsert_by key merge r tbl) =
      map_option (\<lambda>x. if key x = key r then merge x r else x) (lookup_by key i tbl)"
    by (simp add: upsert_by_def lookup_by_update_where key_merge)
  then show ?thesis using Some by (cases "lookup_by key i tbl") (auto dest: lookup_by_Some)
qed

lemma upsert_present: "key r \<in> key ` set (upsert_by key merge r tbl)"
  using keys_upsert [of r tbl] by (metis (no_types, lifting) Un_iff image_set insertI1 list.set(2) set_append)

end

section \<open>A table with a partial unique index\<close>

text \<open>
  At most one active row per slot, and distinct keys. The statements allowed are those that
  activate no row, delete rows, and insert a row with a fresh key into a free slot.
\<close>

locale partial_unique =
  fixes key :: "'r \<Rightarrow> 'k" and active :: "'r \<Rightarrow> bool" and slot :: "'r \<Rightarrow> 's"
begin

definition wf :: "'r list \<Rightarrow> bool" where
  "wf tbl \<longleftrightarrow> distinct (map key tbl) \<and> distinct (map slot (filter active tbl))"

lemma wf_Nil: "wf []"
  by (simp add: wf_def)

lemma active_rows_update:
  assumes "\<And>r. r \<in> set tbl \<Longrightarrow> p r \<Longrightarrow> slot (f r) = slot r"
    and "\<And>r. r \<in> set tbl \<Longrightarrow> p r \<Longrightarrow> active (f r) \<Longrightarrow> active r"
  shows "set (map slot (filter active (update_where p f tbl))) \<subseteq> set (map slot (filter active tbl)) \<and>
         (distinct (map slot (filter active tbl)) \<longrightarrow> distinct (map slot (filter active (update_where p f tbl))))"
  using assms
proof (induction tbl)
  case Nil
  show ?case by (simp add: update_where_def)
next
  case (Cons r tbl)
  have ih: "set (map slot (filter active (update_where p f tbl))) \<subseteq> set (map slot (filter active tbl))"
    "distinct (map slot (filter active tbl)) \<Longrightarrow> distinct (map slot (filter active (update_where p f tbl)))"
    using Cons.IH Cons.prems by auto
  have r: "p r \<Longrightarrow> slot (f r) = slot r" "p r \<Longrightarrow> active (f r) \<Longrightarrow> active r" using Cons.prems by auto
  have cons: "update_where p f (r # tbl) = (if p r then f r else r) # update_where p f tbl"
    by (simp add: update_where_def)
  show ?case unfolding cons using ih r by (cases "p r") (simp_all, blast+)
qed

lemma wf_update:
  assumes "wf tbl" and "\<And>r. r \<in> set tbl \<Longrightarrow> p r \<Longrightarrow> key (f r) = key r"
    and "\<And>r. r \<in> set tbl \<Longrightarrow> p r \<Longrightarrow> slot (f r) = slot r"
    and "\<And>r. r \<in> set tbl \<Longrightarrow> p r \<Longrightarrow> active (f r) \<Longrightarrow> active r"
  shows "wf (update_where p f tbl)"
proof -
  have "map key (update_where p f tbl) = map key tbl" using assms(2) by (rule map_update_where_key)
  moreover have "distinct (map slot (filter active (update_where p f tbl)))"
    using assms(1) active_rows_update [of tbl p f] assms(3,4) by (simp add: wf_def)
  ultimately show ?thesis using assms(1) by (simp add: wf_def)
qed

lemma wf_delete: "wf tbl \<Longrightarrow> wf (delete_where p tbl)"
proof -
  assume wf: "wf tbl"
  have "filter active (filter (\<lambda>r. \<not> p r) tbl) = filter (\<lambda>r. \<not> p r) (filter active tbl)"
    by (simp add: conj_commute)
  then show ?thesis using wf by (simp only: wf_def delete_where_def distinct_map_filter simp_thms)
qed

lemma wf_insert:
  "wf tbl \<Longrightarrow> key r \<notin> key ` set tbl \<Longrightarrow> (active r \<Longrightarrow> slot r \<notin> slot ` set (filter active tbl)) \<Longrightarrow>
   wf (tbl @ [r])"
  by (auto simp: wf_def)

lemma wf_iff:
  "wf tbl \<longleftrightarrow> distinct (map key tbl) \<and>
     (\<forall>r\<in>set tbl. \<forall>q\<in>set tbl. active r \<longrightarrow> active q \<longrightarrow> slot r = slot q \<longrightarrow> key r = key q)"
  unfolding wf_def distinct_map inj_on_def by (auto intro: distinct_filter)

lemma wf_one_active:
  assumes "wf tbl" and "r \<in> set tbl" and "q \<in> set tbl" and "active r" and "active q" and "slot r = slot q"
  shows "r = q"
proof -
  have "inj_on slot (set (filter active tbl))" using assms(1) by (simp add: wf_def distinct_map)
  then show ?thesis using assms(2-6) by (auto dest: inj_onD)
qed

end

end
