(* ===== verification/Outbox_Repo.thy ===== *)
theory Outbox_Repo
  imports Sql_Table Submission_Model
begin

text \<open>
  The outbox of \<open>internal/repository/outbox.go\<close>: one table of queued replies with the partial
  unique index \<open>idx_outbox_one_pending\<close> (at most one pending row per submission). Every statement
  is a function on the table; \<open>now\<close> is the clock reading the statement takes. The encoded reply
  \<open>reply_json\<close> is \<^term>\<open>Some r\<close> for a text that decodes to the reply \<open>r\<close> and \<^const>\<open>None\<close> for
  a text that does not decode. The argument \<open>fk\<close> of an insert says which submission ids exist (the
  foreign key).

  The lemmas show that the index is respected by every statement, how an insert coalesces, that a
  stale \<open>MarkSent\<close> changes nothing, and what \<open>ListPending\<close> returns.
\<close>

section \<open>Rows and statements\<close>

record outbox_row =
  ob_id :: string
  ob_submission_id :: string
  ob_reply_json :: "reply option"
  ob_status :: outbox_status
  ob_attempts :: int
  ob_last_error :: string
  ob_created_at :: int
  ob_updated_at :: int
  ob_not_before :: int

abbreviation is_pending :: "outbox_row \<Rightarrow> bool" where
  "is_pending r \<equiv> ob_status r = OutboxPending"

text \<open>The defaults an entry gets before it is written.\<close>

definition outbox_defaults :: "string \<Rightarrow> gotime \<Rightarrow> outbox_entry \<Rightarrow> outbox_entry" where
  "outbox_defaults uid now e =
     e\<lparr>o_ID := (if o_ID e = '''' then uid else o_ID e),
       o_CreatedAt := (if is_zero_time (o_CreatedAt e) then now else o_CreatedAt e),
       o_UpdatedAt := now,
       o_Status := (if o_Status e = OutboxOther '''' then OutboxPending else o_Status e)\<rparr>"

definition outbox_row_of :: "outbox_entry \<Rightarrow> outbox_row" where
  "outbox_row_of e =
     \<lparr> ob_id = o_ID e, ob_submission_id = o_SubmissionID e, ob_reply_json = Some (o_Reply e),
       ob_status = o_Status e, ob_attempts = o_Attempts e, ob_last_error = o_LastError e,
       ob_created_at = unix_nano (o_CreatedAt e), ob_updated_at = unix_nano (o_UpdatedAt e),
       ob_not_before = nanoOrZero (o_NotBefore e) \<rparr>"

text \<open>
  \<open>INSERT ... ON CONFLICT(submission_id) WHERE status = 'pending' DO UPDATE ... RETURNING id\<close>. The
  conflict target is tried first; then a used primary key or an unknown submission is an error.
\<close>

definition pending_conflict :: "outbox_row \<Rightarrow> outbox_row \<Rightarrow> bool" where
  "pending_conflict r q \<longleftrightarrow> is_pending r \<and> is_pending q \<and> ob_submission_id q = ob_submission_id r"

definition supersede :: "outbox_row \<Rightarrow> outbox_row \<Rightarrow> outbox_row" where
  "supersede r q = q\<lparr>ob_reply_json := ob_reply_json r, ob_not_before := ob_not_before r,
                     ob_updated_at := ob_updated_at r\<rparr>"

definition insertOutboxRow ::
  "(string \<Rightarrow> bool) \<Rightarrow> string \<Rightarrow> gotime \<Rightarrow> outbox_entry option \<Rightarrow> outbox_row list \<Rightarrow>
   error + outbox_entry \<times> outbox_row list" where
  "insertOutboxRow fk uid now ent tbl = (case ent of
       None \<Rightarrow> Inl (ErrOther ''outbox: nil entry'')
     | Some e0 \<Rightarrow>
        (let e = outbox_defaults uid now e0; r = outbox_row_of e
         in case find (pending_conflict r) tbl of
              Some q \<Rightarrow> Inr (e\<lparr>o_ID := ob_id q\<rparr>, update_where (pending_conflict r) (supersede r) tbl)
            | None \<Rightarrow>
                if list_ex (\<lambda>q. ob_id q = ob_id r) tbl then Inl (ErrOther ''outbox: upsert: UNIQUE'')
                else if \<not> fk (ob_submission_id r) then Inl (ErrOther ''outbox: upsert: FOREIGN KEY'')
                else Inr (e, tbl @ [r])))"

text \<open>A row as an entry, with the given decoded reply.\<close>

definition outbox_entry_of :: "outbox_row \<Rightarrow> reply \<Rightarrow> outbox_entry" where
  "outbox_entry_of r rep =
     \<lparr> o_ID = ob_id r, o_SubmissionID = ob_submission_id r, o_Reply = rep, o_Status = ob_status r,
       o_Attempts = ob_attempts r, o_LastError = ob_last_error r,
       o_CreatedAt = ob_created_at r, o_UpdatedAt = ob_updated_at r,
       o_NotBefore = time_of_nano (ob_not_before r) \<rparr>"

definition outbox_due :: "gotime \<Rightarrow> gotime \<Rightarrow> outbox_row \<Rightarrow> bool" where
  "outbox_due now retryCutoff r \<longleftrightarrow>
     is_pending r \<and> ob_not_before r \<le> unix_nano now \<and>
     (ob_attempts r = 0 \<or> ob_updated_at r \<le> unix_nano retryCutoff)"

text \<open>\<open>Update\<close> by primary key; making a second row of a submission pending violates the index.\<close>

definition outbox_update ::
  "gotime \<Rightarrow> string \<Rightarrow> outbox_status \<Rightarrow> int \<Rightarrow> string \<Rightarrow> outbox_row list \<Rightarrow> error + outbox_row list" where
  "outbox_update now i status attempts lastErr tbl =
     (if status = OutboxPending \<and>
         list_ex (\<lambda>r. ob_id r = i \<and>
            list_ex (\<lambda>q. ob_id q \<noteq> i \<and> is_pending q \<and> ob_submission_id q = ob_submission_id r) tbl) tbl
      then Inl (ErrOther ''outbox: update: UNIQUE'')
      else Inr (update_where (\<lambda>r. ob_id r = i)
             (\<lambda>r. r\<lparr>ob_status := status, ob_attempts := attempts, ob_last_error := lastErr,
                    ob_updated_at := unix_nano now\<rparr>) tbl))"

text \<open>Dead-lettering of one undecodable row; a failure of the update is only logged.\<close>

definition dead_letter_row :: "gotime \<Rightarrow> outbox_row \<Rightarrow> outbox_row list \<Rightarrow> outbox_row list" where
  "dead_letter_row now p tbl =
     (case outbox_update now (ob_id p) OutboxFailed (ob_attempts p + 1) ''undecodable reply_json'' tbl of
        Inl _ \<Rightarrow> tbl | Inr tbl' \<Rightarrow> tbl')"

definition due_page :: "gotime \<Rightarrow> gotime \<Rightarrow> int \<Rightarrow> outbox_row list \<Rightarrow> outbox_row list" where
  "due_page now retryCutoff limit tbl =
     order_limit ob_not_before (limit_or 100 limit) (filter (outbox_due now retryCutoff) tbl)"

fun decoded_entries :: "outbox_row list \<Rightarrow> outbox_entry list" where
  "decoded_entries [] = []"
| "decoded_entries (r # rs) = (case ob_reply_json r of
       None \<Rightarrow> decoded_entries rs
     | Some rep \<Rightarrow> outbox_entry_of r rep # decoded_entries rs)"

definition listPending ::
  "gotime \<Rightarrow> gotime \<Rightarrow> gotime \<Rightarrow> int \<Rightarrow> outbox_row list \<Rightarrow> outbox_entry list \<times> outbox_row list" where
  "listPending clock now retryCutoff limit tbl =
     (let rows = due_page now retryCutoff limit tbl
      in (decoded_entries rows,
          fold (dead_letter_row clock) (filter (\<lambda>r. ob_reply_json r = None) rows) tbl))"

definition getPending :: "string \<Rightarrow> outbox_row list \<Rightarrow> error + outbox_entry option" where
  "getPending i tbl = (case find (\<lambda>r. ob_id r = i \<and> is_pending r) tbl of
       None \<Rightarrow> Inr None
     | Some r \<Rightarrow> (case ob_reply_json r of
           None \<Rightarrow> Inl (ErrOther ''outbox: decode pending reply'')
         | Some rep \<Rightarrow> Inr (Some (outbox_entry_of r rep))))"

definition markSent :: "gotime \<Rightarrow> string \<Rightarrow> gotime \<Rightarrow> outbox_row list \<Rightarrow> outbox_row list" where
  "markSent now i version tbl =
     update_where (\<lambda>r. ob_id r = i \<and> is_pending r \<and> ob_updated_at r = unix_nano version)
       (\<lambda>r. r\<lparr>ob_status := OutboxSent, ob_updated_at := unix_nano now\<rparr>) tbl"

definition fail_rows :: "gotime \<Rightarrow> string \<Rightarrow> (outbox_row \<Rightarrow> bool) \<Rightarrow> outbox_row list \<Rightarrow> outbox_row list" where
  "fail_rows now reason p tbl =
     update_where (\<lambda>r. is_pending r \<and> p r)
       (\<lambda>r. r\<lparr>ob_status := OutboxFailed, ob_last_error := reason, ob_updated_at := unix_nano now\<rparr>) tbl"

definition expirePending :: "gotime \<Rightarrow> int \<Rightarrow> outbox_row list \<Rightarrow> int \<times> outbox_row list" where
  "expirePending now olderThan tbl =
     (count_where (\<lambda>r. is_pending r \<and> ob_created_at r < olderThan) tbl,
      fail_rows now ''expired: pending past TTL'' (\<lambda>r. ob_created_at r < olderThan) tbl)"

definition expirePendingForSubmissions ::
  "gotime \<Rightarrow> string list \<Rightarrow> string \<Rightarrow> outbox_row list \<Rightarrow> int \<times> outbox_row list" where
  "expirePendingForSubmissions now ids reason tbl =
     (if ids = [] then (0, tbl)
      else (count_where (\<lambda>r. is_pending r \<and> ob_submission_id r \<in> set ids) tbl,
            fail_rows now reason (\<lambda>r. ob_submission_id r \<in> set ids) tbl))"

definition outbox_prune :: "int \<Rightarrow> outbox_row list \<Rightarrow> int \<times> outbox_row list" where
  "outbox_prune olderThan tbl =
     (let old = (\<lambda>r. (ob_status r = OutboxSent \<or> ob_status r = OutboxFailed) \<and> ob_created_at r < olderThan)
      in (count_where old tbl, delete_where old tbl))"

section \<open>The index is respected\<close>

interpretation ob: partial_unique ob_id is_pending ob_submission_id .

lemma find_conflict_None:
  "find (pending_conflict r) tbl = None \<Longrightarrow> is_pending r \<Longrightarrow>
   ob_submission_id r \<notin> ob_submission_id ` set (filter is_pending tbl)"
  by (auto simp: find_None pending_conflict_def)

lemma insertOutboxRow_wf:
  assumes "ob.wf tbl" and "insertOutboxRow fk uid now (Some e) tbl = Inr (e', tbl')"
  shows "ob.wf tbl'"
proof -
  let ?r = "outbox_row_of (outbox_defaults uid now e)"
  show ?thesis
  proof (cases "find (pending_conflict ?r) tbl")
    case None
    then have "tbl' = tbl @ [?r]" and "ob_id ?r \<notin> ob_id ` set tbl"
      using assms(2) by (auto simp: insertOutboxRow_def Let_def list_ex_iff split: if_splits)
    then show ?thesis using assms(1) find_conflict_None [OF None] by (simp add: ob.wf_insert)
  next
    case (Some q)
    then have "tbl' = update_where (pending_conflict ?r) (supersede ?r) tbl"
      using assms(2) by (simp add: insertOutboxRow_def Let_def)
    then show ?thesis using assms(1) by (auto intro!: ob.wf_update simp: supersede_def)
  qed
qed

lemma outbox_update_wf:
  assumes "ob.wf tbl" and "outbox_update now i status attempts err tbl = Inr tbl'"
  shows "ob.wf tbl'"
proof -
  let ?f = "\<lambda>r. r\<lparr>ob_status := status, ob_attempts := attempts, ob_last_error := err, ob_updated_at := unix_nano now\<rparr>"
  have tbl': "tbl' = update_where (\<lambda>r. ob_id r = i) ?f tbl"
    using assms(2) by (auto simp: outbox_update_def split: if_splits)
  have free: "status = OutboxPending \<Longrightarrow> r \<in> set tbl \<Longrightarrow> ob_id r = i \<Longrightarrow> q \<in> set tbl \<Longrightarrow> is_pending q \<Longrightarrow>
      ob_submission_id q = ob_submission_id r \<Longrightarrow> ob_id q = i" for r q
    using assms(2) by (auto simp: outbox_update_def list_ex_iff split: if_splits)
  have "map ob_id tbl' = map ob_id tbl" unfolding tbl' by (rule map_update_where_key) simp
  then have ids: "distinct (map ob_id tbl')" using assms(1) by (simp add: ob.wf_def)
  have one: "ob_id r = ob_id q" if rq: "r \<in> set tbl'" "q \<in> set tbl'" "is_pending r" "is_pending q"
      "ob_submission_id r = ob_submission_id q" for r q
  proof -
    obtain r0 where r0: "r0 \<in> set tbl" "r = (if ob_id r0 = i then ?f r0 else r0)"
      using rq(1) unfolding tbl' in_update_where by blast
    obtain q0 where q0: "q0 \<in> set tbl" "q = (if ob_id q0 = i then ?f q0 else q0)"
      using rq(2) unfolding tbl' in_update_where by blast
    have slots: "ob_submission_id r0 = ob_submission_id q0" using rq(5) r0(2) q0(2) by (simp split: if_splits)
    consider "ob_id r0 = i" "ob_id q0 = i" | "ob_id r0 = i" "ob_id q0 \<noteq> i" | "ob_id r0 \<noteq> i" "ob_id q0 = i"
      | "ob_id r0 \<noteq> i" "ob_id q0 \<noteq> i" by blast
    then show ?thesis
    proof cases
      case 1
      then show ?thesis using r0(2) q0(2) by simp
    next
      case 2
      then show ?thesis using rq(3,4) r0 q0 slots free [of r0 q0] by simp
    next
      case 3
      then show ?thesis using rq(3,4) r0 q0 slots free [of q0 r0] by simp
    next
      case 4
      then show ?thesis using rq(3-5) r0 q0 ob.wf_one_active [OF assms(1), of r0 q0] by simp
    qed
  qed
  show ?thesis unfolding ob.wf_iff by (intro conjI ballI impI ids one)
qed

lemma markSent_wf: "ob.wf tbl \<Longrightarrow> ob.wf (markSent now i v tbl)"
  unfolding markSent_def by (auto intro!: ob.wf_update)

lemma fail_rows_wf: "ob.wf tbl \<Longrightarrow> ob.wf (fail_rows now reason p tbl)"
  unfolding fail_rows_def by (auto intro!: ob.wf_update)

lemma dead_letter_row_wf: "ob.wf tbl \<Longrightarrow> ob.wf (dead_letter_row now p tbl)"
  unfolding dead_letter_row_def by (auto intro: outbox_update_wf split: sum.split)

lemma fold_dead_letter_wf: "ob.wf tbl \<Longrightarrow> ob.wf (fold (dead_letter_row now) ps tbl)"
  by (induction ps arbitrary: tbl) (simp_all add: dead_letter_row_wf)

lemma expirePendingForSubmissions_wf: "ob.wf tbl \<Longrightarrow> ob.wf (snd (expirePendingForSubmissions now ids reason tbl))"
  by (simp add: expirePendingForSubmissions_def fail_rows_wf)

lemmas outbox_wf_rules = insertOutboxRow_wf outbox_update_wf markSent_wf fail_rows_wf
  fold_dead_letter_wf expirePendingForSubmissions_wf

text \<open>Every statement of the repository as a step between tables.\<close>

inductive outbox_step :: "outbox_row list \<Rightarrow> outbox_row list \<Rightarrow> bool" where
  enqueue: "insertOutboxRow fk uid now (Some e) tbl = Inr (e', tbl') \<Longrightarrow> outbox_step tbl tbl'"
| update: "outbox_update now i status attempts err tbl = Inr tbl' \<Longrightarrow> outbox_step tbl tbl'"
| list: "outbox_step tbl (snd (listPending clock now cutoff limit tbl))"
| sent: "outbox_step tbl (markSent now i version tbl)"
| expire: "outbox_step tbl (snd (expirePending now older tbl))"
| expire_for: "outbox_step tbl (snd (expirePendingForSubmissions now ids reason tbl))"
| prune: "outbox_step tbl (snd (outbox_prune older tbl))"

inductive outbox_reachable :: "outbox_row list \<Rightarrow> bool" where
  empty: "outbox_reachable []"
| step: "outbox_reachable tbl \<Longrightarrow> outbox_step tbl tbl' \<Longrightarrow> outbox_reachable tbl'"

lemma outbox_step_wf: "outbox_step tbl tbl' \<Longrightarrow> ob.wf tbl \<Longrightarrow> ob.wf tbl'"
proof (induction rule: outbox_step.induct)
  case (list tbl clock now cutoff limit)
  then show ?case by (simp add: listPending_def Let_def fold_dead_letter_wf)
next
  case (prune tbl older)
  then show ?case by (simp add: outbox_prune_def Let_def ob.wf_delete)
next
  case (expire tbl now older)
  then show ?case by (simp add: expirePending_def fail_rows_wf)
qed (auto intro: outbox_wf_rules)

interpretation ob_inv: invariant_system "\<lambda>tbl. tbl = []" outbox_step ob.wf
  by unfold_locales (auto intro: outbox_step_wf ob.wf_Nil)

lemma outbox_reachable_wf: "outbox_reachable tbl \<Longrightarrow> ob.wf tbl"
  by (induction rule: outbox_reachable.induct) (auto intro: ob_inv.start_good ob_inv.step_good)

section \<open>The contract of the queue\<close>

text \<open>
  What the delivery code relies on: a slot per submission holding at most one pending reply with its
  row id and version; queueing a reply replaces what the slot holds and keeps the row; marking a row
  sent frees the slot only when the version is the one that was read.
\<close>

locale coalescing_queue =
  fixes ok :: "'t \<Rightarrow> bool"
    and pend :: "'t \<Rightarrow> 's \<Rightarrow> ('i \<times> 'v \<times> 'c) option"
    and enq :: "'s \<Rightarrow> 'v \<Rightarrow> 'c \<Rightarrow> 't \<Rightarrow> 't \<Rightarrow> bool"
    and mark :: "'i \<Rightarrow> 'v \<Rightarrow> 't \<Rightarrow> 't"
    and version :: "'v \<Rightarrow> bool"
  assumes enq_ok: "ok t \<Longrightarrow> enq s v c t t' \<Longrightarrow> ok t'"
    and mark_ok: "ok t \<Longrightarrow> ok (mark i v t)"
    and enq_keeps_row: "ok t \<Longrightarrow> enq s v c t t' \<Longrightarrow> pend t s = Some (i, w, d) \<Longrightarrow> pend t' s = Some (i, v, c)"
    and enq_pending: "ok t \<Longrightarrow> enq s v c t t' \<Longrightarrow> \<exists>i. pend t' s = Some (i, v, c)"
    and enq_other: "ok t \<Longrightarrow> enq s v c t t' \<Longrightarrow> s' \<noteq> s \<Longrightarrow> pend t' s' = pend t s'"
    and pend_version: "ok t \<Longrightarrow> pend t s = Some (i, v, c) \<Longrightarrow> version v"
    and mark_stale: "ok t \<Longrightarrow> pend t s = Some (i, v, c) \<Longrightarrow> version w \<Longrightarrow> j \<noteq> i \<or> w \<noteq> v \<Longrightarrow>
                     pend (mark j w t) s = pend t s"
    and mark_current: "ok t \<Longrightarrow> pend t s = Some (i, v, c) \<Longrightarrow> pend (mark i v t) s = None"
    and mark_free: "ok t \<Longrightarrow> pend t s = None \<Longrightarrow> pend (mark i v t) s = None"
begin

lemma no_lost_reply:
  assumes "ok t" and "pend t s = Some (i, v, c)" and "enq s v' c' t t'" and "v' \<noteq> v"
  shows "pend (mark i v t') s = Some (i, v', c')"
  using mark_stale [OF enq_ok [OF assms(1,3)] enq_keeps_row [OF assms(1,3,2)] pend_version [OF assms(1,2)]]
    enq_keeps_row [OF assms(1,3,2)] assms(4) by auto

lemma ok_marks: "ok t \<Longrightarrow> ok (fold (\<lambda>(j, w). mark j w) ms t)"
  by (induction ms arbitrary: t) (auto intro: mark_ok)

text \<open>Marks of other versions, in any number and order, leave the newest reply pending.\<close>

lemma stale_marks:
  "ok t \<Longrightarrow> pend t s = Some (i, v, c) \<Longrightarrow> (i, v) \<notin> set ms \<Longrightarrow> \<forall>(j, w)\<in>set ms. version w \<Longrightarrow>
   pend (fold (\<lambda>(j, w). mark j w) ms t) s = Some (i, v, c)"
proof (induction ms arbitrary: t)
  case (Cons m ms)
  obtain j w where m: "m = (j, w)" by (cases m)
  have "pend (mark j w t) s = Some (i, v, c)"
    using mark_stale [OF Cons.prems(1,2), of w j] Cons.prems(2-4) m by auto
  then show ?case using Cons m mark_ok by auto
qed simp

end

definition pending_of :: "outbox_row list \<Rightarrow> string \<Rightarrow> (string \<times> int \<times> reply option) option" where
  "pending_of tbl sid = map_option (\<lambda>r. (ob_id r, ob_updated_at r, ob_reply_json r))
     (find (\<lambda>r. is_pending r \<and> ob_submission_id r = sid) tbl)"

text \<open>A reply queued for a submission by \<open>insertOutboxRow\<close>, at the version the statement stamps.\<close>

definition queues :: "string \<Rightarrow> int \<Rightarrow> reply option \<Rightarrow> outbox_row list \<Rightarrow> outbox_row list \<Rightarrow> bool" where
  "queues sid v c tbl tbl' \<longleftrightarrow>
     (\<exists>fk uid now e e'. insertOutboxRow fk uid now (Some e) tbl = Inr (e', tbl') \<and> o_SubmissionID e = sid \<and>
        o_Status (outbox_defaults uid now e) = OutboxPending \<and> v = unix_nano now \<and> c = Some (o_Reply e))"

lemma pending_of_Some:
  assumes "ob.wf tbl"
  shows "pending_of tbl sid = Some (i, v, c) \<longleftrightarrow>
    (\<exists>r\<in>set tbl. is_pending r \<and> ob_submission_id r = sid \<and> ob_id r = i \<and> ob_updated_at r = v \<and> ob_reply_json r = c)"
proof
  assume "pending_of tbl sid = Some (i, v, c)"
  then show "\<exists>r\<in>set tbl. is_pending r \<and> ob_submission_id r = sid \<and> ob_id r = i \<and> ob_updated_at r = v \<and> ob_reply_json r = c"
    unfolding pending_of_def by (auto dest: find_Some_mem)
next
  assume "\<exists>r\<in>set tbl. is_pending r \<and> ob_submission_id r = sid \<and> ob_id r = i \<and> ob_updated_at r = v \<and> ob_reply_json r = c"
  then obtain r where r: "r \<in> set tbl" "is_pending r" "ob_submission_id r = sid"
    "ob_id r = i" "ob_updated_at r = v" "ob_reply_json r = c" by blast
  obtain q where q: "find (\<lambda>r. is_pending r \<and> ob_submission_id r = sid) tbl = Some q"
    using r(1-3) by (cases "find (\<lambda>r. is_pending r \<and> ob_submission_id r = sid) tbl") (auto simp: find_None)
  then have "q = r" using ob.wf_one_active [OF assms, of q r] r find_Some_mem [OF q] by simp
  then show "pending_of tbl sid = Some (i, v, c)" using q r by (simp add: pending_of_def)
qed

lemma pending_of_None:
  "pending_of tbl sid = None \<longleftrightarrow> (\<forall>r\<in>set tbl. \<not> (is_pending r \<and> ob_submission_id r = sid))"
  by (simp add: pending_of_def find_None)

text \<open>The table an accepted insert leaves.\<close>

lemma insertOutboxRow_cases:
  assumes "insertOutboxRow fk uid now (Some e) tbl = Inr (e', tbl')"
  obtains (coalesced) q where "find (pending_conflict (outbox_row_of (outbox_defaults uid now e))) tbl = Some q"
      "e' = (outbox_defaults uid now e)\<lparr>o_ID := ob_id q\<rparr>"
      "tbl' = update_where (pending_conflict (outbox_row_of (outbox_defaults uid now e)))
                (supersede (outbox_row_of (outbox_defaults uid now e))) tbl"
  | (fresh) "find (pending_conflict (outbox_row_of (outbox_defaults uid now e))) tbl = None"
      "e' = outbox_defaults uid now e" "tbl' = tbl @ [outbox_row_of (outbox_defaults uid now e)]"
      "\<forall>q\<in>set tbl. ob_id q \<noteq> ob_id (outbox_row_of (outbox_defaults uid now e))"
      "fk (ob_submission_id (outbox_row_of (outbox_defaults uid now e)))"
  using assms by (auto simp: insertOutboxRow_def Let_def list_ex_iff split: option.splits if_splits)

lemma outbox_row_of_defaults [simp]:
  "ob_submission_id (outbox_row_of (outbox_defaults uid now e)) = o_SubmissionID e"
  "ob_reply_json (outbox_row_of (outbox_defaults uid now e)) = Some (o_Reply e)"
  "ob_updated_at (outbox_row_of (outbox_defaults uid now e)) = unix_nano now"
  "ob_status (outbox_row_of (outbox_defaults uid now e)) = o_Status (outbox_defaults uid now e)"
  "ob_not_before (outbox_row_of (outbox_defaults uid now e)) = nanoOrZero (o_NotBefore e)"
  by (simp_all add: outbox_row_of_def outbox_defaults_def)

lemma supersede_frame [simp]:
  "ob_id (supersede r q) = ob_id q" "ob_submission_id (supersede r q) = ob_submission_id q"
  "ob_status (supersede r q) = ob_status q" "ob_attempts (supersede r q) = ob_attempts q"
  "ob_created_at (supersede r q) = ob_created_at q" "ob_last_error (supersede r q) = ob_last_error q"
  "ob_reply_json (supersede r q) = ob_reply_json r" "ob_updated_at (supersede r q) = ob_updated_at r"
  "ob_not_before (supersede r q) = ob_not_before r"
  by (simp_all add: supersede_def)

lemma queues_wf: "ob.wf tbl \<Longrightarrow> queues sid v c tbl tbl' \<Longrightarrow> ob.wf tbl'"
  unfolding queues_def using insertOutboxRow_wf by blast

lemma queues_keeps_row:
  assumes "ob.wf tbl" and "queues sid v c tbl tbl'" and "pending_of tbl sid = Some (i, w, d)"
  shows "pending_of tbl' sid = Some (i, v, c)"
proof -
  obtain fk uid now e e' where ins: "insertOutboxRow fk uid now (Some e) tbl = Inr (e', tbl')"
    and e: "o_SubmissionID e = sid" "o_Status (outbox_defaults uid now e) = OutboxPending" "v = unix_nano now" "c = Some (o_Reply e)"
    using assms(2) unfolding queues_def by blast
  obtain r where r: "r \<in> set tbl" "is_pending r" "ob_submission_id r = sid" "ob_id r = i"
    using assms(3) unfolding pending_of_Some [OF assms(1)] by blast
  let ?n = "outbox_row_of (outbox_defaults uid now e)"
  have conflict: "pending_conflict ?n r" using r e by (simp add: pending_conflict_def)
  from ins show ?thesis
  proof (cases rule: insertOutboxRow_cases)
    case (coalesced q)
    then have "supersede ?n r \<in> set tbl'" using conflict r(1) by (auto simp: in_update_where)
    then show ?thesis unfolding pending_of_Some [OF queues_wf [OF assms(1,2)]]
      by (rule bexI [rotated]) (use r e in simp)
  next
    case fresh
    then show ?thesis using conflict r(1) by (auto simp: find_None)
  qed
qed

lemma queues_pending:
  assumes "ob.wf tbl" and "queues sid v c tbl tbl'"
  shows "\<exists>i. pending_of tbl' sid = Some (i, v, c)"
proof (cases "pending_of tbl sid")
  case (Some p)
  obtain i w d where "p = (i, w, d)" by (cases p)
  then show ?thesis using queues_keeps_row [OF assms] Some by blast
next
  case None
  obtain fk uid now e e' where ins: "insertOutboxRow fk uid now (Some e) tbl = Inr (e', tbl')"
    and e: "o_SubmissionID e = sid" "o_Status (outbox_defaults uid now e) = OutboxPending" "v = unix_nano now" "c = Some (o_Reply e)"
    using assms(2) unfolding queues_def by blast
  from ins show ?thesis
  proof (cases rule: insertOutboxRow_cases)
    case (coalesced q)
    then show ?thesis using None e find_Some_mem [OF coalesced(1)] by (auto simp: pending_of_None pending_conflict_def)
  next
    case fresh
    have "outbox_row_of (outbox_defaults uid now e) \<in> set tbl'" using fresh(3) by simp
    then show ?thesis unfolding pending_of_Some [OF queues_wf [OF assms]]
      by (intro exI, rule bexI [rotated]) (use e in simp)
  qed
qed

lemma find_update_where_other:
  assumes "\<And>r. p r \<Longrightarrow> \<not> g r \<and> \<not> g (f r)"
  shows "find g (update_where p f tbl) = find g tbl"
  using assms by (induction tbl) (auto simp: update_where_def)

lemma queues_other:
  assumes "ob.wf tbl" and "queues sid v c tbl tbl'" and "sid' \<noteq> sid"
  shows "pending_of tbl' sid' = pending_of tbl sid'"
proof -
  obtain fk uid now e e' where ins: "insertOutboxRow fk uid now (Some e) tbl = Inr (e', tbl')"
    and e: "o_SubmissionID e = sid" using assms(2) unfolding queues_def by blast
  from ins show ?thesis
  proof (cases rule: insertOutboxRow_cases)
    case (coalesced q)
    then show ?thesis
      using e assms(3) by (auto simp: pending_of_def pending_conflict_def intro!: arg_cong [where f = "map_option _"] find_update_where_other)
  next
    case fresh
    then show ?thesis using e assms(3) by (simp add: pending_of_def find_append split: option.split)
  qed
qed

lemma markSent_stale:
  assumes "ob.wf tbl" and "pending_of tbl sid = Some (i, v, c)" and "j \<noteq> i \<or> w \<noteq> v" and "in_int64 w"
  shows "pending_of (markSent now j w tbl) sid = pending_of tbl sid"
proof -
  obtain r where r: "r \<in> set tbl" "is_pending r" "ob_submission_id r = sid" "ob_id r = i" "ob_updated_at r = v" "ob_reply_json r = c"
    using assms(2) unfolding pending_of_Some [OF assms(1)] by blast
  then have "r \<in> set (markSent now j w tbl)"
    using assms(3,4) by (auto simp: markSent_def in_update_where unix_nano_def)
  then show ?thesis unfolding assms(2) pending_of_Some [OF markSent_wf [OF assms(1)]] using r by blast
qed

lemma markSent_current:
  assumes "ob.wf tbl" and "pending_of tbl sid = Some (i, v, c)" and "in_int64 v"
  shows "pending_of (markSent now i v tbl) sid = None"
proof -
  obtain r where r: "r \<in> set tbl" "is_pending r" "ob_submission_id r = sid" "ob_id r = i" "ob_updated_at r = v"
    using assms(2) unfolding pending_of_Some [OF assms(1)] by blast
  have "\<not> (is_pending q \<and> ob_submission_id q = sid)" if mem: "q \<in> set (markSent now i v tbl)" for q
  proof -
    obtain q0 where q0: "q0 \<in> set tbl"
      "q = (if ob_id q0 = i \<and> is_pending q0 \<and> ob_updated_at q0 = unix_nano v
            then q0\<lparr>ob_status := OutboxSent, ob_updated_at := unix_nano now\<rparr> else q0)"
      using mem unfolding markSent_def in_update_where by blast
    show ?thesis
    proof (cases "is_pending q0 \<and> ob_submission_id q0 = sid")
      case True
      then have "q0 = r" using ob.wf_one_active [OF assms(1) r(1) q0(1)] r by simp
      then have "q = r\<lparr>ob_status := OutboxSent, ob_updated_at := unix_nano now\<rparr>"
        using q0(2) r assms(3) by (simp add: unix_nano_def)
      then show ?thesis by simp
    next
      case False
      then show ?thesis using q0(2) by (simp split: if_splits)
    qed
  qed
  then show ?thesis by (simp add: pending_of_None)
qed

lemma markSent_free: "pending_of tbl sid = None \<Longrightarrow> pending_of (markSent now i v tbl) sid = None"
  by (auto simp: pending_of_None markSent_def in_update_where split: if_splits)

definition outbox_ok :: "outbox_row list \<Rightarrow> bool" where
  "outbox_ok tbl \<longleftrightarrow> ob.wf tbl \<and> (\<forall>r\<in>set tbl. in_int64 (ob_updated_at r))"

lemma in_int64_unix_nano [simp]: "in_int64 (unix_nano t)"
  by (simp add: unix_nano_def)

lemma queues_ok: "outbox_ok tbl \<Longrightarrow> queues sid v c tbl tbl' \<Longrightarrow> outbox_ok tbl'"
proof -
  assume ok: "outbox_ok tbl" and q: "queues sid v c tbl tbl'"
  obtain fk uid now e e' where ins: "insertOutboxRow fk uid now (Some e) tbl = Inr (e', tbl')"
    using q unfolding queues_def by blast
  from ins have "\<forall>r\<in>set tbl'. in_int64 (ob_updated_at r)"
    by (cases rule: insertOutboxRow_cases) (use ok in \<open>auto simp: outbox_ok_def in_update_where\<close>)
  then show "outbox_ok tbl'" using queues_wf [OF _ q] ok by (simp add: outbox_ok_def)
qed

lemma markSent_ok: "outbox_ok tbl \<Longrightarrow> outbox_ok (markSent now i v tbl)"
  using markSent_wf [of tbl now i v] by (auto simp: outbox_ok_def markSent_def in_update_where)

interpretation oq: coalescing_queue outbox_ok pending_of queues "\<lambda>i v. markSent now i v" in_int64 for now
proof (unfold_locales, goal_cases)
  case 1 then show ?case by (rule queues_ok)
next
  case 2 then show ?case by (rule markSent_ok)
next
  case (3 t s v c t' i w d)
  then show ?case using queues_keeps_row [of t s v c t'] by (simp add: outbox_ok_def)
next
  case 4 then show ?case unfolding outbox_ok_def by (blast intro: queues_pending)
next
  case 5 then show ?case unfolding outbox_ok_def by (blast intro: queues_other)
next
  case 6 then show ?case by (auto simp: outbox_ok_def pending_of_Some)
next
  case 7 then show ?case unfolding outbox_ok_def by (blast intro: markSent_stale)
next
  case (8 t s i v c)
  then have "in_int64 v" by (auto simp: outbox_ok_def pending_of_Some)
  with 8 show ?case unfolding outbox_ok_def by (blast intro: markSent_current)
next
  case 9 then show ?case using markSent_free by simp
qed

section \<open>The due page\<close>

definition dead_lettered :: "gotime \<Rightarrow> outbox_row \<Rightarrow> outbox_row" where
  "dead_lettered now r = r\<lparr>ob_status := OutboxFailed, ob_attempts := ob_attempts r + 1,
     ob_last_error := ''undecodable reply_json'', ob_updated_at := unix_nano now\<rparr>"

lemma dead_letter_row_eq:
  assumes "distinct (map ob_id tbl)" and "p \<in> set tbl"
  shows "dead_letter_row now p tbl = map (\<lambda>r. if r = p then dead_lettered now r else r) tbl"
proof -
  have "ob_id r = ob_id p \<longleftrightarrow> r = p" if "r \<in> set tbl" for r
    using assms that by (auto simp: distinct_map inj_on_def)
  then show ?thesis
    by (auto simp: dead_letter_row_def outbox_update_def update_where_def dead_lettered_def)
qed

lemma fold_dead_letter_eq:
  assumes "distinct (map ob_id tbl)" and "distinct ps" and "set ps \<subseteq> set tbl"
    and "\<And>p. p \<in> set ps \<Longrightarrow> is_pending p"
  shows "fold (dead_letter_row now) ps tbl = map (\<lambda>r. if r \<in> set ps then dead_lettered now r else r) tbl"
  using assms
proof (induction ps arbitrary: tbl)
  case (Cons p ps)
  let ?t = "map (\<lambda>r. if r = p then dead_lettered now r else r) tbl"
  have t: "dead_letter_row now p tbl = ?t" using Cons.prems by (simp add: dead_letter_row_eq)
  have keys: "map ob_id ?t = map ob_id tbl" by (simp add: dead_lettered_def)
  have d: "distinct (map ob_id ?t)" unfolding keys by (rule Cons.prems(1))
  have sub: "set ps \<subseteq> set ?t" using Cons.prems(2,3) by (auto simp: image_iff)
  have "fold (dead_letter_row now) ps ?t = map (\<lambda>r. if r \<in> set ps then dead_lettered now r else r) ?t"
    by (rule Cons.IH [OF d _ sub]) (use Cons.prems in auto)
  moreover have "dead_lettered now p \<notin> set ps" using Cons.prems(4) by (force simp: dead_lettered_def)
  ultimately show ?case using Cons.prems(2) by (auto simp: t)
qed simp

lemma in_decoded_entries:
  "e \<in> set (decoded_entries rs) \<longleftrightarrow> (\<exists>r\<in>set rs. \<exists>rep. ob_reply_json r = Some rep \<and> e = outbox_entry_of r rep)"
  by (induction rs) (auto split: option.splits)

lemma in_due_page: "r \<in> set (due_page now cutoff limit tbl) \<Longrightarrow> r \<in> set tbl \<and> outbox_due now cutoff r"
  unfolding due_page_def by (auto dest: in_order_limit)

lemma distinct_due_page:
  assumes "distinct (map ob_id tbl)"
  shows "distinct (map ob_id (due_page now cutoff limit tbl))"
  unfolding due_page_def using assms by (intro distinct_order_limit) (simp add: distinct_map_filter)

lemma listPending_table:
  assumes "distinct (map ob_id tbl)"
  shows "snd (listPending clock now cutoff limit tbl) =
     map (\<lambda>r. if r \<in> set (due_page now cutoff limit tbl) \<and> ob_reply_json r = None
              then dead_lettered clock r else r) tbl"
proof -
  let ?ps = "filter (\<lambda>r. ob_reply_json r = None) (due_page now cutoff limit tbl)"
  have "distinct ?ps" using distinct_due_page [OF assms] by (simp add: distinct_map)
  moreover have "set ?ps \<subseteq> set tbl" by (auto dest: in_due_page)
  moreover have "\<And>p. p \<in> set ?ps \<Longrightarrow> is_pending p" by (auto dest: in_due_page simp: outbox_due_def)
  ultimately have "fold (dead_letter_row clock) ?ps tbl = map (\<lambda>r. if r \<in> set ?ps then dead_lettered clock r else r) tbl"
    by (rule fold_dead_letter_eq [OF assms])
  then show ?thesis by (simp add: listPending_def Let_def)
qed

section \<open>Properties\<close>

definition sample_entry :: "string \<Rightarrow> string \<Rightarrow> string \<Rightarrow> outbox_entry" where
  "sample_entry i sid body =
     \<lparr> o_ID = i, o_SubmissionID = sid,
       o_Reply = \<lparr>r_SubmissionID = sid, r_ToAddress = ''b@x'', r_Subject = ''Re: s'', r_BodyText = body,
                   r_InReplyTo = '''', r_References = []\<rparr>,
       o_Status = OutboxPending, o_Attempts = 0, o_LastError = '''',
       o_CreatedAt = 5, o_UpdatedAt = 5, o_NotBefore = 7 \<rparr>"

definition sample_outbox :: "outbox_row list" where
  "sample_outbox = [outbox_row_of (outbox_defaults ''u'' 5 (sample_entry ''a'' ''s1'' ''one''))]"

lemma sample_outbox_insert:
  "insertOutboxRow (\<lambda>_. True) ''u'' 5 (Some (sample_entry ''a'' ''s1'' ''one'')) [] =
     Inr (outbox_defaults ''u'' 5 (sample_entry ''a'' ''s1'' ''one''), sample_outbox)"
  by (simp add: insertOutboxRow_def sample_outbox_def Let_def)

lemma sample_outbox_reachable: "outbox_reachable sample_outbox"
  by (rule outbox_reachable.step [OF outbox_reachable.empty outbox_step.enqueue [OF sample_outbox_insert]])

lemma sample_outbox_eq:
  "sample_outbox = [\<lparr>ob_id = ''a'', ob_submission_id = ''s1'',
      ob_reply_json = Some (o_Reply (sample_entry ''a'' ''s1'' ''one'')), ob_status = OutboxPending,
      ob_attempts = 0, ob_last_error = '''', ob_created_at = 5, ob_updated_at = 5, ob_not_before = 7\<rparr>]"
  by (simp add: sample_outbox_def outbox_row_of_def outbox_defaults_def sample_entry_def nanoOrZero_def
      unix_nano_def is_zero_time_def zero_time_def in_int64_def)

text \<open>
  Whatever sequence of statements the repository has run, the outbox holds at most one pending
  reply per submission.
\<close>

theorem outbox_one_pending:
  assumes "outbox_reachable tbl" and "r \<in> set tbl" and "q \<in> set tbl"
    and "ob_status r = OutboxPending" and "ob_status q = OutboxPending"
    and "ob_submission_id r = ob_submission_id q"
  shows "r = q"
  using ob.wf_one_active [OF outbox_reachable_wf [OF assms(1)]] assms(2-6) by blast

theorem outbox_one_pending_witness:
  "outbox_reachable sample_outbox \<and> hd sample_outbox = sample_outbox ! 0"
  using outbox_one_pending [OF sample_outbox_reachable, of "hd sample_outbox" "sample_outbox ! 0"]
    sample_outbox_reachable by (simp add: sample_outbox_eq)

text \<open>
  A reply queued while another is pending for the same submission supersedes it in place: the
  call succeeds and returns the surviving row's id, the row keeps its id, attempt count, creation time
  and last error and takes the new content, schedule and version, and every other row is untouched.
\<close>

theorem enqueue_coalesces:
  assumes "outbox_reachable tbl" and "q \<in> set tbl" and "ob_status q = OutboxPending"
    and "ob_submission_id q = o_SubmissionID e" and "o_Status e = OutboxPending"
  shows "\<exists>e'. insertOutboxRow fk uid now (Some e) tbl = Inr (e',
           map (\<lambda>r. if r = q then r\<lparr>ob_reply_json := Some (o_Reply e), ob_not_before := nanoOrZero (o_NotBefore e),
                                  ob_updated_at := unix_nano now\<rparr> else r) tbl)
         \<and> o_ID e' = ob_id q"
proof -
  let ?n = "outbox_row_of (outbox_defaults uid now e)"
  have wf: "ob.wf tbl" by (rule outbox_reachable_wf [OF assms(1)])
  have n: "is_pending ?n" using assms(5) by simp (simp add: outbox_defaults_def)
  have iff: "pending_conflict ?n r \<longleftrightarrow> r = q" if "r \<in> set tbl" for r
    using ob.wf_one_active [OF wf that assms(2)] assms(3,4) n that by (auto simp: pending_conflict_def)
  then have "find (pending_conflict ?n) tbl = Some q"
    using assms(2) by (cases "find (pending_conflict ?n) tbl") (auto simp: find_None dest: find_Some_mem)
  moreover have "update_where (pending_conflict ?n) (supersede ?n) tbl =
      map (\<lambda>r. if r = q then r\<lparr>ob_reply_json := Some (o_Reply e), ob_not_before := nanoOrZero (o_NotBefore e),
                            ob_updated_at := unix_nano now\<rparr> else r) tbl"
    using iff by (simp add: update_where_def supersede_def)
  ultimately show ?thesis by (simp add: insertOutboxRow_def Let_def)
qed

theorem enqueue_coalesces_witness:
  "\<exists>e'. insertOutboxRow (\<lambda>_. True) ''v'' 9 (Some (sample_entry ''b'' ''s1'' ''two'')) sample_outbox = Inr (e',
      map (\<lambda>r. if r = hd sample_outbox
               then r\<lparr>ob_reply_json := Some (o_Reply (sample_entry ''b'' ''s1'' ''two'')),
                      ob_not_before := nanoOrZero (o_NotBefore (sample_entry ''b'' ''s1'' ''two'')),
                      ob_updated_at := unix_nano 9\<rparr> else r) sample_outbox)
    \<and> o_ID e' = ob_id (hd sample_outbox)"
  by (rule enqueue_coalesces [OF sample_outbox_reachable]) (simp_all add: sample_outbox_eq, simp_all add: sample_entry_def)

text \<open>
  C12. No lost reply: a sender reads the pending row (id and version), a follow-up coalesces into it at
  a later version, and then any number of stale \<open>MarkSent\<close> calls run; the follow-up is still pending
  under the same row id. With the current version instead, \<open>MarkSent\<close> does free the slot.
\<close>

theorem stale_mark_sent_loses_nothing:
  assumes "outbox_ok tbl" and "pending_of tbl sid = Some (i, v, c)"
    and "queues sid v' c' tbl tbl'" and "v' \<noteq> v" and "\<forall>(j, w)\<in>set ms. in_int64 w \<and> w \<noteq> v'"
  shows "pending_of (fold (\<lambda>(j, w). markSent now j w) ((i, v) # ms) tbl') sid = Some (i, v', c') \<and>
         pending_of (markSent now i v' tbl') sid = None"
proof
  have ok: "outbox_ok tbl'" by (rule oq.enq_ok [OF assms(1,3)])
  have p: "pending_of tbl' sid = Some (i, v', c')" by (rule oq.enq_keeps_row [OF assms(1,3,2)])
  have "in_int64 v" by (rule oq.pend_version [OF assms(1,2)])
  then show "pending_of (fold (\<lambda>(j, w). markSent now j w) ((i, v) # ms) tbl') sid = Some (i, v', c')"
    using assms(4,5) by (intro oq.stale_marks [OF ok p]) auto
  show "pending_of (markSent now i v' tbl') sid = None" by (rule oq.mark_current [OF ok p])
qed

lemma sample_outbox_ok: "outbox_ok sample_outbox"
  using outbox_reachable_wf [OF sample_outbox_reachable]
  by (simp add: outbox_ok_def) (simp add: sample_outbox_eq in_int64_def)

lemma sample_outbox_pending:
  "pending_of sample_outbox ''s1'' = Some (''a'', 5, Some (o_Reply (sample_entry ''a'' ''s1'' ''one'')))"
  by (simp add: pending_of_def sample_outbox_eq)

definition sample_outbox2 :: "outbox_row list" where
  "sample_outbox2 = [(hd sample_outbox)\<lparr>ob_reply_json := Some (o_Reply (sample_entry ''b'' ''s1'' ''two'')),
     ob_not_before := 7, ob_updated_at := 9\<rparr>]"

lemma sample_queues:
  "queues ''s1'' 9 (Some (o_Reply (sample_entry ''b'' ''s1'' ''two''))) sample_outbox sample_outbox2"
  unfolding queues_def
proof (intro exI conjI)
  show "insertOutboxRow (\<lambda>_. True) ''v'' 9 (Some (sample_entry ''b'' ''s1'' ''two'')) sample_outbox =
      Inr ((outbox_defaults ''v'' 9 (sample_entry ''b'' ''s1'' ''two''))\<lparr>o_ID := ''a''\<rparr>, sample_outbox2)"
    by (simp add: insertOutboxRow_def Let_def sample_outbox_eq sample_outbox2_def pending_conflict_def
        update_where_def supersede_def outbox_row_of_def outbox_defaults_def sample_entry_def
        nanoOrZero_def unix_nano_def is_zero_time_def zero_time_def in_int64_def)
qed (simp_all add: sample_entry_def outbox_defaults_def unix_nano_def in_int64_def)

theorem stale_mark_sent_witness:
  "pending_of (fold (\<lambda>(j, w). markSent 11 j w) ((''a'', 5) # [(''a'', 3)]) sample_outbox2) ''s1'' =
     Some (''a'', 9, Some (o_Reply (sample_entry ''b'' ''s1'' ''two''))) \<and>
   pending_of (markSent 11 ''a'' 9 sample_outbox2) ''s1'' = None"
  by (rule stale_mark_sent_loses_nothing [OF sample_outbox_ok sample_outbox_pending sample_queues])
    (simp_all add: in_int64_def)

lemma length_decoded_entries: "length (decoded_entries rs) \<le> length rs"
  by (induction rs) (auto split: option.splits)

lemma distinct_decoded_entries: "distinct (map ob_id rs) \<Longrightarrow> distinct (map o_ID (decoded_entries rs))"
proof (induction rs)
  case (Cons r rs)
  have "ob_id r \<notin> o_ID ` set (decoded_entries rs)"
    using Cons.prems by (auto simp: in_decoded_entries outbox_entry_of_def)
  then show ?case using Cons by (auto split: option.split simp: outbox_entry_of_def)
qed simp

lemma due_page_all:
  "length (filter (outbox_due now cutoff) tbl) \<le> nat (limit_or 100 limit) \<Longrightarrow>
   set (due_page now cutoff limit tbl) = {r \<in> set tbl. outbox_due now cutoff r}"
  unfolding due_page_def by (simp add: order_limit_all)

text \<open>
  \<open>ListPending\<close> returns only due rows that decode, at most the limit of them and each once; when
  no more rows are due than the limit it returns all that decode. Its only effect on the table is that
  the undecodable rows of the page are dead-lettered, so none of them heads the queue again.
\<close>

theorem list_pending_exact:
  assumes "outbox_reachable tbl" and "listPending clock now cutoff limit tbl = (es, tbl')"
  shows "(\<forall>e\<in>set es. \<exists>r\<in>set tbl. outbox_due now cutoff r \<and> ob_reply_json r = Some (o_Reply e)
             \<and> e = outbox_entry_of r (o_Reply e)) \<and>
         length es \<le> nat (limit_or 100 limit) \<and> distinct (map o_ID es) \<and>
         (length (filter (outbox_due now cutoff) tbl) \<le> nat (limit_or 100 limit) \<longrightarrow>
            (\<forall>r\<in>set tbl. outbox_due now cutoff r \<longrightarrow>
               (\<forall>rep. ob_reply_json r = Some rep \<longrightarrow> outbox_entry_of r rep \<in> set es))) \<and>
         tbl' = map (\<lambda>r. if r \<in> set (due_page now cutoff limit tbl) \<and> ob_reply_json r = None
                         then dead_lettered clock r else r) tbl"
proof (intro conjI)
  let ?page = "due_page now cutoff limit tbl"
  have ids: "distinct (map ob_id tbl)" using outbox_reachable_wf [OF assms(1)] by (simp add: ob.wf_def)
  have es: "es = decoded_entries ?page" using assms(2) by (simp add: listPending_def Let_def)
  show "\<forall>e\<in>set es. \<exists>r\<in>set tbl. outbox_due now cutoff r \<and> ob_reply_json r = Some (o_Reply e)
      \<and> e = outbox_entry_of r (o_Reply e)"
  proof
    fix e assume "e \<in> set es"
    then obtain r rep where r: "r \<in> set ?page" "ob_reply_json r = Some rep" "e = outbox_entry_of r rep"
      unfolding es in_decoded_entries by blast
    then have "o_Reply e = rep" by (simp add: outbox_entry_of_def)
    then show "\<exists>r\<in>set tbl. outbox_due now cutoff r \<and> ob_reply_json r = Some (o_Reply e) \<and> e = outbox_entry_of r (o_Reply e)"
      using r in_due_page by blast
  qed
  show "length es \<le> nat (limit_or 100 limit)"
    unfolding es using length_decoded_entries length_order_limit due_page_def by (metis le_trans)
  show "distinct (map o_ID es)" unfolding es by (rule distinct_decoded_entries [OF distinct_due_page [OF ids]])
  show "length (filter (outbox_due now cutoff) tbl) \<le> nat (limit_or 100 limit) \<longrightarrow>
      (\<forall>r\<in>set tbl. outbox_due now cutoff r \<longrightarrow> (\<forall>rep. ob_reply_json r = Some rep \<longrightarrow> outbox_entry_of r rep \<in> set es))"
    unfolding es in_decoded_entries using due_page_all [of now cutoff tbl limit] by auto
  show "tbl' = map (\<lambda>r. if r \<in> set ?page \<and> ob_reply_json r = None then dead_lettered clock r else r) tbl"
    using listPending_table [OF ids, of clock now cutoff limit] assms(2) by simp
qed

theorem list_pending_exact_witness:
  "outbox_entry_of (hd sample_outbox) (o_Reply (sample_entry ''a'' ''s1'' ''one''))
     \<in> set (fst (listPending 9 8 0 100 sample_outbox))"
  using list_pending_exact [OF sample_outbox_reachable, of 9 8 0 100 "fst (listPending 9 8 0 100 sample_outbox)"
      "snd (listPending 9 8 0 100 sample_outbox)"]
  by (simp add: sample_outbox_eq outbox_due_def limit_or_def unix_nano_def in_int64_def)

end
