(* ===== verification/Submission_Repo.thy ===== *)
theory Submission_Repo
  imports Outbox_Repo Digest_Model "HOL-Library.Product_Lexorder"
begin

text \<open>
  \<open>internal/repository/submissions.go\<close>: the tables of submissions, emails and documents beside the
  outbox, and every operation of \<open>SubmissionRepository\<close>. A transaction is a function to a new
  database or an error; on an error the database is the old one. A row of the emails or documents
  table is the record itself with its columns normalised (attachment contents dropped, instants as
  64-bit nanoseconds, extracted fields as their JSON decodes); a row of the submissions table has a
  record of its own, with the \<open>missing_items\<close> column as the three shapes its text can have.

  Strings in JSON columns are taken to be valid UTF-8, which the encoder stores unchanged. SQLite's
  comparison of text is by bytes. The fixed order of equal sort keys is the insertion order.

  The lemmas show the round trip of a submission through the tables, which columns a repeated upsert
  keeps, that a message is stored once, what each sweep query selects, and that keys and foreign keys
  stay intact.
\<close>

section \<open>Tables\<close>

datatype missing_col = MissingBlank | MissingItems "missing_item list" | MissingLegacy "string list" | MissingBad

record sub_row =
  q_id :: string
  q_policy_type :: string
  q_state :: state
  q_subject_line :: string
  q_from_address :: string
  q_from_name :: string
  q_thread_key :: string
  q_created_at :: int
  q_updated_at :: int
  q_last_action_at :: int
  q_escalated_at :: "int option"
  q_missing_items :: missing_col
  q_last_reply_at :: int
  q_needs_review :: bool
  q_named_insured :: string
  q_effective_date :: "int option"
  q_on_hold :: bool
  q_delivery_failed :: bool
  q_last_escalated_at :: "int option"
  q_completed_at :: "int option"
  q_last_reply_hash :: string
  q_policy_clarify_asks :: int

record db =
  db_submissions :: "sub_row list"
  db_emails :: "email list"
  db_documents :: "document list"
  db_outbox :: "outbox_row list"

definition empty_db :: db where
  "empty_db = \<lparr>db_submissions = [], db_emails = [], db_documents = [], db_outbox = []\<rparr>"

definition has_submission :: "db \<Rightarrow> string \<Rightarrow> bool" where
  "has_submission d i \<longleftrightarrow> list_ex (\<lambda>r. q_id r = i) (db_submissions d)"

section \<open>Columns\<close>

text \<open>\<open>json.Marshal\<close> refuses a number that is not finite.\<close>

fun json_ok :: "any_val \<Rightarrow> bool" where
  "json_ok (AFloat64 f) = (\<not> is_nan_or_inf f)"
| "json_ok (AFloat32 f) = (\<not> is_nan_or_inf f)"
| "json_ok _ = True"

text \<open>A value as it decodes into \<open>any\<close>: every number is a \<open>float64\<close>.\<close>

fun json_any :: "any_val \<Rightarrow> any_val" where
  "json_any (AFloat32 f) = AFloat64 f"
| "json_any (AInt n) = AFloat64 (float_of_int n)"
| "json_any (AInt64 n) = AFloat64 (float_of_int n)"
| "json_any (AStrings _) = AOther"
| "json_any (ATime _) = AOther"
| "json_any (AMaps _) = AOther"
| "json_any v = v"

definition sub_row_of :: "gotime \<Rightarrow> submission \<Rightarrow> sub_row" where
  "sub_row_of now s =
     \<lparr> q_id = s_ID s, q_policy_type = s_PolicyType s, q_state = s_State s,
       q_subject_line = s_SubjectLine s, q_from_address = s_FromAddress s, q_from_name = s_FromName s,
       q_thread_key = s_ThreadKey s, q_created_at = nanoOrNow now (s_CreatedAt s),
       q_updated_at = nanoOrNow now (s_UpdatedAt s), q_last_action_at = nanoOrNow now (s_LastActionAt s),
       q_escalated_at = map_option unix_nano (s_EscalatedAt s),
       q_missing_items = MissingItems (s_MissingItems s), q_last_reply_at = nanoOrZero (s_LastReplyAt s),
       q_needs_review = s_NeedsReview s, q_named_insured = s_NamedInsured s,
       q_effective_date = map_option unix_nano (s_EffectiveDate s), q_on_hold = s_OnHold s,
       q_delivery_failed = s_DeliveryFailed s,
       q_last_escalated_at = map_option unix_nano (s_LastEscalatedAt s),
       q_completed_at = map_option unix_nano (s_CompletedAt s), q_last_reply_hash = s_LastReplyHash s,
       q_policy_clarify_asks = s_PolicyClarifyAsks s \<rparr>"

text \<open>
  \<open>ON CONFLICT(id) DO UPDATE\<close>: the new row, except that the creation time, the time of the last
  reply and the hold flag are the old row's.
\<close>

definition merge_sub_row :: "sub_row \<Rightarrow> sub_row \<Rightarrow> sub_row" where
  "merge_sub_row old new =
     new\<lparr>q_id := q_id old, q_created_at := q_created_at old, q_last_reply_at := q_last_reply_at old,
         q_on_hold := q_on_hold old\<rparr>"

fun decodeMissingItems :: "missing_col \<Rightarrow> missing_item list" where
  "decodeMissingItems (MissingItems xs) = xs"
| "decodeMissingItems (MissingLegacy ids) =
     map (\<lambda>i. \<lparr>m_ID = i, m_Description = '''', m_Reason = '''', m_Code = ReasonOther '''', m_Confidence = Fin 0\<rparr>) ids"
| "decodeMissingItems MissingBad = []"
| "decodeMissingItems MissingBlank = []"

definition scanSubmission :: "sub_row \<Rightarrow> submission" where
  "scanSubmission r =
     \<lparr> s_ID = q_id r, s_PolicyType = q_policy_type r, s_State = q_state r,
       s_SubjectLine = q_subject_line r, s_FromAddress = q_from_address r, s_FromName = q_from_name r,
       s_ThreadKey = q_thread_key r, s_CreatedAt = q_created_at r, s_UpdatedAt = q_updated_at r,
       s_LastActionAt = q_last_action_at r, s_LastReplyAt = time_of_nano (q_last_reply_at r),
       s_EscalatedAt = q_escalated_at r, s_NeedsReview = q_needs_review r, s_OnHold = q_on_hold r,
       s_DeliveryFailed = q_delivery_failed r, s_NamedInsured = q_named_insured r,
       s_EffectiveDate = q_effective_date r, s_LastEscalatedAt = q_last_escalated_at r,
       s_CompletedAt = q_completed_at r, s_LastReplyHash = q_last_reply_hash r,
       s_PolicyClarifyAsks = q_policy_clarify_asks r, s_Emails = [], s_Documents = [],
       s_MissingItems = decodeMissingItems (q_missing_items r) \<rparr>"

definition stripAttachmentContent :: "attachment list \<Rightarrow> attachment list" where
  "stripAttachmentContent xs = map (\<lambda>a. a\<lparr>t_Content := ''''\<rparr>) xs"

text \<open>
  The columns of \<open>emails\<close>, in the order of the statement. The three JSON columns are the lists they encode; a string that is not
  UTF-8 would come back with replacement characters, which is not modelled.
\<close>

record email_cols =
  em_deterministic_id :: string
  em_submission_id :: string
  em_direction :: direction
  em_message_id :: string
  em_in_reply_to :: string
  em_refs :: "string list"
  em_from_address :: string
  em_from_name :: string
  em_to_addresses :: "string list"
  em_subject :: string
  em_body_text :: string
  em_received_at :: int
  em_provider_msg_id :: string
  em_attachments :: "attachment list"
  em_reply_to :: string

definition email_insert :: "email \<Rightarrow> email_cols" where
  "email_insert e =
     \<lparr> em_deterministic_id = e_DeterministicID e, em_submission_id = e_SubmissionID e, em_direction = e_Direction e,
       em_message_id = e_MessageID e, em_in_reply_to = e_InReplyTo e, em_refs = e_References e,
       em_from_address = e_FromAddress e, em_from_name = e_FromName e, em_to_addresses = e_ToAddresses e,
       em_subject = e_Subject e, em_body_text = e_BodyText e, em_received_at = unix_nano (e_ReceivedAt e),
       em_provider_msg_id = e_ProviderMsgID e, em_attachments = stripAttachmentContent (e_Attachments e),
       em_reply_to = e_ReplyTo e \<rparr>"

definition scanEmail :: "email_cols \<Rightarrow> email" where
  "scanEmail r =
     \<lparr> e_DeterministicID = em_deterministic_id r, e_SubmissionID = em_submission_id r, e_Direction = em_direction r,
       e_MessageID = em_message_id r, e_InReplyTo = em_in_reply_to r, e_References = em_refs r,
       e_FromAddress = em_from_address r, e_FromName = em_from_name r, e_ReplyTo = em_reply_to r,
       e_ToAddresses = em_to_addresses r, e_Subject = em_subject r, e_BodyText = em_body_text r,
       e_ReceivedAt = em_received_at r, e_ProviderMsgID = em_provider_msg_id r, e_Attachments = em_attachments r \<rparr>"

text \<open>
  No statement changes a stored email, so the table is kept as \<open>loadEmails\<close> reads it: what the columns of the
  insert scan to.
\<close>

definition email_row_of :: "email \<Rightarrow> email" where
  "email_row_of e = scanEmail (email_insert e)"

text \<open>A nil or empty map of extracted fields is stored as \<open>{}\<close> and loaded as nil.\<close>

definition fields_column :: "(string \<times> any_val) list option \<Rightarrow> (string \<times> any_val) list option" where
  "fields_column fs = (case fs of
       None \<Rightarrow> None
     | Some kvs \<Rightarrow> if kvs = [] then None else Some (map (\<lambda>(k, v). (k, json_any v)) kvs))"

record document_cols =
  dc_id :: string
  dc_submission_id :: string
  dc_email_id :: string
  dc_filename :: string
  dc_content_type :: string
  dc_size_bytes :: int
  dc_sha256 :: string
  dc_classified_as :: string
  dc_confidence :: float64
  dc_classified_by :: string
  dc_extracted_text :: string
  dc_extracted_fields :: "(string \<times> any_val) list option"
  dc_unreadable :: int
  dc_encrypted :: int
  dc_created_at :: int

definition boolToInt :: "bool \<Rightarrow> int" where
  "boolToInt b = (if b then 1 else 0)"

definition document_insert :: "document \<Rightarrow> document_cols" where
  "document_insert d =
     \<lparr> dc_id = d_ID d, dc_submission_id = d_SubmissionID d, dc_email_id = d_EmailID d, dc_filename = d_Filename d,
       dc_content_type = d_ContentType d, dc_size_bytes = d_SizeBytes d, dc_sha256 = d_SHA256 d,
       dc_classified_as = d_ClassifiedAs d, dc_confidence = d_Confidence d, dc_classified_by = d_ClassifiedBy d,
       dc_extracted_text = d_ExtractedText d, dc_extracted_fields = fields_column (d_ExtractedFields d),
       dc_unreadable = boolToInt (d_Unreadable d), dc_encrypted = boolToInt (d_Encrypted d),
       dc_created_at = unix_nano (d_CreatedAt d) \<rparr>"

definition scanDocument :: "document_cols \<Rightarrow> document" where
  "scanDocument r =
     \<lparr> d_ID = dc_id r, d_SubmissionID = dc_submission_id r, d_EmailID = dc_email_id r, d_Filename = dc_filename r,
       d_ContentType = dc_content_type r, d_SizeBytes = dc_size_bytes r, d_SHA256 = dc_sha256 r,
       d_ClassifiedAs = dc_classified_as r, d_Confidence = dc_confidence r, d_ClassifiedBy = dc_classified_by r,
       d_ExtractedText = dc_extracted_text r, d_ExtractedFields = dc_extracted_fields r,
       d_Unreadable = (dc_unreadable r \<noteq> 0), d_Encrypted = (dc_encrypted r \<noteq> 0), d_CreatedAt = dc_created_at r \<rparr>"

text \<open>
  The statements that change a document set single columns to what an insert would put there, so this table too is kept as
  \<open>loadDocuments\<close> reads it.
\<close>

definition document_row_of :: "document \<Rightarrow> document" where
  "document_row_of d = scanDocument (document_insert d)"

definition merge_document_row :: "document \<Rightarrow> document \<Rightarrow> document" where
  "merge_document_row old new =
     old\<lparr>d_ClassifiedAs := d_ClassifiedAs new, d_Confidence := d_Confidence new,
         d_ClassifiedBy := d_ClassifiedBy new, d_ExtractedText := d_ExtractedText new,
         d_ExtractedFields := d_ExtractedFields new, d_Unreadable := d_Unreadable new,
         d_Encrypted := d_Encrypted new\<rparr>"

section \<open>Writes\<close>

definition upsertSubmissionRow :: "gotime \<Rightarrow> submission \<Rightarrow> db \<Rightarrow> error + db" where
  "upsertSubmissionRow now s d =
     (if list_ex (\<lambda>m. is_nan_or_inf (m_Confidence m)) (s_MissingItems s)
      then Inl (ErrOther ''marshal missing items'')
      else Inr (d\<lparr>db_submissions := upsert_by q_id merge_sub_row (sub_row_of now s) (db_submissions d)\<rparr>))"

definition upsertEmailRow :: "email \<Rightarrow> db \<Rightarrow> error + db" where
  "upsertEmailRow e d =
     (if list_ex (\<lambda>o'. e_DeterministicID o' = e_DeterministicID e) (db_emails d) then Inl ErrDuplicateEmail
      else if \<not> has_submission d (e_SubmissionID e) then Inl (ErrOther ''upsert email: FOREIGN KEY'')
      else Inr (d\<lparr>db_emails := db_emails d @ [email_row_of e]\<rparr>))"

definition upsertDocumentRow :: "document \<Rightarrow> db \<Rightarrow> error + db" where
  "upsertDocumentRow c d =
     (if d_ID c = '''' then Inl (ErrOther ''upsert document: empty id'')
      else if \<not> (case d_ExtractedFields c of None \<Rightarrow> True | Some kvs \<Rightarrow> list_all (\<lambda>(k, v). json_ok v) kvs)
      then Inl (ErrOther ''marshal extracted_fields'')
      else if d_Confidence c = NaN then Inl (ErrOther ''upsert document: NOT NULL'')
      else if \<not> list_ex (\<lambda>o'. d_ID o' = d_ID c) (db_documents d) \<and> \<not> has_submission d (d_SubmissionID c)
      then Inl (ErrOther ''upsert document: FOREIGN KEY'')
      else Inr (d\<lparr>db_documents := upsert_by d_ID merge_document_row (document_row_of c) (db_documents d)\<rparr>))"

text \<open>The loops of the transaction: a duplicate email is skipped, any other error aborts.\<close>

fun upsert_emails :: "email list \<Rightarrow> db \<Rightarrow> error + db" where
  "upsert_emails [] d = Inr d"
| "upsert_emails (e # es) d = (case upsertEmailRow e d of
       Inl ErrDuplicateEmail \<Rightarrow> upsert_emails es d
     | Inl err \<Rightarrow> Inl err
     | Inr d' \<Rightarrow> upsert_emails es d')"

fun upsert_documents :: "document list \<Rightarrow> db \<Rightarrow> error + db" where
  "upsert_documents [] d = Inr d"
| "upsert_documents (c # cs) d = (case upsertDocumentRow c d of
       Inl err \<Rightarrow> Inl err
     | Inr d' \<Rightarrow> upsert_documents cs d')"

definition upsert_aggregate :: "gotime \<Rightarrow> submission \<Rightarrow> db \<Rightarrow> error + db" where
  "upsert_aggregate now s d = (case upsertSubmissionRow now s d of
       Inl err \<Rightarrow> Inl err
     | Inr d1 \<Rightarrow> (case upsert_emails (s_Emails s) d1 of
           Inl err \<Rightarrow> Inl err
         | Inr d2 \<Rightarrow> upsert_documents (s_Documents s) d2))"

definition upsertSubmission :: "gotime \<Rightarrow> submission \<Rightarrow> db \<Rightarrow> error + db" where
  "upsertSubmission now s d =
     (if s_ID s = '''' then Inl (ErrOther ''sqlite: UpsertSubmission requires non-empty id'')
      else upsert_aggregate now s d)"

definition upsertSubmissionWithReply ::
  "string \<Rightarrow> gotime \<Rightarrow> submission \<Rightarrow> outbox_entry option \<Rightarrow> db \<Rightarrow> error + outbox_entry \<times> db" where
  "upsertSubmissionWithReply uid now s reply d =
     (if s_ID s = '''' then Inl (ErrOther ''sqlite: UpsertSubmissionWithReply requires non-empty id'')
      else if reply = None then Inl (ErrOther ''sqlite: UpsertSubmissionWithReply requires non-nil reply'')
      else case upsert_aggregate now s d of
        Inl err \<Rightarrow> Inl err
      | Inr d' \<Rightarrow> (case insertOutboxRow (has_submission d') uid now reply (db_outbox d') of
            Inl err \<Rightarrow> Inl err
          | Inr (e, tbl) \<Rightarrow> Inr (e, d'\<lparr>db_outbox := tbl\<rparr>)))"

definition upsertEmail :: "email \<Rightarrow> db \<Rightarrow> error + db" where
  "upsertEmail e d = upsertEmailRow e d"

definition update_sub :: "(sub_row \<Rightarrow> bool) \<Rightarrow> (sub_row \<Rightarrow> sub_row) \<Rightarrow> db \<Rightarrow> db" where
  "update_sub p f d = d\<lparr>db_submissions := update_where p f (db_submissions d)\<rparr>"

definition setLastReplyAt :: "string \<Rightarrow> gotime \<Rightarrow> db \<Rightarrow> db" where
  "setLastReplyAt i t d = update_sub (\<lambda>r. q_id r = i) (\<lambda>r. r\<lparr>q_last_reply_at := nanoOrZero t\<rparr>) d"

definition clearReplyHash :: "string \<Rightarrow> db \<Rightarrow> db" where
  "clearReplyHash i d = update_sub (\<lambda>r. q_id r = i) (\<lambda>r. r\<lparr>q_last_reply_hash := ''''\<rparr>) d"

definition setOnHold :: "string list \<Rightarrow> bool \<Rightarrow> db \<Rightarrow> db" where
  "setOnHold ids b d =
     (if ids = [] then d else update_sub (\<lambda>r. q_id r \<in> set ids) (\<lambda>r. r\<lparr>q_on_hold := b\<rparr>) d)"

definition clearExtractedTextForClosed :: "int \<Rightarrow> db \<Rightarrow> int \<times> db" where
  "clearExtractedTextForClosed closedBefore d =
     (let closed = map q_id (filter (\<lambda>r. q_state r = StateClosed \<and> q_updated_at r < closedBefore) (db_submissions d));
          hit = (\<lambda>c. d_ExtractedText c \<noteq> '''' \<and> d_SubmissionID c \<in> set closed)
      in (count_where hit (db_documents d),
          d\<lparr>db_documents := update_where hit (\<lambda>c. c\<lparr>d_ExtractedText := ''''\<rparr>) (db_documents d)\<rparr>))"

section \<open>Reads\<close>

definition loadEmails :: "string \<Rightarrow> db \<Rightarrow> email list" where
  "loadEmails i d = sort_key e_ReceivedAt (filter (\<lambda>e. e_SubmissionID e = i) (db_emails d))"

definition loadDocuments :: "string \<Rightarrow> db \<Rightarrow> document list" where
  "loadDocuments i d = sort_key d_CreatedAt (filter (\<lambda>c. d_SubmissionID c = i) (db_documents d))"

definition getByID :: "string \<Rightarrow> db \<Rightarrow> error + submission" where
  "getByID i d = (case lookup_by q_id i (db_submissions d) of
       None \<Rightarrow> Inl ErrSubmissionNotFound
     | Some r \<Rightarrow> Inr ((scanSubmission r)\<lparr>s_Emails := loadEmails i d, s_Documents := loadDocuments i d\<rparr>))"

definition findSubmissionIDsByRefs :: "string list \<Rightarrow> db \<Rightarrow> string list" where
  "findSubmissionIDsByRefs refs d =
     remdups (map e_SubmissionID
       (filter (\<lambda>e. e_MessageID e \<in> set refs \<or> e_InReplyTo e \<in> set refs) (db_emails d)))"

definition pickMostRecentlyUpdated :: "string list \<Rightarrow> db \<Rightarrow> error + string" where
  "pickMostRecentlyUpdated ids d =
     (case sort_key (\<lambda>r. (q_updated_at r, q_id r)) (filter (\<lambda>r. q_id r \<in> set ids) (db_submissions d)) of
        [] \<Rightarrow> Inl (ErrOther ''select most-recent thread'')
      | rows \<Rightarrow> Inr (q_id (last rows)))"

definition findByEmailReference :: "string list \<Rightarrow> db \<Rightarrow> error + submission \<times> bool" where
  "findByEmailReference messageIDs d =
     (let refs = nonEmpty messageIDs in
      if refs = [] then Inl ErrSubmissionNotFound
      else (case findSubmissionIDsByRefs refs d of
          [] \<Rightarrow> Inl ErrSubmissionNotFound
        | m # ms \<Rightarrow>
            (let ambiguous = (ms \<noteq> []) in
             case (if ambiguous then pickMostRecentlyUpdated (m # ms) d else Inr m) of
               Inl err \<Rightarrow> Inl err
             | Inr best \<Rightarrow> map_sum id (\<lambda>s. (s, ambiguous)) (getByID best d))))"

definition findByDeterministicID :: "string \<Rightarrow> db \<Rightarrow> error + submission" where
  "findByDeterministicID i d =
     (if i = '''' then Inl ErrSubmissionNotFound
      else case lookup_by e_DeterministicID i (db_emails d) of
        None \<Rightarrow> Inl ErrSubmissionNotFound
      | Some e \<Rightarrow> getByID (e_SubmissionID e) d)"

text \<open>The list queries share their scan loop; they differ in the selection, the order and the limit.\<close>

definition list_query :: "(sub_row \<Rightarrow> bool) \<Rightarrow> (sub_row \<Rightarrow> 'k::linorder) \<Rightarrow> int \<Rightarrow> db \<Rightarrow> submission list" where
  "list_query p k n d = map scanSubmission (order_limit k n (filter p (db_submissions d)))"

abbreviation null_or_zero :: "int option \<Rightarrow> int" where
  "null_or_zero t \<equiv> (case t of None \<Rightarrow> 0 | Some n \<Rightarrow> n)"

definition completed_before :: "int \<Rightarrow> sub_row \<Rightarrow> bool" where
  "completed_before older r \<longleftrightarrow>
     q_state r = StateComplete \<and> (case q_completed_at r of None \<Rightarrow> False | Some t \<Rightarrow> t < older) \<and> \<not> q_on_hold r"

definition listCompletedBefore :: "int \<Rightarrow> int \<Rightarrow> db \<Rightarrow> submission list" where
  "listCompletedBefore older limit d =
     list_query (completed_before older) (\<lambda>r. null_or_zero (q_completed_at r)) (limit_or 100 limit) d"

definition escalated_since :: "int \<Rightarrow> sub_row \<Rightarrow> bool" where
  "escalated_since since r \<longleftrightarrow>
     q_state r = StateEscalated \<and> (case q_escalated_at r of None \<Rightarrow> False | Some t \<Rightarrow> t \<ge> since) \<and> \<not> q_on_hold r"

definition listEscalatedSince :: "int \<Rightarrow> int \<Rightarrow> db \<Rightarrow> submission list" where
  "listEscalatedSince since limit d =
     list_query (escalated_since since) (\<lambda>r. null_or_zero (q_escalated_at r)) (limit_or 100 limit) d"

definition stale_row :: "int \<Rightarrow> sub_row \<Rightarrow> bool" where
  "stale_row older r \<longleftrightarrow>
     q_state r = StateAwaiting \<and> q_last_action_at r < older \<and> \<not> q_on_hold r \<and> \<not> q_delivery_failed r"

definition listStale :: "int \<Rightarrow> int \<Rightarrow> db \<Rightarrow> submission list" where
  "listStale older limit d = list_query (stale_row older) q_last_action_at (limit_or 100 limit) d"

definition bind_soon_row :: "int \<Rightarrow> int \<Rightarrow> sub_row \<Rightarrow> bool" where
  "bind_soon_row after before r \<longleftrightarrow>
     q_state r = StateAwaiting \<and>
     (case q_effective_date r of None \<Rightarrow> False | Some t \<Rightarrow> after \<le> t \<and> t \<le> before) \<and>
     \<not> q_on_hold r \<and> \<not> q_delivery_failed r"

definition listBindSoon :: "int \<Rightarrow> int \<Rightarrow> int \<Rightarrow> db \<Rightarrow> submission list" where
  "listBindSoon after before limit d =
     list_query (bind_soon_row after before) (\<lambda>r. null_or_zero (q_effective_date r)) (limit_or 100 limit) d"

definition stalled_row :: "int \<Rightarrow> sub_row \<Rightarrow> bool" where
  "stalled_row older r \<longleftrightarrow>
     (q_state r = StateAwaiting \<or> q_state r = StateOpen) \<and> q_last_action_at r < older \<and> \<not> q_on_hold r"

definition listStalledBefore :: "int \<Rightarrow> int \<Rightarrow> db \<Rightarrow> submission list" where
  "listStalledBefore older limit d = list_query (stalled_row older) q_last_action_at (limit_or 100 limit) d"

definition listOpen :: "int \<Rightarrow> db \<Rightarrow> submission list" where
  "listOpen limit d =
     list_query (\<lambda>r. q_state r \<noteq> StateClosed) (\<lambda>r. (state_str (q_state r), q_last_action_at r)) (limit_or 500 limit) d"

definition countOpen :: "db \<Rightarrow> int" where
  "countOpen d = count_where (\<lambda>r. q_state r \<noteq> StateClosed) (db_submissions d)"

text \<open>The map from submission id to item ids, \<^const>\<open>None\<close> for an absent key.\<close>

definition filenameOnlyItems :: "string list \<Rightarrow> db \<Rightarrow> string \<Rightarrow> string list option" where
  "filenameOnlyItems ids d sid =
     (if sid \<notin> set ids then None
      else let ms = filenameOnlyMatches
                      (filter (\<lambda>c. d_SubmissionID c = sid \<and> d_ClassifiedAs c \<noteq> '''') (db_documents d))
           in if ms = [] then None else Some ms)"

definition listHeldIDs :: "db \<Rightarrow> string list" where
  "listHeldIDs d = map q_id (filter q_on_hold (db_submissions d))"

definition replyBlockedIDs :: "string list \<Rightarrow> db \<Rightarrow> string list" where
  "replyBlockedIDs submissionIDs d =
     (let ids = nonEmpty submissionIDs
      in map q_id (filter (\<lambda>r. q_id r \<in> set ids \<and> (q_on_hold r \<or> q_delivery_failed r)) (db_submissions d)))"

definition submissionIDsByMessageIDs :: "string list \<Rightarrow> db \<Rightarrow> string list" where
  "submissionIDsByMessageIDs messageIDs d =
     (let ids = nonEmpty messageIDs
      in remdups (map e_SubmissionID (filter (\<lambda>e. e_MessageID e \<in> set ids) (db_emails d))))"

definition sql_trim :: "string \<Rightarrow> string" where
  "sql_trim s = trim_by (\<lambda>c. c = CHR '' '') s"

definition content_match_row :: "string \<Rightarrow> string \<Rightarrow> int \<Rightarrow> sub_row \<Rightarrow> bool" where
  "content_match_row insured fromAddress createdAfter r \<longleftrightarrow>
     q_named_insured r \<noteq> '''' \<and> to_lower (sql_trim (q_named_insured r)) = insured \<and>
     q_from_address r = fromAddress \<and> (q_state r = StateOpen \<or> q_state r = StateAwaiting) \<and>
     q_created_at r \<ge> createdAfter"

definition findContentMatch :: "string \<Rightarrow> string \<Rightarrow> int \<Rightarrow> db \<Rightarrow> error + submission" where
  "findContentMatch namedInsured fromAddress createdAfter d =
     (let insured = to_lower (trim_space namedInsured) in
      if insured = '''' \<or> fromAddress = '''' then Inl ErrSubmissionNotFound
      else case order_limit (\<lambda>r. - q_created_at r) 1
                  (filter (content_match_row insured fromAddress createdAfter) (db_submissions d)) of
             [] \<Rightarrow> Inl ErrSubmissionNotFound
           | r # _ \<Rightarrow> getByID (q_id r) d)"

section \<open>Keys and foreign keys stay intact\<close>

interpretation sub_t: keyed_upsert q_id merge_sub_row
  by unfold_locales (simp add: merge_sub_row_def)

interpretation doc_t: keyed_upsert d_ID merge_document_row
  by unfold_locales (simp add: merge_document_row_def)

text \<open>\<open>DO NOTHING\<close> keeps the old row.\<close>

interpretation email_t: keyed_upsert e_DeterministicID "\<lambda>old new. old"
  by unfold_locales simp

definition sub_ids :: "db \<Rightarrow> string set" where
  "sub_ids d = q_id ` set (db_submissions d)"

lemma has_submission_iff: "has_submission d i \<longleftrightarrow> i \<in> sub_ids d"
  by (auto simp: has_submission_def sub_ids_def list_ex_iff)

definition db_wf :: "db \<Rightarrow> bool" where
  "db_wf d \<longleftrightarrow>
     distinct (map q_id (db_submissions d)) \<and> distinct (map e_DeterministicID (db_emails d)) \<and>
     distinct (map d_ID (db_documents d)) \<and> ob.wf (db_outbox d) \<and>
     e_SubmissionID ` set (db_emails d) \<subseteq> sub_ids d \<and> d_SubmissionID ` set (db_documents d) \<subseteq> sub_ids d \<and>
     ob_submission_id ` set (db_outbox d) \<subseteq> sub_ids d"

lemma sub_row_of_id [simp]: "q_id (sub_row_of now s) = s_ID s"
  by (simp add: sub_row_of_def)

lemma email_row_of_keys [simp]:
  "e_DeterministicID (email_row_of e) = e_DeterministicID e" "e_SubmissionID (email_row_of e) = e_SubmissionID e"
  "e_MessageID (email_row_of e) = e_MessageID e" "e_InReplyTo (email_row_of e) = e_InReplyTo e"
  by (simp_all add: email_row_of_def scanEmail_def email_insert_def)

lemma document_row_of_keys [simp]:
  "d_ID (document_row_of c) = d_ID c" "d_SubmissionID (document_row_of c) = d_SubmissionID c"
  by (simp_all add: document_row_of_def scanDocument_def document_insert_def)

text \<open>What the columns keep of an email and of a document: everything but what the right-hand sides replace.\<close>

lemma email_row_of_eq:
  "email_row_of e = e\<lparr>e_Attachments := map (\<lambda>a. a\<lparr>t_Content := ''''\<rparr>) (e_Attachments e), e_ReceivedAt := unix_nano (e_ReceivedAt e)\<rparr>"
  by (cases e) (simp add: email_row_of_def scanEmail_def email_insert_def stripAttachmentContent_def)

lemma document_row_of_eq:
  "document_row_of c = c\<lparr>d_ExtractedFields := fields_column (d_ExtractedFields c), d_CreatedAt := unix_nano (d_CreatedAt c)\<rparr>"
  by (cases c) (simp add: document_row_of_def scanDocument_def document_insert_def boolToInt_def)

lemma upsertSubmissionRow_Inr:
  "upsertSubmissionRow now s d = Inr d' \<Longrightarrow>
   d' = d\<lparr>db_submissions := upsert_by q_id merge_sub_row (sub_row_of now s) (db_submissions d)\<rparr>"
  by (auto simp: upsertSubmissionRow_def split: if_splits)

lemma sub_ids_upsert:
  "sub_ids (d\<lparr>db_submissions := upsert_by q_id merge_sub_row (sub_row_of now s) (db_submissions d)\<rparr>) =
     insert (s_ID s) (sub_ids d)"
proof -
  have "set (map q_id (upsert_by q_id merge_sub_row (sub_row_of now s) (db_submissions d))) =
      insert (s_ID s) (set (map q_id (db_submissions d)))"
    unfolding sub_t.keys_upsert by auto
  then show ?thesis by (simp add: sub_ids_def)
qed

lemma upsertSubmissionRow_wf:
  assumes "db_wf d" and "upsertSubmissionRow now s d = Inr d'"
  shows "db_wf d' \<and> sub_ids d' = insert (s_ID s) (sub_ids d)"
proof -
  note d' = upsertSubmissionRow_Inr [OF assms(2)]
  have ids: "sub_ids d' = insert (s_ID s) (sub_ids d)" unfolding d' by (rule sub_ids_upsert)
  moreover have "distinct (map q_id (db_submissions d'))"
    using assms(1) unfolding d' by (simp add: db_wf_def sub_t.distinct_upsert)
  ultimately show ?thesis using assms(1) d' unfolding db_wf_def by auto
qed

lemma upsertEmailRow_wf:
  assumes "db_wf d" and "upsertEmailRow e d = Inr d'"
  shows "db_wf d' \<and> sub_ids d' = sub_ids d"
proof -
  have d': "d' = d\<lparr>db_emails := db_emails d @ [email_row_of e]\<rparr>"
    and new: "\<forall>o'\<in>set (db_emails d). e_DeterministicID o' \<noteq> e_DeterministicID e" and fk: "e_SubmissionID e \<in> sub_ids d"
    using assms(2) by (auto simp: upsertEmailRow_def list_ex_iff has_submission_iff split: if_splits)
  then show ?thesis using assms(1) by (auto simp: db_wf_def sub_ids_def)
qed

lemma merge_document_submission [simp]: "d_SubmissionID (merge_document_row old new) = d_SubmissionID old"
  by (simp add: merge_document_row_def)

lemma upsert_by_rows:
  "x \<in> set (upsert_by k m r tbl) \<Longrightarrow> x \<in> set tbl \<or> (\<exists>o'\<in>set tbl. x = m o' r) \<or> (x = r \<and> k r \<notin> k ` set tbl)"
  by (auto simp: upsert_by_def in_update_where list_ex_iff image_iff split: if_splits)

lemma upsertDocumentRow_wf:
  assumes "db_wf d" and "upsertDocumentRow c d = Inr d'"
  shows "db_wf d' \<and> sub_ids d' = sub_ids d"
proof -
  have d': "d' = d\<lparr>db_documents := upsert_by d_ID merge_document_row (document_row_of c) (db_documents d)\<rparr>"
    using assms(2) by (auto simp: upsertDocumentRow_def split: if_splits)
  have fk: "d_ID c \<notin> d_ID ` set (db_documents d) \<Longrightarrow> d_SubmissionID c \<in> sub_ids d"
    using assms(2) by (auto simp: upsertDocumentRow_def list_ex_iff has_submission_iff image_iff split: if_splits)
  have "d_SubmissionID x \<in> sub_ids d" if mem: "x \<in> set (db_documents d')" for x
  proof -
    have "x \<in> set (upsert_by d_ID merge_document_row (document_row_of c) (db_documents d))" using mem by (simp add: d')
    from upsert_by_rows [OF this] show ?thesis using fk assms(1) by (auto simp: db_wf_def)
  qed
  then show ?thesis using assms(1) by (auto simp: d' db_wf_def sub_ids_def doc_t.distinct_upsert)
qed

lemma upsert_emails_wf:
  "db_wf d \<Longrightarrow> upsert_emails es d = Inr d' \<Longrightarrow> db_wf d' \<and> sub_ids d' = sub_ids d"
proof (induction es arbitrary: d)
  case (Cons e es)
  show ?case
  proof (cases "upsertEmailRow e d")
    case (Inl err)
    then show ?thesis using Cons by (cases err) auto
  next
    case (Inr d1)
    then show ?thesis using Cons upsertEmailRow_wf [OF Cons.prems(1) Inr] by auto
  qed
qed simp

lemma upsert_documents_wf:
  "db_wf d \<Longrightarrow> upsert_documents cs d = Inr d' \<Longrightarrow> db_wf d' \<and> sub_ids d' = sub_ids d"
proof (induction cs arbitrary: d)
  case (Cons c cs)
  then obtain d1 where "upsertDocumentRow c d = Inr d1" "upsert_documents cs d1 = Inr d'"
    by (auto split: sum.splits)
  then show ?case using Cons.IH upsertDocumentRow_wf [OF Cons.prems(1)] by metis
qed simp

lemma upsert_aggregate_wf:
  assumes "db_wf d" and "upsert_aggregate now s d = Inr d'"
  shows "db_wf d' \<and> sub_ids d' = insert (s_ID s) (sub_ids d)"
proof -
  obtain d1 d2 where "upsertSubmissionRow now s d = Inr d1" "upsert_emails (s_Emails s) d1 = Inr d2"
    "upsert_documents (s_Documents s) d2 = Inr d'"
    using assms(2) by (auto simp: upsert_aggregate_def split: sum.splits)
  then show ?thesis
    using upsertSubmissionRow_wf [OF assms(1)] upsert_emails_wf upsert_documents_wf by metis
qed

lemma update_sub_wf:
  assumes "\<And>r. q_id (f r) = q_id r"
  shows "db_wf (update_sub p f d) = db_wf d" and "sub_ids (update_sub p f d) = sub_ids d"
proof -
  have keys: "map q_id (update_where p f (db_submissions d)) = map q_id (db_submissions d)"
    by (rule map_update_where_key) (simp add: assms)
  then have "set (map q_id (update_where p f (db_submissions d))) = set (map q_id (db_submissions d))" by (simp only:)
  then show ids: "sub_ids (update_sub p f d) = sub_ids d" by (simp add: sub_ids_def update_sub_def)
  then show "db_wf (update_sub p f d) = db_wf d"
    using keys by (simp add: db_wf_def update_sub_def)
qed

lemma small_updates_wf:
  "db_wf (setLastReplyAt i t d) = db_wf d" "db_wf (clearReplyHash i d) = db_wf d"
  "db_wf (setOnHold ids b d) = db_wf d"
  "sub_ids (setLastReplyAt i t d) = sub_ids d" "sub_ids (clearReplyHash i d) = sub_ids d"
  "sub_ids (setOnHold ids b d) = sub_ids d"
  by (simp_all add: setLastReplyAt_def clearReplyHash_def setOnHold_def update_sub_wf)

text \<open>Every statement that changes the database, and the databases they lead to.\<close>

inductive db_step :: "db \<Rightarrow> db \<Rightarrow> bool" where
  upsert: "upsertSubmission now s d = Inr d' \<Longrightarrow> db_step d d'"
| upsert_with_reply: "upsertSubmissionWithReply uid now s e d = Inr (e', d') \<Longrightarrow> db_step d d'"
| email: "upsertEmail e d = Inr d' \<Longrightarrow> db_step d d'"
| last_reply: "db_step d (setLastReplyAt i t d)"
| clear_hash: "db_step d (clearReplyHash i d)"
| hold: "db_step d (setOnHold ids b d)"
| clear_text: "db_step d (snd (clearExtractedTextForClosed t d))"
| outbox_enqueue: "insertOutboxRow (has_submission d) uid now (Some e) (db_outbox d) = Inr (e', tbl) \<Longrightarrow>
    db_step d (d\<lparr>db_outbox := tbl\<rparr>)"
| outbox_update: "outbox_update now i status attempts err (db_outbox d) = Inr tbl \<Longrightarrow> db_step d (d\<lparr>db_outbox := tbl\<rparr>)"
| outbox_list: "db_step d (d\<lparr>db_outbox := snd (listPending clock now cutoff limit (db_outbox d))\<rparr>)"
| outbox_sent: "db_step d (d\<lparr>db_outbox := markSent now i version (db_outbox d)\<rparr>)"
| outbox_expire: "db_step d (d\<lparr>db_outbox := snd (expirePending now older (db_outbox d))\<rparr>)"
| outbox_expire_for: "db_step d (d\<lparr>db_outbox := snd (expirePendingForSubmissions now ids reason (db_outbox d))\<rparr>)"
| outbox_prune: "db_step d (d\<lparr>db_outbox := snd (outbox_prune older (db_outbox d))\<rparr>)"

inductive db_reachable :: "db \<Rightarrow> bool" where
  empty: "db_reachable empty_db"
| step: "db_reachable d \<Longrightarrow> db_step d d' \<Longrightarrow> db_reachable d'"

text \<open>No statement but an insert brings a new submission id into the outbox.\<close>

lemma update_where_slots:
  "(\<And>r. ob_submission_id (f r) = ob_submission_id r) \<Longrightarrow>
   ob_submission_id ` set (update_where p f tbl) \<subseteq> ob_submission_id ` set tbl"
  by (simp add: image_update_where)

lemma insertOutboxRow_slots:
  assumes "insertOutboxRow fk uid now (Some e) tbl = Inr (e', tbl')"
  shows "ob_submission_id ` set tbl' \<subseteq> ob_submission_id ` set tbl \<union> {i. fk i}"
  using assms
proof (cases rule: insertOutboxRow_cases)
  case (coalesced q)
  then have "ob_submission_id ` set tbl' \<subseteq> ob_submission_id ` set tbl"
    unfolding coalesced(3) by (intro update_where_slots) simp
  then show ?thesis by blast
next
  case fresh
  then show ?thesis by auto
qed

lemma outbox_update_slots:
  "outbox_update now i status attempts err tbl = Inr tbl' \<Longrightarrow> ob_submission_id ` set tbl' \<subseteq> ob_submission_id ` set tbl"
  by (auto simp: outbox_update_def in_update_where split: if_splits)

lemma fold_dead_letter_slots:
  "ob_submission_id ` set (fold (dead_letter_row now) ps tbl) \<subseteq> ob_submission_id ` set tbl"
proof (induction ps arbitrary: tbl)
  case (Cons p ps)
  have "ob_submission_id ` set (dead_letter_row now p tbl) \<subseteq> ob_submission_id ` set tbl"
    using outbox_update_slots by (auto simp: dead_letter_row_def split: sum.split)
  then show ?case using Cons.IH [of "dead_letter_row now p tbl"] by auto
qed simp

lemma outbox_slots_shrink:
  "ob_submission_id ` set (markSent now i v tbl) \<subseteq> ob_submission_id ` set tbl"
  "ob_submission_id ` set (fail_rows now reason p tbl) \<subseteq> ob_submission_id ` set tbl"
  "ob_submission_id ` set (snd (listPending clock now cutoff limit tbl)) \<subseteq> ob_submission_id ` set tbl"
  "ob_submission_id ` set (snd (expirePending now older tbl)) \<subseteq> ob_submission_id ` set tbl"
  "ob_submission_id ` set (snd (expirePendingForSubmissions now ids reason tbl)) \<subseteq> ob_submission_id ` set tbl"
  "ob_submission_id ` set (snd (outbox_prune older tbl)) \<subseteq> ob_submission_id ` set tbl"
proof -
  show fail: "ob_submission_id ` set (fail_rows now reason p tbl) \<subseteq> ob_submission_id ` set tbl" for now reason p
    unfolding fail_rows_def by (rule update_where_slots) simp
  show "ob_submission_id ` set (markSent now i v tbl) \<subseteq> ob_submission_id ` set tbl"
    unfolding markSent_def by (rule update_where_slots) simp
  show "ob_submission_id ` set (snd (listPending clock now cutoff limit tbl)) \<subseteq> ob_submission_id ` set tbl"
    by (simp add: listPending_def Let_def fold_dead_letter_slots)
  show "ob_submission_id ` set (snd (expirePending now older tbl)) \<subseteq> ob_submission_id ` set tbl"
    using fail by (simp add: expirePending_def)
  show "ob_submission_id ` set (snd (expirePendingForSubmissions now ids reason tbl)) \<subseteq> ob_submission_id ` set tbl"
    using fail by (simp add: expirePendingForSubmissions_def)
  show "ob_submission_id ` set (snd (outbox_prune older tbl)) \<subseteq> ob_submission_id ` set tbl"
    by (auto simp: outbox_prune_def Let_def)
qed

lemma db_wf_outbox:
  assumes "db_wf d" and "ob.wf tbl" and "ob_submission_id ` set tbl \<subseteq> sub_ids d"
  shows "db_wf (d\<lparr>db_outbox := tbl\<rparr>)"
  using assms by (simp add: db_wf_def sub_ids_def)

text \<open>A statement of the outbox alone keeps the database intact.\<close>

lemma db_wf_outbox_step:
  assumes "db_wf d" and "outbox_step (db_outbox d) tbl"
    and "ob_submission_id ` set tbl \<subseteq> ob_submission_id ` set (db_outbox d)"
  shows "db_wf (d\<lparr>db_outbox := tbl\<rparr>)"
proof -
  have "ob_submission_id ` set (db_outbox d) \<subseteq> sub_ids d" "ob.wf (db_outbox d)" using assms(1) by (simp_all add: db_wf_def)
  then show ?thesis using assms outbox_step_wf by (intro db_wf_outbox) (blast dest: subset_trans)+
qed

lemma insert_with_fk_wf:
  assumes "db_wf d" and "insertOutboxRow (has_submission d) uid now (Some e) (db_outbox d) = Inr (e', tbl)"
  shows "db_wf (d\<lparr>db_outbox := tbl\<rparr>)"
proof (rule db_wf_outbox [OF assms(1)])
  have wf: "ob.wf (db_outbox d)" "ob_submission_id ` set (db_outbox d) \<subseteq> sub_ids d"
    using assms(1) by (simp_all add: db_wf_def)
  show "ob.wf tbl" by (rule insertOutboxRow_wf [OF wf(1) assms(2)])
  show "ob_submission_id ` set tbl \<subseteq> sub_ids d"
    using insertOutboxRow_slots [OF assms(2)] wf(2) unfolding has_submission_iff by blast
qed

lemma upsertSubmissionWithReply_Inr:
  assumes "upsertSubmissionWithReply uid now s re d = Inr (e', d')"
  obtains e d1 tbl where "re = Some e" "s_ID s \<noteq> ''''" "upsert_aggregate now s d = Inr d1"
    "insertOutboxRow (has_submission d1) uid now (Some e) (db_outbox d1) = Inr (e', tbl)"
    "d' = d1\<lparr>db_outbox := tbl\<rparr>"
  using assms by (cases re) (auto simp: upsertSubmissionWithReply_def split: if_splits sum.splits)

lemma db_step_wf: "db_step d d' \<Longrightarrow> db_wf d \<Longrightarrow> db_wf d'"
proof (induction rule: db_step.induct)
  case (upsert now s d d')
  then show ?case using upsert_aggregate_wf by (auto simp: upsertSubmission_def split: if_splits)
next
  case (upsert_with_reply uid now s e d e' d')
  then show ?case
    by (elim upsertSubmissionWithReply_Inr) (use upsert_aggregate_wf insert_with_fk_wf in blast)
next
  case (email e d d')
  then show ?case using upsertEmailRow_wf by (simp add: upsertEmail_def)
next
  case (clear_text d t)
  have slots: "d_SubmissionID ` set (update_where p (\<lambda>c. c\<lparr>d_ExtractedText := ''''\<rparr>) tbl) = d_SubmissionID ` set tbl" for p tbl
    by (rule image_update_where) simp
  show ?case using clear_text
    by (simp add: clearExtractedTextForClosed_def Let_def db_wf_def sub_ids_def map_update_where_key slots)
next
  case (outbox_enqueue d uid now e e' tbl)
  then show ?case using insert_with_fk_wf by blast
qed (simp_all add: small_updates_wf db_wf_outbox_step outbox_step.intros outbox_slots_shrink outbox_update_slots)

interpretation db_inv: invariant_system "\<lambda>d. d = empty_db" db_step db_wf
  by unfold_locales (simp add: db_wf_def empty_db_def ob.wf_Nil, rule db_step_wf)

lemma db_reachable_wf: "db_reachable d \<Longrightarrow> db_wf d"
  by (induction rule: db_reachable.induct) (auto intro: db_inv.start_good db_inv.step_good)

section \<open>Round trip\<close>

definition time_storable :: "gotime \<Rightarrow> bool" where
  "time_storable t \<longleftrightarrow> t = zero_time \<or> (in_int64 t \<and> t \<noteq> 0)"

text \<open>A submission whose values its columns can hold, with emails and documents of its own.\<close>

definition storable :: "submission \<Rightarrow> bool" where
  "storable s \<longleftrightarrow>
     s_ID s \<noteq> '''' \<and> in_int64 (s_CreatedAt s) \<and> in_int64 (s_UpdatedAt s) \<and> in_int64 (s_LastActionAt s) \<and>
     time_storable (s_LastReplyAt s) \<and>
     list_all (\<lambda>t. case t of None \<Rightarrow> True | Some n \<Rightarrow> in_int64 n)
       [s_EscalatedAt s, s_EffectiveDate s, s_LastEscalatedAt s, s_CompletedAt s] \<and>
     list_all (\<lambda>m. \<not> is_nan_or_inf (m_Confidence m)) (s_MissingItems s) \<and>
     list_all (\<lambda>e. e_SubmissionID e = s_ID s) (s_Emails s) \<and> distinct (map e_DeterministicID (s_Emails s)) \<and>
     list_all (\<lambda>c. d_SubmissionID c = s_ID s \<and> d_ID c \<noteq> '''' \<and> d_Confidence c \<noteq> NaN \<and>
        (case d_ExtractedFields c of None \<Rightarrow> True | Some kvs \<Rightarrow> list_all (\<lambda>(k, v). json_ok v) kvs)) (s_Documents s) \<and>
     distinct (map d_ID (s_Documents s))"

definition fresh_in :: "db \<Rightarrow> submission \<Rightarrow> bool" where
  "fresh_in d s \<longleftrightarrow>
     s_ID s \<notin> set (map q_id (db_submissions d)) \<and>
     list_all (\<lambda>e. e_DeterministicID e \<notin> set (map e_DeterministicID (db_emails d))) (s_Emails s) \<and>
     list_all (\<lambda>c. d_ID c \<notin> set (map d_ID (db_documents d))) (s_Documents s)"

lemma time_of_nano_storable [simp]: "time_storable t \<Longrightarrow> time_of_nano (nanoOrZero t) = t"
  by (auto simp: time_storable_def)

lemma map_unix_nano_id: "(case t of None \<Rightarrow> True | Some n \<Rightarrow> in_int64 n) \<Longrightarrow> map_option unix_nano t = t"
  by (cases t) (simp_all add: unix_nano_def)

lemma scan_row_roundtrip:
  assumes "storable s"
  shows "scanSubmission (sub_row_of now s) = s\<lparr>s_Emails := [], s_Documents := []\<rparr>"
  using assms by (simp add: storable_def scanSubmission_def sub_row_of_def map_unix_nano_id)

lemma upsert_emails_stored:
  assumes "list_all (\<lambda>e. e_SubmissionID e \<in> sub_ids d) es" and "distinct (map e_DeterministicID es)"
  shows "upsert_emails es d = Inr (d\<lparr>db_emails := db_emails d @
    map email_row_of (filter (\<lambda>e. e_DeterministicID e \<notin> e_DeterministicID ` set (db_emails d)) es)\<rparr>)"
  using assms
proof (induction es arbitrary: d)
  case (Cons e es)
  let ?new = "\<lambda>d. filter (\<lambda>e. e_DeterministicID e \<notin> e_DeterministicID ` set (db_emails d))"
  show ?case
  proof (cases "e_DeterministicID e \<in> e_DeterministicID ` set (db_emails d)")
    case True
    then have "upsertEmailRow e d = Inl ErrDuplicateEmail" by (auto simp: upsertEmailRow_def list_ex_iff)
    then show ?thesis using Cons True by simp
  next
    case False
    let ?d = "d\<lparr>db_emails := db_emails d @ [email_row_of e]\<rparr>"
    have "upsertEmailRow e d = Inr ?d"
      using Cons.prems False by (auto simp: upsertEmailRow_def has_submission_iff list_ex_iff image_iff)
    moreover have "upsert_emails es ?d = Inr (?d\<lparr>db_emails := db_emails ?d @ map email_row_of (?new ?d es)\<rparr>)"
      using Cons.prems by (intro Cons.IH) (auto simp: sub_ids_def)
    moreover have "?new ?d es = ?new d es"
    proof (intro filter_cong refl)
      fix x assume "x \<in> set es"
      then have "e_DeterministicID x \<noteq> e_DeterministicID e" using Cons.prems(2) by (auto simp: image_iff)
      then show "(e_DeterministicID x \<notin> e_DeterministicID ` set (db_emails ?d)) = (e_DeterministicID x \<notin> e_DeterministicID ` set (db_emails d))"
        by simp
    qed
    ultimately show ?thesis using False by simp
  qed
qed simp

lemma upsert_documents_stored:
  assumes "list_all (\<lambda>c. d_SubmissionID c \<in> sub_ids d \<and> d_ID c \<noteq> '''' \<and> d_Confidence c \<noteq> NaN \<and>
      (case d_ExtractedFields c of None \<Rightarrow> True | Some kvs \<Rightarrow> list_all (\<lambda>(k, v). json_ok v) kvs)) cs"
  shows "upsert_documents cs d = Inr (d\<lparr>db_documents :=
    fold (\<lambda>c. upsert_by d_ID merge_document_row (document_row_of c)) cs (db_documents d)\<rparr>)"
  using assms
proof (induction cs arbitrary: d)
  case (Cons c cs)
  let ?d = "d\<lparr>db_documents := upsert_by d_ID merge_document_row (document_row_of c) (db_documents d)\<rparr>"
  have "upsertDocumentRow c d = Inr ?d" using Cons.prems by (simp add: upsertDocumentRow_def has_submission_iff)
  moreover have "upsert_documents cs ?d = Inr (?d\<lparr>db_documents :=
      fold (\<lambda>c. upsert_by d_ID merge_document_row (document_row_of c)) cs (db_documents ?d)\<rparr>)"
    using Cons.prems by (intro Cons.IH) (simp add: sub_ids_def)
  ultimately show ?case by simp
qed simp

lemma fold_documents_fresh:
  assumes "distinct (map d_ID cs)" and "list_all (\<lambda>c. d_ID c \<notin> d_ID ` set tbl) cs"
  shows "fold (\<lambda>c. upsert_by d_ID merge_document_row (document_row_of c)) cs tbl = tbl @ map document_row_of cs"
  using assms
proof (induction cs arbitrary: tbl)
  case (Cons c cs)
  then have "upsert_by d_ID merge_document_row (document_row_of c) tbl = tbl @ [document_row_of c]"
    by (auto simp: upsert_by_def list_ex_iff image_iff)
  moreover have "fold (\<lambda>c. upsert_by d_ID merge_document_row (document_row_of c)) cs (tbl @ [document_row_of c]) =
      (tbl @ [document_row_of c]) @ map document_row_of cs"
    using Cons.prems by (intro Cons.IH) (auto simp: list_all_iff, metis imageI)
  ultimately show ?case by simp
qed simp

lemma fold_documents_lookup:
  assumes "distinct (map d_ID cs)" and "c \<in> set cs"
  shows "lookup_by d_ID (d_ID c) (fold (\<lambda>c. upsert_by d_ID merge_document_row (document_row_of c)) cs tbl) =
    Some (case lookup_by d_ID (d_ID c) tbl of None \<Rightarrow> document_row_of c | Some o' \<Rightarrow> merge_document_row o' (document_row_of c))"
proof -
  have other: "lookup_by d_ID i (fold (\<lambda>c. upsert_by d_ID merge_document_row (document_row_of c)) xs t) = lookup_by d_ID i t"
    if "i \<notin> d_ID ` set xs" for i xs t
    using that by (induction xs arbitrary: t) (simp_all add: doc_t.lookup_upsert)
  show ?thesis using assms
  proof (induction cs arbitrary: tbl)
    case (Cons x cs)
    show ?case
    proof (cases "c = x")
      case True
      show ?thesis using Cons.prems(1) unfolding True by (simp add: doc_t.lookup_upsert other)
    next
      case False
      then have "c \<in> set cs" "d_ID c \<noteq> d_ID x" using False Cons.prems by (auto simp: image_iff)
      then show ?thesis using Cons.IH [of "upsert_by d_ID merge_document_row (document_row_of x) tbl"] Cons.prems(1)
        by (simp add: doc_t.lookup_upsert)
    qed
  qed simp
qed

text \<open>The database an upsert leaves; storing what fits its columns never fails.\<close>

lemma upsertSubmission_stored:
  assumes "storable s"
  shows "upsertSubmission now s d = Inr (d\<lparr>db_submissions := upsert_by q_id merge_sub_row (sub_row_of now s) (db_submissions d),
    db_emails := db_emails d @ map email_row_of (filter (\<lambda>e. e_DeterministicID e \<notin> e_DeterministicID ` set (db_emails d)) (s_Emails s)),
    db_documents := fold (\<lambda>c. upsert_by d_ID merge_document_row (document_row_of c)) (s_Documents s) (db_documents d)\<rparr>)"
proof -
  let ?d1 = "d\<lparr>db_submissions := upsert_by q_id merge_sub_row (sub_row_of now s) (db_submissions d)\<rparr>"
  let ?d2 = "?d1\<lparr>db_emails := db_emails ?d1 @ map email_row_of (filter (\<lambda>e. e_DeterministicID e \<notin> e_DeterministicID ` set (db_emails ?d1)) (s_Emails s))\<rparr>"
  have ids: "s_ID s \<in> sub_ids ?d1" by (simp add: sub_ids_upsert)
  have 1: "upsertSubmissionRow now s d = Inr ?d1"
    using assms by (auto simp: upsertSubmissionRow_def storable_def list_all_iff list_ex_iff)
  have 2: "upsert_emails (s_Emails s) ?d1 = Inr ?d2"
    using assms ids by (intro upsert_emails_stored) (auto simp: storable_def list_all_iff)
  have "s_ID s \<in> sub_ids ?d2" using ids by (simp add: sub_ids_def)
  then have "upsert_documents (s_Documents s) ?d2 = Inr (?d2\<lparr>db_documents :=
      fold (\<lambda>c. upsert_by d_ID merge_document_row (document_row_of c)) (s_Documents s) (db_documents ?d2)\<rparr>)"
    using assms by (intro upsert_documents_stored) (auto simp: storable_def list_all_iff)
  then show ?thesis using 1 2 assms by (simp add: upsertSubmission_def upsert_aggregate_def storable_def)
qed

lemma getByID_after_fresh_upsert:
  assumes "db_wf d" and "storable s" and "fresh_in d s" and "upsertSubmission now s d = Inr d'"
  shows "getByID (s_ID s) d' = Inr (s\<lparr>s_Emails := sort_key e_ReceivedAt (map email_row_of (s_Emails s)),
                                      s_Documents := sort_key d_CreatedAt (map document_row_of (s_Documents s))\<rparr>)"
proof -
  have "s_ID s \<notin> sub_ids d" using assms(3) by (simp add: fresh_in_def sub_ids_def)
  then have none: "lookup_by q_id (s_ID s) (db_submissions d) = None"
    "filter (\<lambda>e. e_SubmissionID e = s_ID s) (db_emails d) = []"
    "filter (\<lambda>c. d_SubmissionID c = s_ID s) (db_documents d) = []"
    using assms(1) unfolding db_wf_def by (auto simp: lookup_by_None filter_empty_conv simp flip: sub_ids_def)
  have own: "filter (\<lambda>e. e_SubmissionID e = s_ID s) (map email_row_of (s_Emails s)) = map email_row_of (s_Emails s)"
    "filter (\<lambda>c. d_SubmissionID c = s_ID s) (map document_row_of (s_Documents s)) = map document_row_of (s_Documents s)"
    using assms(2) by (auto simp: storable_def list_all_iff filter_id_conv)
  have fresh: "filter (\<lambda>e. e_DeterministicID e \<notin> e_DeterministicID ` set (db_emails d)) (s_Emails s) = s_Emails s"
    "fold (\<lambda>c. upsert_by d_ID merge_document_row (document_row_of c)) (s_Documents s) (db_documents d) =
       db_documents d @ map document_row_of (s_Documents s)"
    using assms(2,3) fold_documents_fresh [of "s_Documents s" "db_documents d"]
    by (auto simp: storable_def fresh_in_def list_all_iff filter_id_conv)
  have d': "lookup_by q_id (s_ID s) (db_submissions d') = Some (sub_row_of now s)"
    "db_emails d' = db_emails d @ map email_row_of (s_Emails s)" "db_documents d' = db_documents d @ map document_row_of (s_Documents s)"
    using assms(4) none(1) by (auto simp: upsertSubmission_stored [OF assms(2)] fresh sub_t.lookup_upsert)
  show ?thesis using none own scan_row_roundtrip [OF assms(2), of now] by (simp add: getByID_def loadEmails_def loadDocuments_def d')
qed

lemma getByID_after_upsert:
  assumes "storable s" and "getByID (s_ID s) d = Inr old" and "upsertSubmission now s d = Inr d'"
  shows "\<exists>es ds. getByID (s_ID s) d' = Inr (s\<lparr>s_CreatedAt := s_CreatedAt old, s_LastReplyAt := s_LastReplyAt old, s_OnHold := s_OnHold old,
      s_Emails := es, s_Documents := ds\<rparr>) \<and> es = loadEmails (s_ID s) d' \<and> ds = loadDocuments (s_ID s) d'"
proof -
  obtain r where r: "lookup_by q_id (s_ID s) (db_submissions d) = Some r"
    "s_CreatedAt old = q_created_at r" "s_LastReplyAt old = time_of_nano (q_last_reply_at r)" "s_OnHold old = q_on_hold r"
    using assms(2) by (auto simp: getByID_def scanSubmission_def split: option.splits)
  have "lookup_by q_id (s_ID s) (db_submissions d') = Some (merge_sub_row r (sub_row_of now s))"
    using assms(3) r(1) by (auto simp: upsertSubmission_stored [OF assms(1)] sub_t.lookup_upsert)
  moreover have "scanSubmission (merge_sub_row r (sub_row_of now s)) =
      (scanSubmission (sub_row_of now s))\<lparr>s_CreatedAt := s_CreatedAt old, s_LastReplyAt := s_LastReplyAt old, s_OnHold := s_OnHold old\<rparr>"
    using lookup_by_Some [OF r(1)] r(2-) by (simp add: scanSubmission_def merge_sub_row_def)
  ultimately show ?thesis using scan_row_roundtrip [OF assms(1), of now] by (simp add: getByID_def)
qed

text \<open>The document \<open>x\<close> has what an upsert of \<open>c\<close> writes whether or not \<open>c\<close> was stored before.\<close>

definition refreshes :: "document \<Rightarrow> document \<Rightarrow> bool" where
  "refreshes c x \<longleftrightarrow> d_ID x = d_ID c \<and> d_ClassifiedAs x = d_ClassifiedAs c \<and> d_Confidence x = d_Confidence c \<and>
     d_ClassifiedBy x = d_ClassifiedBy c \<and> d_ExtractedText x = d_ExtractedText c \<and>
     d_ExtractedFields x = fields_column (d_ExtractedFields c) \<and> d_Unreadable x = d_Unreadable c \<and> d_Encrypted x = d_Encrypted c"

lemma refreshes_upserted:
  assumes "lookup_by d_ID (d_ID c) tbl = o'"
  shows "refreshes c (case o' of None \<Rightarrow> document_row_of c | Some x \<Rightarrow> merge_document_row x (document_row_of c))"
  using assms by (auto simp: refreshes_def document_row_of_eq merge_document_row_def split: option.split dest!: lookup_by_Some)

lemma upsert_again:
  assumes "storable s" and "getByID (s_ID s) d = Inr old" and "upsertSubmission now s d = Inr d'"
  shows "\<exists>es ds. getByID (s_ID s) d' = Inr (s\<lparr>s_CreatedAt := s_CreatedAt old, s_LastReplyAt := s_LastReplyAt old,
      s_OnHold := s_OnHold old, s_Emails := es, s_Documents := ds\<rparr>) \<and>
    set es = set (s_Emails old) \<union> email_row_of ` {e \<in> set (s_Emails s). e_DeterministicID e \<notin> e_DeterministicID ` set (db_emails d)} \<and>
    (\<forall>c\<in>set (s_Documents s). (\<forall>o'\<in>set (db_documents d). d_ID o' = d_ID c \<longrightarrow> d_SubmissionID o' = s_ID s) \<longrightarrow>
       (\<exists>x\<in>set ds. refreshes c x))"
proof -
  have d': "db_emails d' = db_emails d @ map email_row_of (filter (\<lambda>e. e_DeterministicID e \<notin> e_DeterministicID ` set (db_emails d)) (s_Emails s))"
    "db_documents d' = fold (\<lambda>c. upsert_by d_ID merge_document_row (document_row_of c)) (s_Documents s) (db_documents d)"
    using assms(3) by (auto simp: upsertSubmission_stored [OF assms(1)])
  have "s_Emails old = loadEmails (s_ID s) d" using assms(2) by (auto simp: getByID_def split: option.splits)
  then have mails: "set (loadEmails (s_ID s) d') = set (s_Emails old) \<union>
      email_row_of ` {e \<in> set (s_Emails s). e_DeterministicID e \<notin> e_DeterministicID ` set (db_emails d)}"
    using assms(1) by (auto simp: loadEmails_def d' storable_def list_all_iff)
  have docs: "\<exists>x\<in>set (loadDocuments (s_ID s) d'). refreshes c x"
    if c: "c \<in> set (s_Documents s)" and own: "\<forall>o'\<in>set (db_documents d). d_ID o' = d_ID c \<longrightarrow> d_SubmissionID o' = s_ID s" for c
  proof -
    define x where "x = (case lookup_by d_ID (d_ID c) (db_documents d) of None \<Rightarrow> document_row_of c | Some o' \<Rightarrow> merge_document_row o' (document_row_of c))"
    have "lookup_by d_ID (d_ID c) (db_documents d') = Some x"
      using fold_documents_lookup [OF _ c] assms(1) by (simp add: d' x_def storable_def)
    then have "x \<in> set (db_documents d')" by (rule lookup_by_Some [THEN conjunct1])
    moreover have "d_SubmissionID x = s_ID s"
      using assms(1) c own by (auto simp: x_def storable_def list_all_iff split: option.split dest!: lookup_by_Some)
    ultimately show ?thesis using refreshes_upserted [OF refl, of c "db_documents d"] by (auto simp: loadDocuments_def x_def)
  qed
  show ?thesis using getByID_after_upsert [OF assms] mails docs by blast
qed

section \<open>Concurrent toggles survive an upsert\<close>

text \<open>The emails and documents of a transaction look at the submissions table for foreign keys only.\<close>

lemma upsertEmailRow_other_subs:
  assumes "q_id ` set t = sub_ids d"
  shows "upsertEmailRow e (d\<lparr>db_submissions := t\<rparr>) = map_sum (\<lambda>x. x) (\<lambda>d'. d'\<lparr>db_submissions := t\<rparr>) (upsertEmailRow e d)"
  using assms by (simp add: upsertEmailRow_def has_submission_iff sub_ids_def)

lemma upsertEmailRow_subs: "upsertEmailRow e d = Inr d' \<Longrightarrow> db_submissions d' = db_submissions d"
  by (auto simp: upsertEmailRow_def split: if_splits)

lemma upsertDocumentRow_other_subs:
  assumes "q_id ` set t = sub_ids d"
  shows "upsertDocumentRow c (d\<lparr>db_submissions := t\<rparr>) = map_sum (\<lambda>x. x) (\<lambda>d'. d'\<lparr>db_submissions := t\<rparr>) (upsertDocumentRow c d)"
  using assms by (simp add: upsertDocumentRow_def has_submission_iff sub_ids_def)

lemma upsertDocumentRow_subs: "upsertDocumentRow c d = Inr d' \<Longrightarrow> db_submissions d' = db_submissions d"
  by (auto simp: upsertDocumentRow_def split: if_splits)

lemma upsert_emails_other_subs:
  "q_id ` set t = sub_ids d \<Longrightarrow>
   upsert_emails es (d\<lparr>db_submissions := t\<rparr>) = map_sum (\<lambda>x. x) (\<lambda>d'. d'\<lparr>db_submissions := t\<rparr>) (upsert_emails es d)"
proof (induction es arbitrary: d)
  case (Cons e es)
  show ?case
  proof (cases "upsertEmailRow e d")
    case (Inl err)
    then show ?thesis using Cons by (cases err) (simp_all add: upsertEmailRow_other_subs)
  next
    case (Inr d1)
    then have "sub_ids d1 = sub_ids d" using upsertEmailRow_subs by (simp add: sub_ids_def)
    then show ?thesis using Cons Inr by (simp add: upsertEmailRow_other_subs)
  qed
qed simp

lemma upsert_emails_subs: "upsert_emails es d = Inr d' \<Longrightarrow> db_submissions d' = db_submissions d"
proof (induction es arbitrary: d)
  case (Cons e es)
  then show ?case by (auto split: sum.splits error.splits dest: upsertEmailRow_subs)
qed simp

lemma upsert_documents_other_subs:
  "q_id ` set t = sub_ids d \<Longrightarrow>
   upsert_documents cs (d\<lparr>db_submissions := t\<rparr>) = map_sum (\<lambda>x. x) (\<lambda>d'. d'\<lparr>db_submissions := t\<rparr>) (upsert_documents cs d)"
proof (induction cs arbitrary: d)
  case (Cons c cs)
  show ?case
  proof (cases "upsertDocumentRow c d")
    case (Inl err)
    then show ?thesis using Cons by (simp add: upsertDocumentRow_other_subs)
  next
    case (Inr d1)
    then have "sub_ids d1 = sub_ids d" using upsertDocumentRow_subs by (simp add: sub_ids_def)
    then show ?thesis using Cons Inr by (simp add: upsertDocumentRow_other_subs)
  qed
qed simp

lemma upsert_documents_subs: "upsert_documents cs d = Inr d' \<Longrightarrow> db_submissions d' = db_submissions d"
  by (induction cs arbitrary: d) (auto split: sum.splits dest: upsertDocumentRow_subs)

lemma update_where_commute:
  "(\<And>r. q (f r) = q r) \<Longrightarrow> (\<And>r. p (g r) = p r) \<Longrightarrow> (\<And>r. g (f r) = f (g r)) \<Longrightarrow>
   update_where q g (update_where p f tbl) = update_where p f (update_where q g tbl)"
  by (simp add: update_where_def)

text \<open>An update of the submissions table that commutes with the merge commutes with the transaction.\<close>

lemma upsert_commutes_update:
  assumes up: "upsertSubmission now s d = Inr d1" and old: "s_ID s \<in> sub_ids d"
    and key: "\<And>r. q_id (f r) = q_id r" and merge: "\<And>r n. merge_sub_row (f r) n = f (merge_sub_row r n)"
    and p: "\<And>r n. p (merge_sub_row r n) = p r"
  shows "upsertSubmission now s (update_sub p f d) = Inr (update_sub p f d1)"
proof -
  let ?t = "update_where p f (db_submissions d)"
  let ?u = "upsert_by q_id merge_sub_row (sub_row_of now s)"
  obtain e1 e2 where s1: "upsertSubmissionRow now s d = Inr e1" and s2: "upsert_emails (s_Emails s) e1 = Inr e2"
    and s3: "upsert_documents (s_Documents s) e2 = Inr d1" and ne: "s_ID s \<noteq> ''''"
    using up by (auto simp: upsertSubmission_def upsert_aggregate_def split: if_splits sum.splits)
  have e1: "e1 = d\<lparr>db_submissions := ?u (db_submissions d)\<rparr>" by (rule upsertSubmissionRow_Inr [OF s1])
  have ids: "q_id ` set ?t = sub_ids d" unfolding sub_ids_def by (rule image_update_where) (rule key)
  have comm: "?u ?t = update_where p f (?u (db_submissions d))"
    using old ids unfolding upsert_by_def list_ex_key sub_ids_def
    by (simp add: update_where_commute key merge p sub_t.key_merge)
  have "sub_ids e1 = sub_ids d" using old sub_ids_upsert [where d = d] by (auto simp: e1)
  moreover have "sub_ids e2 = sub_ids e1" using upsert_emails_subs [OF s2] by (simp add: sub_ids_def)
  moreover have uids: "q_id ` set (?u ?t) = sub_ids e1"
    unfolding comm e1 sub_ids_def using image_update_where [where k = q_id, OF key] by simp
  ultimately have 2: "upsert_emails (s_Emails s) (e1\<lparr>db_submissions := ?u ?t\<rparr>) = Inr (e2\<lparr>db_submissions := ?u ?t\<rparr>)"
    and 3: "upsert_documents (s_Documents s) (e2\<lparr>db_submissions := ?u ?t\<rparr>) = Inr (d1\<lparr>db_submissions := ?u ?t\<rparr>)"
    using s2 s3 by (simp_all add: upsert_emails_other_subs upsert_documents_other_subs)
  have 1: "upsertSubmissionRow now s (update_sub p f d) = Inr (e1\<lparr>db_submissions := ?u ?t\<rparr>)"
    using s1 by (auto simp: upsertSubmissionRow_def update_sub_def split: if_splits)
  have "db_submissions d1 = ?u (db_submissions d)"
    using upsert_documents_subs [OF s3] upsert_emails_subs [OF s2] e1 by simp
  then have "d1\<lparr>db_submissions := ?u ?t\<rparr> = update_sub p f d1" by (simp add: update_sub_def comm)
  then show ?thesis using 1 2 3 ne by (simp add: upsertSubmission_def upsert_aggregate_def)
qed

lemma upsert_commutes_hold:
  assumes "upsertSubmission now s d = Inr d1" and "s_ID s \<in> sub_ids d"
  shows "upsertSubmission now s (setOnHold ids b d) = Inr (setOnHold ids b d1)"
  using upsert_commutes_update [OF assms, of "\<lambda>r. r\<lparr>q_on_hold := b\<rparr>" "\<lambda>r. q_id r \<in> set ids"] assms(1)
  by (auto simp: setOnHold_def merge_sub_row_def)

lemma upsert_commutes_last_reply:
  assumes "upsertSubmission now s d = Inr d1" and "s_ID s \<in> sub_ids d"
  shows "upsertSubmission now s (setLastReplyAt i t d) = Inr (setLastReplyAt i t d1)"
  using upsert_commutes_update [OF assms, of "\<lambda>r. r\<lparr>q_last_reply_at := nanoOrZero t\<rparr>" "\<lambda>r. q_id r = i"]
  by (auto simp: setLastReplyAt_def merge_sub_row_def)

section \<open>Stored messages are final\<close>

lemma upsertEmailRow_emails: "upsertEmailRow e d = Inr d' \<Longrightarrow> set (db_emails d) \<subseteq> set (db_emails d')"
  by (auto simp: upsertEmailRow_def split: if_splits)

lemma upsert_emails_emails: "upsert_emails es d = Inr d' \<Longrightarrow> set (db_emails d) \<subseteq> set (db_emails d')"
proof (induction es arbitrary: d)
  case (Cons e es)
  then show ?case by (auto split: sum.splits error.splits dest!: upsertEmailRow_emails)
qed simp

lemma upsertDocumentRow_emails: "upsertDocumentRow c d = Inr d' \<Longrightarrow> db_emails d' = db_emails d"
  by (auto simp: upsertDocumentRow_def split: if_splits)

lemma upsert_documents_emails: "upsert_documents cs d = Inr d' \<Longrightarrow> db_emails d' = db_emails d"
  by (induction cs arbitrary: d) (auto split: sum.splits dest: upsertDocumentRow_emails)

lemma upsert_aggregate_emails:
  assumes "upsert_aggregate now s d = Inr d'"
  shows "set (db_emails d) \<subseteq> set (db_emails d')"
proof -
  obtain d1 d2 where "upsertSubmissionRow now s d = Inr d1" "upsert_emails (s_Emails s) d1 = Inr d2"
    "upsert_documents (s_Documents s) d2 = Inr d'"
    using assms by (auto simp: upsert_aggregate_def split: sum.splits)
  then show ?thesis
    using upsertSubmissionRow_Inr upsert_emails_emails upsert_documents_emails by fastforce
qed

lemma db_step_emails: "db_step d d' \<Longrightarrow> set (db_emails d) \<subseteq> set (db_emails d')"
proof (induction rule: db_step.induct)
  case (upsert now s d d')
  then show ?case using upsert_aggregate_emails by (simp add: upsertSubmission_def split: if_splits)
next
  case (upsert_with_reply uid now s e d e' d')
  then show ?case by (elim upsertSubmissionWithReply_Inr) (use upsert_aggregate_emails in simp)
next
  case (email e d d')
  then show ?case using upsertEmailRow_emails by (simp add: upsertEmail_def)
qed (simp_all add: setLastReplyAt_def clearReplyHash_def setOnHold_def update_sub_def clearExtractedTextForClosed_def Let_def)

lemma db_steps_emails: "db_step\<^sup>*\<^sup>* d d' \<Longrightarrow> set (db_emails d) \<subseteq> set (db_emails d')"
  by (induction rule: rtranclp_induct) (auto dest: db_step_emails)

lemma db_steps_reachable: "db_step\<^sup>*\<^sup>* d d' \<Longrightarrow> db_reachable d \<Longrightarrow> db_reachable d'"
  by (induction rule: rtranclp_induct) (auto intro: db_reachable.step)

lemma getByID_known: "i \<in> sub_ids d \<Longrightarrow> \<exists>s. getByID i d = Inr s \<and> s_ID s = i"
proof -
  assume "i \<in> sub_ids d"
  then obtain r where r: "lookup_by q_id i (db_submissions d) = Some r"
    by (cases "lookup_by q_id i (db_submissions d)") (auto simp: lookup_by_None sub_ids_def)
  then show ?thesis using lookup_by_Some [OF r] by (simp add: getByID_def scanSubmission_def)
qed

lemma email_lookup:
  assumes "db_wf d" and "e \<in> set (db_emails d)" and "e_DeterministicID e \<noteq> ''''"
  shows "\<exists>s. findByDeterministicID (e_DeterministicID e) d = Inr s \<and> s_ID s = e_SubmissionID e"
proof -
  have "lookup_by e_DeterministicID (e_DeterministicID e) (db_emails d) = Some e"
    using assms by (intro lookup_by_distinct) (auto simp: db_wf_def)
  moreover have "e_SubmissionID e \<in> sub_ids d" using assms(1,2) by (auto simp: db_wf_def)
  ultimately show ?thesis using getByID_known assms(3) by (simp add: findByDeterministicID_def)
qed

section \<open>Thread matches and sweep queries\<close>

lemma in_findSubmissionIDsByRefs:
  "i \<in> set (findSubmissionIDsByRefs refs d) \<longleftrightarrow>
     (\<exists>e\<in>set (db_emails d). e_SubmissionID e = i \<and> (e_MessageID e \<in> set refs \<or> e_InReplyTo e \<in> set refs))"
  by (auto simp: findSubmissionIDsByRefs_def)

lemma sorted_last_max: "sorted (map k xs) \<Longrightarrow> x \<in> set xs \<Longrightarrow> k x \<le> k (last xs)"
  by (induction xs) auto

lemma pickMostRecentlyUpdated_max:
  assumes "pickMostRecentlyUpdated ids d = Inr i"
  shows "\<exists>r\<in>set (db_submissions d). q_id r = i \<and> i \<in> set ids \<and>
           (\<forall>q\<in>set (db_submissions d). q_id q \<in> set ids \<longrightarrow>
              q_updated_at q < q_updated_at r \<or> (q_updated_at q = q_updated_at r \<and> q_id q \<le> q_id r))"
proof -
  let ?k = "\<lambda>r. (q_updated_at r, q_id r)"
  let ?rows = "sort_key ?k (filter (\<lambda>r. q_id r \<in> set ids) (db_submissions d))"
  have ne: "?rows \<noteq> []" and i: "i = q_id (last ?rows)"
    using assms by (auto simp: pickMostRecentlyUpdated_def split: list.splits)
  have last: "last ?rows \<in> set ?rows" using ne by (rule last_in_set)
  have max: "?k q \<le> ?k (last ?rows)" if "q \<in> set ?rows" for q using that by (intro sorted_last_max) simp_all
  have "q_updated_at q < q_updated_at (last ?rows) \<or> (q_updated_at q = q_updated_at (last ?rows) \<and> q_id q \<le> q_id (last ?rows))"
    if "q \<in> set (db_submissions d)" "q_id q \<in> set ids" for q
    using max [of q] that by (auto simp: less_eq_prod_def)
  then show ?thesis using last i by auto
qed

lemma in_list_query:
  "s \<in> set (list_query p k n d) \<Longrightarrow> \<exists>r\<in>set (db_submissions d). p r \<and> s = scanSubmission r"
  unfolding list_query_def using in_order_limit by fastforce

lemma list_query_complete:
  "length (filter p (db_submissions d)) \<le> nat n \<Longrightarrow>
   set (list_query p k n d) = scanSubmission ` {r \<in> set (db_submissions d). p r}"
  unfolding list_query_def by (simp add: order_limit_all)

lemma scanSubmission_simps [simp]:
  "s_ID (scanSubmission r) = q_id r" "s_State (scanSubmission r) = q_state r" "s_OnHold (scanSubmission r) = q_on_hold r"
  "s_DeliveryFailed (scanSubmission r) = q_delivery_failed r" "s_LastActionAt (scanSubmission r) = q_last_action_at r"
  "s_EffectiveDate (scanSubmission r) = q_effective_date r" "s_CompletedAt (scanSubmission r) = q_completed_at r"
  "s_EscalatedAt (scanSubmission r) = q_escalated_at r" "s_UpdatedAt (scanSubmission r) = q_updated_at r"
  "s_LastEscalatedAt (scanSubmission r) = q_last_escalated_at r"
  by (simp_all add: scanSubmission_def)

lemma sweep_rows_not_held:
  "s \<in> set (listStale t n d) \<Longrightarrow> \<not> s_OnHold s \<and> \<not> s_DeliveryFailed s \<and> s_State s = StateAwaiting \<and> s_LastActionAt s < t"
  "s \<in> set (listBindSoon t u n d) \<Longrightarrow> \<not> s_OnHold s \<and> \<not> s_DeliveryFailed s \<and> s_State s = StateAwaiting \<and>
     (\<exists>x. s_EffectiveDate s = Some x \<and> t \<le> x \<and> x \<le> u)"
  "s \<in> set (listStalledBefore t n d) \<Longrightarrow> \<not> s_OnHold s \<and> (s_State s = StateAwaiting \<or> s_State s = StateOpen) \<and> s_LastActionAt s < t"
  "s \<in> set (listCompletedBefore t n d) \<Longrightarrow> \<not> s_OnHold s \<and> s_State s = StateComplete \<and> (\<exists>x. s_CompletedAt s = Some x \<and> x < t)"
  "s \<in> set (listEscalatedSince t n d) \<Longrightarrow> \<not> s_OnHold s \<and> s_State s = StateEscalated \<and> (\<exists>x. s_EscalatedAt s = Some x \<and> t \<le> x)"
  unfolding listStale_def listBindSoon_def listStalledBefore_def listCompletedBefore_def listEscalatedSince_def
  by (drule in_list_query; auto simp: stale_row_def bind_soon_row_def stalled_row_def completed_before_def escalated_since_def split: option.splits)+

section \<open>Properties\<close>

text \<open>
  C11. Keys and foreign keys: in every database the repositories can produce, primary keys are unique
  in each table, at most one reply per submission is pending, and every email, document and queued
  reply belongs to a stored submission.
\<close>

theorem database_integrity:
  assumes "db_reachable d"
  shows "distinct (map q_id (db_submissions d)) \<and> distinct (map e_DeterministicID (db_emails d)) \<and>
         distinct (map d_ID (db_documents d)) \<and> distinct (map ob_id (db_outbox d)) \<and>
         distinct (map ob_submission_id (filter (\<lambda>r. ob_status r = OutboxPending) (db_outbox d))) \<and>
         (\<forall>e\<in>set (db_emails d). has_submission d (e_SubmissionID e)) \<and>
         (\<forall>c\<in>set (db_documents d). has_submission d (d_SubmissionID c)) \<and>
         (\<forall>r\<in>set (db_outbox d). has_submission d (ob_submission_id r))"
  using db_reachable_wf [OF assms] by (auto simp: db_wf_def ob.wf_def has_submission_iff)

definition stored_sub :: submission where
  "stored_sub = sample_sub\<lparr>s_State := StateAwaiting, s_NamedInsured := ''Acme'', s_Emails := [sample_email]\<rparr>"

definition sample_db :: db where
  "sample_db = \<lparr>db_submissions = [sub_row_of 1 stored_sub], db_emails = [email_row_of sample_email],
                db_documents = [], db_outbox = []\<rparr>"

lemma stored_sub_storable: "storable stored_sub"
  by (simp add: storable_def stored_sub_def sample_sub_def newSubmission_def time_storable_def in_int64_def sample_email_def)

lemma stored_sub_fresh: "fresh_in empty_db stored_sub"
  by (simp add: fresh_in_def empty_db_def stored_sub_def sample_sub_def newSubmission_def)

lemma sample_db_upsert: "upsertSubmission 1 stored_sub empty_db = Inr sample_db"
  using upsertSubmission_stored [OF stored_sub_storable, of 1 empty_db]
  by (simp add: sample_db_def empty_db_def upsert_by_def) (simp add: stored_sub_def sample_sub_def newSubmission_def)

lemma sample_db_reachable: "db_reachable sample_db"
  by (rule db_reachable.step [OF db_reachable.empty db_step.upsert [OF sample_db_upsert]])

theorem database_integrity_witness: "has_submission sample_db (e_SubmissionID (email_row_of sample_email))"
  using database_integrity [OF sample_db_reachable] by (simp add: sample_db_def)

text \<open>
  C25. Round trip. Storing a submission whose values fit its columns always succeeds. Stored for the first time it is read back by
  \<open>GetByID\<close> exactly, with every field of its emails and documents: the emails in order of receipt and without attachment contents, the
  documents in order of creation with the numbers among their extracted fields as \<open>float64\<close>. Stored again it is read back with the
  time of creation, the time of the last reply and the hold flag that were stored before and everything else as given; its emails are those
  stored before and those given with a new id, and each given document whose id is not another submission's has the classification, the
  text and the fields given.
\<close>

theorem submission_round_trip:
  assumes "db_reachable d" and "storable s"
  shows "\<exists>d'. upsertSubmission now s d = Inr d' \<and>
    (fresh_in d s \<longrightarrow>
       getByID (s_ID s) d' = Inr (s\<lparr>
         s_Emails := sort_key e_ReceivedAt (map (\<lambda>e. e\<lparr>e_Attachments := map (\<lambda>a. a\<lparr>t_Content := ''''\<rparr>) (e_Attachments e),
                                                        e_ReceivedAt := unix_nano (e_ReceivedAt e)\<rparr>) (s_Emails s)),
         s_Documents := sort_key d_CreatedAt (map (\<lambda>c. c\<lparr>d_ExtractedFields := fields_column (d_ExtractedFields c),
                                                           d_CreatedAt := unix_nano (d_CreatedAt c)\<rparr>) (s_Documents s))\<rparr>)) \<and>
    (\<forall>old. getByID (s_ID s) d = Inr old \<longrightarrow>
       (\<exists>es ds. getByID (s_ID s) d' = Inr (s\<lparr>s_CreatedAt := s_CreatedAt old, s_LastReplyAt := s_LastReplyAt old, s_OnHold := s_OnHold old,
                                              s_Emails := es, s_Documents := ds\<rparr>) \<and>
          set es = set (s_Emails old) \<union> (\<lambda>e. e\<lparr>e_Attachments := map (\<lambda>a. a\<lparr>t_Content := ''''\<rparr>) (e_Attachments e),
                                                e_ReceivedAt := unix_nano (e_ReceivedAt e)\<rparr>) `
                     {e \<in> set (s_Emails s). e_DeterministicID e \<notin> e_DeterministicID ` set (db_emails d)} \<and>
          (\<forall>c\<in>set (s_Documents s). (\<forall>o'\<in>set (db_documents d). d_ID o' = d_ID c \<longrightarrow> d_SubmissionID o' = s_ID s) \<longrightarrow>
             (\<exists>x\<in>set ds. d_ID x = d_ID c \<and> d_ClassifiedAs x = d_ClassifiedAs c \<and> d_Confidence x = d_Confidence c \<and>
                d_ClassifiedBy x = d_ClassifiedBy c \<and> d_ExtractedText x = d_ExtractedText c \<and>
                d_ExtractedFields x = fields_column (d_ExtractedFields c) \<and> d_Unreadable x = d_Unreadable c \<and> d_Encrypted x = d_Encrypted c))))"
proof -
  note stored = upsertSubmission_stored [OF assms(2), of now d]
  then obtain d' where up: "upsertSubmission now s d = Inr d'" by blast
  have fresh: "fresh_in d s \<longrightarrow> getByID (s_ID s) d' = Inr (s\<lparr>s_Emails := sort_key e_ReceivedAt (map email_row_of (s_Emails s)),
      s_Documents := sort_key d_CreatedAt (map document_row_of (s_Documents s))\<rparr>)"
    using getByID_after_fresh_upsert [OF db_reachable_wf [OF assms(1)] assms(2) _ up] by blast
  have again: "\<exists>es ds. getByID (s_ID s) d' = Inr (s\<lparr>s_CreatedAt := s_CreatedAt old, s_LastReplyAt := s_LastReplyAt old,
      s_OnHold := s_OnHold old, s_Emails := es, s_Documents := ds\<rparr>) \<and>
    set es = set (s_Emails old) \<union> email_row_of ` {e \<in> set (s_Emails s). e_DeterministicID e \<notin> e_DeterministicID ` set (db_emails d)} \<and>
    (\<forall>c\<in>set (s_Documents s). (\<forall>o'\<in>set (db_documents d). d_ID o' = d_ID c \<longrightarrow> d_SubmissionID o' = s_ID s) \<longrightarrow>
       (\<exists>x\<in>set ds. refreshes c x))"
    if old: "getByID (s_ID s) d = Inr old" for old
    by (rule upsert_again [OF assms(2) old up])
  show ?thesis using up fresh again unfolding email_row_of_eq [abs_def] document_row_of_eq [abs_def] refreshes_def by blast
qed

lemma sample_db_get: "getByID ''s1'' sample_db = Inr ((scanSubmission (sub_row_of 1 stored_sub))\<lparr>s_Emails := [email_row_of sample_email]\<rparr>)"
  by (simp add: getByID_def sample_db_def lookup_by_def loadEmails_def loadDocuments_def)
    (simp add: stored_sub_def sample_sub_def newSubmission_def sample_email_def email_row_of_eq scanSubmission_def)

theorem submission_round_trip_witness:
  "(\<exists>d'. upsertSubmission 1 stored_sub empty_db = Inr d' \<and> \<not> isl (getByID ''s1'' d')) \<and>
   (\<exists>d' s'. upsertSubmission 2 (stored_sub\<lparr>s_State := StateComplete, s_OnHold := True\<rparr>) sample_db = Inr d' \<and> getByID ''s1'' d' = Inr s' \<and>
      s_State s' = StateComplete \<and> \<not> s_OnHold s' \<and> set (s_Emails s') = {email_row_of sample_email})"
proof -
  let ?s = "stored_sub\<lparr>s_State := StateComplete, s_OnHold := True\<rparr>"
  let ?old = "(scanSubmission (sub_row_of 1 stored_sub))\<lparr>s_Emails := [email_row_of sample_email]\<rparr>"
  have st: "storable ?s" using stored_sub_storable by (simp add: storable_def)
  have ids: "s_ID stored_sub = ''s1''" "s_Emails stored_sub = [sample_email]" "s_OnHold ?old = False"
    by (simp_all add: stored_sub_def sample_sub_def newSubmission_def scanSubmission_def sub_row_of_def)
  have first: "\<exists>d'. upsertSubmission 1 stored_sub empty_db = Inr d' \<and> \<not> isl (getByID ''s1'' d')"
    using submission_round_trip [OF db_reachable.empty stored_sub_storable, of 1] stored_sub_fresh ids(1) by fastforce
  have "e_DeterministicID sample_email \<in> e_DeterministicID ` set (db_emails sample_db)" by (simp add: sample_db_def)
  then show ?thesis using submission_round_trip [OF sample_db_reachable st, of 2] sample_db_get ids first by fastforce
qed

text \<open>
  C27. A repeated upsert of a submission loaded earlier cannot undo what others own: a hold toggle and
  the recorded time of a reply commute with it, whichever comes first.
\<close>

theorem upsert_commutes_with_toggles:
  assumes "upsertSubmission now s d = Inr d1" and "has_submission d (s_ID s)"
  shows "upsertSubmission now s (setOnHold ids b d) = Inr (setOnHold ids b d1) \<and>
         upsertSubmission now s (setLastReplyAt i t d) = Inr (setLastReplyAt i t d1)"
  using upsert_commutes_hold [OF assms(1)] upsert_commutes_last_reply [OF assms(1)] assms(2)
  by (simp add: has_submission_iff)

lemma sample_db_again: "upsertSubmission 2 (stored_sub\<lparr>s_Emails := []\<rparr>) sample_db =
    Inr (sample_db\<lparr>db_submissions := [merge_sub_row (sub_row_of 1 stored_sub) (sub_row_of 2 (stored_sub\<lparr>s_Emails := []\<rparr>))]\<rparr>)"
  by (simp add: upsertSubmission_def upsert_aggregate_def upsertSubmissionRow_def upsert_by_def update_where_def
      sample_db_def stored_sub_def sample_sub_def newSubmission_def)

lemma sample_db_has: "has_submission sample_db (s_ID (stored_sub\<lparr>s_Emails := []\<rparr>))"
  by (simp add: has_submission_def sample_db_def)

theorem upsert_commutes_with_toggles_witness:
  "\<exists>d1. upsertSubmission 2 (stored_sub\<lparr>s_Emails := []\<rparr>) (setOnHold [''s1''] True sample_db) = Inr (setOnHold [''s1''] True d1)"
  by (rule exI, rule upsert_commutes_with_toggles [OF sample_db_again sample_db_has, THEN conjunct1])

text \<open>
  A stored message is final: whatever is written afterwards, it stays stored, storing any message
  with its deterministic id again is reported as a duplicate and changes nothing, and looking the id
  up finds the submission it was filed under.
\<close>

theorem stored_message_is_final:
  assumes "db_reachable d" and "e \<in> set (db_emails d)" and "db_step\<^sup>*\<^sup>* d d'"
    and "e_DeterministicID e' = e_DeterministicID e" and "e_DeterministicID e \<noteq> ''''"
  shows "e \<in> set (db_emails d') \<and> upsertEmail e' d' = Inl ErrDuplicateEmail \<and>
         (\<exists>s. findByDeterministicID (e_DeterministicID e') d' = Inr s \<and> s_ID s = e_SubmissionID e)"
proof -
  have wf: "db_wf d'" by (rule db_reachable_wf [OF db_steps_reachable [OF assms(3,1)]])
  have mem: "e \<in> set (db_emails d')" using db_steps_emails [OF assms(3)] assms(2) by blast
  then have "upsertEmail e' d' = Inl ErrDuplicateEmail"
    using assms(4) by (auto simp: upsertEmail_def upsertEmailRow_def list_ex_iff)
  then show ?thesis using mem email_lookup [OF wf mem assms(5)] assms(4) by simp
qed

theorem stored_message_is_final_witness:
  "upsertEmail sample_email (setOnHold [''s1''] True sample_db) = Inl ErrDuplicateEmail"
  using stored_message_is_final [OF sample_db_reachable, of "email_row_of sample_email" "setOnHold [''s1''] True sample_db" sample_email]
    db_step.hold [of sample_db "[''s1'']" True]
  by (simp add: sample_db_def r_into_rtranclp) (simp add: sample_email_def)

text \<open>
  Threading by headers: a match of \<open>FindByEmailReference\<close> is a submission one of whose stored
  messages has its Message-ID or In-Reply-To among the given references; the result is flagged
  ambiguous exactly when several submissions match, and then it is one updated last, the greater id
  winning a tie.
\<close>

theorem thread_match_most_recent:
  assumes "findByEmailReference refs d = Inr (s, ambiguous)"
  defines "matched \<equiv> {i. \<exists>e\<in>set (db_emails d). e_SubmissionID e = i \<and>
             (e_MessageID e \<in> set (nonEmpty refs) \<or> e_InReplyTo e \<in> set (nonEmpty refs))}"
  shows "s_ID s \<in> matched \<and> (ambiguous \<longleftrightarrow> (\<exists>i\<in>matched. i \<noteq> s_ID s)) \<and>
         (ambiguous \<longrightarrow> (\<exists>r\<in>set (db_submissions d). q_id r = s_ID s \<and>
            (\<forall>q\<in>set (db_submissions d). q_id q \<in> matched \<longrightarrow>
               q_updated_at q < q_updated_at r \<or> (q_updated_at q = q_updated_at r \<and> q_id q \<le> q_id r))))"
proof -
  let ?ids = "findSubmissionIDsByRefs (nonEmpty refs) d"
  have m: "matched = set ?ids" unfolding matched_def by (simp add: in_findSubmissionIDsByRefs set_eq_iff)
  have dist: "distinct ?ids" by (simp add: findSubmissionIDsByRefs_def)
  obtain x xs where ids: "?ids = x # xs" using assms(1) by (cases ?ids) (auto simp: findByEmailReference_def Let_def split: if_splits)
  have refs: "nonEmpty refs \<noteq> []" using assms(1) by (auto simp: findByEmailReference_def Let_def)
  let ?pick = "if xs \<noteq> [] then pickMostRecentlyUpdated (x # xs) d else Inr x"
  have res: "findByEmailReference refs d = (case ?pick of Inl err \<Rightarrow> Inl err
      | Inr best \<Rightarrow> map_sum id (\<lambda>s. (s, xs \<noteq> [])) (getByID best d))"
    using refs ids by (simp add: findByEmailReference_def Let_def)
  obtain best where best: "?pick = Inr best" using assms(1) unfolding res by (cases ?pick) simp_all
  have get: "getByID best d = Inr s" and amb: "ambiguous = (xs \<noteq> [])"
    using assms(1) unfolding res best by (cases "getByID best d"; simp)+
  have sid: "s_ID s = best" using get by (auto simp: getByID_def split: option.splits dest: lookup_by_Some)
  show ?thesis
  proof (cases "xs = []")
    case True
    then show ?thesis using best sid amb ids m by simp
  next
    case False
    then have "pickMostRecentlyUpdated ?ids d = Inr best" using best ids by simp
    from pickMostRecentlyUpdated_max [OF this]
    have "best \<in> set ?ids \<and> (\<exists>r\<in>set (db_submissions d). q_id r = best \<and>
        (\<forall>q\<in>set (db_submissions d). q_id q \<in> set ?ids \<longrightarrow>
           q_updated_at q < q_updated_at r \<or> (q_updated_at q = q_updated_at r \<and> q_id q \<le> q_id r)))" by blast
    moreover have "\<exists>i\<in>set ?ids. i \<noteq> best" using False dist ids by (cases xs) auto
    ultimately show ?thesis using False amb sid m by simp
  qed
qed

lemma sample_db_eval:
  "findByEmailReference ['' m1 ''] sample_db = map_sum id (\<lambda>s. (s, False)) (getByID ''s1'' sample_db)"
  by (simp add: findByEmailReference_def nonEmpty_def findSubmissionIDsByRefs_def sample_db_def email_row_of_eq
      sample_email_def trim_space_def trim_by_def is_space_def char_code_def)

theorem thread_match_most_recent_witness:
  "\<exists>s. findByEmailReference ['' m1 ''] sample_db = Inr (s, False) \<and> s_ID s \<in> e_SubmissionID ` set (db_emails sample_db)"
proof -
  let ?s = "(scanSubmission (sub_row_of 1 stored_sub))\<lparr>s_Emails := [email_row_of sample_email]\<rparr>"
  have res: "findByEmailReference ['' m1 ''] sample_db = Inr (?s, False)" using sample_db_eval sample_db_get by simp
  have "s_ID ?s \<in> e_SubmissionID ` set (db_emails sample_db)"
    using thread_match_most_recent [OF res, THEN conjunct1] unfolding mem_Collect_eq image_iff by metis
  with res show ?thesis by (intro exI conjI)
qed

text \<open>
  Threading by content: \<open>FindContentMatch\<close> only ever returns a stored open or awaiting submission of
  the same sender, created at or after the cutoff, whose insured name is the given one up to case and
  surrounding space; and no other such submission is more recent.
\<close>

theorem content_match_most_recent:
  assumes "db_reachable d" and "findContentMatch name addr cutoff d = Inr s"
  shows "\<exists>r\<in>set (db_submissions d). q_id r = s_ID s \<and> q_from_address r = addr \<and>
           (q_state r = StateOpen \<or> q_state r = StateAwaiting) \<and> cutoff \<le> q_created_at r \<and>
           to_lower (sql_trim (q_named_insured r)) = to_lower (trim_space name) \<and>
           (\<forall>q\<in>set (db_submissions d). content_match_row (to_lower (trim_space name)) addr cutoff q \<longrightarrow>
              q_created_at q \<le> q_created_at r)"
proof -
  let ?m = "content_match_row (to_lower (trim_space name)) addr cutoff"
  let ?rows = "filter ?m (db_submissions d)"
  obtain r rs where page: "order_limit (\<lambda>r. - q_created_at r) 1 ?rows = r # rs" and get: "getByID (q_id r) d = Inr s"
    using assms(2) by (auto simp: findContentMatch_def Let_def split: if_splits list.splits)
  have r: "r \<in> set (db_submissions d)" "?m r" using in_order_limit [of r "\<lambda>r. - q_created_at r" 1 ?rows] page by auto
  have max: "q_created_at q \<le> q_created_at r" if "q \<in> set (db_submissions d)" "?m q" for q
  proof (cases "q \<in> set (order_limit (\<lambda>r. - q_created_at r) 1 ?rows)")
    case True
    then have "q = r" using page length_order_limit [of "\<lambda>r. - q_created_at r" 1 ?rows] by auto
    then show ?thesis by simp
  next
    case False
    then show ?thesis using order_limit_omitted [of q ?rows "\<lambda>r. - q_created_at r" 1 r] that page by simp
  qed
  have "s_ID s = q_id r" using get by (auto simp: getByID_def split: option.splits dest: lookup_by_Some)
  then show ?thesis using r max by (intro bexI [of _ r]) (auto simp: content_match_row_def)
qed

theorem content_match_most_recent_witness:
  "\<exists>s. findContentMatch '' ACME'' ''diane@acme.com'' 0 sample_db = Inr s \<and>
     (\<exists>r\<in>set (db_submissions sample_db). q_id r = s_ID s)"
proof -
  have names: "to_lower (trim_space '' ACME'') = ''acme''" "to_lower (sql_trim ''Acme'') = ''acme''" by code_simp+
  have "findContentMatch '' ACME'' ''diane@acme.com'' 0 sample_db = getByID ''s1'' sample_db"
    by (simp add: findContentMatch_def Let_def sample_db_def content_match_row_def order_limit_def sub_row_of_def
        stored_sub_def sample_sub_def newSubmission_def names nanoOrNow_def is_zero_time_def zero_time_def
        unix_nano_def in_int64_def)
  then have "findContentMatch '' ACME'' ''diane@acme.com'' 0 sample_db =
      Inr ((scanSubmission (sub_row_of 1 stored_sub))\<lparr>s_Emails := [email_row_of sample_email]\<rparr>)"
    using sample_db_get by simp
  from content_match_most_recent [OF sample_db_reachable this] this show ?thesis by blast
qed

text \<open>
  The sweeps' queries respect holds and bounces: none of the five returns a held submission, the two
  that lead to escalation return none whose mail bounces, and each returns only rows of its state inside
  its time window. When no more rows qualify than the limit allows, none is left out.
\<close>

theorem sweep_queries_exact:
  shows "(\<forall>s\<in>set (listStale t n d). \<not> s_OnHold s \<and> \<not> s_DeliveryFailed s \<and> s_State s = StateAwaiting \<and> s_LastActionAt s < t) \<and>
         (\<forall>s\<in>set (listBindSoon t u n d). \<not> s_OnHold s \<and> \<not> s_DeliveryFailed s \<and> s_State s = StateAwaiting \<and>
            (\<exists>x. s_EffectiveDate s = Some x \<and> t \<le> x \<and> x \<le> u)) \<and>
         (\<forall>s\<in>set (listStalledBefore t n d). \<not> s_OnHold s \<and> (s_State s = StateAwaiting \<or> s_State s = StateOpen) \<and> s_LastActionAt s < t) \<and>
         (\<forall>s\<in>set (listCompletedBefore t n d). \<not> s_OnHold s \<and> s_State s = StateComplete \<and> (\<exists>x. s_CompletedAt s = Some x \<and> x < t)) \<and>
         (\<forall>s\<in>set (listEscalatedSince t n d). \<not> s_OnHold s \<and> s_State s = StateEscalated \<and> (\<exists>x. s_EscalatedAt s = Some x \<and> t \<le> x)) \<and>
         (length (db_submissions d) \<le> nat (limit_or 100 n) \<longrightarrow>
            set (listStale t n d) = scanSubmission ` {r \<in> set (db_submissions d). stale_row t r} \<and>
            set (listBindSoon t u n d) = scanSubmission ` {r \<in> set (db_submissions d). bind_soon_row t u r} \<and>
            set (listStalledBefore t n d) = scanSubmission ` {r \<in> set (db_submissions d). stalled_row t r} \<and>
            set (listCompletedBefore t n d) = scanSubmission ` {r \<in> set (db_submissions d). completed_before t r})"
proof (intro conjI impI)
  show "\<forall>s\<in>set (listStale t n d). \<not> s_OnHold s \<and> \<not> s_DeliveryFailed s \<and> s_State s = StateAwaiting \<and> s_LastActionAt s < t"
    using sweep_rows_not_held(1) by (intro ballI)
  show "\<forall>s\<in>set (listBindSoon t u n d). \<not> s_OnHold s \<and> \<not> s_DeliveryFailed s \<and> s_State s = StateAwaiting \<and>
      (\<exists>x. s_EffectiveDate s = Some x \<and> t \<le> x \<and> x \<le> u)"
    using sweep_rows_not_held(2) by (intro ballI)
  show "\<forall>s\<in>set (listStalledBefore t n d). \<not> s_OnHold s \<and> (s_State s = StateAwaiting \<or> s_State s = StateOpen) \<and> s_LastActionAt s < t"
    using sweep_rows_not_held(3) by (intro ballI)
  show "\<forall>s\<in>set (listCompletedBefore t n d). \<not> s_OnHold s \<and> s_State s = StateComplete \<and> (\<exists>x. s_CompletedAt s = Some x \<and> x < t)"
    using sweep_rows_not_held(4) by (intro ballI)
  show "\<forall>s\<in>set (listEscalatedSince t n d). \<not> s_OnHold s \<and> s_State s = StateEscalated \<and> (\<exists>x. s_EscalatedAt s = Some x \<and> t \<le> x)"
    using sweep_rows_not_held(5) by (intro ballI)
  assume len: "length (db_submissions d) \<le> nat (limit_or 100 n)"
  have le: "length (filter p (db_submissions d)) \<le> nat (limit_or 100 n)" for p
    using len length_filter_le [of p "db_submissions d"] by linarith
  show "set (listStale t n d) = scanSubmission ` {r \<in> set (db_submissions d). stale_row t r}"
    and "set (listBindSoon t u n d) = scanSubmission ` {r \<in> set (db_submissions d). bind_soon_row t u r}"
    and "set (listStalledBefore t n d) = scanSubmission ` {r \<in> set (db_submissions d). stalled_row t r}"
    and "set (listCompletedBefore t n d) = scanSubmission ` {r \<in> set (db_submissions d). completed_before t r}"
    unfolding listStale_def listBindSoon_def listStalledBefore_def listCompletedBefore_def
    by (rule list_query_complete [OF le])+
qed

theorem sweep_queries_exact_witness: "\<exists>s. s \<in> set (listStale 5 10 sample_db) \<and> \<not> s_OnHold s"
  using sweep_queries_exact [where t = 5 and n = 10 and d = sample_db and u = 0]
  by (simp add: sample_db_def limit_or_def stale_row_def sub_row_of_def stored_sub_def sample_sub_def newSubmission_def
      nanoOrNow_def is_zero_time_def zero_time_def unix_nano_def in_int64_def)

end
