(* ===== verification/Audit_Repo.thy ===== *)
theory Audit_Repo
  imports Submission_Repo
begin

text \<open>
  \<open>internal/repository/audit.go\<close>, \<open>ingest_control.go\<close> and \<open>llm_spend.go\<close>: the append-only audit log
  and its retention, the poller's durable state (first-boot stamp, failure counts per message) and the
  daily model spend. A row of the audit log is the entry itself with its time as 64-bit nanoseconds and
  its payload as the JSON decodes. The text form of a time is given by the record \<open>timefmt\<close>. Amounts
  of money are exact rationals, a UTC day is its number since the epoch.

  The lemmas show that the log only loses what retention prunes, that the first-boot stamp is never
  replaced and that failures are counted per message.
\<close>

section \<open>Audit log\<close>

definition audit_row_of :: "string \<Rightarrow> gotime \<Rightarrow> audit_entry \<Rightarrow> audit_entry" where
  "audit_row_of uid now e =
     e\<lparr>a_ID := (if a_ID e = '''' then uid else a_ID e),
       a_CreatedAt := unix_nano (if is_zero_time (a_CreatedAt e) then now else a_CreatedAt e),
       a_Payload := map (\<lambda>(k, v). (k, json_any v)) (a_Payload e)\<rparr>"

definition audit_append :: "string \<Rightarrow> gotime \<Rightarrow> audit_entry option \<Rightarrow> audit_entry list \<Rightarrow> error + audit_entry list" where
  "audit_append uid now ent alog = (case ent of
       None \<Rightarrow> Inl (ErrOther ''audit: nil entry'')
     | Some e \<Rightarrow>
         if \<not> list_all (\<lambda>(k, v). json_ok v) (a_Payload e) then Inl (ErrOther ''audit: marshal payload'')
         else let r = audit_row_of uid now e in
              if list_ex (\<lambda>o'. a_ID o' = a_ID r) alog then Inl (ErrOther ''audit: insert: UNIQUE'')
              else Inr (alog @ [r]))"

definition audit_listBySubmission :: "string \<Rightarrow> audit_entry list \<Rightarrow> audit_entry list" where
  "audit_listBySubmission sid alog = sort_key a_CreatedAt (filter (\<lambda>e. a_SubmissionID e = sid) alog)"

definition listSubmissionIDsByEvent :: "event_type \<Rightarrow> int \<Rightarrow> audit_entry list \<Rightarrow> string list" where
  "listSubmissionIDsByEvent ev since alog =
     remdups (map a_SubmissionID (filter (\<lambda>e. a_EventType e = ev \<and> a_CreatedAt e \<ge> since \<and> a_SubmissionID e \<noteq> '''') alog))"

definition audit_prune :: "int \<Rightarrow> audit_entry list \<Rightarrow> int \<times> audit_entry list" where
  "audit_prune olderThan alog =
     (count_where (\<lambda>e. a_CreatedAt e < olderThan) alog, delete_where (\<lambda>e. a_CreatedAt e < olderThan) alog)"

lemma audit_append_keys:
  "audit_append uid now e alog = Inr alog' \<Longrightarrow> distinct (map a_ID alog) \<Longrightarrow> distinct (map a_ID alog')"
  by (auto simp: audit_append_def Let_def list_ex_key split: option.splits if_splits)

lemma audit_append_keeps: "audit_append uid now e alog = Inr alog' \<Longrightarrow> set alog \<subseteq> set alog'"
  by (auto simp: audit_append_def Let_def split: option.splits if_splits)

lemma in_listSubmissionIDsByEvent:
  "i \<in> set (listSubmissionIDsByEvent ev since alog) \<longleftrightarrow>
     i \<noteq> '''' \<and> (\<exists>e\<in>set alog. a_EventType e = ev \<and> since \<le> a_CreatedAt e \<and> a_SubmissionID e = i)"
  by (auto simp: listSubmissionIDsByEvent_def)

section \<open>Ingest control\<close>

record timefmt =
  tf_Format :: "gotime \<Rightarrow> string"
  tf_Parse :: "string \<Rightarrow> gotime option"

record control =
  ic_meta :: "(string \<times> string) list"
  ic_failures :: "((int \<times> int) \<times> int \<times> string \<times> int) list"

definition empty_control :: control where
  "empty_control = \<lparr>ic_meta = [], ic_failures = []\<rparr>"

definition firstBootKey :: string where "firstBootKey = ''first_boot_at''"

definition firstBootAt :: "timefmt \<Rightarrow> gotime \<Rightarrow> control \<Rightarrow> error + gotime \<times> control" where
  "firstBootAt tf now c = (case lookup_by fst firstBootKey (ic_meta c) of
       Some (_, raw) \<Rightarrow> (case tf_Parse tf raw of
           None \<Rightarrow> Inl (ErrOther ''service_meta: unparseable'')
         | Some t \<Rightarrow> Inr (t, c))
     | None \<Rightarrow>
         Inr (now, c\<lparr>ic_meta := upsert_by fst (\<lambda>old new. old) (firstBootKey, tf_Format tf now) (ic_meta c)\<rparr>))"

definition merge_failure :: "(int \<times> int) \<times> int \<times> string \<times> int \<Rightarrow> (int \<times> int) \<times> int \<times> string \<times> int \<Rightarrow> (int \<times> int) \<times> int \<times> string \<times> int" where
  "merge_failure old new = (fst old, fst (snd old) + 1, snd (snd new))"

definition recordFailure :: "int \<Rightarrow> int \<Rightarrow> string \<Rightarrow> gotime \<Rightarrow> control \<Rightarrow> int \<times> control" where
  "recordFailure uidValidity uid reason now c =
     (let tbl = upsert_by fst merge_failure ((uidValidity, uid), 1, reason, unix_nano now) (ic_failures c)
      in (case lookup_by fst (uidValidity, uid) tbl of None \<Rightarrow> 0 | Some (_, attempts, _) \<Rightarrow> attempts,
          c\<lparr>ic_failures := tbl\<rparr>))"

definition clearFailure :: "int \<Rightarrow> int \<Rightarrow> control \<Rightarrow> control" where
  "clearFailure uidValidity uid c = c\<lparr>ic_failures := delete_where (\<lambda>r. fst r = (uidValidity, uid)) (ic_failures c)\<rparr>"

interpretation meta_t: keyed_upsert fst "\<lambda>old new. old"
  by unfold_locales simp

interpretation fail_t: keyed_upsert fst merge_failure
  by unfold_locales (simp add: merge_failure_def)

text \<open>The failure count of a message.\<close>

definition failures :: "control \<Rightarrow> int \<times> int \<Rightarrow> int" where
  "failures c k = (case lookup_by fst k (ic_failures c) of None \<Rightarrow> 0 | Some (_, n, _) \<Rightarrow> n)"

lemma recordFailure_counts:
  "fst (recordFailure v u reason now c) = failures c (v, u) + 1"
  "failures (snd (recordFailure v u reason now c)) k = (if k = (v, u) then failures c k + 1 else failures c k)"
  by (auto simp: recordFailure_def Let_def failures_def fail_t.lookup_upsert merge_failure_def split: option.splits)

lemma lookup_by_delete_where_key:
  "lookup_by key k (delete_where (\<lambda>r. key r = j) tbl) = (if k = j then None else lookup_by key k tbl)"
  unfolding lookup_by_def delete_where_def by (induction tbl) auto

lemma clearFailure_counts: "failures (clearFailure v u c) k = (if k = (v, u) then 0 else failures c k)"
  by (simp add: clearFailure_def failures_def lookup_by_delete_where_key)

lemma firstBootAt_meta:
  assumes "firstBootAt tf now c = Inr (t, c')" and "tf_Parse tf (tf_Format tf now) = Some now"
  shows "\<exists>raw. lookup_by fst firstBootKey (ic_meta c') = Some (firstBootKey, raw) \<and> tf_Parse tf raw = Some t"
proof (cases "lookup_by fst firstBootKey (ic_meta c)")
  case None
  then show ?thesis using assms by (auto simp: firstBootAt_def meta_t.lookup_upsert)
next
  case (Some kv)
  obtain k raw where "kv = (k, raw)" by (cases kv)
  then show ?thesis using Some assms lookup_by_Some [OF Some] by (auto simp: firstBootAt_def split: option.splits)
qed

text \<open>Steps of the poller's durable state.\<close>

inductive control_step :: "timefmt \<Rightarrow> control \<Rightarrow> control \<Rightarrow> bool" for tf where
  boot: "firstBootAt tf now c = Inr (t, c') \<Longrightarrow> control_step tf c c'"
| failure: "control_step tf c (snd (recordFailure v u reason now c))"
| clear: "control_step tf c (clearFailure v u c)"

lemma control_step_meta:
  assumes "control_step tf c c'" and "lookup_by fst firstBootKey (ic_meta c) = Some kv"
  shows "lookup_by fst firstBootKey (ic_meta c') = Some kv"
  using assms(1)
proof cases
  case (boot now t)
  obtain k raw where "kv = (k, raw)" by (cases kv)
  then show ?thesis using boot assms(2) by (auto simp: firstBootAt_def split: option.splits)
qed (use assms(2) in \<open>simp_all add: recordFailure_def Let_def clearFailure_def\<close>)

interpretation control: invariant_system "\<lambda>c. lookup_by fst firstBootKey (ic_meta c) = Some kv" "control_step tf"
  "\<lambda>c. lookup_by fst firstBootKey (ic_meta c) = Some kv" for kv tf
  by unfold_locales (auto dest: control_step_meta)

lemmas control_steps_meta = control.steps_good

section \<open>Model spend\<close>

definition utcDay :: "gotime \<Rightarrow> int" where
  "utcDay now = now div dur_day"

definition spend_today :: "gotime \<Rightarrow> (int \<times> rat) list \<Rightarrow> rat" where
  "spend_today now tbl = (case lookup_by fst (utcDay now) tbl of None \<Rightarrow> 0 | Some (_, usd) \<Rightarrow> usd)"

definition spend_add :: "gotime \<Rightarrow> rat \<Rightarrow> (int \<times> rat) list \<Rightarrow> (int \<times> rat) list" where
  "spend_add now usd tbl = upsert_by fst (\<lambda>old new. (fst old, snd old + snd new)) (utcDay now, usd) tbl"

interpretation spend_t: keyed_upsert fst "\<lambda>old new. (fst old, snd old + snd new)"
  by unfold_locales simp

lemma spend_add_today:
  "spend_today now' (spend_add now usd tbl) =
     (if utcDay now' = utcDay now then spend_today now' tbl + usd else spend_today now' tbl)"
  by (auto simp: spend_today_def spend_add_def spend_t.lookup_upsert split: option.splits)

section \<open>Properties\<close>

text \<open>
  The ingest cutoff survives restarts: once \<open>FirstBootAt\<close> has returned a time, every later call, at
  whatever time and after whatever failures were recorded or cleared in between, returns that time and
  writes nothing, provided the stored text form reads back.
\<close>

theorem first_boot_is_stable:
  assumes "firstBootAt tf now c = Inr (t, c')" and "tf_Parse tf (tf_Format tf now) = Some now"
    and "(control_step tf)\<^sup>*\<^sup>* c' c2"
  shows "firstBootAt tf later c2 = Inr (t, c2)"
proof -
  obtain raw where raw: "lookup_by fst firstBootKey (ic_meta c') = Some (firstBootKey, raw)" "tf_Parse tf raw = Some t"
    using firstBootAt_meta [OF assms(1,2)] by blast
  have "lookup_by fst firstBootKey (ic_meta c2) = Some (firstBootKey, raw)"
    by (rule control_steps_meta [OF assms(3) raw(1)])
  then show ?thesis using raw(2) by (simp add: firstBootAt_def)
qed

definition sample_tf :: timefmt where
  "sample_tf = \<lparr>tf_Format = (\<lambda>t. if t = 7 then ''seven'' else ''''), tf_Parse = (\<lambda>s. if s = ''seven'' then Some 7 else None)\<rparr>"

theorem first_boot_is_stable_witness:
  "\<exists>c'. firstBootAt sample_tf 7 empty_control = Inr (7, c') \<and>
        firstBootAt sample_tf 99 (snd (recordFailure 1 2 ''x'' 8 c')) = Inr (7, snd (recordFailure 1 2 ''x'' 8 c'))"
proof -
  let ?c = "empty_control\<lparr>ic_meta := [(firstBootKey, ''seven'')]\<rparr>"
  have boot: "firstBootAt sample_tf 7 empty_control = Inr (7, ?c)"
    by (simp add: firstBootAt_def sample_tf_def empty_control_def lookup_by_def upsert_by_def)
  have step: "(control_step sample_tf)\<^sup>*\<^sup>* ?c (snd (recordFailure 1 2 ''x'' 8 ?c))"
    by (rule r_into_rtranclp) (rule control_step.failure)
  show ?thesis using boot first_boot_is_stable [OF boot _ step, of 99] by (auto simp: sample_tf_def)
qed

text \<open>
  Failures are counted per message: after any sequence of recorded failures and clearances, the count
  \<open>RecordFailure\<close> returns is one more than the failures recorded for that message, in that UIDVALIDITY
  generation, since it was last cleared.
\<close>

datatype fail_op = Record int int string gotime | Clear int int

fun run_fail :: "fail_op list \<Rightarrow> control \<Rightarrow> control" where
  "run_fail [] c = c"
| "run_fail (Record v u reason now # fs) c = run_fail fs (snd (recordFailure v u reason now c))"
| "run_fail (Clear v u # fs) c = run_fail fs (clearFailure v u c)"

fun since_clear :: "int \<Rightarrow> int \<Rightarrow> fail_op list \<Rightarrow> int \<Rightarrow> int" where
  "since_clear v u [] n = n"
| "since_clear v u (Record v' u' _ _ # fs) n = since_clear v u fs (if v' = v \<and> u' = u then n + 1 else n)"
| "since_clear v u (Clear v' u' # fs) n = since_clear v u fs (if v' = v \<and> u' = u then 0 else n)"

lemma run_fail_counts: "failures (run_fail fs c) (v, u) = since_clear v u fs (failures c (v, u))"
  by (induction fs c rule: run_fail.induct) (simp_all add: recordFailure_counts clearFailure_counts)

theorem failures_counted_per_message:
  "fst (recordFailure v u reason now (run_fail fs empty_control)) = since_clear v u fs 0 + 1"
  by (simp add: recordFailure_counts run_fail_counts) (simp add: failures_def empty_control_def lookup_by_def)

text \<open>
  The daily spend is the sum of what was added that UTC day: every addition of the day counts, none of
  another day does.
\<close>

theorem spend_is_daily_sum:
  "spend_today now (fold (\<lambda>(t, usd). spend_add t usd) adds []) =
     sum_list (map snd (filter (\<lambda>(t, usd). utcDay t = utcDay now) adds))"
proof -
  have "spend_today now (fold (\<lambda>(t, usd). spend_add t usd) adds tbl) =
      spend_today now tbl + sum_list (map snd (filter (\<lambda>(t, usd). utcDay t = utcDay now) adds))" for tbl
    by (induction adds arbitrary: tbl) (auto simp: spend_add_today)
  then show ?thesis by (simp add: spend_today_def lookup_by_def)
qed

end
