(* ===== verification/Classifier_Model.thy ===== *)
theory Classifier_Model
  imports Checklist_Model
begin

text \<open>
  Document classification: \<open>pkg/glob\<close>, \<open>pkg/textutil\<close>, the checklist store of
  \<open>internal/infrastructure/checklist/store.go\<close> and the heuristic classifier with its language-model
  fallback (\<open>internal/infrastructure/classifier/classifier.go\<close>). The pattern language of
  \<open>filepath.Match\<close> is modelled on bytes: a pattern is parsed into tokens, a malformed one is an error.
  The language model is a record of functions from request to response. A Go map used as a set of ids
  is a list of its keys. The YAML decoder is outside the repository; the store takes the decoded
  files.

  The lemmas characterise a star declaratively, bound truncation, show that a classification is always
  an item of the checklist with the evidence it names, and that the store only holds valid checklists.
\<close>

section \<open>Patterns\<close>

datatype gtok = GStar | GAny | GLit char | GClass bool "(char \<times> char) list"

text \<open>One character of a class, possibly escaped; something must follow it.\<close>

fun getEsc :: "string \<Rightarrow> (char \<times> string) option" where
  "getEsc [] = None"
| "getEsc (c # s) =
     (if c = CHR ''-'' \<or> c = CHR '']'' then None
      else if c = CHR 0x5C then (case s of d # e # t \<Rightarrow> Some (d, e # t) | _ \<Rightarrow> None)
      else if s = [] then None else Some (c, s))"

lemma getEsc_shorter: "getEsc s = Some (c, t) \<Longrightarrow> length t < length s"
  by (cases s rule: getEsc.cases) (auto split: if_splits list.splits)

definition class_range :: "string \<Rightarrow> ((char \<times> char) \<times> string) option" where
  "class_range s = (case getEsc s of
       None \<Rightarrow> None
     | Some (lo, s1) \<Rightarrow>
         if take 1 s1 = ''-'' then map_option (\<lambda>(hi, s2). ((lo, hi), s2)) (getEsc (drop 1 s1))
         else Some ((lo, lo), s1))"

lemma class_range_shorter: "class_range s = Some (rg, t) \<Longrightarrow> length t < length s"
  by (auto simp: class_range_def split: option.splits if_splits dest!: getEsc_shorter)

function parse_ranges :: "bool \<Rightarrow> string \<Rightarrow> ((char \<times> char) list \<times> string) option" where
  "parse_ranges seen s =
     (if seen \<and> take 1 s = '']'' then Some ([], drop 1 s)
      else case class_range s of
        None \<Rightarrow> None
      | Some (rg, t) \<Rightarrow> map_option (\<lambda>(rs, r). (rg # rs, r)) (parse_ranges True t))"
  by pat_completeness auto
termination
  by (relation "measure (length \<circ> snd)") (auto dest: class_range_shorter)

declare parse_ranges.simps [simp del]

lemma parse_ranges_shorter: "parse_ranges seen s = Some (rs, r) \<Longrightarrow> length r < length s"
proof (induction seen s arbitrary: rs r rule: parse_ranges.induct)
  case (1 seen s)
  show ?case
  proof (cases "seen \<and> take 1 s = '']''")
    case True
    have "Some ([], drop 1 s) = Some (rs, r)" using 1(2) True unfolding parse_ranges.simps [of seen s] by simp
    then show ?thesis using True by (cases s) auto
  next
    case False
    then obtain rg t rs' where t: "class_range s = Some (rg, t)" "parse_ranges True t = Some (rs', r)"
      using 1(2) by (auto simp: parse_ranges.simps [of seen s] split: option.splits)
    then show ?thesis using 1(1) [OF False t(1) refl t(2)] class_range_shorter [OF t(1)] by simp
  qed
qed

function glob_parse :: "string \<Rightarrow> gtok list option" where
  "glob_parse [] = Some []"
| "glob_parse (c # s) =
     (if c = CHR ''*'' then map_option ((#) GStar) (glob_parse s)
      else if c = CHR ''?'' then map_option ((#) GAny) (glob_parse s)
      else if c = CHR ''['' then
        (let neg = (take 1 s = ''^'') in
         case parse_ranges False (if neg then drop 1 s else s) of
           None \<Rightarrow> None
         | Some (rs, r) \<Rightarrow> map_option ((#) (GClass neg rs)) (glob_parse r))
      else if c = CHR 0x5C then (case s of [] \<Rightarrow> None | d # t \<Rightarrow> map_option ((#) (GLit d)) (glob_parse t))
      else map_option ((#) (GLit c)) (glob_parse s))"
  by pat_completeness auto
termination
  by (relation "measure length") (auto dest!: parse_ranges_shorter split: if_splits)

fun gmatch :: "gtok list \<Rightarrow> string \<Rightarrow> bool" where
  "gmatch [] s \<longleftrightarrow> s = []"
| "gmatch (GStar # ts) [] \<longleftrightarrow> gmatch ts []"
| "gmatch (GStar # ts) (c # s) \<longleftrightarrow> gmatch ts (c # s) \<or> (c \<noteq> CHR ''/'' \<and> gmatch (GStar # ts) s)"
| "gmatch (GAny # ts) (c # s) \<longleftrightarrow> c \<noteq> CHR ''/'' \<and> gmatch ts s"
| "gmatch (GLit d # ts) (c # s) \<longleftrightarrow> c = d \<and> gmatch ts s"
| "gmatch (GClass neg rs # ts) (c # s) \<longleftrightarrow>
     (list_ex (\<lambda>(lo, hi). char_code lo \<le> char_code c \<and> char_code c \<le> char_code hi) rs \<noteq> neg) \<and> gmatch ts s"
| "gmatch (_ # ts) [] \<longleftrightarrow> False"

text \<open>\<open>filepath.Match\<close>: \<^const>\<open>None\<close> is \<open>ErrBadPattern\<close>.\<close>

definition filepath_match :: "string \<Rightarrow> string \<Rightarrow> bool option" where
  "filepath_match pat name = map_option (\<lambda>ts. gmatch ts name) (glob_parse pat)"

text \<open>\<open>path.Base\<close>\<close>

definition path_base :: "string \<Rightarrow> string" where
  "path_base p =
     (if p = '''' then ''.''
      else let q = rev (dropWhile (\<lambda>c. c = CHR ''/'') (rev p));
               b = rev (takeWhile (\<lambda>c. c \<noteq> CHR ''/'') (rev q))
           in if b = '''' then ''/'' else b)"

definition matchAny :: "string list \<Rightarrow> string \<Rightarrow> bool" where
  "matchAny patterns target =
     list_ex (\<lambda>p. p \<noteq> '''' \<and> filepath_match (to_lower p) (to_lower (path_base target)) = Some True) patterns"

definition glob_containsAny :: "string list \<Rightarrow> string \<Rightarrow> bool" where
  "glob_containsAny keywords body =
     (body \<noteq> '''' \<and> list_ex (\<lambda>k. k \<noteq> '''' \<and> str_contains (to_lower body) (to_lower k)) keywords)"

lemma gmatch_starI: "CHR ''/'' \<notin> set u \<Longrightarrow> gmatch ts v \<Longrightarrow> gmatch (GStar # ts) (u @ v)"
proof (induction u)
  case Nil
  then show ?case by (cases v) simp_all
qed auto

lemma gmatch_starD:
  "gmatch (GStar # ts) s \<Longrightarrow> \<exists>u v. s = u @ v \<and> CHR ''/'' \<notin> set u \<and> gmatch ts v"
proof (induction s)
  case (Cons c s)
  show ?case
  proof (cases "gmatch ts (c # s)")
    case True
    then show ?thesis by (intro exI [of _ "[]"] exI [of _ "c # s"]) simp
  next
    case False
    then obtain u v where "s = u @ v" "CHR ''/'' \<notin> set (c # u)" "gmatch ts v" using Cons by auto
    then show ?thesis by (intro exI [of _ "c # u"] exI [of _ v]) simp
  qed
qed simp

section \<open>Truncation\<close>

definition rune_start :: "char \<Rightarrow> bool" where
  "rune_start c \<longleftrightarrow> \<not> (128 \<le> char_code c \<and> char_code c < 192)"

fun trunc_point :: "string \<Rightarrow> nat \<Rightarrow> nat" where
  "trunc_point s 0 = 0"
| "trunc_point s (Suc n) = (if rune_start (s ! Suc n) then Suc n else trunc_point s n)"

definition truncateBytes :: "string \<Rightarrow> nat \<Rightarrow> string" where
  "truncateBytes s maxBytes = (if length s \<le> maxBytes then s else take (trunc_point s maxBytes) s)"

lemma trunc_point_le: "trunc_point s n \<le> n"
  by (induction n) auto

lemma trunc_point_start: "trunc_point s n \<noteq> 0 \<Longrightarrow> rune_start (s ! trunc_point s n)"
  by (induction n) auto

lemma length_truncateBytes: "length (truncateBytes s n) \<le> n"
  using trunc_point_le [of s n] by (simp add: truncateBytes_def)

section \<open>The language model's interface\<close>

record llm_usage =
  u_PromptHash :: string
  u_LatencyMs :: int
  u_InputTokens :: int
  u_OutputTokens :: int
  u_EstimatedCostUSD :: float64
  u_Model :: string

record class_request =
  cq_Filename :: string
  cq_ContentType :: string
  cq_TextSample :: string
  cq_Candidates :: "(string \<times> string) list"
  cq_PolicyType :: string

record class_response =
  cr_CandidateID :: string
  cr_Confidence :: float64
  cr_Reason :: string
  cr_Usage :: llm_usage

record field_request =
  fq_Filename :: string
  fq_TextSample :: string
  fq_FieldName :: string
  fq_FieldDescription :: string
  fq_FieldType :: string

record field_response =
  fr_Value :: any_val
  fr_Confidence :: float64
  fr_Reason :: string
  fr_Usage :: llm_usage

record identity_response =
  ir_NamedInsured :: string
  ir_EffectiveDate :: string
  ir_Usage :: llm_usage

record llm_client =
  llm_Classify :: "class_request \<Rightarrow> class_response \<times> error option"
  llm_ExtractField :: "field_request \<Rightarrow> field_response \<times> error option"
  llm_ExtractIdentity :: "string \<times> string \<Rightarrow> identity_response \<times> error option"

fun error_str :: "error \<Rightarrow> string" where
  "error_str ErrInvalidTransition = ''invalid state transition''"
| "error_str ErrSubmissionNotFound = ''submission not found''"
| "error_str ErrDuplicateEmail = ''duplicate email''"
| "error_str ErrSpendCapReached = ''anthropic: daily spend cap reached''"
| "error_str (ErrOther s) = s"

section \<open>Classification\<close>

record class_input =
  n_Filename :: string
  n_ContentType :: string
  n_BodyText :: string
  n_PolicyType :: string
  n_Checklist :: checklist

record class_result =
  k_CandidateID :: string
  k_Confidence :: float64
  k_By :: string
  k_Reason :: string
  k_Capped :: bool
  k_Usage :: "llm_usage option"

definition confidenceFilename :: float64 where "confidenceFilename = Fin (95 / 100)"
definition confidenceKeyword :: float64 where "confidenceKeyword = Fin (85 / 100)"

definition no_result :: class_result where
  "no_result = \<lparr>k_CandidateID = '''', k_Confidence = Fin 0, k_By = '''', k_Reason = '''', k_Capped = False, k_Usage = None\<rparr>"

definition matchByFilename :: "class_input \<Rightarrow> string list" where
  "matchByFilename inp =
     remdups (map i_ID (filter (\<lambda>i. matchAny (mr_FilenamePatterns (i_Match i)) (n_Filename inp)) (c_Required (n_Checklist inp))))"

definition matchByContent :: "class_input \<Rightarrow> string list" where
  "matchByContent inp =
     remdups (map i_ID (filter (\<lambda>i. mr_ContentKeywords (i_Match i) \<noteq> [] \<and>
        glob_containsAny (mr_ContentKeywords (i_Match i)) (n_BodyText inp)) (c_Required (n_Checklist inp))))"

definition merge_ids :: "string list \<Rightarrow> string list \<Rightarrow> string list" where
  "merge_ids xs ys = remdups (xs @ ys)"

definition singleMatch :: "string list \<Rightarrow> string option" where
  "singleMatch ms = (case ms of [i] \<Rightarrow> Some i | _ \<Rightarrow> None)"

definition classifyByLLM :: "llm_client \<Rightarrow> class_input \<Rightarrow> class_result \<times> error option" where
  "classifyByLLM client inp =
     (let items = c_Required (n_Checklist inp);
          (resp, err) = llm_Classify client
            \<lparr> cq_Filename = n_Filename inp, cq_ContentType = n_ContentType inp, cq_TextSample = n_BodyText inp,
              cq_Candidates = map (\<lambda>i. (i_ID i, i_Description i)) items, cq_PolicyType = n_PolicyType inp \<rparr>
      in case err of
           Some ErrSpendCapReached \<Rightarrow>
             (no_result\<lparr>k_By := ClassifiedByHeuristic, k_Reason := ''llm spend cap reached'', k_Capped := True\<rparr>, None)
         | Some e \<Rightarrow>
             (no_result\<lparr>k_By := ClassifiedByLLM, k_Reason := ''llm error: '' @ error_str e, k_Usage := Some (cr_Usage resp)\<rparr>, Some e)
         | None \<Rightarrow>
             if cr_CandidateID resp = '''' \<or> cr_CandidateID resp = ''unknown''
             then (no_result\<lparr>k_Confidence := cr_Confidence resp, k_By := ClassifiedByLLM, k_Reason := cr_Reason resp,
                             k_Usage := Some (cr_Usage resp)\<rparr>, None)
             else if \<not> list_ex (\<lambda>i. i_ID i = cr_CandidateID resp) items
             then (no_result\<lparr>k_Confidence := cr_Confidence resp, k_By := ClassifiedByLLM,
                             k_Reason := ''llm returned unknown candidate id'', k_Usage := Some (cr_Usage resp)\<rparr>, None)
             else (no_result\<lparr>k_CandidateID := cr_CandidateID resp, k_Confidence := cr_Confidence resp,
                             k_By := ClassifiedByLLM, k_Reason := cr_Reason resp, k_Usage := Some (cr_Usage resp)\<rparr>, None))"

definition classify :: "llm_client option \<Rightarrow> class_input \<Rightarrow> class_result \<times> error option" where
  "classify client inp =
     (let byName = matchByFilename inp; byContent = matchByContent inp in
      case singleMatch byName of
        Some i \<Rightarrow>
          if i \<in> set byContent
          then (no_result\<lparr>k_CandidateID := i, k_Confidence := confidenceFilename, k_By := ClassifiedByFilenameKeyword,
                          k_Reason := ''filename and content match''\<rparr>, None)
          else (no_result\<lparr>k_CandidateID := i, k_Confidence := confidenceFilename, k_By := ClassifiedByFilename,
                          k_Reason := ''filename match''\<rparr>, None)
      | None \<Rightarrow>
          (case singleMatch (merge_ids byName byContent) of
             Some i \<Rightarrow> (no_result\<lparr>k_CandidateID := i, k_Confidence := confidenceKeyword, k_By := ClassifiedByKeyword,
                                  k_Reason := ''content match''\<rparr>, None)
           | None \<Rightarrow>
               (case client of
                  None \<Rightarrow> (no_result\<lparr>k_By := ClassifiedByHeuristic, k_Reason := ''no match, llm unavailable''\<rparr>, None)
                | Some l \<Rightarrow> classifyByLLM l inp)))"

lemma in_matchByFilename:
  "x \<in> set (matchByFilename inp) \<longleftrightarrow>
     (\<exists>i\<in>set (c_Required (n_Checklist inp)). i_ID i = x \<and> matchAny (mr_FilenamePatterns (i_Match i)) (n_Filename inp))"
  by (auto simp: matchByFilename_def)

lemma in_matchByContent:
  "x \<in> set (matchByContent inp) \<longleftrightarrow>
     (\<exists>i\<in>set (c_Required (n_Checklist inp)). i_ID i = x \<and> glob_containsAny (mr_ContentKeywords (i_Match i)) (n_BodyText inp))"
  by (auto simp: matchByContent_def glob_containsAny_def)

lemma singleMatch_Some: "singleMatch ms = Some x \<longleftrightarrow> ms = [x]"
  by (auto simp: singleMatch_def split: list.splits)

lemma singleMatch_set: "distinct ms \<Longrightarrow> (\<exists>x. singleMatch ms = Some x) \<longleftrightarrow> card (set ms) = 1"
  by (cases ms rule: remdups_adj.cases) (auto simp: singleMatch_def)

lemma merge_single:
  assumes "merge_ids xs ys = [x]" and "xs \<noteq> [x]" and "distinct xs"
  shows "xs = [] \<and> x \<in> set ys"
proof -
  have "set xs \<union> set ys = {x}" using arg_cong [OF assms(1), of set] by (simp add: merge_ids_def)
  moreover have "xs = [] \<or> set xs \<noteq> {x}"
  proof (cases xs rule: remdups_adj.cases)
    case (3 a b zs)
    then show ?thesis using assms(3) by auto
  qed (use assms(2) in auto)
  ultimately show ?thesis by (auto simp: Un_singleton_iff)
qed

lemma distinct_matches [simp]: "distinct (matchByFilename inp)" "distinct (matchByContent inp)"
  by (simp_all add: matchByFilename_def matchByContent_def)

lemma classifyByLLM_candidate:
  assumes "classifyByLLM l inp = (res, err)" and "k_CandidateID res \<noteq> ''''"
  shows "k_By res = ClassifiedByLLM \<and> (\<exists>i\<in>set (c_Required (n_Checklist inp)). i_ID i = k_CandidateID res)"
proof -
  let ?req = "\<lparr> cq_Filename = n_Filename inp, cq_ContentType = n_ContentType inp, cq_TextSample = n_BodyText inp,
      cq_Candidates = map (\<lambda>i. (i_ID i, i_Description i)) (c_Required (n_Checklist inp)), cq_PolicyType = n_PolicyType inp \<rparr>"
  obtain resp e where call: "llm_Classify l ?req = (resp, e)" by (cases "llm_Classify l ?req")
  show ?thesis
  proof (cases e)
    case None
    then show ?thesis using assms call
      by (auto simp: classifyByLLM_def no_result_def list_ex_iff split: if_splits)
  next
    case (Some err')
    then show ?thesis using assms call by (cases err') (auto simp: classifyByLLM_def no_result_def)
  qed
qed

text \<open>What a classification that names an item rests on.\<close>

lemma classify_evidence:
  assumes "classify client inp = (res, err)" and "k_CandidateID res \<noteq> ''''"
  shows "(k_By res = ClassifiedByFilename \<and> matchByFilename inp = [k_CandidateID res] \<and> k_CandidateID res \<notin> set (matchByContent inp)) \<or>
         (k_By res = ClassifiedByFilenameKeyword \<and> matchByFilename inp = [k_CandidateID res] \<and> k_CandidateID res \<in> set (matchByContent inp)) \<or>
         (k_By res = ClassifiedByKeyword \<and> matchByFilename inp = [] \<and> matchByContent inp = [k_CandidateID res]) \<or>
         (k_By res = ClassifiedByLLM \<and> client \<noteq> None \<and> (\<exists>i\<in>set (c_Required (n_Checklist inp)). i_ID i = k_CandidateID res))"
proof (cases "singleMatch (matchByFilename inp)")
  case (Some x)
  then have "matchByFilename inp = [x]" by (simp add: singleMatch_Some)
  then show ?thesis using assms Some by (auto simp: classify_def Let_def no_result_def split: if_splits)
next
  case None
  then have name: "matchByFilename inp \<noteq> [x]" for x using singleMatch_Some [of "matchByFilename inp" x] by simp
  show ?thesis
  proof (cases "singleMatch (merge_ids (matchByFilename inp) (matchByContent inp))")
    case (Some x)
    then have m: "merge_ids (matchByFilename inp) (matchByContent inp) = [x]" by (simp add: singleMatch_Some)
    from merge_single [OF m name] have nil: "matchByFilename inp = []" by simp
    then have "matchByContent inp = [x]" using m by (simp add: merge_ids_def distinct_remdups_id)
    then show ?thesis using assms None Some nil by (auto simp: classify_def Let_def no_result_def)
  next
    case none2: None
    then show ?thesis
    proof (cases client)
      case None
      then show ?thesis using assms none2 \<open>singleMatch (matchByFilename inp) = None\<close>
        by (auto simp: classify_def Let_def no_result_def)
    next
      case (Some l)
      then have "classifyByLLM l inp = (res, err)"
        using assms(1) none2 \<open>singleMatch (matchByFilename inp) = None\<close> by (simp add: classify_def Let_def)
      then show ?thesis using classifyByLLM_candidate assms(2) Some by blast
    qed
  qed
qed

section \<open>The checklist store\<close>

record raw_requires_field =
  rf_Name :: string
  rf_Type :: string
  rf_MinValue :: "float64 option"
  rf_Unit :: string

record raw_required =
  ri_ID :: string
  ri_Description :: string
  ri_FilenamePatterns :: "string list"
  ri_ContentKeywords :: "string list"
  ri_RequiresField :: "raw_requires_field option"

record raw_checklist =
  rc_Name :: string
  rc_PolicyType :: string
  rc_Required :: "raw_required list"
  rc_ThresholdHours :: int
  rc_DigestRecipient :: string

definition validate_item :: "required_item \<Rightarrow> error option" where
  "validate_item item =
     (if i_ID item = '''' then Some (ErrOther ''required item with empty id'')
      else if list_ex (\<lambda>p. filepath_match p '''' = None) (mr_FilenamePatterns (i_Match item))
      then Some (ErrOther ''invalid filename pattern'')
      else case i_RequiresField item of
        None \<Rightarrow> None
      | Some rf \<Rightarrow>
          if f_Name rf = '''' then Some (ErrOther ''requires_field with empty name'')
          else if f_MinValue rf \<noteq> None \<and> f_Type rf \<noteq> FieldTypeNumber
          then Some (ErrOther ''min_value requires type number'')
          else None)"

fun validate_items :: "required_item list \<Rightarrow> error option" where
  "validate_items [] = None"
| "validate_items (i # is) = (case validate_item i of Some e \<Rightarrow> Some e | None \<Rightarrow> validate_items is)"

definition validateChecklist :: "checklist \<Rightarrow> error option" where
  "validateChecklist c = validate_items (c_Required c)"

definition toModel_item :: "raw_required \<Rightarrow> required_item" where
  "toModel_item r =
     \<lparr> i_ID = ri_ID r, i_Description = ri_Description r,
       i_Match = \<lparr>mr_FilenamePatterns = ri_FilenamePatterns r, mr_ContentKeywords = ri_ContentKeywords r\<rparr>,
       i_RequiresField = map_option (\<lambda>f. \<lparr>f_Name = rf_Name f,
            f_Type = (if to_lower (rf_Type f) = ''number'' then FieldTypeNumber else FieldTypeString),
            f_MinValue = rf_MinValue f, f_Unit = rf_Unit f\<rparr>) (ri_RequiresField r) \<rparr>"

definition toModel :: "raw_checklist \<Rightarrow> checklist" where
  "toModel r =
     \<lparr> c_Name = rc_Name r, c_PolicyType = rc_PolicyType r, c_Required = map toModel_item (rc_Required r),
       c_Escalation = \<lparr>ep_ThresholdHours = rc_ThresholdHours r, ep_DigestRecipient = rc_DigestRecipient r\<rparr> \<rparr>"

text \<open>A visited directory entry: skipped (a directory, another extension), or a file read and decoded, or an error.\<close>

datatype walk_entry = WalkSkip | WalkFile raw_checklist | WalkError string

type_synonym store = "(string \<times> checklist) list"

fun load_entries :: "walk_entry list \<Rightarrow> store \<Rightarrow> error + store" where
  "load_entries [] loaded = Inr loaded"
| "load_entries (WalkSkip # ws) loaded = load_entries ws loaded"
| "load_entries (WalkError e # ws) loaded = Inl (ErrOther e)"
| "load_entries (WalkFile r # ws) loaded =
     (if rc_PolicyType r = '''' then Inl (ErrOther ''checklist: missing policy_type'')
      else if rc_PolicyType r \<in> set (map fst loaded) then Inl (ErrOther ''checklist: duplicate policy_type'')
      else case validateChecklist (toModel r) of
        Some e \<Rightarrow> Inl e
      | None \<Rightarrow> load_entries ws (loaded @ [(rc_PolicyType r, toModel r)]))"

text \<open>\<open>Reload\<close>: the new content replaces the old one only when every file loads.\<close>

definition store_reload :: "walk_entry list \<Rightarrow> store \<Rightarrow> error option \<times> store" where
  "store_reload ws st = (case load_entries ws [] of Inl e \<Rightarrow> (Some e, st) | Inr st' \<Rightarrow> (None, st'))"

definition store_get :: "store \<Rightarrow> string \<Rightarrow> checklist option" where
  "store_get st p = map_of st p"

definition store_all :: "store \<Rightarrow> checklist list" where
  "store_all st = sort_key c_PolicyType (map snd st)"

definition store_wf :: "store \<Rightarrow> bool" where
  "store_wf st \<longleftrightarrow> distinct (map fst st) \<and>
     (\<forall>(k, c)\<in>set st. c_PolicyType c = k \<and> k \<noteq> '''' \<and> validateChecklist c = None)"

lemma load_entries_wf: "store_wf loaded \<Longrightarrow> load_entries ws loaded = Inr st \<Longrightarrow> store_wf st"
proof (induction ws loaded rule: load_entries.induct)
  case (4 r ws loaded)
  then show ?case by (auto simp: store_wf_def toModel_def split: if_splits option.splits)
qed auto

lemma store_reload_wf: "store_wf st \<Longrightarrow> store_wf (snd (store_reload ws st))"
  using load_entries_wf [of "[]" ws] by (auto simp: store_reload_def store_wf_def split: sum.splits)

lemma validate_items_iff: "validate_items is = None \<longleftrightarrow> (\<forall>i\<in>set is. validate_item i = None)"
  by (induction "is") (auto split: option.splits)

section \<open>Properties\<close>

text \<open>
  A classification that names an item rests on the evidence it records. The item is on the checklist,
  whatever the language model answered. Recorded as a filename match: a pattern of that item matches the
  file name and no pattern of an item with another id does, and it is upgraded to filename and keyword
  exactly when a keyword of the item occurs too. Recorded as a keyword match: no file name pattern
  matches at all and only this id's keywords occur. The model is only consulted when neither applies.
\<close>

theorem classification_has_evidence:
  assumes "classify client inp = (res, err)" and "k_CandidateID res \<noteq> ''''"
  defines "items \<equiv> set (c_Required (n_Checklist inp))"
  defines "named i \<equiv> matchAny (mr_FilenamePatterns (i_Match i)) (n_Filename inp)"
  defines "worded i \<equiv> glob_containsAny (mr_ContentKeywords (i_Match i)) (n_BodyText inp)"
  shows "(\<exists>i\<in>items. i_ID i = k_CandidateID res) \<and>
         ((k_By res \<in> {ClassifiedByFilename, ClassifiedByFilenameKeyword} \<and>
             {i_ID i | i. i \<in> items \<and> named i} = {k_CandidateID res} \<and>
             (k_By res = ClassifiedByFilenameKeyword \<longleftrightarrow> (\<exists>i\<in>items. i_ID i = k_CandidateID res \<and> worded i))) \<or>
          (k_By res = ClassifiedByKeyword \<and> (\<forall>i\<in>items. \<not> named i) \<and>
             {i_ID i | i. i \<in> items \<and> worded i} = {k_CandidateID res}) \<or>
          (k_By res = ClassifiedByLLM \<and> client \<noteq> None))"
proof -
  have names: "{i_ID i | i. i \<in> items \<and> named i} = set (matchByFilename inp)"
    and words: "{i_ID i | i. i \<in> items \<and> worded i} = set (matchByContent inp)"
    unfolding items_def named_def worded_def by (auto simp: in_matchByFilename in_matchByContent)
  have differ: "ClassifiedByFilename \<noteq> ClassifiedByFilenameKeyword" by (simp add: ClassifiedBy_defs)
  have word: "k_CandidateID res \<in> set (matchByContent inp) \<longleftrightarrow> (\<exists>i\<in>items. i_ID i = k_CandidateID res \<and> worded i)"
    unfolding in_matchByContent items_def worded_def ..
  from classify_evidence [OF assms(1,2)] show ?thesis
  proof (elim disjE)
    assume *: "k_By res = ClassifiedByFilename \<and> matchByFilename inp = [k_CandidateID res] \<and> k_CandidateID res \<notin> set (matchByContent inp)"
    then have s: "{i_ID i | i. i \<in> items \<and> named i} = {k_CandidateID res}" unfolding names by simp
    then have "\<exists>i\<in>items. i_ID i = k_CandidateID res" by blast
    with * s word differ show ?thesis by simp
  next
    assume *: "k_By res = ClassifiedByFilenameKeyword \<and> matchByFilename inp = [k_CandidateID res] \<and> k_CandidateID res \<in> set (matchByContent inp)"
    then have s: "{i_ID i | i. i \<in> items \<and> named i} = {k_CandidateID res}" unfolding names by simp
    then have "\<exists>i\<in>items. i_ID i = k_CandidateID res" by blast
    with * s word show ?thesis by simp
  next
    assume *: "k_By res = ClassifiedByKeyword \<and> matchByFilename inp = [] \<and> matchByContent inp = [k_CandidateID res]"
    then have s: "{i_ID i | i. i \<in> items \<and> worded i} = {k_CandidateID res}" unfolding words by simp
    then have "\<exists>i\<in>items. i_ID i = k_CandidateID res" by blast
    moreover have "\<forall>i\<in>items. \<not> named i" using * names by auto
    ultimately show ?thesis using * s by simp
  next
    assume "k_By res = ClassifiedByLLM \<and> client \<noteq> None \<and> (\<exists>i\<in>set (c_Required (n_Checklist inp)). i_ID i = k_CandidateID res)"
    then show ?thesis by (simp add: items_def)
  qed
qed

definition sample_checklist :: checklist where
  "sample_checklist = \<lparr>c_Name = ''Commercial General Liability'', c_PolicyType = ''cgl'',
     c_Required = [\<lparr>i_ID = ''acord_125'', i_Description = ''ACORD 125'',
        i_Match = \<lparr>mr_FilenamePatterns = [''*acord*125*''], mr_ContentKeywords = [''ACORD 125'']\<rparr>, i_RequiresField = None\<rparr>],
     c_Escalation = \<lparr>ep_ThresholdHours = 48, ep_DigestRecipient = ''''\<rparr>\<rparr>"

definition sample_input :: class_input where
  "sample_input = \<lparr>n_Filename = ''in/ACORD_125.pdf'', n_ContentType = ''application/pdf'', n_BodyText = ''acord 125 form'',
     n_PolicyType = ''cgl'', n_Checklist = sample_checklist\<rparr>"

theorem classification_has_evidence_witness:
  "\<exists>i\<in>set (c_Required sample_checklist). i_ID i = k_CandidateID (fst (classify None sample_input))"
proof -
  have "k_CandidateID (fst (classify None sample_input)) = ''acord_125''" by code_simp
  then have ne: "k_CandidateID (fst (classify None sample_input)) \<noteq> ''''" by simp
  have c: "n_Checklist sample_input = sample_checklist" by (simp add: sample_input_def)
  show ?thesis
    using classification_has_evidence [of None sample_input "fst (classify None sample_input)", OF prod.collapse [symmetric] ne]
    unfolding c by (rule conjunct1)
qed

text \<open>
  The store only ever holds valid checklists: starting from a valid store, any reload leaves one with a
  distinct non-empty policy type per checklist and every item validated; a reload that meets an error
  changes nothing; and \<open>All\<close> lists exactly the stored checklists, in order of policy type, each of
  which \<open>Get\<close> returns under its type.
\<close>

theorem checklist_store_valid:
  assumes "store_wf st" and "store_reload ws st = (err, st')"
  shows "store_wf st' \<and> (err \<noteq> None \<longrightarrow> st' = st) \<and>
         sorted (map c_PolicyType (store_all st')) \<and> mset (store_all st') = mset (map snd st') \<and>
         (\<forall>c\<in>set (store_all st'). store_get st' (c_PolicyType c) = Some c \<and> (\<forall>i\<in>set (c_Required c). validate_item i = None))"
proof -
  have wf: "store_wf st'" using store_reload_wf [OF assms(1), of ws] assms(2) by simp
  have "err \<noteq> None \<longrightarrow> st' = st" using assms(2) by (auto simp: store_reload_def split: sum.splits)
  moreover have "store_get st' (c_PolicyType c) = Some c \<and> (\<forall>i\<in>set (c_Required c). validate_item i = None)"
    if mem: "c \<in> set (store_all st')" for c
  proof -
    obtain k where kc: "(k, c) \<in> set st'" using mem by (auto simp: store_all_def)
    then have "c_PolicyType c = k" "validateChecklist c = None" using wf by (auto simp: store_wf_def)
    then show ?thesis using kc wf by (simp add: store_get_def store_wf_def validateChecklist_def validate_items_iff)
  qed
  ultimately show ?thesis using wf by (simp add: store_all_def)
qed

definition sample_raw :: raw_checklist where
  "sample_raw = \<lparr>rc_Name = ''CGL'', rc_PolicyType = ''cgl'',
     rc_Required = [\<lparr>ri_ID = ''a'', ri_Description = ''A'', ri_FilenamePatterns = [''*a*''], ri_ContentKeywords = [], ri_RequiresField = None\<rparr>],
     rc_ThresholdHours = 0, rc_DigestRecipient = ''''\<rparr>"

theorem checklist_store_valid_witness:
  "store_wf (snd (store_reload [WalkSkip, WalkFile sample_raw] [])) \<and>
   map c_PolicyType (store_all (snd (store_reload [WalkSkip, WalkFile sample_raw] []))) = [''cgl'']"
proof -
  have "store_wf []" by (simp add: store_wf_def)
  from checklist_store_valid [OF this prod.collapse [symmetric], of "[WalkSkip, WalkFile sample_raw]"]
  have "store_wf (snd (store_reload [WalkSkip, WalkFile sample_raw] []))" by (rule conjunct1)
  moreover have "map c_PolicyType (store_all (snd (store_reload [WalkSkip, WalkFile sample_raw] []))) = [''cgl'']" by code_simp
  ultimately show ?thesis by (rule conjI)
qed

end
