(* ===== verification/Retry_Model.thy ===== *)
theory Retry_Model
  imports Triage_Prelude
begin

text \<open>
  \<open>pkg/retry/retry.go\<close>: errors with their wrapping chain, the jittered delay and the loop \<open>Do\<close>. What the
  loop observes is a parameter: what the function returns on each call, whether the context has ended
  before a call or during a sleep, and the random jitter. The loop returns its error, the number of
  calls it made and the delays it slept. Delays are 64-bit and the doubling wraps as in the source; the
  jitter is computed over the rationals, without the rounding of \<open>float64\<close>.

  The lemmas show when the loop succeeds, what it returns otherwise, that it ends within its attempts
  and never sleeps longer than \<open>MaxDelay\<close>, and the closed form of the delays.
\<close>

section \<open>Errors\<close>

text \<open>An error is a message, a message that wraps an error with \<open>%w\<close>, or the \<open>Permanent\<close> marker.\<close>

datatype go_error = Plain string | Wrapped string go_error | Permanent "go_error option"

fun error_text :: "go_error \<Rightarrow> string" where
  "error_text (Plain m) = m"
| "error_text (Wrapped m e) = m @ '': '' @ error_text e"
| "error_text (Permanent None) = ''permanent error''"
| "error_text (Permanent (Some e)) = error_text e"

fun error_unwrap :: "go_error \<Rightarrow> go_error option" where
  "error_unwrap (Plain m) = None"
| "error_unwrap (Wrapped m e) = Some e"
| "error_unwrap (Permanent e) = e"

text \<open>\<open>errors.As\<close> with a \<open>*Permanent\<close> target: some error of the chain is the marker.\<close>

fun as_permanent :: "go_error \<Rightarrow> bool" where
  "as_permanent (Plain m) = False"
| "as_permanent (Wrapped m e) = as_permanent e"
| "as_permanent (Permanent e) = True"

definition markPermanent :: "go_error option \<Rightarrow> go_error option" where
  "markPermanent e = (case e of None \<Rightarrow> None | Some err \<Rightarrow> Some (Permanent (Some err)))"

section \<open>Delays\<close>

definition MaxDelay :: duration where "MaxDelay = 30 * dur_second"

definition capDelay :: "duration \<Rightarrow> duration" where
  "capDelay d = (if d > MaxDelay then MaxDelay else d)"

text \<open>Rounding a rational towards zero, as a conversion to \<open>time.Duration\<close> does.\<close>

definition trunc_rat :: "rat \<Rightarrow> int" where
  "trunc_rat x = (if 0 \<le> x then \<lfloor>x\<rfloor> else \<lceil>x\<rceil>)"

definition jitter :: "rat \<Rightarrow> duration \<Rightarrow> duration" where
  "jitter rnd d = (if d \<le> 0 then d else int64 (d + trunc_rat ((rnd * 2 - 1) * (of_int d * (1 / 5)))))"

definition next_delay :: "duration \<Rightarrow> duration" where
  "next_delay delay = (let d = int64 (delay * 2) in if d > MaxDelay then MaxDelay else d)"

section \<open>The loop\<close>

record retry_env =
  re_fn :: "nat \<Rightarrow> go_error option"
  re_ctxErr :: "nat \<Rightarrow> go_error option"
  re_ctxDone :: "nat \<Rightarrow> go_error option"
  re_jitter :: "nat \<Rightarrow> duration \<Rightarrow> duration"

record retry_run =
  ro_err :: "go_error option"
  ro_calls :: nat
  ro_sleeps :: "duration list"

definition exhausted :: "nat \<Rightarrow> go_error \<Rightarrow> go_error" where
  "exhausted n e = Wrapped (''retry exhausted after '' @ nat_str n @ '' attempts'') e"

text \<open>\<open>retry_loop v n rem i delay\<close> is the loop at attempt \<open>i\<close> of \<open>n\<close>, with \<open>rem\<close> attempts to go.\<close>

fun retry_loop :: "retry_env \<Rightarrow> nat \<Rightarrow> nat \<Rightarrow> nat \<Rightarrow> duration \<Rightarrow> go_error \<Rightarrow> retry_run" where
  "retry_loop v n 0 i delay lastErr = \<lparr>ro_err = Some (exhausted n lastErr), ro_calls = 0, ro_sleeps = []\<rparr>"
| "retry_loop v n (Suc rem) i delay lastErr =
     (case re_ctxErr v i of
        Some e \<Rightarrow> \<lparr>ro_err = Some e, ro_calls = 0, ro_sleeps = []\<rparr>
      | None \<Rightarrow> (case re_fn v i of
          None \<Rightarrow> \<lparr>ro_err = None, ro_calls = 1, ro_sleeps = []\<rparr>
        | Some e \<Rightarrow>
            if as_permanent e then \<lparr>ro_err = Some (Wrapped ''retry permanent'' e), ro_calls = 1, ro_sleeps = []\<rparr>
            else if rem = 0 then \<lparr>ro_err = Some (exhausted n e), ro_calls = 1, ro_sleeps = []\<rparr>
            else let sleep = capDelay (re_jitter v i delay) in
              case re_ctxDone v i of
                Some d \<Rightarrow> \<lparr>ro_err = Some d, ro_calls = 1, ro_sleeps = [sleep]\<rparr>
              | None \<Rightarrow> (let r = retry_loop v n rem (Suc i) (next_delay delay) e
                         in r\<lparr>ro_calls := Suc (ro_calls r), ro_sleeps := sleep # ro_sleeps r\<rparr>)))"

definition retry_attempts :: "int \<Rightarrow> nat" where
  "retry_attempts attempts = nat (if attempts \<le> 0 then 1 else attempts)"

definition retry_base :: "duration \<Rightarrow> duration" where
  "retry_base baseDelay = (if baseDelay \<le> 0 then 100 * 1000000 else baseDelay)"

definition retry_Do :: "retry_env \<Rightarrow> int \<Rightarrow> duration \<Rightarrow> retry_run" where
  "retry_Do v attempts baseDelay =
     retry_loop v (retry_attempts attempts) (retry_attempts attempts) 0 (retry_base baseDelay) (Plain ''nil'')"

section \<open>When the loop goes on\<close>

text \<open>Attempt \<open>i\<close> is passed over: it is made, fails with a retryable error, and the sleep after it is not cut short.\<close>

definition passes :: "retry_env \<Rightarrow> nat \<Rightarrow> bool" where
  "passes v i \<longleftrightarrow> re_ctxErr v i = None \<and> re_ctxDone v i = None \<and>
     (case re_fn v i of None \<Rightarrow> False | Some e \<Rightarrow> \<not> as_permanent e)"

lemma passesE:
  assumes "passes v i"
  obtains e where "re_ctxErr v i = None" "re_ctxDone v i = None" "re_fn v i = Some e" "\<not> as_permanent e"
  using assms by (auto simp: passes_def split: option.splits)

lemma MaxDelay_pos: "0 < MaxDelay"
  by (simp add: MaxDelay_def dur_second_def)

lemma capDelay_le: "capDelay d \<le> MaxDelay"
  by (simp add: capDelay_def)

lemma retry_loop_bounds:
  "ro_calls (retry_loop v n rem i delay lastErr) \<le> rem"
  "\<forall>s\<in>set (ro_sleeps (retry_loop v n rem i delay lastErr)). s \<le> MaxDelay"
  "length (ro_sleeps (retry_loop v n rem i delay lastErr)) \<le> ro_calls (retry_loop v n rem i delay lastErr)"
  by (induction v n rem i delay lastErr rule: retry_loop.induct) (auto simp: Let_def capDelay_le split: option.split)

lemma retry_loop_step:
  assumes "passes v i" and "rem \<noteq> 0"
  shows "ro_err (retry_loop v n (Suc rem) i delay lastErr) = ro_err (retry_loop v n rem (Suc i) (next_delay delay) (the (re_fn v i)))"
    and "ro_calls (retry_loop v n (Suc rem) i delay lastErr) = Suc (ro_calls (retry_loop v n rem (Suc i) (next_delay delay) (the (re_fn v i))))"
    and "ro_sleeps (retry_loop v n (Suc rem) i delay lastErr) =
      capDelay (re_jitter v i delay) # ro_sleeps (retry_loop v n rem (Suc i) (next_delay delay) (the (re_fn v i)))"
  using assms by (auto simp: Let_def elim!: passesE)

declare retry_loop.simps(2) [simp del]

lemma retry_loop_success:
  "ro_err (retry_loop v n rem i delay lastErr) = None \<longleftrightarrow>
     (\<exists>k<rem. re_ctxErr v (i + k) = None \<and> re_fn v (i + k) = None \<and> (\<forall>j<k. passes v (i + j)))"
proof (induction rem arbitrary: i delay lastErr)
  case (Suc rem)
  have split: "(\<exists>k<Suc rem. P k \<and> (\<forall>j<k. passes v (i + j))) \<longleftrightarrow>
      P 0 \<or> (passes v i \<and> (\<exists>k<rem. P (Suc k) \<and> (\<forall>j<k. passes v (Suc i + j))))" for P
  proof -
    have "(\<exists>k<Suc rem. P k \<and> (\<forall>j<k. passes v (i + j))) \<longleftrightarrow>
        P 0 \<or> (\<exists>k<rem. P (Suc k) \<and> (\<forall>j<Suc k. passes v (i + j)))"
      by (simp add: Ex_less_Suc2)
    then show ?thesis by (auto simp: All_less_Suc2)
  qed
  show ?case
  proof (cases "passes v i \<and> rem \<noteq> 0")
    case True
    then have ne: "re_fn v i \<noteq> None" by (auto elim: passesE)
    have "ro_err (retry_loop v n (Suc rem) i delay lastErr) = None \<longleftrightarrow>
        (\<exists>k<rem. re_ctxErr v (Suc i + k) = None \<and> re_fn v (Suc i + k) = None \<and> (\<forall>j<k. passes v (Suc i + j)))"
      using Suc.IH [of "Suc i"] True by (simp add: retry_loop_step(1))
    then show ?thesis using True ne split [of "\<lambda>k. re_ctxErr v (i + k) = None \<and> re_fn v (i + k) = None"] by auto
  next
    case False
    then have "ro_err (retry_loop v n (Suc rem) i delay lastErr) = None \<longleftrightarrow> re_ctxErr v i = None \<and> re_fn v i = None"
      by (auto simp: retry_loop.simps(2) Let_def passes_def split: option.splits)
    then show ?thesis using False split [of "\<lambda>k. re_ctxErr v (i + k) = None \<and> re_fn v (i + k) = None"] by auto
  qed
qed simp

lemma retry_loop_exhausts:
  assumes "\<forall>j<rem. re_ctxErr v (i + j) = None \<and> (\<exists>e. re_fn v (i + j) = Some e \<and> \<not> as_permanent e)"
    and "\<forall>j. Suc j < rem \<longrightarrow> re_ctxDone v (i + j) = None" and "0 < rem"
  shows "ro_err (retry_loop v n rem i delay lastErr) = Some (exhausted n (the (re_fn v (i + rem - 1)))) \<and>
    ro_calls (retry_loop v n rem i delay lastErr) = rem"
  using assms
proof (induction rem arbitrary: i delay lastErr)
  case (Suc rem)
  show ?case
  proof (cases "rem = 0")
    case True
    then show ?thesis using Suc.prems by (auto simp: retry_loop.simps(2))
  next
    case False
    obtain e where "re_ctxErr v i = None" "re_fn v i = Some e" "\<not> as_permanent e" using Suc.prems(1) by force
    moreover have "re_ctxDone v i = None" using Suc.prems(2) False by force
    ultimately have p: "passes v i" by (simp add: passes_def)
    have "\<forall>j<rem. re_ctxErr v (Suc i + j) = None \<and> (\<exists>e. re_fn v (Suc i + j) = Some e \<and> \<not> as_permanent e)"
      "\<forall>j. Suc j < rem \<longrightarrow> re_ctxDone v (Suc i + j) = None"
      using Suc.prems(1,2) by (metis Suc_less_eq add_Suc_shift)+
    then show ?thesis
      using Suc.IH [of "Suc i" "next_delay delay" "the (re_fn v i)"] False retry_loop_step [OF p False, of n delay lastErr] by simp
  qed
qed simp

text \<open>The attempts that are passed over lead to the next one; what that one meets decides.\<close>

lemma retry_loop_passed:
  assumes "\<forall>j<k. passes v (i + j)" and "k < rem"
  shows "\<exists>delay' lastErr'. ro_err (retry_loop v n rem i delay lastErr) = ro_err (retry_loop v n (rem - k) (i + k) delay' lastErr') \<and>
    ro_calls (retry_loop v n rem i delay lastErr) = k + ro_calls (retry_loop v n (rem - k) (i + k) delay' lastErr')"
  using assms
proof (induction k arbitrary: rem i delay lastErr)
  case (Suc k)
  obtain r where r: "rem = Suc r" "r \<noteq> 0" "k < r" using Suc.prems(2) by (cases rem) auto
  have p: "passes v i" using Suc.prems(1) by force
  have "\<forall>j<k. passes v (Suc i + j)" using Suc.prems(1) by (metis Suc_less_eq add_Suc_shift)
  from Suc.IH [OF this r(3), of "next_delay delay" "the (re_fn v i)"] show ?case
    using retry_loop_step(1,2) [OF p r(2), of n delay lastErr] r(1) by auto
qed auto

lemma retry_loop_decided:
  "re_ctxErr v i = Some e \<Longrightarrow> ro_err (retry_loop v n (Suc rem) i delay lastErr) = Some e \<and> ro_calls (retry_loop v n (Suc rem) i delay lastErr) = 0"
  "re_ctxErr v i = None \<Longrightarrow> re_fn v i = Some e \<Longrightarrow> as_permanent e \<Longrightarrow>
     ro_err (retry_loop v n (Suc rem) i delay lastErr) = Some (Wrapped ''retry permanent'' e) \<and> ro_calls (retry_loop v n (Suc rem) i delay lastErr) = 1"
  "re_ctxErr v i = None \<Longrightarrow> re_fn v i = Some e \<Longrightarrow> \<not> as_permanent e \<Longrightarrow> rem \<noteq> 0 \<Longrightarrow> re_ctxDone v i = Some d \<Longrightarrow>
     ro_err (retry_loop v n (Suc rem) i delay lastErr) = Some d \<and> ro_calls (retry_loop v n (Suc rem) i delay lastErr) = 1"
  "re_ctxErr v i = None \<Longrightarrow> re_fn v i = None \<Longrightarrow>
     ro_err (retry_loop v n (Suc rem) i delay lastErr) = None \<and> ro_calls (retry_loop v n (Suc rem) i delay lastErr) = 1"
  by (simp_all add: retry_loop.simps(2) Let_def)

lemma retry_Do_success:
  assumes "k < nat (max 1 attempts)" and "\<forall>j<k. passes v j" and "re_ctxErr v k = None" and "re_fn v k = None"
  shows "ro_err (retry_Do v attempts base) = None \<and> ro_calls (retry_Do v attempts base) = Suc k"
proof -
  let ?n = "nat (max 1 attempts)"
  have n: "retry_attempts attempts = ?n" by (auto simp: retry_attempts_def max_def)
  have "?n - k = Suc (?n - k - 1)" using assms(1) by simp
  then show ?thesis using retry_loop_passed [of k v 0 ?n ?n "retry_base base" "Plain ''nil''"] assms(1,2)
    retry_loop_decided(4) [OF assms(3,4), of ?n "?n - k - 1"] by (auto simp: retry_Do_def n)
qed

text \<open>
  C35. What the retry loop returns. It returns no error exactly when some attempt within its budget succeeds after
  attempts that all failed with a retryable error, with the context alive throughout. After such attempts, an attempt that fails with a permanent
  error is the last: that error is returned, wrapped. A context that has ended before an attempt, or that ends during the sleep after one, ends the loop with
  the error of the context. When every attempt fails with a retryable error and the context lives, all of them are made and the last error is
  returned, wrapped. The function is called at most as often as there are attempts (at least one is allowed), and the sleeps are no more than the
  calls and never longer than \<open>MaxDelay\<close>.
\<close>

theorem retry_outcome:
  fixes v :: retry_env and attempts :: int and base :: duration
  defines "n \<equiv> nat (max 1 attempts)" and "r \<equiv> retry_Do v attempts base"
  shows "(ro_err r = None \<longleftrightarrow> (\<exists>k<n. re_ctxErr v k = None \<and> re_fn v k = None \<and> (\<forall>j<k. passes v j))) \<and>
    (\<forall>k<n. (\<forall>j<k. passes v j) \<longrightarrow>
       (\<forall>e. re_ctxErr v k = None \<and> re_fn v k = Some e \<and> as_permanent e \<longrightarrow> ro_err r = Some (Wrapped ''retry permanent'' e) \<and> ro_calls r = Suc k) \<and>
       (\<forall>e. re_ctxErr v k = Some e \<longrightarrow> ro_err r = Some e \<and> ro_calls r = k) \<and>
       (\<forall>e d. re_ctxErr v k = None \<and> re_fn v k = Some e \<and> \<not> as_permanent e \<and> Suc k < n \<and> re_ctxDone v k = Some d \<longrightarrow>
          ro_err r = Some d \<and> ro_calls r = Suc k)) \<and>
    ro_calls r \<le> n \<and> length (ro_sleeps r) \<le> ro_calls r \<and> (\<forall>s\<in>set (ro_sleeps r). s \<le> MaxDelay) \<and>
    ((\<forall>j<n. re_ctxErr v j = None \<and> re_ctxDone v j = None \<and> (\<exists>e. re_fn v j = Some e \<and> \<not> as_permanent e)) \<longrightarrow>
       ro_calls r = n \<and> ro_err r = Some (exhausted n (the (re_fn v (n - 1)))))"
proof -
  let ?r = "retry_loop v n n 0 (retry_base base) (Plain ''nil'')"
  have n: "retry_attempts attempts = n" "0 < n" by (auto simp: retry_attempts_def n_def max_def)
  have r: "r = ?r" by (simp add: r_def retry_Do_def n(1))
  have decided: "(\<forall>e. re_ctxErr v k = None \<and> re_fn v k = Some e \<and> as_permanent e \<longrightarrow> ro_err ?r = Some (Wrapped ''retry permanent'' e) \<and> ro_calls ?r = Suc k) \<and>
      (\<forall>e. re_ctxErr v k = Some e \<longrightarrow> ro_err ?r = Some e \<and> ro_calls ?r = k) \<and>
      (\<forall>e d. re_ctxErr v k = None \<and> re_fn v k = Some e \<and> \<not> as_permanent e \<and> Suc k < n \<and> re_ctxDone v k = Some d \<longrightarrow> ro_err ?r = Some d \<and> ro_calls ?r = Suc k)"
    if k: "k < n" "\<forall>j<k. passes v j" for k
  proof -
    define m where "m = n - k - 1"
    have m: "n - k = Suc m" "Suc k < n \<Longrightarrow> m \<noteq> 0" using k(1) by (simp_all add: m_def)
    obtain delay' lastErr' where "ro_err ?r = ro_err (retry_loop v n (Suc m) k delay' lastErr')"
      "ro_calls ?r = k + ro_calls (retry_loop v n (Suc m) k delay' lastErr')"
      using retry_loop_passed [of k v 0 n n "retry_base base" "Plain ''nil''"] k m(1) by auto
    then show ?thesis using retry_loop_decided [where v = v and i = k and n = n and rem = m and delay = delay' and lastErr = lastErr'] m(2) by auto
  qed
  have success: "ro_err ?r = None \<longleftrightarrow> (\<exists>k<n. re_ctxErr v k = None \<and> re_fn v k = None \<and> (\<forall>j<k. passes v j))"
    using retry_loop_success [of v n n 0 "retry_base base" "Plain ''nil''"] by simp
  have all: "(\<forall>j<n. re_ctxErr v j = None \<and> re_ctxDone v j = None \<and> (\<exists>e. re_fn v j = Some e \<and> \<not> as_permanent e)) \<longrightarrow>
      ro_calls ?r = n \<and> ro_err ?r = Some (exhausted n (the (re_fn v (n - 1))))"
    using retry_loop_exhausts [of n v 0 n "retry_base base" "Plain ''nil''"] n(2) by simp
  show ?thesis unfolding r
    by (intro conjI success all retry_loop_bounds) (use decided in blast)
qed

definition failing_twice :: retry_env where
  "failing_twice = \<lparr>re_fn = (\<lambda>i. if i < 2 then Some (Plain ''transient'') else None), re_ctxErr = (\<lambda>_. None),
     re_ctxDone = (\<lambda>_. None), re_jitter = (\<lambda>_ d. d)\<rparr>"

theorem retry_outcome_witness:
  "ro_err (retry_Do failing_twice 3 1000) = None \<and> ro_calls (retry_Do failing_twice 3 1000) \<le> 3 \<and>
   ro_err (retry_Do failing_twice 2 1000) = Some (exhausted 2 (Plain ''transient'')) \<and>
   ro_err (retry_Do (failing_twice\<lparr>re_fn := (\<lambda>_. markPermanent (Some (Plain ''denied'')))\<rparr>) 3 1000) =
     Some (Wrapped ''retry permanent'' (Permanent (Some (Plain ''denied''))))"
proof -
  let ?denied = "failing_twice\<lparr>re_fn := (\<lambda>_. markPermanent (Some (Plain ''denied'')))\<rparr>"
  have "re_ctxErr ?denied 0 = None" "re_fn ?denied 0 = Some (Permanent (Some (Plain ''denied'')))" by (simp_all add: failing_twice_def markPermanent_def)
  then have perm: "ro_err (retry_Do ?denied 3 1000) = Some (Wrapped ''retry permanent'' (Permanent (Some (Plain ''denied''))))"
    using retry_outcome [of ?denied 3 1000] by fastforce
  have "re_fn failing_twice 2 = None" "passes failing_twice 0" "passes failing_twice 1" "re_ctxErr failing_twice k = None" for k
    by (simp_all add: failing_twice_def passes_def)
  then have "\<exists>k<nat (max 1 3). re_ctxErr failing_twice k = None \<and> re_fn failing_twice k = None \<and> (\<forall>j<k. passes failing_twice j)"
    by (intro exI [of _ 2]) (auto simp: less_2_cases_iff)
  then have "ro_err (retry_Do failing_twice 3 1000) = None \<and> ro_calls (retry_Do failing_twice 3 1000) \<le> 3 \<and>
      ro_err (retry_Do failing_twice 2 1000) = Some (exhausted 2 (Plain ''transient''))"
    using retry_outcome [of failing_twice 3 1000] retry_outcome [of failing_twice 2 1000]
    by (simp add: failing_twice_def numeral_2_eq_2)
  then show ?thesis using perm by blast
qed

section \<open>Backoff\<close>

lemma next_delay_min:
  assumes "0 < d" "d < 2 ^ 62"
  shows "next_delay d = min MaxDelay (d * 2)"
proof -
  have "int64 (d * 2) = d * 2" using assms by (intro int64_id) (simp add: in_int64_def)
  then show ?thesis by (auto simp: next_delay_def Let_def min_def)
qed

lemma capped_double:
  assumes "0 < d"
  shows "min MaxDelay (min MaxDelay (d * 2) * 2 ^ k) = min MaxDelay (d * 2 ^ Suc k)"
proof (cases "d * 2 \<le> MaxDelay")
  case True
  then show ?thesis by (simp add: mult.assoc)
next
  case False
  have "(1::int) \<le> 2 ^ k" by simp
  then have "MaxDelay \<le> MaxDelay * 2 ^ k" "d * 2 \<le> d * 2 * 2 ^ k" using MaxDelay_pos assms by (simp_all add: mult_le_cancel_left1)
  then show ?thesis using False by (simp add: min_def mult.assoc)
qed

lemma retry_loop_backoff:
  assumes "\<And>i d. re_jitter v i d = d" and "0 < rem" "0 < delay" "delay < 2 ^ 62" "\<forall>j. Suc j < rem \<longrightarrow> passes v (i + j)"
  shows "ro_sleeps (retry_loop v n rem i delay lastErr) = map (\<lambda>k. min MaxDelay (delay * 2 ^ k)) [0..<rem - 1]"
  using assms(2-)
proof (induction rem arbitrary: i delay lastErr)
  case (Suc rem)
  show ?case
  proof (cases "rem = 0")
    case True
    then show ?thesis by (auto simp: retry_loop.simps(2) split: option.split)
  next
    case False
    then have p: "passes v i" using Suc.prems(4) by force
    have nd: "next_delay delay = min MaxDelay (delay * 2)" "0 < next_delay delay" "next_delay delay < 2 ^ 62"
      using next_delay_min [OF Suc.prems(2,3)] Suc.prems(2) MaxDelay_pos by (auto simp: min_def MaxDelay_def dur_second_def)
    have "\<forall>j. Suc j < rem \<longrightarrow> passes v (Suc i + j)" using Suc.prems(4) by (metis Suc_less_eq add_Suc_shift)
    then have "ro_sleeps (retry_loop v n rem (Suc i) (next_delay delay) (the (re_fn v i))) =
        map (\<lambda>k. min MaxDelay (next_delay delay * 2 ^ k)) [0..<rem - 1]"
      using False nd by (intro Suc.IH) auto
    moreover have "[0..<Suc rem - 1] = 0 # map Suc [0..<rem - 1]" using False by (simp add: map_Suc_upt upt_conv_Cons)
    ultimately show ?thesis
      using retry_loop_step(3) [OF p False, of n delay lastErr] assms(1) capped_double [OF Suc.prems(2)]
      by (simp add: nd(1) capDelay_def min_def [of MaxDelay delay])
  qed
qed simp

text \<open>
  Without jitter the delays double from the base up to the cap: while the attempts keep failing, the
  \<open>k\<close>-th sleep lasts exactly \<open>base * 2^k\<close> or \<open>MaxDelay\<close>, whichever is shorter, and the 64-bit doubling
  never wraps for a base below \<open>2^62\<close> nanoseconds.
\<close>

theorem retry_backoff:
  assumes "\<And>i d. re_jitter v i d = d" and "0 < base" "base < 2 ^ 62" and "\<forall>j. Suc j < nat (max 1 attempts) \<longrightarrow> passes v j"
  shows "ro_sleeps (retry_Do v attempts base) = map (\<lambda>k. min MaxDelay (base * 2 ^ k)) [0..<nat (max 1 attempts) - 1]"
proof -
  have n: "retry_attempts attempts = nat (max 1 attempts)" by (auto simp: retry_attempts_def max_def)
  have "retry_base base = base" using assms(2) by (simp add: retry_base_def)
  then show ?thesis unfolding retry_Do_def n
    using retry_loop_backoff [of v "nat (max 1 attempts)" base 0, OF assms(1) _ assms(2,3)] assms(4) by simp
qed

theorem retry_backoff_witness:
  "ro_sleeps (retry_Do (failing_twice\<lparr>re_fn := (\<lambda>_. Some (Plain ''transient''))\<rparr>) 4 (20 * dur_second)) =
     [20 * dur_second, 30 * dur_second, 30 * dur_second]"
proof -
  have "ro_sleeps (retry_Do (failing_twice\<lparr>re_fn := (\<lambda>_. Some (Plain ''transient''))\<rparr>) 4 (20 * dur_second)) =
      map (\<lambda>k. min MaxDelay (20 * dur_second * 2 ^ k)) [0..<nat (max 1 4) - 1]"
    by (rule retry_backoff) (simp_all add: failing_twice_def passes_def dur_second_def)
  also have "[0..<nat (max 1 4) - 1] = [0, 1, 2]" by code_simp
  finally show ?thesis by (simp add: MaxDelay_def dur_second_def)
qed

text \<open>The jitter keeps a delay within a fifth of itself.\<close>

lemma jitter_band:
  assumes "0 \<le> rnd" "rnd < 1" "0 < d" "d \<le> MaxDelay"
  shows "4 * d \<le> 5 * jitter rnd d" "5 * jitter rnd d \<le> 6 * d"
proof -
  let ?x = "(rnd * 2 - 1) * (rat_of_int d * (1 / 5))"
  have "\<bar>rnd * 2 - 1\<bar> \<le> 1" using assms by (simp add: abs_le_iff)
  then have "\<bar>?x\<bar> \<le> 1 * (rat_of_int d * (1 / 5))" unfolding abs_mult using assms(3) by (intro mult_mono) auto
  moreover have "\<bar>rat_of_int (trunc_rat ?x)\<bar> \<le> \<bar>?x\<bar>"
  proof (cases "0 \<le> ?x")
    case True
    then show ?thesis using of_int_floor_le [of ?x] by (simp add: trunc_rat_def)
  next
    case False
    then have "rat_of_int \<lceil>?x\<rceil> \<le> 0" "?x \<le> rat_of_int \<lceil>?x\<rceil>" by (simp_all only: of_int_le_0_iff ceiling_le_zero le_of_int_ceiling)
    then have "\<bar>rat_of_int \<lceil>?x\<rceil>\<bar> \<le> \<bar>?x\<bar>" by linarith
    then show ?thesis using False by (simp only: trunc_rat_def if_False)
  qed
  ultimately have "5 * \<bar>rat_of_int (trunc_rat ?x)\<bar> \<le> rat_of_int d" by simp
  then have b: "5 * \<bar>trunc_rat ?x\<bar> \<le> d" by (metis of_int_abs of_int_le_iff of_int_mult of_int_numeral)
  have "in_int64 (d + trunc_rat ?x)" using b assms(4) by (auto simp: in_int64_def MaxDelay_def dur_second_def)
  then have "jitter rnd d = d + trunc_rat ?x" using assms(3) by (simp add: jitter_def)
  then show "4 * d \<le> 5 * jitter rnd d" "5 * jitter rnd d \<le> 6 * d" using b by linarith+
qed

end
