(* ===== verification/Service_World.thy ===== *)
theory Service_World
  imports Audit_Repo Classifier_Model
begin

text \<open>
  The world the service acts on and what it is given: the configuration values it reads, the functions
  of code outside the repository (hashing, language model, text extractors, MIME and date parsers, the
  mail sender) and the state shared by its handlers (database, audit log, claims, reply queue). One call
  of a handler reads the clock once. Fresh ids come from a supply \<open>v_uuid\<close> numbered by \<open>w_supply\<close>. A
  repository call fails when the fault oracle \<open>v_fault\<close> says so for the operation and its subject;
  otherwise it does what the repository theories define.

  \<open>SubmissionsService.audit\<close> writes to the log, or, during an ingest, to the collector that
  \<open>flushAudit\<close> empties. The dispatch claims are the set of submissions whose reply is being sent.
\<close>

section \<open>Configuration and environment\<close>

record config =
  cfg_RepliesEnabled :: "bool option"
  cfg_PolicyClarifyMaxAsks :: int
  cfg_CoalesceWindow :: duration
  cfg_QueueSize :: nat
  cfg_ConfidenceFloor :: float64
  cfg_AttachmentLinkDomains :: "string list"
  cfg_UnreadableMinSizeBytes :: int
  cfg_UnreadableMinChars :: int
  cfg_MatchWindow :: duration
  cfg_EscalationThreshold :: duration
  cfg_BindWindow :: duration
  cfg_MinGap :: duration
  cfg_BindGrace :: duration
  cfg_AutoCloseAfter :: duration
  cfg_AwaitingAutoCloseAfter :: duration
  cfg_DigestInterval :: duration
  cfg_DigestMaxRows :: int
  cfg_DigestRecipient :: string

definition replies_disabled :: "config \<Rightarrow> bool" where
  "replies_disabled c \<longleftrightarrow> cfg_RepliesEnabled c = Some False"

datatype repo_op =
    OpFindByReference | OpFindByDeterministicID | OpFindContentMatch | OpUpsertSubmission
  | OpUpsertWithReply | OpUpsertEmail | OpSetLastReplyAt | OpClearReplyHash | OpAuditAppend
  | OpListPending | OpGetPending | OpReplyBlocked | OpOutboxUpdate | OpMarkSent
  | OpListStale | OpListBindSoon | OpListStalled | OpListCompleted | OpListEscalated
  | OpIDsByMessageIDs | OpListHeld | OpSetOnHold | OpExpireForSubmissions
  | OpListOpen | OpCountOpen | OpFilenameOnly | OpIDsByEvent
  | OpAuditPrune | OpOutboxPrune | OpClearText | OpExpirePending

record env =
  v_now :: gotime
  v_cfg :: config
  v_store :: store
  v_uuid :: "nat \<Rightarrow> string"
  v_sha :: "string \<Rightarrow> string"
  v_numfmt :: numfmt
  v_llm :: "llm_client option"
  v_extractors :: "string \<Rightarrow> (string \<Rightarrow> string option) option"
  v_parseMedia :: "string \<Rightarrow> string option"
  v_parseDate :: "string \<Rightarrow> string \<Rightarrow> gotime option"
  v_send :: "reply \<Rightarrow> error + string"
  v_senderName :: string
  v_requestID :: string
  v_fault :: "repo_op \<Rightarrow> string \<Rightarrow> error option"

section \<open>World\<close>

record reply_job =
  j_Reply :: reply
  j_SubmissionID :: string
  j_OutboxID :: string
  j_Version :: gotime

text \<open>\<open>w_collector\<close> is the audit collector of the ingest in progress, if any; \<open>w_sent\<close> records what the
  sender accepted, as the receiving side of the model.\<close>

record world =
  w_db :: db
  w_audit :: "audit_entry list"
  w_collector :: "audit_entry list option"
  w_dispatching :: "string list"
  w_jobs :: "reply_job list"
  w_closed :: bool
  w_cappedDay :: "int option"
  w_supply :: nat
  w_sent :: "reply list"

definition empty_world :: world where
  "empty_world = \<lparr>w_db = empty_db, w_audit = [], w_collector = None, w_dispatching = [], w_jobs = [],
                  w_closed = False, w_cappedDay = None, w_supply = 0, w_sent = []\<rparr>"

definition newUUID :: "env \<Rightarrow> world \<Rightarrow> string \<times> world" where
  "newUUID v w = (v_uuid v (w_supply w), w\<lparr>w_supply := Suc (w_supply w)\<rparr>)"

section \<open>Audit\<close>

definition audit_entry_for :: "env \<Rightarrow> string \<Rightarrow> event_type \<Rightarrow> (string \<times> any_val) list \<Rightarrow> audit_entry" where
  "audit_entry_for v sid ev payload =
     \<lparr>a_ID = '''', a_SubmissionID = sid, a_EventType = ev, a_Payload = payload, a_RequestID = v_requestID v,
      a_CreatedAt = zero_time\<rparr>"

text \<open>\<open>Audit.Append\<close> through the repository: \<^const>\<open>Inl\<close> when the write fails.\<close>

definition repo_audit_append :: "env \<Rightarrow> audit_entry \<Rightarrow> world \<Rightarrow> error + world" where
  "repo_audit_append v e w = (case v_fault v OpAuditAppend (a_SubmissionID e) of
       Some err \<Rightarrow> Inl err
     | None \<Rightarrow>
         (let (uid, w1) = newUUID v w in
          case audit_append uid (v_now v) (Some e) (w_audit w1) of
            Inl err \<Rightarrow> Inl err
          | Inr entries \<Rightarrow> Inr (w1\<lparr>w_audit := entries\<rparr>)))"

text \<open>A failed append is only logged.\<close>

definition append_logged :: "env \<Rightarrow> audit_entry \<Rightarrow> world \<Rightarrow> world" where
  "append_logged v e w = (case repo_audit_append v e w of Inl _ \<Rightarrow> w | Inr w' \<Rightarrow> w')"

definition audit :: "env \<Rightarrow> string \<Rightarrow> event_type \<Rightarrow> (string \<times> any_val) list \<Rightarrow> world \<Rightarrow> world" where
  "audit v sid ev payload w = (case w_collector w of
       Some es \<Rightarrow> w\<lparr>w_collector := Some (es @ [audit_entry_for v sid ev payload])\<rparr>
     | None \<Rightarrow> append_logged v (audit_entry_for v sid ev payload) w)"

definition flushAudit :: "env \<Rightarrow> world \<Rightarrow> world" where
  "flushAudit v w = (case w_collector w of
       None \<Rightarrow> w
     | Some es \<Rightarrow> (fold (append_logged v) es w)\<lparr>w_collector := None\<rparr>)"

definition auditFileFailed :: "env \<Rightarrow> string \<Rightarrow> string \<Rightarrow> string \<Rightarrow> world \<Rightarrow> world" where
  "auditFileFailed v sid folder reason w =
     audit v sid EventMailFileFailed [(''folder'', AString folder), (''error'', AString reason)] w"

definition reparentAudits :: "string \<Rightarrow> string \<Rightarrow> world \<Rightarrow> world" where
  "reparentAudits from_id to_id w =
     w\<lparr>w_collector := map_option (map (\<lambda>e. if a_SubmissionID e = from_id then e\<lparr>a_SubmissionID := to_id\<rparr> else e)) (w_collector w)\<rparr>"

text \<open>The spend-cap event bypasses the collector and is written once per UTC day.\<close>

definition auditCapOnce :: "env \<Rightarrow> world \<Rightarrow> world" where
  "auditCapOnce v w =
     (let day = utcDay (v_now v) in
      if w_cappedDay w = Some day then w
      else case repo_audit_append v (audit_entry_for v '''' EventLLMCapped [(''day'', AInt day)])
                  (w\<lparr>w_cappedDay := Some day\<rparr>) of
             Inl _ \<Rightarrow> w\<lparr>w_cappedDay := None\<rparr>
           | Inr w' \<Rightarrow> w')"

definition auditLLMCall :: "env \<Rightarrow> string \<Rightarrow> string \<Rightarrow> string \<Rightarrow> llm_usage \<Rightarrow> world \<Rightarrow> world" where
  "auditLLMCall v sid op_name filename u w =
     (if u_PromptHash u = '''' \<and> u_InputTokens u = 0 \<and> u_OutputTokens u = 0 then w
      else audit v sid EventLLMCall
        [(''op'', AString op_name), (''filename'', AString filename), (''model'', AString (u_Model u)),
         (''prompt_hash'', AString (u_PromptHash u)), (''latency_ms'', AInt64 (u_LatencyMs u)),
         (''input_tokens'', AInt (u_InputTokens u)), (''output_tokens'', AInt (u_OutputTokens u)),
         (''estimated_cost_usd'', AFloat64 (u_EstimatedCostUSD u))] w)"

section \<open>Dispatch claims and the reply queue\<close>

definition claimDispatch :: "string \<Rightarrow> world \<Rightarrow> bool \<times> world" where
  "claimDispatch sid w =
     (if sid \<in> set (w_dispatching w) then (False, w)
      else (True, w\<lparr>w_dispatching := sid # w_dispatching w\<rparr>))"

definition releaseDispatch :: "string \<Rightarrow> world \<Rightarrow> world" where
  "releaseDispatch sid w = w\<lparr>w_dispatching := filter (\<lambda>x. x \<noteq> sid) (w_dispatching w)\<rparr>"

definition enqueueReply :: "env \<Rightarrow> reply_job \<Rightarrow> world \<Rightarrow> bool \<times> world" where
  "enqueueReply v job w =
     (if w_closed w then (False, w)
      else if length (w_jobs w) < cfg_QueueSize (v_cfg v) then (True, w\<lparr>w_jobs := w_jobs w @ [job]\<rparr>)
      else (False, w))"

section \<open>What the audit operations leave alone\<close>

definition same_core :: "world \<Rightarrow> world \<Rightarrow> bool" where
  "same_core w w' \<longleftrightarrow>
     w_db w' = w_db w \<and> w_dispatching w' = w_dispatching w \<and> w_jobs w' = w_jobs w \<and> w_closed w' = w_closed w \<and>
     w_sent w' = w_sent w"

lemma same_core_refl [simp, intro]: "same_core w w"
  by (simp add: same_core_def)

lemma same_core_trans [trans]: "same_core a b \<Longrightarrow> same_core b c \<Longrightarrow> same_core a c"
  by (simp add: same_core_def)

lemma same_core_newUUID [intro]: "same_core w (snd (newUUID v w))"
  by (simp add: newUUID_def same_core_def)

lemma same_core_repo_append: "repo_audit_append v e w = Inr w' \<Longrightarrow> same_core w w'"
  by (auto simp: repo_audit_append_def newUUID_def Let_def same_core_def split: option.splits sum.splits)

lemma same_core_append_logged [intro]: "same_core w (append_logged v e w)"
  unfolding append_logged_def by (auto split: sum.split intro: same_core_repo_append)

lemma same_core_audit [intro]: "same_core w (audit v sid ev p w)"
  unfolding audit_def by (auto split: option.split) (simp add: same_core_def)

lemma same_core_fold_append: "same_core w (fold (append_logged v) es w)"
proof (induction es arbitrary: w)
  case (Cons e es)
  then show ?case using same_core_trans [OF same_core_append_logged [of w v e]] by simp
qed simp

lemma same_core_flushAudit [intro]: "same_core w (flushAudit v w)"
  using same_core_fold_append [of w v] by (auto simp: flushAudit_def same_core_def split: option.split)

lemma same_core_reparent [intro]: "same_core w (reparentAudits a b w)"
  by (simp add: reparentAudits_def same_core_def)

lemma same_core_auditCapOnce [intro]: "same_core w (auditCapOnce v w)"
proof -
  have "same_core (w\<lparr>w_cappedDay := d\<rparr>) w' \<Longrightarrow> same_core w w'" for d w' by (simp add: same_core_def)
  then show ?thesis
    by (auto simp: auditCapOnce_def Let_def split: sum.split dest: same_core_repo_append)
qed

lemma same_core_auditLLMCall [intro]: "same_core w (auditLLMCall v sid op_name f u w)"
  by (auto simp: auditLLMCall_def)

lemmas same_core_rules = same_core_refl same_core_newUUID same_core_audit same_core_flushAudit same_core_reparent
  same_core_auditCapOnce same_core_auditLLMCall same_core_append_logged

text \<open>Claims are exclusive: a second claim of the same submission is refused until it is released.\<close>

lemma claim_exclusive:
  "claimDispatch sid w = (ok, w') \<Longrightarrow> ok \<longleftrightarrow> sid \<notin> set (w_dispatching w)"
  "claimDispatch sid w = (ok, w') \<Longrightarrow> sid \<in> set (w_dispatching w')"
  "claimDispatch sid w = (ok, w') \<Longrightarrow> fst (claimDispatch sid w') = False"
  "sid \<notin> set (w_dispatching (releaseDispatch sid w))"
  by (auto simp: claimDispatch_def releaseDispatch_def split: if_splits)

text \<open>The audit trail of an ingest: everything collected is appended in order when no write fails.\<close>

lemma repo_append_appends:
  assumes "repo_audit_append v e w = Inr w'"
  shows "\<exists>r. w_audit w' = w_audit w @ [r] \<and> a_EventType r = a_EventType e \<and> a_SubmissionID r = a_SubmissionID e"
  using assms
  by (auto simp: repo_audit_append_def newUUID_def Let_def audit_append_def audit_row_of_def split: option.splits sum.splits if_splits)

lemma append_logged_grows: "\<exists>rs. w_audit (append_logged v e w) = w_audit w @ rs"
  using repo_append_appends [of v e w] by (auto simp: append_logged_def split: sum.split)

lemma fold_append_grows: "\<exists>rs. w_audit (fold (append_logged v) es w) = w_audit w @ rs"
proof (induction es arbitrary: w)
  case (Cons e es)
  obtain rs where "w_audit (append_logged v e w) = w_audit w @ rs" using append_logged_grows by blast
  then show ?case using Cons.IH [of "append_logged v e w"] by (metis append.assoc fold_simps(2))
qed simp

lemma flushAudit_grows: "\<exists>rs. w_audit (flushAudit v w) = w_audit w @ rs"
  using fold_append_grows [of v _ w] by (auto simp: flushAudit_def split: option.split)

end
