(* ===== verification/Document_Service.thy ===== *)
theory Document_Service
  imports Service_World
begin

text \<open>
  The part of \<open>internal/service/submissions.go\<close> that turns attachments into classified documents:
  text extraction, detection of unreadable and password-protected files, classification, extraction of a
  declared field, and the account identity (named insured and effective date) read from an application.

  Text extractors are the functions of the environment: \<^const>\<open>None\<close> for no extractor of a content type,
  and a result of \<^const>\<open>None\<close> for an extraction that fails or panics, which the code treats alike.
\<close>

section \<open>Content types and text\<close>

definition normalizeContentType :: "env \<Rightarrow> string \<Rightarrow> string" where
  "normalizeContentType v ct = (case v_parseMedia v ct of Some mt \<Rightarrow> mt | None \<Rightarrow> to_lower (trim_space ct))"

definition isPDF :: "env \<Rightarrow> string \<Rightarrow> bool" where
  "isPDF v contentType =
     (let ct = normalizeContentType v contentType in ct = ''application/pdf'' \<or> ct = ''application/x-pdf'')"

definition pdfTrailerScanBytes :: nat where "pdfTrailerScanBytes = 4096"
definition maxExtractedTextBytes :: nat where "maxExtractedTextBytes = 262144"

definition pdfTrailer :: "string \<Rightarrow> string" where
  "pdfTrailer content =
     (if length content \<le> pdfTrailerScanBytes then content
      else drop (length content - pdfTrailerScanBytes) content)"

definition looksLikePDF :: "env \<Rightarrow> attachment \<Rightarrow> bool" where
  "looksLikePDF v a =
     (if t_Content a = '''' then False
      else if isPDF v (t_ContentType a) \<or> has_suffix (to_lower (t_Filename a)) ''.pdf'' then True
      else has_prefix (t_Content a) ''%PDF-'')"

definition isEncrypted :: "env \<Rightarrow> attachment \<Rightarrow> bool" where
  "isEncrypted v a = (looksLikePDF v a \<and> str_contains (pdfTrailer (t_Content a)) ''/Encrypt'')"

definition extractText :: "env \<Rightarrow> attachment \<Rightarrow> string" where
  "extractText v a =
     (if t_Content a = '''' then ''''
      else let ct = normalizeContentType v (t_ContentType a) in
           case v_extractors v ct of
             None \<Rightarrow> if has_prefix ct ''text/'' then t_Content a else ''''
           | Some ext \<Rightarrow> (case ext (t_Content a) of None \<Rightarrow> '''' | Some out \<Rightarrow> out))"

definition isUnreadable :: "env \<Rightarrow> attachment \<Rightarrow> string \<Rightarrow> bool" where
  "isUnreadable v a text =
     (let ct = normalizeContentType v (t_ContentType a) in
      if has_prefix ct ''text/'' then False
      else if v_extractors v ct = None then True
      else if \<not> isPDF v (t_ContentType a) then False
      else if t_Size a < cfg_UnreadableMinSizeBytes (v_cfg v) then False
      else int (length (trim_space text)) < cfg_UnreadableMinChars (v_cfg v))"

section \<open>Classifying an attachment\<close>

fun field_type_str :: "field_type \<Rightarrow> string" where
  "field_type_str FieldTypeNumber = ''number''"
| "field_type_str FieldTypeString = ''string''"
| "field_type_str (FieldTypeOther s) = s"

definition extractField :: "env \<Rightarrow> string \<Rightarrow> string \<Rightarrow> string \<Rightarrow> requires_field \<Rightarrow> world \<Rightarrow> any_val \<times> world" where
  "extractField v sid filename text rf w = (case v_llm v of
       None \<Rightarrow> (ANil, w)
     | Some l \<Rightarrow>
        (let (resp, err) = llm_ExtractField l
               \<lparr> fq_Filename = filename, fq_TextSample = text, fq_FieldName = f_Name rf,
                 fq_FieldDescription = ''expected type '' @ field_type_str (f_Type rf), fq_FieldType = field_type_str (f_Type rf) \<rparr>;
             w1 = auditLLMCall v sid ''extract_field'' filename (fr_Usage resp) w
         in case err of
              Some ErrSpendCapReached \<Rightarrow> (ANil, auditCapOnce v w1)
            | Some e \<Rightarrow> (ANil, audit v sid EventLLMFailed
                [(''filename'', AString filename), (''op'', AString ''extract_field''),
                 (''field_name'', AString (f_Name rf)), (''error'', AString (error_str e))] w1)
            | None \<Rightarrow> (fr_Value resp, audit v sid EventFieldExtracted
                [(''filename'', AString filename), (''field_name'', AString (f_Name rf)), (''value'', fr_Value resp),
                 (''confidence'', AFloat64 (fr_Confidence resp)), (''reason'', AString (fr_Reason resp))] w1)))"

text \<open>The item with an id: a later item of the checklist replaces an earlier one in the map.\<close>

definition item_by_id :: "checklist \<Rightarrow> string \<Rightarrow> required_item option" where
  "item_by_id cl i = find (\<lambda>it. i_ID it = i) (rev (c_Required cl))"

text \<open>The audits of a classification before the document is built.\<close>

definition audit_classify_call :: "env \<Rightarrow> string \<Rightarrow> string \<Rightarrow> class_result \<Rightarrow> error option \<Rightarrow> world \<Rightarrow> world" where
  "audit_classify_call v sid filename res err w =
     (let w1 = (if k_Capped res then auditCapOnce v w else w);
          w2 = (case err of None \<Rightarrow> w1
                | Some e \<Rightarrow> audit v sid EventLLMFailed
                    [(''filename'', AString filename), (''op'', AString ''classify''), (''error'', AString (error_str e))] w1)
      in case k_Usage res of None \<Rightarrow> w2 | Some u \<Rightarrow> auditLLMCall v sid ''classify'' filename u w2)"

definition audit_document :: "env \<Rightarrow> string \<Rightarrow> attachment \<Rightarrow> string \<Rightarrow> class_result \<Rightarrow> bool \<Rightarrow> bool \<Rightarrow> world \<Rightarrow> world" where
  "audit_document v sid a text res unreadable encrypted w =
     (let w1 = audit v sid EventDocumentClassified
                 [(''filename'', AString (t_Filename a)), (''classified_as'', AString (k_CandidateID res)),
                  (''confidence'', AFloat64 (k_Confidence res)), (''by'', AString (k_By res)), (''reason'', AString (k_Reason res))] w;
          w2 = (if unreadable then audit v sid EventDocumentUnreadable
                  [(''filename'', AString (t_Filename a)), (''size_bytes'', AInt (t_Size a)),
                   (''extracted_chars'', AInt (int (length (trim_space text))))] w1 else w1)
      in if encrypted then audit v sid EventDocumentEncrypted
           [(''filename'', AString (t_Filename a)), (''size_bytes'', AInt (t_Size a))] w2 else w2)"

definition classifyAttachment :: "env \<Rightarrow> string \<Rightarrow> string \<Rightarrow> checklist \<Rightarrow> attachment \<Rightarrow> world \<Rightarrow> document \<times> world" where
  "classifyAttachment v sid emailID cl a w =
     (let text = extractText v a;
          encrypted = (isEncrypted v a \<and> trim_space text = '''');
          unreadable = (\<not> encrypted \<and> isUnreadable v a text);
          (res, err) = classify (v_llm v) \<lparr>n_Filename = t_Filename a, n_ContentType = t_ContentType a,
                         n_BodyText = text, n_PolicyType = c_PolicyType cl, n_Checklist = cl\<rparr>;
          w1 = audit_classify_call v sid (t_Filename a) res err w;
          (uid, w2) = newUUID v w1;
          doc = \<lparr> d_ID = uid, d_SubmissionID = sid, d_EmailID = emailID, d_Filename = t_Filename a,
                  d_ContentType = t_ContentType a, d_SizeBytes = t_Size a, d_SHA256 = t_SHA256 a,
                  d_ClassifiedAs = k_CandidateID res, d_Confidence = k_Confidence res, d_ClassifiedBy = k_By res,
                  d_ExtractedText = truncateBytes text maxExtractedTextBytes, d_ExtractedFields = None,
                  d_Unreadable = unreadable, d_Encrypted = encrypted, d_CreatedAt = v_now v \<rparr>;
          w3 = audit_document v sid a text res unreadable encrypted w2
      in case item_by_id cl (k_CandidateID res) of
           Some it \<Rightarrow> (case i_RequiresField it of
               None \<Rightarrow> (doc, w3)
             | Some rf \<Rightarrow> (let (x, w4) = extractField v sid (t_Filename a) text rf w3
                           in (if x = ANil then doc else doc\<lparr>d_ExtractedFields := Some [(f_Name rf, x)]\<rparr>, w4)))
         | None \<Rightarrow> (doc, w3))"

fun classifyAttachments :: "env \<Rightarrow> string \<Rightarrow> string \<Rightarrow> checklist \<Rightarrow> attachment list \<Rightarrow> world \<Rightarrow> document list \<times> world" where
  "classifyAttachments v sid emailID cl [] w = ([], w)"
| "classifyAttachments v sid emailID cl (a # as) w =
     (let (d, w1) = classifyAttachment v sid emailID cl a w;
          (ds, w2) = classifyAttachments v sid emailID cl as w1
      in (d # ds, w2))"

section \<open>Account identity\<close>

definition applicationItemIDs :: "string list" where
  "applicationItemIDs = [''acord_125'', ''acord_130'', ''cyber_application'']"

definition effectiveDateFormats :: "string list" where
  "effectiveDateFormats = [''2006-01-02'', ''01/02/2006'', ''1/2/2006'', ''2006/01/02'',
     ''January 2, 2006'', ''Jan 2, 2006'', ''02-Jan-2006'', ''2 January 2006'']"

definition applicationDoc :: "document list \<Rightarrow> document option" where
  "applicationDoc docs =
     find (\<lambda>d. d_ClassifiedAs d \<in> set applicationItemIDs \<and> \<not> d_Unreadable d \<and> \<not> d_Encrypted d \<and>
               trim_space (d_ExtractedText d) \<noteq> '''') docs"

definition cleanInsured :: "string \<Rightarrow> string" where
  "cleanInsured s0 =
     (let s = trim_space s0 in
      if length s < 2 \<or> length s > 120 then ''''
      else let low = to_lower s in
           if str_contains low ''named insured'' \<or> str_contains low ''mailing address'' then '''' else s)"

text \<open>The first usable value among the two lines below the label.\<close>

fun first_clean :: "string list \<Rightarrow> string" where
  "first_clean [] = ''''"
| "first_clean (l # ls) = (let x = cleanInsured (trim_space l) in if x \<noteq> '''' then x else first_clean ls)"

fun insured_scan :: "string list \<Rightarrow> string" where
  "insured_scan [] = ''''"
| "insured_scan (line # rest) = (case str_index (to_lower line) ''named insured'' of
       None \<Rightarrow> insured_scan rest
     | Some i \<Rightarrow>
         (let after = trim_space (trim_left_by (\<lambda>c. c \<in> set '':.-# '' \<or> c = CHR 0x09)
                        (trim_space (drop (i + length ''named insured'') line)));
              x = cleanInsured after
          in if x \<noteq> '''' then x
             else let y = first_clean (take 2 rest) in if y \<noteq> '''' then y else insured_scan rest))"

definition namedInsuredFromText :: "string \<Rightarrow> string" where
  "namedInsuredFromText text = insured_scan (split_on LF text)"

fun first_date :: "env \<Rightarrow> string list \<Rightarrow> string \<Rightarrow> gotime option" where
  "first_date v [] s = None"
| "first_date v (f # fs) s = (case v_parseDate v f s of Some t \<Rightarrow> Some t | None \<Rightarrow> first_date v fs s)"

definition parseEffectiveDate :: "env \<Rightarrow> string \<Rightarrow> gotime option" where
  "parseEffectiveDate v s0 = (let s = trim_space s0 in if s = '''' then None else first_date v effectiveDateFormats s)"

text \<open>The model's answer, if it is asked and answers, and the audits of the call.\<close>

definition ask_identity :: "env \<Rightarrow> string \<Rightarrow> document \<Rightarrow> world \<Rightarrow> (string \<times> string) \<times> world" where
  "ask_identity v sid doc w = (case v_llm v of
       None \<Rightarrow> (('''', ''''), w)
     | Some l \<Rightarrow>
        (let (resp, err) = llm_ExtractIdentity l (d_Filename doc, d_ExtractedText doc);
             w1 = auditLLMCall v sid ''extract_identity'' (d_Filename doc) (ir_Usage resp) w
         in case err of
              Some ErrSpendCapReached \<Rightarrow> (('''', ''''), auditCapOnce v w1)
            | Some e \<Rightarrow> (('''', ''''), audit v sid EventLLMFailed
                [(''filename'', AString (d_Filename doc)), (''op'', AString ''extract_identity''), (''error'', AString (error_str e))] w1)
            | None \<Rightarrow> ((ir_NamedInsured resp, ir_EffectiveDate resp), w1)))"

definition extractIdentity :: "env \<Rightarrow> submission \<Rightarrow> world \<Rightarrow> submission \<times> world" where
  "extractIdentity v sub w =
     (if s_NamedInsured sub \<noteq> '''' then (sub, w)
      else case applicationDoc (s_Documents sub) of
        None \<Rightarrow> (sub, w)
      | Some doc \<Rightarrow>
         (let ((asked, effective), w1) = ask_identity v (s_ID sub) doc w;
              named = (if asked = '''' then namedInsuredFromText (d_ExtractedText doc) else asked)
          in if named = '''' then (sub, w1)
             else (let sub1 = sub\<lparr>s_NamedInsured := named\<rparr>;
                       sub2 = (case parseEffectiveDate v effective of None \<Rightarrow> sub1 | Some t \<Rightarrow> sub1\<lparr>s_EffectiveDate := Some t\<rparr>)
                   in (sub2, audit v (s_ID sub) EventIdentityExtracted
                               [(''named_insured'', AString named), (''effective_date'', AString effective)] w1))))"

section \<open>What these steps leave alone\<close>

text \<open>A step of the document pipeline: the core of the world is unchanged and the id supply only advances.\<close>

definition quiet :: "world \<Rightarrow> world \<Rightarrow> bool" where
  "quiet w w' \<longleftrightarrow> same_core w w' \<and> w_supply w \<le> w_supply w' \<and> (w_collector w = None \<longleftrightarrow> w_collector w' = None)"

lemma quiet_refl [simp, intro]: "quiet w w"
  by (simp add: quiet_def)

lemma quiet_trans [trans]: "quiet a b \<Longrightarrow> quiet b c \<Longrightarrow> quiet a c"
  using same_core_trans by (auto simp: quiet_def)

lemma quiet_newUUID [intro]: "quiet w (snd (newUUID v w))"
  by (simp add: quiet_def newUUID_def same_core_def)

lemma repo_append_quiet: "repo_audit_append v e w = Inr w' \<Longrightarrow> quiet w w'"
  by (auto simp: quiet_def repo_audit_append_def newUUID_def Let_def same_core_def split: option.splits sum.splits)

lemma quiet_append_logged [intro]: "quiet w (append_logged v e w)"
  by (auto simp: append_logged_def split: sum.split intro: repo_append_quiet)

lemma quiet_audit [intro]: "quiet w (audit v sid ev p w)"
  by (auto simp: audit_def split: option.split) (simp add: quiet_def same_core_def)

lemma quiet_auditCapOnce [intro]: "quiet w (auditCapOnce v w)"
proof -
  have "quiet (w\<lparr>w_cappedDay := d\<rparr>) w' \<Longrightarrow> quiet w w'" for d w' by (simp add: quiet_def same_core_def)
  moreover have "quiet w (w\<lparr>w_cappedDay := None\<rparr>)" by (simp add: quiet_def same_core_def)
  ultimately show ?thesis
    by (auto simp: auditCapOnce_def Let_def split: sum.split dest: repo_append_quiet)
qed

lemma quiet_auditLLMCall [intro]: "quiet w (auditLLMCall v sid n f u w)"
  by (auto simp: auditLLMCall_def)

lemma quiet_reparent [intro]: "quiet w (reparentAudits a b w)"
  by (simp add: quiet_def reparentAudits_def same_core_def)

lemma quiet_extractField: "extractField v sid f t rf w = (x, w') \<Longrightarrow> quiet w w'"
proof -
  assume ef: "extractField v sid f t rf w = (x, w')"
  show "quiet w w'"
  proof (cases "v_llm v")
    case None
    then show ?thesis using ef by (simp add: extractField_def)
  next
    case (Some l)
    define call where "call = llm_ExtractField l
      \<lparr> fq_Filename = f, fq_TextSample = t, fq_FieldName = f_Name rf,
        fq_FieldDescription = ''expected type '' @ field_type_str (f_Type rf), fq_FieldType = field_type_str (f_Type rf) \<rparr>"
    obtain resp err where c: "call = (resp, err)" by (cases call)
    let ?w1 = "auditLLMCall v sid ''extract_field'' f (fr_Usage resp) w"
    have q1: "quiet w ?w1" by blast
    have "quiet ?w1 w'"
      using ef Some c unfolding extractField_def call_def
      by (cases err) (auto simp: Let_def split: error.splits)
    with q1 show ?thesis by (rule quiet_trans)
  qed
qed

lemma quiet_audit_classify_call [intro]: "quiet w (audit_classify_call v sid f res err w)"
proof -
  let ?w1 = "if k_Capped res then auditCapOnce v w else w"
  have 1: "quiet w ?w1" by auto
  have 2: "quiet ?w1 (case err of None \<Rightarrow> ?w1 | Some e \<Rightarrow> audit v sid EventLLMFailed
      [(''filename'', AString f), (''op'', AString ''classify''), (''error'', AString (error_str e))] ?w1)"
    by (auto split: option.split)
  note 12 = quiet_trans [OF 1 2]
  show ?thesis unfolding audit_classify_call_def Let_def
    by (cases "k_Usage res") (simp_all only: option.case 12 quiet_trans [OF 12 quiet_auditLLMCall])
qed

lemma quiet_audit_document [intro]: "quiet w (audit_document v sid a t res un en w)"
  unfolding audit_document_def Let_def by (auto intro: quiet_trans [OF quiet_audit] quiet_trans [OF quiet_trans [OF quiet_audit quiet_audit]])

text \<open>What the document of an attachment carries over.\<close>

definition document_of :: "env \<Rightarrow> string \<Rightarrow> string \<Rightarrow> checklist \<Rightarrow> attachment \<Rightarrow> document \<Rightarrow> bool" where
  "document_of v sid emailID cl a d \<longleftrightarrow>
     d_SubmissionID d = sid \<and> d_EmailID d = emailID \<and> d_Filename d = t_Filename a \<and> d_ContentType d = t_ContentType a \<and>
     d_SHA256 d = t_SHA256 a \<and> d_SizeBytes d = t_Size a \<and> d_CreatedAt d = v_now v \<and>
     (d_ClassifiedAs d = '''' \<or> (\<exists>i\<in>set (c_Required cl). i_ID i = d_ClassifiedAs d)) \<and>
     \<not> (d_Encrypted d \<and> d_Unreadable d) \<and> length (d_ExtractedText d) \<le> maxExtractedTextBytes \<and>
     (d_Encrypted d \<longrightarrow> trim_space (extractText v a) = '''')"

lemma classify_on_checklist:
  "classify client inp = (res, err) \<Longrightarrow> k_CandidateID res \<noteq> '''' \<Longrightarrow>
   \<exists>i\<in>set (c_Required (n_Checklist inp)). i_ID i = k_CandidateID res"
proof -
  assume cls: "classify client inp = (res, err)" "k_CandidateID res \<noteq> ''''"
  from classify_evidence [OF cls]
  have "k_CandidateID res \<in> set (matchByFilename inp) \<or> k_CandidateID res \<in> set (matchByContent inp) \<or>
      (\<exists>i\<in>set (c_Required (n_Checklist inp)). i_ID i = k_CandidateID res)"
    by (elim disjE) simp_all
  then show ?thesis unfolding in_matchByFilename in_matchByContent by blast
qed

lemma classifyAttachment_step:
  assumes "classifyAttachment v sid emailID cl a w = (d, w')"
  shows "document_of v sid emailID cl a d \<and> quiet w w' \<and>
         (\<exists>k. d_ID d = v_uuid v k \<and> w_supply w \<le> k \<and> k < w_supply w')"
proof -
  define body where "body = extractText v a"
  define enc where "enc = (isEncrypted v a \<and> trim_space body = '''')"
  define unr where "unr = (\<not> enc \<and> isUnreadable v a body)"
  obtain res err where cls: "classify (v_llm v) \<lparr>n_Filename = t_Filename a, n_ContentType = t_ContentType a,
      n_BodyText = body, n_PolicyType = c_PolicyType cl, n_Checklist = cl\<rparr> = (res, err)"
    by (cases "classify (v_llm v) \<lparr>n_Filename = t_Filename a, n_ContentType = t_ContentType a,
      n_BodyText = body, n_PolicyType = c_PolicyType cl, n_Checklist = cl\<rparr>")
  define w1 where "w1 = audit_classify_call v sid (t_Filename a) res err w"
  define w2 where "w2 = snd (newUUID v w1)"
  define w3 where "w3 = audit_document v sid a body res unr enc w2"
  define doc where "doc = \<lparr> d_ID = v_uuid v (w_supply w1), d_SubmissionID = sid, d_EmailID = emailID, d_Filename = t_Filename a,
      d_ContentType = t_ContentType a, d_SizeBytes = t_Size a, d_SHA256 = t_SHA256 a,
      d_ClassifiedAs = k_CandidateID res, d_Confidence = k_Confidence res, d_ClassifiedBy = k_By res,
      d_ExtractedText = truncateBytes body maxExtractedTextBytes, d_ExtractedFields = None,
      d_Unreadable = unr, d_Encrypted = enc, d_CreatedAt = v_now v \<rparr>"
  have q1: "quiet w w1" and q3: "quiet w2 w3" unfolding w1_def w3_def by blast+
  have q2: "quiet w1 w2" unfolding w2_def by blast
  have sup: "w_supply w2 = Suc (w_supply w1)" by (simp add: w2_def newUUID_def)
  have cand: "k_CandidateID res = [] \<or> (\<exists>i\<in>set (c_Required cl). i_ID i = k_CandidateID res)"
    using classify_on_checklist [OF cls] by (cases "k_CandidateID res = []") simp_all
  have "(d = doc \<or> (\<exists>fs. d = doc\<lparr>d_ExtractedFields := fs\<rparr>)) \<and> quiet w3 w'"
    using assms cls unfolding classifyAttachment_def Let_def
    by (auto simp: body_def [symmetric] enc_def [symmetric] unr_def [symmetric] w1_def [symmetric] newUUID_def
        doc_def w3_def w2_def split: option.splits prod.splits if_splits dest: quiet_extractField)
  then have d: "d_ID d = v_uuid v (w_supply w1)" "document_of v sid emailID cl a d" and q4: "quiet w3 w'"
    using cand by (auto simp: doc_def document_of_def enc_def unr_def body_def length_truncateBytes)
  have "quiet w w'" by (rule quiet_trans [OF quiet_trans [OF quiet_trans [OF q1 q2] q3] q4])
  moreover have "w_supply w \<le> w_supply w1" "w_supply w1 < w_supply w'" using q1 q3 q4 sup by (simp_all add: quiet_def)
  ultimately show ?thesis using d by blast
qed

lemma classifyAttachments_step:
  "classifyAttachments v sid emailID cl as w = (ds, w') \<Longrightarrow>
   list_all2 (document_of v sid emailID cl) as ds \<and> quiet w w' \<and>
   (\<exists>ks. map d_ID ds = map (v_uuid v) ks \<and> sorted_wrt (<) ks \<and> (\<forall>k\<in>set ks. w_supply w \<le> k \<and> k < w_supply w'))"
proof (induction as arbitrary: w ds w')
  case (Cons a as)
  obtain d w1 where 1: "classifyAttachment v sid emailID cl a w = (d, w1)" by (cases "classifyAttachment v sid emailID cl a w")
  obtain ds1 w2 where 2: "classifyAttachments v sid emailID cl as w1 = (ds1, w2)" by (cases "classifyAttachments v sid emailID cl as w1")
  have ds: "ds = d # ds1" "w' = w2" using Cons.prems 1 2 by auto
  obtain k where k: "d_ID d = v_uuid v k" "w_supply w \<le> k" "k < w_supply w1"
    and doc: "document_of v sid emailID cl a d" and q: "quiet w w1" using classifyAttachment_step [OF 1] by blast
  obtain ks where ks: "map d_ID ds1 = map (v_uuid v) ks" "sorted_wrt (<) ks" "\<forall>k\<in>set ks. w_supply w1 \<le> k \<and> k < w_supply w2"
    and docs: "list_all2 (document_of v sid emailID cl) as ds1" and q2: "quiet w1 w2" using Cons.IH [OF 2] by blast
  have le: "w_supply w \<le> w_supply w1" "w_supply w1 \<le> w_supply w2" using q q2 by (simp_all add: quiet_def)
  have "map d_ID ds = map (v_uuid v) (k # ks)" using ds ks k by simp
  moreover have "sorted_wrt (<) (k # ks)" using ks(2,3) k(3) by auto
  moreover have "\<forall>k\<in>set (k # ks). w_supply w \<le> k \<and> k < w_supply w'" using ks(3) k(2,3) le ds by auto
  ultimately show ?case using ds doc docs quiet_trans [OF q q2] by blast
qed simp

lemma quiet_ask_identity: "ask_identity v sid doc w = (r, w') \<Longrightarrow> quiet w w'"
proof -
  assume ai: "ask_identity v sid doc w = (r, w')"
  show "quiet w w'"
  proof (cases "v_llm v")
    case None
    then show ?thesis using ai by (simp add: ask_identity_def)
  next
    case (Some l)
    obtain resp err where c: "llm_ExtractIdentity l (d_Filename doc, d_ExtractedText doc) = (resp, err)"
      by (cases "llm_ExtractIdentity l (d_Filename doc, d_ExtractedText doc)")
    have q1: "quiet w (auditLLMCall v sid ''extract_identity'' (d_Filename doc) (ir_Usage resp) w)" by blast
    have "quiet (auditLLMCall v sid ''extract_identity'' (d_Filename doc) (ir_Usage resp) w) w'"
      using ai Some c unfolding ask_identity_def by (cases err) (auto simp: Let_def split: error.splits)
    with q1 show ?thesis by (rule quiet_trans)
  qed
qed

text \<open>Identity extraction only ever fills in an empty insured name (and then the effective date).\<close>

lemma extractIdentity_step:
  assumes "extractIdentity v sub w = (sub', w')"
  shows "quiet w w' \<and> (sub' = sub \<or> (s_NamedInsured sub = '''' \<and> s_NamedInsured sub' \<noteq> '''' \<and>
           (\<exists>n d. sub' = sub\<lparr>s_NamedInsured := n, s_EffectiveDate := d\<rparr>)))"
proof (cases "s_NamedInsured sub = '''' \<and> applicationDoc (s_Documents sub) \<noteq> None")
  case False
  then have "extractIdentity v sub w = (sub, w)" by (cases "s_NamedInsured sub = []") (auto simp: extractIdentity_def)
  then show ?thesis using assms by simp
next
  case True
  then obtain doc where doc: "applicationDoc (s_Documents sub) = Some doc" by blast
  obtain asked effective w1 where ask: "ask_identity v (s_ID sub) doc w = ((asked, effective), w1)"
    by (metis surj_pair)
  have q: "quiet w w1" by (rule quiet_ask_identity [OF ask])
  define named where "named = (if asked = '''' then namedInsuredFromText (d_ExtractedText doc) else asked)"
  have eq: "extractIdentity v sub w = (if named = '''' then (sub, w1)
      else (case parseEffectiveDate v effective of None \<Rightarrow> sub\<lparr>s_NamedInsured := named\<rparr>
              | Some t \<Rightarrow> sub\<lparr>s_NamedInsured := named\<rparr>\<lparr>s_EffectiveDate := Some t\<rparr>,
            audit v (s_ID sub) EventIdentityExtracted
              [(''named_insured'', AString named), (''effective_date'', AString effective)] w1))"
    using True doc ask unfolding extractIdentity_def named_def Let_def by simp
  have upd: "\<exists>d. sub\<lparr>s_NamedInsured := n\<rparr> = sub\<lparr>s_NamedInsured := n, s_EffectiveDate := d\<rparr>" for n
    by (rule exI [of _ "s_EffectiveDate sub"]) simp
  show ?thesis
  proof (cases "named = ''''")
    case True
    then show ?thesis using assms eq q by simp
  next
    case False
    have "quiet w1 w'" using assms eq False by auto
    moreover have "\<exists>d. sub' = sub\<lparr>s_NamedInsured := named, s_EffectiveDate := d\<rparr>"
    proof (cases "parseEffectiveDate v effective")
      case None
      then show ?thesis using assms eq False upd by auto
    next
      case (Some t)
      then show ?thesis using assms eq False by auto
    qed
    ultimately show ?thesis using True False quiet_trans [OF q] by fastforce
  qed
qed

section \<open>Properties\<close>

text \<open>
  Each attachment becomes exactly one document of the submission, in order, under its own fresh id (for
  an id source that does not repeat): the file's name, type, size and hash are carried over, the verdict
  is an item of the checklist or none, at most 256 KiB of text is stored, and a file is never both
  password-protected and unreadable. Nothing is written to the database and no reply is touched.
\<close>

theorem attachments_become_documents:
  assumes "classifyAttachments v sid emailID cl as w = (ds, w')" and "inj (v_uuid v)"
  shows "list_all2 (document_of v sid emailID cl) as ds \<and> distinct (map d_ID ds) \<and>
         w_db w' = w_db w \<and> w_jobs w' = w_jobs w \<and> w_sent w' = w_sent w"
proof -
  obtain ks where ks: "map d_ID ds = map (v_uuid v) ks" "sorted_wrt (<) ks"
    and rest: "list_all2 (document_of v sid emailID cl) as ds" "quiet w w'"
    using classifyAttachments_step [OF assms(1)] by blast
  have "distinct ks" using ks(2) by (simp add: strict_sorted_iff)
  then have "distinct (map d_ID ds)" unfolding ks(1) using assms(2) by (simp add: distinct_map inj_on_subset [OF assms(2)])
  then show ?thesis using rest by (simp add: quiet_def same_core_def)
qed

definition sample_env :: env where
  "sample_env = \<lparr> v_now = 100,
     v_cfg = \<lparr> cfg_RepliesEnabled = None, cfg_PolicyClarifyMaxAsks = 2, cfg_CoalesceWindow = 10, cfg_QueueSize = 4,
       cfg_ConfidenceFloor = Fin (1/2), cfg_AttachmentLinkDomains = [], cfg_UnreadableMinSizeBytes = 10,
       cfg_UnreadableMinChars = 5, cfg_MatchWindow = 1000, cfg_EscalationThreshold = 50, cfg_BindWindow = 0,
       cfg_MinGap = 10, cfg_BindGrace = 0, cfg_AutoCloseAfter = 0, cfg_AwaitingAutoCloseAfter = 0,
       cfg_DigestInterval = 1, cfg_DigestMaxRows = 0, cfg_DigestRecipient = ''agency@x'' \<rparr>,
     v_store = [(''cgl'', sample_checklist)],
     v_uuid = (\<lambda>n. CHR ''u'' # replicate n CHR ''i''), v_sha = (\<lambda>s. s),
     v_numfmt = sample_numfmt, v_llm = None, v_extractors = (\<lambda>_. None), v_parseMedia = (\<lambda>_. None),
     v_parseDate = (\<lambda>_ _. None), v_send = (\<lambda>r. Inr ''<sent@x>''), v_senderName = ''smtp'', v_requestID = ''r1'',
     v_fault = (\<lambda>_ _. None) \<rparr>"

lemma sample_env_uuid: "inj (v_uuid sample_env)"
  by (simp add: sample_env_def inj_def)

definition sample_attachment :: attachment where
  "sample_attachment = \<lparr>t_Filename = ''ACORD_125.txt'', t_ContentType = ''text/plain'', t_Size = 14, t_SHA256 = '''', t_Content = ''acord 125 form''\<rparr>"

theorem attachments_become_documents_witness:
  "\<exists>d w'. classifyAttachments sample_env ''s1'' ''e1'' sample_checklist [sample_attachment] empty_world = ([d], w') \<and>
     document_of sample_env ''s1'' ''e1'' sample_checklist sample_attachment d"
proof -
  obtain ds w' where c: "classifyAttachments sample_env ''s1'' ''e1'' sample_checklist [sample_attachment] empty_world = (ds, w')"
    by (cases "classifyAttachments sample_env ''s1'' ''e1'' sample_checklist [sample_attachment] empty_world")
  from attachments_become_documents [OF c sample_env_uuid]
  obtain d where "ds = [d]" "document_of sample_env ''s1'' ''e1'' sample_checklist sample_attachment d"
    by (auto simp: list_all2_Cons1)
  then show ?thesis using c by blast
qed

end
