(* ===== verification/Ingest_Service.thy ===== *)
theory Ingest_Service
  imports Document_Service
begin

text \<open>
  \<open>IngestEmail\<close> of \<open>internal/service/submissions.go\<close>: from an inbound message to the stored
  submission and, perhaps, a queued reply. The handler threads the world explicitly; every early
  return of the code is a branch. \<open>singleflight\<close> collapses concurrent deliveries of one message into
  one call, so calls are sequential here.

  The lemmas show that an ingest is all or nothing, when a reply is queued and when it is not, that a
  repeated ask is not sent again, that claims do not leak, which state the submission ends in, and that
  a redelivered message is recognised.
\<close>

section \<open>Requests and results\<close>

record ingest_request =
  rq_MessageID :: string
  rq_InReplyTo :: string
  rq_References :: "string list"
  rq_FromAddress :: string
  rq_FromName :: string
  rq_ReplyTo :: string
  rq_ToAddresses :: "string list"
  rq_Subject :: string
  rq_BodyText :: string
  rq_ReceivedAt :: gotime
  rq_Attachments :: "attachment list"
  rq_Source :: string
  rq_AutoSubmitted :: bool
  rq_AutoResponseHeaders :: "(string \<times> string) list"
  rq_Bounce :: bool
  rq_BouncePermanent :: bool

record ingest_result =
  rs_SubmissionID :: string
  rs_State :: state
  rs_IsDuplicate :: bool
  rs_PolicyUnknown :: bool
  rs_NeedsReview :: bool
  rs_MissingItems :: "missing_item list"
  rs_ReplyQueued :: bool

definition result_for :: "submission \<Rightarrow> ingest_result" where
  "result_for s = \<lparr>rs_SubmissionID = s_ID s, rs_State = s_State s, rs_IsDuplicate = False, rs_PolicyUnknown = False,
                   rs_NeedsReview = False, rs_MissingItems = [], rs_ReplyQueued = False\<rparr>"

section \<open>Identity of a message and its thread\<close>

definition attachment_hash :: "(string \<Rightarrow> string) \<Rightarrow> attachment \<Rightarrow> string" where
  "attachment_hash sha a = (if t_SHA256 a \<noteq> '''' then t_SHA256 a else sha (t_Content a))"

definition computeEmailID :: "(string \<Rightarrow> string) \<Rightarrow> string \<Rightarrow> string \<Rightarrow> attachment list \<Rightarrow> string" where
  "computeEmailID sha messageID body atts =
     sha (messageID @ [NUL] @ body @ concat (map (\<lambda>h. NUL # h) (sort (map (attachment_hash sha) atts))))"

text \<open>Duplicates are dropped, the first occurrence stays.\<close>

definition cleanThreadRefs :: "string \<Rightarrow> string \<Rightarrow> string list \<Rightarrow> string list" where
  "cleanThreadRefs messageID inReplyTo refs =
     rev (remdups (rev (filter (\<lambda>x. x \<noteq> '''') (map trim_space (messageID # inReplyTo # refs)))))"

definition inboundEmail :: "ingest_request \<Rightarrow> string \<Rightarrow> string \<Rightarrow> email" where
  "inboundEmail req emailID sid =
     \<lparr> e_DeterministicID = emailID, e_SubmissionID = sid, e_Direction = DirectionInbound,
       e_MessageID = rq_MessageID req, e_InReplyTo = rq_InReplyTo req, e_References = rq_References req,
       e_FromAddress = rq_FromAddress req, e_FromName = rq_FromName req, e_ReplyTo = rq_ReplyTo req,
       e_ToAddresses = rq_ToAddresses req, e_Subject = rq_Subject req, e_BodyText = rq_BodyText req,
       e_ReceivedAt = rq_ReceivedAt req, e_ProviderMsgID = '''', e_Attachments = rq_Attachments req \<rparr>"

section \<open>Line of business\<close>

definition policyAliases :: "(string \<times> string) list" where
  "policyAliases = [(''general liability'', ''cgl''), (''cgl'', ''cgl''), (''business owners'', ''bop''), (''bop'', ''bop''),
     (''workers'' @ [CHR 0x27] @ '' comp'', ''workers_compensation''), (''workers comp'', ''workers_compensation''),
     (''property'', ''commercial_property''), (''cyber'', ''cyber_liability'')]"

definition consider_policy :: "string \<Rightarrow> string \<times> string \<Rightarrow> string \<times> nat option \<Rightarrow> string \<times> nat option" where
  "consider_policy lower cand best =
     (if fst cand = '''' then best
      else case str_index lower (to_lower (fst cand)) of
        None \<Rightarrow> best
      | Some pos \<Rightarrow> (case snd best of
            Some bestAt \<Rightarrow> if bestAt \<le> pos then best else (snd cand, Some pos)
          | None \<Rightarrow> (snd cand, Some pos)))"

definition policy_candidates :: "checklist list \<Rightarrow> (string \<times> string) list" where
  "policy_candidates all =
     concat (map (\<lambda>c. [(c_Name c, c_PolicyType c), (c_PolicyType c, c_PolicyType c)]) all) @ policyAliases"

definition inferPolicyType :: "string \<Rightarrow> checklist list \<Rightarrow> string" where
  "inferPolicyType text all = fst (fold (consider_policy (to_lower text)) (policy_candidates all) (PolicyTypeUnknown, None))"

definition bodyPolicyScanBytes :: nat where "bodyPolicyScanBytes = 512"

definition quoteMarkers :: "string list" where
  "quoteMarkers = [[LF, CHR ''>''], ''-----Original Message-----'', LF # ''From:'', LF # replicate 32 CHR ''_'']"

definition cut_at :: "string \<Rightarrow> string \<Rightarrow> string" where
  "cut_at marker body = (case str_index body marker of None \<Rightarrow> body | Some i \<Rightarrow> take i body)"

definition replyBodyPrefix :: "string \<Rightarrow> string" where
  "replyBodyPrefix body = take bodyPolicyScanBytes (fold cut_at quoteMarkers body)"

definition resolvePolicyType :: "env \<Rightarrow> submission \<Rightarrow> email \<Rightarrow> world \<Rightarrow> submission \<times> world" where
  "resolvePolicyType v sub inbound w =
     (if store_get (v_store v) (s_PolicyType sub) \<noteq> None then (sub, w)
      else let all = store_all (v_store v);
               r1 = inferPolicyType (e_Subject inbound) all;
               resolved = (if r1 = PolicyTypeUnknown then inferPolicyType (replyBodyPrefix (e_BodyText inbound)) all else r1)
           in if resolved = PolicyTypeUnknown then (sub, w)
              else (sub\<lparr>s_PolicyType := resolved\<rparr>,
                    audit v (s_ID sub) EventPolicyResolved
                      [(''policy_type'', AString resolved), (''asks'', AInt (s_PolicyClarifyAsks sub))] w))"

definition policyClarifyExhausted :: "env \<Rightarrow> submission \<Rightarrow> bool" where
  "policyClarifyExhausted v sub =
     (let maxAsks = cfg_PolicyClarifyMaxAsks (v_cfg v) in 0 < maxAsks \<and> maxAsks < s_PolicyClarifyAsks sub)"

section \<open>Evaluation\<close>

definition options_of :: "env \<Rightarrow> checklist_options" where
  "options_of v = \<lparr>co_ConfidenceFloor = cfg_ConfidenceFloor (v_cfg v)\<rparr>"

definition evaluate :: "env \<Rightarrow> submission \<Rightarrow> email \<Rightarrow> world \<Rightarrow> missing_item list \<times> bool \<times> submission \<times> world" where
  "evaluate v sub0 inbound w0 =
     (let (sub, w) = resolvePolicyType v sub0 inbound w0;
          (missing, unknown, sub2, w2) =
            (case store_get (v_store v) (s_PolicyType sub) of
               None \<Rightarrow>
                 (let sub1 = sub\<lparr>s_PolicyType := PolicyTypeUnknown, s_PolicyClarifyAsks := s_PolicyClarifyAsks sub + 1\<rparr>
                  in ([policyUnknownItem], True, sub1,
                      audit v (s_ID sub) EventPolicyUnknown
                        [(''subject_hint'', AString (e_Subject inbound)), (''asks'', AInt (s_PolicyClarifyAsks sub1))] w))
             | Some cl \<Rightarrow>
                 (let (docs, w1) = classifyAttachments v (s_ID sub) (e_DeterministicID inbound) cl (e_Attachments inbound) w;
                      sub1 = fold (\<lambda>d s. attachDocument s d) docs sub
                  in (evaluateChecklist (v_numfmt v) sub1 cl (options_of v), False, sub1, w1)));
          sub3 = sub2\<lparr>s_MissingItems := missing\<rparr>
      in (missing, unknown, sub3,
          audit v (s_ID sub3) EventChecklistEvaluated
            [(''policy_type'', AString (s_PolicyType sub3)), (''missing_count'', AInt (int (length missing))),
             (''missing_ids'', AStrings (map m_ID missing))] w2))"

definition transitionState :: "env \<Rightarrow> submission \<Rightarrow> missing_item list \<Rightarrow> world \<Rightarrow> (error + submission) \<times> world" where
  "transitionState v sub missing w =
     (case transitionTo sub (if missing = [] then StateComplete else StateAwaiting) (v_now v) of
        Inl e \<Rightarrow> (Inl e, w)
      | Inr sub' \<Rightarrow>
          (Inr sub', if s_State sub \<noteq> s_State sub'
                     then audit v (s_ID sub') EventStateTransitioned
                            [(''from'', AString (state_str (s_State sub))), (''to'', AString (state_str (s_State sub')))] w
                     else w))"

definition reviewDocs :: "env \<Rightarrow> submission \<Rightarrow> ((string \<times> any_val) list) list" where
  "reviewDocs v sub =
     map (\<lambda>d. [(''document_id'', AString (d_ID d)), (''filename'', AString (d_Filename d)),
               (''classified_as'', AString (d_ClassifiedAs d)), (''confidence'', AFloat64 (d_Confidence d)),
               (''unreadable'', ABool (d_Unreadable d))])
       (filter (\<lambda>d. \<not> (d_ClassifiedAs d = '''' \<or> (\<not> d_Unreadable d \<and> flt_ge (d_Confidence d) (cfg_ConfidenceFloor (v_cfg v)))))
         (s_Documents sub))"

section \<open>The reply\<close>

definition missingAttachmentItemID :: string where "missingAttachmentItemID = ''missing_attachment''"

definition looksLikeMissingAttachment :: "env \<Rightarrow> email \<Rightarrow> missing_item list \<Rightarrow> bool" where
  "looksLikeMissingAttachment v inbound broker =
     (if e_Attachments inbound \<noteq> [] \<or> broker = [] then False
      else let body = to_lower (e_BodyText inbound) in
           list_ex (\<lambda>d. d \<noteq> '''' \<and> str_contains body (to_lower d)) (cfg_AttachmentLinkDomains (v_cfg v)) \<or>
           str_contains body ''attach'')"

definition knownChecklistNames :: "env \<Rightarrow> string list" where
  "knownChecklistNames v = filter (\<lambda>n. n \<noteq> '''') (map c_Name (store_all (v_store v)))"

definition missing_attachment_item :: missing_item where
  "missing_attachment_item = \<lparr>m_ID = missingAttachmentItemID, m_Description = '''', m_Reason = '''',
                              m_Code = ReasonMissingAttachment, m_Confidence = Fin 0\<rparr>"

text \<open>\<^const>\<open>None\<close> when there is nothing to send, else the reply with its fingerprint.\<close>

definition buildReply :: "env \<Rightarrow> submission \<Rightarrow> missing_item list \<Rightarrow> email \<Rightarrow> bool \<Rightarrow> (reply \<times> string) option" where
  "buildReply v sub missing inbound policyUnknown =
     (if policyUnknown then
        (if policyClarifyExhausted v sub then None
         else Some (buildPolicyUnknownReply sub inbound (knownChecklistNames v),
                    replyFingerprint (v_sha v) ReplyKindPolicyUnknown missing))
      else if missing = [] then
        Some (buildCompletionReply sub inbound, replyFingerprint (v_sha v) ReplyKindCompletion [])
      else let broker = brokerActionable missing in
           if broker = [] then None
           else let asked = (if looksLikeMissingAttachment v inbound broker then [missing_attachment_item] else broker)
                in Some (buildMissingItemsReply sub asked inbound,
                         replyFingerprint (v_sha v) ReplyKindMissingItems asked))"

definition replySuppressed :: "env \<Rightarrow> submission \<Rightarrow> world \<Rightarrow> bool \<times> world" where
  "replySuppressed v sub w =
     (if replies_disabled (v_cfg v)
      then (True, audit v (s_ID sub) EventReplyDisabled [(''reason'', AString ''kill_switch'')] w)
      else if s_DeliveryFailed sub
      then (True, audit v (s_ID sub) EventReplySuppressed [(''reason'', AString ''delivery_failed'')] w)
      else if s_OnHold sub
      then (True, audit v (s_ID sub) EventReplySuppressed [(''reason'', AString ''on_hold'')] w)
      else (False, w))"

definition replyNotBefore :: "env \<Rightarrow> submission \<Rightarrow> gotime" where
  "replyNotBefore v sub =
     (if is_zero_time (s_LastReplyAt sub) then v_now v
      else let scheduled = time_add (s_LastReplyAt sub) (cfg_CoalesceWindow (v_cfg v)) in
           if v_now v < scheduled then scheduled else v_now v)"

section \<open>Persistence\<close>

definition repo_upsert :: "env \<Rightarrow> submission \<Rightarrow> world \<Rightarrow> error + world" where
  "repo_upsert v sub w = (case v_fault v OpUpsertSubmission (s_ID sub) of
       Some e \<Rightarrow> Inl e
     | None \<Rightarrow> (case upsertSubmission (v_now v) sub (w_db w) of
           Inl e \<Rightarrow> Inl e
         | Inr d \<Rightarrow> Inr (w\<lparr>w_db := d\<rparr>)))"

definition repo_upsert_with_reply :: "env \<Rightarrow> submission \<Rightarrow> outbox_entry \<Rightarrow> world \<Rightarrow> error + outbox_entry \<times> world" where
  "repo_upsert_with_reply v sub entry w = (case v_fault v OpUpsertWithReply (s_ID sub) of
       Some e \<Rightarrow> Inl e
     | None \<Rightarrow> (case upsertSubmissionWithReply '''' (v_now v) sub (Some entry) (w_db w) of
           Inl e \<Rightarrow> Inl e
         | Inr (entry', d) \<Rightarrow> Inr (entry', w\<lparr>w_db := d\<rparr>)))"

definition persistNoReply :: "env \<Rightarrow> submission \<Rightarrow> ingest_result \<Rightarrow> world \<Rightarrow> (error + ingest_result) \<times> world" where
  "persistNoReply v sub res w = (case repo_upsert v sub w of Inl e \<Rightarrow> (Inl e, w) | Inr w' \<Rightarrow> (Inr res, w'))"

definition persistSuppressed ::
  "env \<Rightarrow> submission \<Rightarrow> (string \<times> string) list \<Rightarrow> ingest_result \<Rightarrow> world \<Rightarrow> (error + ingest_result) \<times> world" where
  "persistSuppressed v sub headers res w = (case repo_upsert v sub w of
       Inl e \<Rightarrow> (Inl e, w)
     | Inr w' \<Rightarrow> (Inr res, audit v (s_ID sub) EventReplySuppressed
         [(''reason'', AString ''auto_submitted''), (''headers'', AMaps [map (\<lambda>(k, x). (k, AString x)) headers])] w'))"

definition persistBounce :: "env \<Rightarrow> submission \<Rightarrow> ingest_request \<Rightarrow> world \<Rightarrow> (error + ingest_result) \<times> world" where
  "persistBounce v sub0 req w0 =
     (let sub = (if rq_BouncePermanent req then sub0\<lparr>s_DeliveryFailed := True, s_NeedsReview := True\<rparr> else sub0);
          w = audit v (s_ID sub) EventReplyBounced
                [(''from'', AString (rq_FromAddress req)), (''permanent'', ABool (rq_BouncePermanent req))] w0
      in case repo_upsert v sub w of
           Inl e \<Rightarrow> (Inl e, w)
         | Inr w' \<Rightarrow> (Inr ((result_for sub)\<lparr>rs_NeedsReview := s_NeedsReview sub\<rparr>), w'))"

text \<open>Submission and reply in one transaction, under the dispatch claim; the reply goes to a worker when due.\<close>

definition persistWithReply :: "env \<Rightarrow> submission \<Rightarrow> reply \<Rightarrow> ingest_result \<Rightarrow> world \<Rightarrow> (error + ingest_result) \<times> world" where
  "persistWithReply v sub reply res w =
     (let now = v_now v;
          notBefore = replyNotBefore v sub;
          (uid, w1) = newUUID v w;
          entry = \<lparr>o_ID = uid, o_SubmissionID = s_ID sub, o_Reply = reply, o_Status = OutboxPending, o_Attempts = 0,
                   o_LastError = '''', o_CreatedAt = zero_time, o_UpdatedAt = zero_time, o_NotBefore = notBefore\<rparr>;
          (claimed, w2) = claimDispatch (s_ID sub) w1
      in case repo_upsert_with_reply v sub entry w2 of
           Inl e \<Rightarrow> (Inl e, if claimed then releaseDispatch (s_ID sub) w2 else w2)
         | Inr (entry', w3) \<Rightarrow>
             (let (enqueued, w4) =
                (if claimed \<and> \<not> now < notBefore
                 then enqueueReply v \<lparr>j_Reply = reply, j_SubmissionID = s_ID sub, j_OutboxID = o_ID entry', j_Version = o_UpdatedAt entry'\<rparr> w3
                 else (False, w3))
              in (Inr (res\<lparr>rs_ReplyQueued := True\<rparr>),
                  if enqueued then w4 else if claimed then releaseDispatch (s_ID sub) w4 else w4)))"

section \<open>Finding the submission\<close>

definition createSubmission :: "env \<Rightarrow> ingest_request \<Rightarrow> world \<Rightarrow> submission \<times> world" where
  "createSubmission v req w =
     (let policy = inferPolicyType (rq_Subject req) (store_all (v_store v));
          threadKey = (case rq_References req of [] \<Rightarrow> rq_MessageID req | r # _ \<Rightarrow> r);
          (uid, w1) = newUUID v w;
          sub = newSubmission uid policy (rq_Subject req) (rq_FromAddress req) (rq_FromName req) threadKey (v_now v)
      in (sub, audit v (s_ID sub) EventStateTransitioned
                 [(''from'', AString ''''), (''to'', AString (state_str (s_State sub))), (''note'', AString ''created'')] w1))"

datatype resolved = Resolved submission | Duplicate ingest_result | Unresolved error

definition duplicate_of :: "env \<Rightarrow> ingest_request \<Rightarrow> string \<Rightarrow> submission \<Rightarrow> world \<Rightarrow> resolved \<times> world" where
  "duplicate_of v req emailID sub w =
     (Duplicate ((result_for sub)\<lparr>rs_IsDuplicate := True\<rparr>),
      audit v (s_ID sub) EventEmailDuplicate [(''deterministic_id'', AString emailID), (''source'', AString (rq_Source req))] w)"

definition repo_find_reference :: "env \<Rightarrow> string list \<Rightarrow> world \<Rightarrow> error + submission \<times> bool" where
  "repo_find_reference v refs w =
     (case v_fault v OpFindByReference '''' of Some e \<Rightarrow> Inl e | None \<Rightarrow> findByEmailReference refs (w_db w))"

definition repo_find_deterministic :: "env \<Rightarrow> string \<Rightarrow> world \<Rightarrow> error + submission" where
  "repo_find_deterministic v i w =
     (case v_fault v OpFindByDeterministicID i of Some e \<Rightarrow> Inl e | None \<Rightarrow> findByDeterministicID i (w_db w))"

definition resolveSubmission :: "env \<Rightarrow> ingest_request \<Rightarrow> string \<Rightarrow> world \<Rightarrow> resolved \<times> world" where
  "resolveSubmission v req emailID w =
     (let refs = cleanThreadRefs (rq_MessageID req) (rq_InReplyTo req) (rq_References req) in
      case repo_find_reference v refs w of
        Inr (found, ambiguous) \<Rightarrow>
          if list_ex (\<lambda>e. e_DeterministicID e = emailID) (s_Emails found) then duplicate_of v req emailID found w
          else let w1 = (if ambiguous then audit v (s_ID found) EventThreadAmbiguous [(''refs'', AStrings refs)] w else w)
               in (Resolved found, audit v (s_ID found) EventThreadMatched
                     [(''matched_by'', AString ''thread_headers''), (''message_id'', AString (rq_MessageID req))] w1)
      | Inl ErrSubmissionNotFound \<Rightarrow>
          (case repo_find_deterministic v emailID w of
             Inr existing \<Rightarrow> duplicate_of v req emailID existing w
           | Inl ErrSubmissionNotFound \<Rightarrow> (let (sub, w1) = createSubmission v req w in (Resolved sub, w1))
           | Inl e \<Rightarrow> (Unresolved e, w))
      | Inl e \<Rightarrow> (Unresolved e, w))"

definition repo_content_match :: "env \<Rightarrow> string \<Rightarrow> string \<Rightarrow> int \<Rightarrow> world \<Rightarrow> error + submission" where
  "repo_content_match v name addr cutoff w =
     (case v_fault v OpFindContentMatch name of Some e \<Rightarrow> Inl e | None \<Rightarrow> findContentMatch name addr cutoff (w_db w))"

text \<open>The existing submission with the new message and documents, before re-evaluation.\<close>

definition merge_into :: "env \<Rightarrow> submission \<Rightarrow> email \<Rightarrow> submission \<Rightarrow> submission" where
  "merge_into v newSub inbound existing =
     (let s1 = attachEmail existing (inbound\<lparr>e_SubmissionID := s_ID existing\<rparr>);
          s2 = s1\<lparr>s_Documents := s_Documents s1 @ map (\<lambda>d. d\<lparr>d_SubmissionID := s_ID existing\<rparr>) (s_Documents newSub)\<rparr>;
          s3 = (if s_NamedInsured s2 = ''''
                then s2\<lparr>s_NamedInsured := s_NamedInsured newSub, s_EffectiveDate := s_EffectiveDate newSub\<rparr> else s2);
          s4 = markAction s3 (v_now v)
      in case store_get (v_store v) (s_PolicyType s4) of
           None \<Rightarrow> s4
         | Some cl \<Rightarrow> s4\<lparr>s_MissingItems := evaluateChecklist (v_numfmt v) s4 cl (options_of v)\<rparr>)"

definition contentMatch :: "env \<Rightarrow> submission \<Rightarrow> email \<Rightarrow> world \<Rightarrow> submission option \<times> world" where
  "contentMatch v newSub inbound w =
     (if s_NamedInsured newSub = '''' then (None, w)
      else let cutoff = unix_nano (time_add (v_now v) (- cfg_MatchWindow (v_cfg v))) in
           case repo_content_match v (s_NamedInsured newSub) (s_FromAddress newSub) cutoff w of
             Inl _ \<Rightarrow> (None, w)
           | Inr existing \<Rightarrow>
               (let w1 = reparentAudits (s_ID newSub) (s_ID existing) w;
                    merged = merge_into v newSub inbound existing
                in (Some merged, audit v (s_ID merged) EventThreadMatchedByContent
                      [(''named_insured'', AString (s_NamedInsured merged)), (''from'', AString (s_FromAddress merged)),
                       (''email_id'', AString (e_DeterministicID inbound))] w1)))"

section \<open>The handler\<close>

text \<open>Evaluation, identity and content threading of a message that is not a bounce.\<close>

definition assess :: "env \<Rightarrow> submission \<Rightarrow> email \<Rightarrow> bool \<Rightarrow> world \<Rightarrow> missing_item list \<times> bool \<times> submission \<times> world" where
  "assess v sub inbound isNew w =
     (let (missing, unknown, sub1, w1) = evaluate v sub inbound w;
          (sub2, w2) = (if unknown then (sub1, w1) else extractIdentity v sub1 w1)
      in if isNew then
           (case contentMatch v sub2 inbound w2 of
              (Some merged, w3) \<Rightarrow> (s_MissingItems merged, s_PolicyType merged = PolicyTypeUnknown, merged, w3)
            | (None, w3) \<Rightarrow> (missing, unknown, sub2, w3))
         else (missing, unknown, sub2, w2))"

definition flag_review :: "env \<Rightarrow> missing_item list \<Rightarrow> submission \<Rightarrow> world \<Rightarrow> submission \<times> world" where
  "flag_review v missing sub w =
     (let sub' = sub\<lparr>s_NeedsReview := requiresReview missing \<or> policyClarifyExhausted v sub\<rparr>
      in (sub', if s_NeedsReview sub' \<and> \<not> s_NeedsReview sub
                then audit v (s_ID sub') EventNeedsReview [(''documents'', AMaps (reviewDocs v sub'))] w else w))"

definition reply_or_not ::
  "env \<Rightarrow> ingest_request \<Rightarrow> email \<Rightarrow> missing_item list \<Rightarrow> bool \<Rightarrow> submission \<Rightarrow> world \<Rightarrow> (error + ingest_result) \<times> world" where
  "reply_or_not v req inbound missing policyUnknown sub w =
     (let res = \<lparr>rs_SubmissionID = s_ID sub, rs_State = s_State sub, rs_IsDuplicate = False, rs_PolicyUnknown = policyUnknown,
                 rs_NeedsReview = s_NeedsReview sub, rs_MissingItems = missing, rs_ReplyQueued = False\<rparr>
      in if rq_AutoSubmitted req then persistSuppressed v sub (rq_AutoResponseHeaders req) res w
         else case buildReply v sub missing inbound policyUnknown of
           None \<Rightarrow> persistNoReply v sub res w
         | Some (reply, fingerprint) \<Rightarrow>
             (let (suppressed, w1) = replySuppressed v sub w in
              if suppressed then persistNoReply v sub res w1
              else if fingerprint = s_LastReplyHash sub
              then persistNoReply v sub res (audit v (s_ID sub) EventReplySuppressed [(''reason'', AString ''unchanged'')] w1)
              else persistWithReply v (sub\<lparr>s_LastReplyHash := fingerprint\<rparr>) reply res w1))"

definition receive :: "env \<Rightarrow> ingest_request \<Rightarrow> string \<Rightarrow> submission \<Rightarrow> world \<Rightarrow> submission \<times> world" where
  "receive v req emailID sub0 w0 =
     (let sub1 = attachEmail sub0 (inboundEmail req emailID (s_ID sub0));
          sub2 = (if \<not> rq_AutoSubmitted req \<and> \<not> rq_Bounce req then markAction sub1 (v_now v) else sub1);
          (sub3, w1) = (if \<not> rq_Bounce req \<and> s_DeliveryFailed sub2
                        then (sub2\<lparr>s_DeliveryFailed := False\<rparr>,
                              audit v (s_ID sub2) EventDeliveryRetried [(''from'', AString (rq_FromAddress req))] w0)
                        else (sub2, w0))
      in (sub3, audit v (s_ID sub3) EventEmailReceived
            [(''deterministic_id'', AString emailID), (''message_id'', AString (rq_MessageID req)),
             (''attachment_count'', AInt (int (length (rq_Attachments req)))), (''source'', AString (rq_Source req))] w1))"

definition ingest_body :: "env \<Rightarrow> ingest_request \<Rightarrow> string \<Rightarrow> world \<Rightarrow> (error + ingest_result) \<times> world" where
  "ingest_body v req emailID w =
     (case resolveSubmission v req emailID w of
        (Unresolved e, w1) \<Rightarrow> (Inl e, w1)
      | (Duplicate res, w1) \<Rightarrow> (Inr res, w1)
      | (Resolved sub0, w1) \<Rightarrow>
          (let isNew = (s_Emails sub0 = []);
               inbound = inboundEmail req emailID (s_ID sub0);
               (sub1, w2) = receive v req emailID sub0 w1
           in if rq_Bounce req then persistBounce v sub1 req w2
              else let (missing, unknown, sub2, w3) = assess v sub1 inbound isNew w2;
                       (sub3, w4) = flag_review v missing sub2 w3
                   in case transitionState v sub3 missing w4 of
                        (Inl e, w5) \<Rightarrow> (Inl e, w5)
                      | (Inr sub4, w5) \<Rightarrow> reply_or_not v req inbound missing unknown sub4 w5))"

definition ingestEmailInner :: "env \<Rightarrow> ingest_request \<Rightarrow> string \<Rightarrow> world \<Rightarrow> (error + ingest_result) \<times> world" where
  "ingestEmailInner v req emailID w =
     (let (r, w') = ingest_body v req emailID (w\<lparr>w_collector := Some []\<rparr>) in (r, flushAudit v w'))"

definition ingestEmail :: "env \<Rightarrow> ingest_request \<Rightarrow> world \<Rightarrow> (error + ingest_result) \<times> world" where
  "ingestEmail v req0 w =
     (let req = (if is_zero_time (rq_ReceivedAt req0) then req0\<lparr>rq_ReceivedAt := v_now v\<rparr> else req0)
      in ingestEmailInner v req (computeEmailID (v_sha v) (rq_MessageID req) (rq_BodyText req) (rq_Attachments req)) w)"

section \<open>What each step leaves alone\<close>

text \<open>The fields evaluation and identity extraction never touch.\<close>

definition same_thread :: "submission \<Rightarrow> submission \<Rightarrow> bool" where
  "same_thread s t \<longleftrightarrow>
     s_ID t = s_ID s \<and> s_State t = s_State s \<and> s_OnHold t = s_OnHold s \<and> s_DeliveryFailed t = s_DeliveryFailed s \<and>
     s_LastReplyHash t = s_LastReplyHash s \<and> s_LastReplyAt t = s_LastReplyAt s \<and> s_Emails t = s_Emails s \<and>
     s_FromAddress t = s_FromAddress s \<and> s_CreatedAt t = s_CreatedAt s"

lemma same_thread_refl [simp, intro]: "same_thread s s"
  by (simp add: same_thread_def)

lemma same_thread_trans [trans]: "same_thread a b \<Longrightarrow> same_thread b c \<Longrightarrow> same_thread a c"
  by (simp add: same_thread_def)

lemma resolvePolicyType_step:
  "resolvePolicyType v sub inbound w = (sub', w') \<Longrightarrow> quiet w w' \<and> same_thread sub sub'"
  by (auto simp: resolvePolicyType_def Let_def same_thread_def split: if_splits)

lemma fold_attachDocument: "same_thread sub (fold (\<lambda>d s. attachDocument s d) ds sub)"
  by (induction ds arbitrary: sub) (auto simp: attachDocument_def same_thread_def)

lemma fold_attachDocument_docs:
  "s_Documents (fold (\<lambda>d s. attachDocument s d) ds sub) = s_Documents sub @ ds"
  by (induction ds arbitrary: sub) (auto simp: attachDocument_def)

lemma evaluate_step:
  assumes "evaluate v sub inbound w = (missing, unknown, sub', w')"
  shows "quiet w w' \<and> same_thread sub sub' \<and> s_MissingItems sub' = missing"
proof -
  obtain sub1 w1 where r: "resolvePolicyType v sub inbound w = (sub1, w1)" by (cases "resolvePolicyType v sub inbound w")
  note rs = resolvePolicyType_step [OF r]
  show ?thesis
  proof (cases "store_get (v_store v) (s_PolicyType sub1)")
    case None
    let ?s = "sub1\<lparr>s_PolicyType := PolicyTypeUnknown, s_PolicyClarifyAsks := s_PolicyClarifyAsks sub1 + 1\<rparr>"
    have "same_thread sub1 (?s\<lparr>s_MissingItems := m\<rparr>)" for m by (simp add: same_thread_def)
    then show ?thesis using assms r None rs
      by (auto simp: evaluate_def Let_def intro: same_thread_trans quiet_trans [OF _ quiet_trans [OF quiet_audit quiet_audit]])
  next
    case (Some cl)
    obtain docs w2 where c: "classifyAttachments v (s_ID sub1) (e_DeterministicID inbound) cl (e_Attachments inbound) w1 = (docs, w2)"
      by (cases "classifyAttachments v (s_ID sub1) (e_DeterministicID inbound) cl (e_Attachments inbound) w1")
    have q: "quiet w1 w2" using classifyAttachments_step [OF c] by blast
    have "same_thread sub1 ((fold (\<lambda>d s. attachDocument s d) docs sub1)\<lparr>s_MissingItems := m\<rparr>)" for m
      using fold_attachDocument [of sub1 docs] by (simp add: same_thread_def)
    then show ?thesis using assms r Some rs q c
      by (auto simp: evaluate_def Let_def intro: same_thread_trans quiet_trans [OF _ quiet_trans [OF q quiet_audit]])
  qed
qed

lemma extractIdentity_thread:
  assumes "extractIdentity v sub w = (sub', w')"
  shows "quiet w w' \<and> same_thread sub sub' \<and> s_MissingItems sub' = s_MissingItems sub"
proof -
  have "quiet w w'" and "sub' = sub \<or> (\<exists>n d. sub' = sub\<lparr>s_NamedInsured := n, s_EffectiveDate := d\<rparr>)"
    using extractIdentity_step [OF assms] by auto
  then show ?thesis by (auto simp: same_thread_def)
qed

text \<open>
  A submission in memory agrees with the database on what decides about a reply: the hold flag, the time
  of the last reply and its fingerprint.
\<close>

definition agrees :: "db \<Rightarrow> submission \<Rightarrow> bool" where
  "agrees d s \<longleftrightarrow> (\<forall>r. lookup_by q_id (s_ID s) (db_submissions d) = Some r \<longrightarrow>
     q_on_hold r = s_OnHold s \<and> time_of_nano (q_last_reply_at r) = s_LastReplyAt s \<and> q_last_reply_hash r = s_LastReplyHash s)"

lemma getByID_agrees: "getByID i d = Inr s \<Longrightarrow> agrees d s"
proof -
  assume get: "getByID i d = Inr s"
  then obtain r where r: "lookup_by q_id i (db_submissions d) = Some r"
    and s: "s = (scanSubmission r)\<lparr>s_Emails := loadEmails i d, s_Documents := loadDocuments i d\<rparr>"
    by (auto simp: getByID_def split: option.splits)
  have "q_id r = i" using lookup_by_Some [OF r] by simp
  then show ?thesis using r unfolding s agrees_def by (simp add: scanSubmission_def)
qed

lemma same_thread_agrees: "same_thread s t \<Longrightarrow> agrees d t = agrees d s"
  by (simp add: agrees_def same_thread_def)

text \<open>The submission holds the message, and agrees with the database when fresh ids are fresh.\<close>

definition carries :: "db \<Rightarrow> bool \<Rightarrow> ingest_request \<Rightarrow> string \<Rightarrow> submission \<Rightarrow> bool" where
  "carries d fresh req emailID s \<longleftrightarrow> inboundEmail req emailID (s_ID s) \<in> set (s_Emails s) \<and> (fresh \<longrightarrow> agrees d s)"

lemma same_thread_carries: "same_thread s t \<Longrightarrow> carries d fr req emailID t = carries d fr req emailID s"
  by (simp add: carries_def same_thread_agrees) (simp add: same_thread_def)

lemma findContentMatch_agrees: "findContentMatch name addr cutoff d = Inr s \<Longrightarrow> agrees d s"
  by (auto simp: findContentMatch_def Let_def split: if_splits list.splits intro: getByID_agrees)

definition fresh_id :: "env \<Rightarrow> world \<Rightarrow> bool" where
  "fresh_id v w \<longleftrightarrow> v_uuid v (w_supply w) \<notin> sub_ids (w_db w)"

lemma inboundEmail_reparent [simp]:
  "(inboundEmail req emailID i)\<lparr>e_SubmissionID := j\<rparr> = inboundEmail req emailID j"
  by (simp add: inboundEmail_def)

lemma merge_into_thread:
  "s_ID (merge_into v newSub inbound s) = s_ID s" "s_State (merge_into v newSub inbound s) = s_State s"
  "s_OnHold (merge_into v newSub inbound s) = s_OnHold s"
  "s_DeliveryFailed (merge_into v newSub inbound s) = s_DeliveryFailed s"
  "s_LastReplyHash (merge_into v newSub inbound s) = s_LastReplyHash s"
  "s_LastReplyAt (merge_into v newSub inbound s) = s_LastReplyAt s"
  "s_Emails (merge_into v newSub inbound s) = s_Emails s @ [inbound\<lparr>e_SubmissionID := s_ID s\<rparr>]"
  "s_CreatedAt (merge_into v newSub inbound s) = s_CreatedAt s"
  by (auto simp: merge_into_def Let_def submission_ops split: option.split)

lemma contentMatch_step:
  assumes "contentMatch v newSub inbound w = (m, w')"
  shows "quiet w w' \<and> (\<forall>s. m = Some s \<longrightarrow> (\<exists>existing cutoff. repo_content_match v (s_NamedInsured newSub) (s_FromAddress newSub) cutoff w = Inr existing
            \<and> s = merge_into v newSub inbound existing))"
  using assms
  by (auto simp: contentMatch_def Let_def split: if_splits sum.splits intro: quiet_trans [OF quiet_reparent quiet_audit])

text \<open>The assessment: the message is attached, what is missing is recorded.\<close>

lemma assess_step:
  assumes "assess v sub (inboundEmail req emailID (s_ID sub)) isNew w = (missing, unknown, sub', w')"
    and "carries (w_db w) fr req emailID sub"
  shows "quiet w w' \<and> s_MissingItems sub' = missing \<and> carries (w_db w) fr req emailID sub' \<and> (\<not> isNew \<longrightarrow> same_thread sub sub')"
proof -
  let ?in = "inboundEmail req emailID (s_ID sub)"
  obtain m1 u1 sub1 w1 where ev: "evaluate v sub ?in w = (m1, u1, sub1, w1)" by (cases "evaluate v sub ?in w")
  obtain sub2 w2 where id: "(if u1 then (sub1, w1) else extractIdentity v sub1 w1) = (sub2, w2)"
    by (cases "if u1 then (sub1, w1) else extractIdentity v sub1 w1")
  have 1: "quiet w w1" "same_thread sub sub1" "s_MissingItems sub1 = m1" using evaluate_step [OF ev] by auto
  have 2: "quiet w1 w2" "same_thread sub1 sub2" "s_MissingItems sub2 = m1"
    using id 1(3) extractIdentity_thread [of v sub1 w1 sub2 w2] by (auto split: if_splits)
  have t: "same_thread sub sub2" and q: "quiet w w2" using 1 2 same_thread_trans quiet_trans by blast+
  have c2: "carries (w_db w) fr req emailID sub2" using t assms(2) by (simp add: same_thread_carries)
  show ?thesis
  proof (cases isNew)
    case False
    then show ?thesis using assms(1) ev id t q c2 2(3) by (simp add: assess_def)
  next
    case True
    obtain m w3 where cm: "contentMatch v sub2 ?in w2 = (m, w3)" by (cases "contentMatch v sub2 ?in w2")
    have q3: "quiet w w3" using contentMatch_step [OF cm] quiet_trans [OF q] by blast
    show ?thesis
    proof (cases m)
      case None
      then show ?thesis using assms(1) ev id cm True q3 c2 2(3) by (simp add: assess_def)
    next
      case (Some s)
      then obtain existing cutoff where s: "s = merge_into v sub2 ?in existing"
        and ex: "repo_content_match v (s_NamedInsured sub2) (s_FromAddress sub2) cutoff w2 = Inr existing"
        using contentMatch_step [OF cm] by blast
      have "w_db w2 = w_db w" using q by (simp add: quiet_def same_core_def)
      then have "agrees (w_db w) existing"
        using ex findContentMatch_agrees by (auto simp: repo_content_match_def split: option.splits)
      then have "carries (w_db w) fr req emailID s" unfolding s carries_def agrees_def by (simp add: merge_into_thread)
      then show ?thesis using assms(1) ev id cm True q3 Some by (auto simp: assess_def)
    qed
  qed
qed

lemma flag_review_step:
  assumes "flag_review v missing sub w = (sub', w')"
  shows "quiet w w' \<and> same_thread sub sub' \<and> s_MissingItems sub' = s_MissingItems sub \<and>
         s_PolicyClarifyAsks sub' = s_PolicyClarifyAsks sub \<and>
         s_NeedsReview sub' = (requiresReview missing \<or> policyClarifyExhausted v sub)"
  using assms by (auto simp: flag_review_def Let_def same_thread_def split: if_splits)

lemma transitionState_quiet: "transitionState v sub missing w = (r, w') \<Longrightarrow> quiet w w'"
  by (auto simp: transitionState_def split: sum.splits if_splits)

lemma receive_step:
  assumes "receive v req emailID sub w = (sub', w')" and "fr \<longrightarrow> agrees d sub"
  shows "quiet w w' \<and> carries d fr req emailID sub' \<and> s_ID sub' = s_ID sub \<and>
         s_Emails sub' = s_Emails sub @ [inboundEmail req emailID (s_ID sub)] \<and>
         s_OnHold sub' = s_OnHold sub \<and> s_LastReplyHash sub' = s_LastReplyHash sub \<and> s_State sub' = s_State sub"
  using assms
  by (auto simp: receive_def Let_def carries_def agrees_def submission_ops split: if_splits
      intro: quiet_trans [OF quiet_audit quiet_audit])

lemma receive_items: "receive v req emailID sub w = (sub', w') \<Longrightarrow> s_MissingItems sub' = s_MissingItems sub"
  by (auto simp: receive_def Let_def submission_ops split: if_splits)

lemma createSubmission_step:
  assumes "createSubmission v req w = (sub, w')"
  shows "quiet w w' \<and> s_Emails sub = [] \<and> known_state (s_State sub) \<and> \<not> s_OnHold sub \<and> s_LastReplyHash sub = ''''
         \<and> s_LastReplyAt sub = zero_time \<and> s_ID sub = v_uuid v (w_supply w)"
proof -
  let ?w1 = "snd (newUUID v w)"
  have "quiet w (audit v sid ev p ?w1)" for sid ev p by (rule quiet_trans [OF quiet_newUUID quiet_audit])
  then show ?thesis using assms
    by (auto simp: createSubmission_def Let_def newSubmission_def newUUID_def known_state_def)
qed

lemma getByID_emails:
  assumes "getByID i d = Inr s"
  shows "s_ID s = i \<and> set (s_Emails s) = {e \<in> set (db_emails d). e_SubmissionID e = i}"
  using assms by (auto simp: getByID_def loadEmails_def split: option.splits dest: lookup_by_Some)

lemma findByEmailReference_get: "findByEmailReference refs d = Inr (s, a) \<Longrightarrow> getByID (s_ID s) d = Inr s"
proof -
  assume f: "findByEmailReference refs d = Inr (s, a)"
  then obtain best where b: "getByID best d = Inr s"
    by (auto simp: findByEmailReference_def Let_def map_sum_def split: if_splits list.splits sum.splits)
  then show ?thesis using getByID_emails [OF b] by simp
qed

text \<open>Resolution writes nothing but audits, and a resolved submission that is not new was read from the database.\<close>

lemma resolveSubmission_step:
  assumes "resolveSubmission v req emailID w = (r, w')"
  shows "quiet w w' \<and> (\<forall>s. r = Resolved s \<longrightarrow> (s_Emails s = [] \<and> s = fst (createSubmission v req w)) \<or>
           (getByID (s_ID s) (w_db w) = Inr s \<and> (\<forall>e\<in>set (s_Emails s). e_DeterministicID e \<noteq> emailID)))"
proof (cases "repo_find_reference v (cleanThreadRefs (rq_MessageID req) (rq_InReplyTo req) (rq_References req)) w")
  case (Inr fa)
  obtain found amb where fa: "fa = (found, amb)" by (cases fa)
  have get: "getByID (s_ID found) (w_db w) = Inr found"
    using Inr fa findByEmailReference_get by (auto simp: repo_find_reference_def split: option.splits)
  show ?thesis
  proof (cases "list_ex (\<lambda>e. e_DeterministicID e = emailID) (s_Emails found)")
    case True
    then show ?thesis using assms Inr fa by (auto simp: resolveSubmission_def duplicate_of_def)
  next
    case False
    then show ?thesis using assms Inr fa get
      by (auto simp: resolveSubmission_def Let_def list_ex_iff intro: quiet_trans [OF quiet_audit quiet_audit])
  qed
next
  case (Inl e)
  show ?thesis
  proof (cases "e = ErrSubmissionNotFound")
    case False
    then show ?thesis using assms Inl by (cases e) (auto simp: resolveSubmission_def)
  next
    case True
    show ?thesis
    proof (cases "repo_find_deterministic v emailID w")
      case (Inr s)
      then show ?thesis using assms Inl True by (auto simp: resolveSubmission_def duplicate_of_def)
    next
      case e2: (Inl e2)
      obtain c wc where c: "createSubmission v req w = (c, wc)" by (cases "createSubmission v req w")
      show ?thesis using assms Inl True e2 c createSubmission_step [OF c]
        by (cases e2) (auto simp: resolveSubmission_def)
    qed
  qed
qed

section \<open>Outcomes\<close>

definition assessed :: "env \<Rightarrow> submission \<Rightarrow> bool" where
  "assessed v s \<longleftrightarrow>
     s_State s = (if s_MissingItems s = [] then StateComplete else StateAwaiting) \<and>
     s_NeedsReview s = (requiresReview (s_MissingItems s) \<or> policyClarifyExhausted v s)"

text \<open>The submission has the state and the missing items that are stored.\<close>

definition unassessed :: "db \<Rightarrow> submission \<Rightarrow> bool" where
  "unassessed d s \<longleftrightarrow> (\<forall>r. lookup_by q_id (s_ID s) (db_submissions d) = Some r \<longrightarrow>
     s_State s = q_state r \<and> s_MissingItems s = decodeMissingItems (q_missing_items r))"

lemma getByID_unassessed:
  assumes "getByID i d = Inr s"
  shows "unassessed d s"
proof -
  obtain r where r: "lookup_by q_id i (db_submissions d) = Some r"
    and s: "s = (scanSubmission r)\<lparr>s_Emails := loadEmails i d, s_Documents := loadDocuments i d\<rparr>"
    using assms by (auto simp: getByID_def split: option.splits)
  have "q_id r = i" using lookup_by_Some [OF r] by simp
  then show ?thesis using r unfolding s unassessed_def by (simp add: scanSubmission_def)
qed

text \<open>The result of a call that queues no reply, and why there is none.\<close>

abbreviation plain_result :: "submission \<Rightarrow> bool \<Rightarrow> ingest_result" where
  "plain_result sub unknown \<equiv>
     \<lparr>rs_SubmissionID = s_ID sub, rs_State = s_State sub, rs_IsDuplicate = False, rs_PolicyUnknown = unknown,
      rs_NeedsReview = s_NeedsReview sub, rs_MissingItems = s_MissingItems sub, rs_ReplyQueued = False\<rparr>"

abbreviation stays_silent :: "env \<Rightarrow> ingest_request \<Rightarrow> email \<Rightarrow> bool \<Rightarrow> submission \<Rightarrow> bool" where
  "stays_silent v req inbound unknown sub \<equiv>
     rq_AutoSubmitted req \<or> buildReply v sub (s_MissingItems sub) inbound unknown = None \<or> replies_disabled (v_cfg v) \<or>
     s_DeliveryFailed sub \<or> s_OnHold sub \<or> map_option snd (buildReply v sub (s_MissingItems sub) inbound unknown) = Some (s_LastReplyHash sub)"

text \<open>How a call can end: an error, a duplicate, or a submission written without or with a reply.\<close>

inductive outcome :: "env \<Rightarrow> ingest_request \<Rightarrow> string \<Rightarrow> world \<Rightarrow> error + ingest_result \<Rightarrow> world \<Rightarrow> bool"
  for v req emailID w where
  failed: "same_core w w' \<Longrightarrow> outcome v req emailID w (Inl e) w'"
| duplicate: "same_core w w' \<Longrightarrow> emailID \<in> e_DeterministicID ` set (db_emails (w_db w)) \<Longrightarrow>
    outcome v req emailID w (Inr ((result_for s)\<lparr>rs_IsDuplicate := True\<rparr>)) w'"
| bounced: "rq_Bounce req \<Longrightarrow> carries (w_db w) (fresh_id v w) req emailID sub \<Longrightarrow> same_core w w1 \<Longrightarrow> repo_upsert v sub w1 = Inr w' \<Longrightarrow>
    (rq_BouncePermanent req \<Longrightarrow> s_DeliveryFailed sub \<and> s_NeedsReview sub) \<Longrightarrow> (fresh_id v w \<Longrightarrow> unassessed (w_db w) sub) \<Longrightarrow>
    outcome v req emailID w (Inr ((result_for sub)\<lparr>rs_NeedsReview := s_NeedsReview sub\<rparr>)) w'"
| silent: "\<not> rq_Bounce req \<Longrightarrow> carries (w_db w) (fresh_id v w) req emailID sub \<Longrightarrow> assessed v sub \<Longrightarrow> same_core w w1 \<Longrightarrow> repo_upsert v sub w1 = Inr w2 \<Longrightarrow>
    same_core w2 w' \<Longrightarrow> stays_silent v req inbound unknown sub \<Longrightarrow>
    outcome v req emailID w (Inr (plain_result sub unknown)) w'"
| replied: "\<not> rq_Bounce req \<Longrightarrow> \<not> rq_AutoSubmitted req \<Longrightarrow> carries (w_db w) (fresh_id v w) req emailID sub \<Longrightarrow> assessed v sub \<Longrightarrow> same_core w w1 \<Longrightarrow>
    \<not> replies_disabled (v_cfg v) \<Longrightarrow> \<not> s_DeliveryFailed sub \<Longrightarrow> \<not> s_OnHold sub \<Longrightarrow>
    buildReply v sub (s_MissingItems sub) inbound unknown = Some (reply, fp) \<Longrightarrow> fp \<noteq> s_LastReplyHash sub \<Longrightarrow>
    persistWithReply v (sub\<lparr>s_LastReplyHash := fp\<rparr>) reply (plain_result sub unknown) w1 = (Inr res, w') \<Longrightarrow>
    \<exists>i. inbound = inboundEmail req emailID i \<Longrightarrow>
    outcome v req emailID w (Inr res) w'"

lemma same_core_quiet: "quiet w w' \<Longrightarrow> same_core w w'"
  by (simp add: quiet_def)

text \<open>A failed transaction leaves the claims as they were.\<close>

lemma persistWithReply_failed:
  assumes "persistWithReply v sub reply res w = (Inl e, w')"
  shows "same_core w w'"
proof -
  have "filter (\<lambda>x. x \<noteq> s_ID sub) (w_dispatching w) = w_dispatching w" if "s_ID sub \<notin> set (w_dispatching w)"
    using that by (auto simp: filter_id_conv)
  then show ?thesis using assms
    by (auto simp: persistWithReply_def Let_def newUUID_def claimDispatch_def releaseDispatch_def same_core_def
        split: sum.splits prod.splits if_splits)
qed

lemma replySuppressed_step:
  assumes "replySuppressed v sub w = (b, w')"
  shows "quiet w w' \<and> (b \<longleftrightarrow> replies_disabled (v_cfg v) \<or> s_DeliveryFailed sub \<or> s_OnHold sub)"
  using assms by (auto simp: replySuppressed_def split: if_splits)

lemma persistNoReply_outcome:
  assumes "persistNoReply v sub (plain_result sub unknown) w2 = (r, w')"
    and pre: "\<not> rq_Bounce req" "carries (w_db w) (fresh_id v w) req emailID sub" "assessed v sub" "same_core w w2"
    and "stays_silent v req inbound unknown sub"
  shows "outcome v req emailID w r w'"
proof (cases "repo_upsert v sub w2")
  case (Inl e)
  then show ?thesis using assms(1) pre(4) by (auto simp: persistNoReply_def intro!: outcome.failed)
next
  case (Inr w3)
  then have "r = Inr (plain_result sub unknown)" "w' = w3" using assms(1) by (auto simp: persistNoReply_def)
  then show ?thesis using outcome.silent [OF pre Inr same_core_refl assms(6)] by simp
qed

lemma persistSuppressed_outcome:
  assumes "persistSuppressed v sub hs (plain_result sub unknown) w1 = (r, w')"
    and pre: "\<not> rq_Bounce req" "carries (w_db w) (fresh_id v w) req emailID sub" "assessed v sub" "same_core w w1"
    and "rq_AutoSubmitted req"
  shows "outcome v req emailID w r w'"
proof (cases "repo_upsert v sub w1")
  case (Inl e)
  then show ?thesis using assms(1) pre(4) by (auto simp: persistSuppressed_def intro!: outcome.failed)
next
  case (Inr w3)
  then have "r = Inr (plain_result sub unknown)" and "same_core w3 w'" using assms(1) by (auto simp: persistSuppressed_def)
  then show ?thesis using outcome.silent [OF pre Inr, of w' _ unknown] assms(6) by simp
qed

lemma persistWithReply_outcome:
  assumes p: "persistWithReply v (sub\<lparr>s_LastReplyHash := fp\<rparr>) reply (plain_result sub unknown) w2 = (r, w')"
    and pre: "\<not> rq_Bounce req" "\<not> rq_AutoSubmitted req" "carries (w_db w) (fresh_id v w) req emailID sub" "assessed v sub" "same_core w w2"
    and gate: "\<not> replies_disabled (v_cfg v)" "\<not> s_DeliveryFailed sub" "\<not> s_OnHold sub"
      "buildReply v sub (s_MissingItems sub) inbound unknown = Some (reply, fp)" "fp \<noteq> s_LastReplyHash sub"
    and inb: "\<exists>i. inbound = inboundEmail req emailID i"
  shows "outcome v req emailID w r w'"
proof (cases r)
  case (Inl e)
  then show ?thesis using persistWithReply_failed p same_core_trans [OF pre(5)] by (auto intro!: outcome.failed)
next
  case (Inr res)
  then show ?thesis using outcome.replied [OF pre gate _ inb] p by simp
qed

lemma reply_or_not_outcome:
  assumes r: "reply_or_not v req inbound (s_MissingItems sub) unknown sub w1 = (r, w')"
    and pre: "\<not> rq_Bounce req" "carries (w_db w) (fresh_id v w) req emailID sub" "assessed v sub" "same_core w w1"
    and inb: "\<exists>i. inbound = inboundEmail req emailID i"
  shows "outcome v req emailID w r w'"
proof (cases "rq_AutoSubmitted req")
  case True
  then show ?thesis using r by (intro persistSuppressed_outcome [OF _ pre]) (simp_all add: reply_or_not_def)
next
  case auto: False
  show ?thesis
  proof (cases "buildReply v sub (s_MissingItems sub) inbound unknown")
    case None
    then show ?thesis using r auto by (intro persistNoReply_outcome [where inbound = inbound, OF _ pre]) (auto simp: reply_or_not_def)
  next
    case (Some rf)
    obtain reply fp where rf: "rf = (reply, fp)" by (cases rf)
    obtain b w2 where sup: "replySuppressed v sub w1 = (b, w2)" by (cases "replySuppressed v sub w1")
    note q = replySuppressed_step [OF sup]
    have core: "same_core w w2" using q same_core_quiet same_core_trans [OF pre(4)] by blast
    let ?w3 = "audit v (s_ID sub) EventReplySuppressed [(''reason'', AString ''unchanged'')] w2"
    have core3: "same_core w ?w3" using same_core_trans [OF core same_core_audit] .
    consider (blocked) b | (unchanged) "\<not> b" "fp = s_LastReplyHash sub" | (asks) "\<not> b" "fp \<noteq> s_LastReplyHash sub" by blast
    then show ?thesis
    proof cases
      case blocked
      then show ?thesis using r auto Some rf sup q by (intro persistNoReply_outcome [where inbound = inbound, OF _ pre(1-3) core]) (auto simp: reply_or_not_def)
    next
      case unchanged
      then show ?thesis using r auto Some rf sup by (intro persistNoReply_outcome [where inbound = inbound, OF _ pre(1-3) core3]) (auto simp: reply_or_not_def)
    next
      case asks
      then show ?thesis using r auto Some rf sup q inb
        by (intro persistWithReply_outcome [where inbound = inbound, OF _ pre(1) auto pre(2,3) core]) (auto simp: reply_or_not_def)
    qed
  qed
qed

lemma resolve_duplicate_stored:
  assumes "resolveSubmission v req emailID w = (Duplicate r, w')"
  shows "emailID \<in> e_DeterministicID ` set (db_emails (w_db w))"
proof -
  let ?refs = "cleanThreadRefs (rq_MessageID req) (rq_InReplyTo req) (rq_References req)"
  consider (thread) found amb where "repo_find_reference v ?refs w = Inr (found, amb)" "list_ex (\<lambda>e. e_DeterministicID e = emailID) (s_Emails found)"
    | (ident) existing where "repo_find_deterministic v emailID w = Inr existing"
    using assms by (auto simp: resolveSubmission_def duplicate_of_def Let_def split: sum.splits prod.splits error.splits if_splits)
  then show ?thesis
  proof cases
    case thread
    then have "getByID (s_ID found) (w_db w) = Inr found"
      using findByEmailReference_get by (auto simp: repo_find_reference_def split: option.splits)
    then have "set (s_Emails found) \<subseteq> set (db_emails (w_db w))" using getByID_emails by blast
    then show ?thesis using thread(2) by (auto simp: list_ex_iff)
  next
    case ident
    then obtain e where "lookup_by e_DeterministicID emailID (db_emails (w_db w)) = Some e"
      by (auto simp: repo_find_deterministic_def findByDeterministicID_def split: option.splits if_splits)
    then show ?thesis using lookup_by_Some by (metis imageI)
  qed
qed

lemma resolved_agrees:
  assumes "resolveSubmission v req emailID w = (Resolved sub, w1)" and fresh: "fresh_id v w"
  shows "agrees (w_db w) sub \<and> unassessed (w_db w) sub"
proof -
  consider "sub = fst (createSubmission v req w)" | "getByID (s_ID sub) (w_db w) = Inr sub"
    using resolveSubmission_step [OF assms(1)] by blast
  then show ?thesis
  proof cases
    case 1
    then have "s_ID sub \<notin> sub_ids (w_db w)"
      using createSubmission_step [of v req w sub "snd (createSubmission v req w)"] fresh by (simp add: fresh_id_def)
    then have "lookup_by q_id (s_ID sub) (db_submissions (w_db w)) = None" by (simp add: lookup_by_None sub_ids_def)
    then show ?thesis by (simp add: agrees_def unassessed_def)
  qed (simp add: getByID_agrees getByID_unassessed)
qed

lemma persistBounce_outcome:
  assumes p: "persistBounce v sub1 req w2 = (r, w')" and "rq_Bounce req"
    and "carries (w_db w) (fresh_id v w) req emailID sub1" and core: "same_core w w2" and un: "fresh_id v w \<Longrightarrow> unassessed (w_db w) sub1"
  shows "outcome v req emailID w r w'"
proof -
  define sub where "sub = (if rq_BouncePermanent req then sub1\<lparr>s_DeliveryFailed := True, s_NeedsReview := True\<rparr> else sub1)"
  define w3 where "w3 = audit v (s_ID sub) EventReplyBounced
      [(''from'', AString (rq_FromAddress req)), (''permanent'', ABool (rq_BouncePermanent req))] w2"
  note defs = persistBounce_def Let_def sub_def [symmetric] w3_def [symmetric]
  have core3: "same_core w w3" unfolding w3_def using same_core_audit same_core_trans [OF core] by blast
  have c: "carries (w_db w) (fresh_id v w) req emailID sub" using assms(3) by (simp add: sub_def carries_def agrees_def)
  show ?thesis
  proof (cases "repo_upsert v sub w3")
    case (Inl e)
    then show ?thesis using p core3 by (auto simp: defs intro: outcome.failed)
  next
    case (Inr w4)
    then have "r = Inr ((result_for sub)\<lparr>rs_NeedsReview := s_NeedsReview sub\<rparr>)" "w' = w4" using p by (auto simp: defs)
    moreover have "fresh_id v w \<Longrightarrow> unassessed (w_db w) sub" using un by (simp add: sub_def unassessed_def)
    ultimately show ?thesis using outcome.bounced [OF assms(2) c core3 Inr] by (simp add: sub_def)
  qed
qed

lemma transitioned_outcome:
  assumes tr: "transitionState v sub3 missing w4 = (t, w5)" and core: "same_core w w4"
    and sub3: "s_MissingItems sub3 = missing" "s_NeedsReview sub3 = (requiresReview missing \<or> policyClarifyExhausted v sub3)"
      "carries (w_db w) (fresh_id v w) req emailID sub3"
    and nb: "\<not> rq_Bounce req" and inb: "\<exists>i. inbound = inboundEmail req emailID i"
    and body: "(case t of Inl e \<Rightarrow> (Inl e, w5) | Inr sub4 \<Rightarrow> reply_or_not v req inbound missing unknown sub4 w5) = (r, w')"
  shows "outcome v req emailID w r w'"
proof -
  have core5: "same_core w w5" using transitionState_quiet [OF tr] same_core_quiet same_core_trans [OF core] by blast
  show ?thesis
  proof (cases t)
    case (Inl e)
    then show ?thesis using body core5 by (auto intro: outcome.failed)
  next
    case (Inr sub4)
    then have tt: "transitionTo sub3 (if missing = [] then StateComplete else StateAwaiting) (v_now v) = Inr sub4"
      using tr by (auto simp: transitionState_def split: sum.splits)
    note fr = transitionTo_frame [OF tt]
    have m4: "s_MissingItems sub4 = missing" using fr sub3(1) by simp
    have "assessed v sub4" using fr sub3 m4 by (auto simp: assessed_def policyClarifyExhausted_def)
    moreover have "carries (w_db w) (fresh_id v w) req emailID sub4" using sub3(3) fr by (simp add: carries_def same_thread_def agrees_def)
    moreover have "reply_or_not v req inbound (s_MissingItems sub4) unknown sub4 w5 = (r, w')" using body Inr m4 by simp
    ultimately show ?thesis using reply_or_not_outcome nb core5 inb by blast
  qed
qed

lemma resolved_outcome:
  assumes rs: "resolveSubmission v req emailID w = (Resolved sub0, w1)" and body: "ingest_body v req emailID w = (r, w')"
  shows "outcome v req emailID w r w'"
proof -
  obtain sub1 w2 where rc: "receive v req emailID sub0 w1 = (sub1, w2)" by (cases "receive v req emailID sub0 w1")
  have core1: "same_core w w1" using resolveSubmission_step [OF rs] same_core_quiet by blast
  have ag: "fresh_id v w \<longrightarrow> agrees (w_db w) sub0" "fresh_id v w \<longrightarrow> unassessed (w_db w) sub0" using resolved_agrees [OF rs] by blast+
  note st = receive_step [OF rc ag(1)]
  have core2: "same_core w w2" using st same_core_quiet same_core_trans [OF core1] by blast
  show ?thesis
  proof (cases "rq_Bounce req")
    case True
    then have "persistBounce v sub1 req w2 = (r, w')" using body rs rc by (simp add: ingest_body_def)
    moreover have "fresh_id v w \<Longrightarrow> unassessed (w_db w) sub1" using ag(2) st receive_items [OF rc] by (simp add: unassessed_def)
    ultimately show ?thesis using persistBounce_outcome True st core2 by blast
  next
    case nb: False
    let ?in = "inboundEmail req emailID (s_ID sub0)"
    obtain missing unknown sub2 w3 where as: "assess v sub1 ?in (s_Emails sub0 = []) w2 = (missing, unknown, sub2, w3)"
      by (cases "assess v sub1 ?in (s_Emails sub0 = []) w2")
    obtain sub3 w4 where fl: "flag_review v missing sub2 w3 = (sub3, w4)" by (cases "flag_review v missing sub2 w3")
    obtain t w5 where tr: "transitionState v sub3 missing w4 = (t, w5)" by (cases "transitionState v sub3 missing w4")
    have "w_db w2 = w_db w" using core2 by (simp add: same_core_def)
    then have as': "quiet w2 w3" "s_MissingItems sub2 = missing" "carries (w_db w) (fresh_id v w) req emailID sub2"
      using assess_step [of v sub1 req emailID _ w2 missing unknown sub2 w3 "fresh_id v w"] as st by auto
    note fl' = flag_review_step [OF fl]
    have core4: "same_core w w4" using as'(1) fl' same_core_quiet same_core_trans [OF core2] same_core_trans by metis
    have run: "(case t of Inl e \<Rightarrow> (Inl e, w5) | Inr sub4 \<Rightarrow> reply_or_not v req ?in missing unknown sub4 w5) = (r, w')"
      using body rs rc nb as fl tr by (simp add: ingest_body_def split: sum.split)
    show ?thesis
      by (rule transitioned_outcome [OF tr core4 _ _ _ nb _ run])
        (use as' fl' in \<open>auto simp: policyClarifyExhausted_def carries_def same_thread_def agrees_def\<close>)
  qed
qed

lemma ingest_body_outcome:
  assumes "ingest_body v req emailID w = (r, w')"
  shows "outcome v req emailID w r w'"
proof -
  obtain res w1 where rs: "resolveSubmission v req emailID w = (res, w1)" by (cases "resolveSubmission v req emailID w")
  have core: "same_core w w1" using resolveSubmission_step [OF rs] same_core_quiet by blast
  show ?thesis
  proof (cases res)
    case (Unresolved e)
    then show ?thesis using assms rs core by (auto simp: ingest_body_def intro: outcome.failed)
  next
    case (Duplicate d)
    then have "\<exists>s. d = (result_for s)\<lparr>rs_IsDuplicate := True\<rparr>"
      using rs by (auto simp: resolveSubmission_def duplicate_of_def Let_def split: sum.splits prod.splits error.splits if_splits)
    then show ?thesis using assms rs core Duplicate resolve_duplicate_stored [of v req emailID w d w1]
      by (auto simp: ingest_body_def intro: outcome.duplicate)
  qed (use resolved_outcome assms rs in blast)
qed

end
