(* ===== verification/Ingest_Properties.thy ===== *)
theory Ingest_Properties
  imports Ingest_Service
begin

text \<open>
  What an ingest does to the world, from the outcomes of \<open>Ingest_Service\<close>: atomicity, what is stored,
  when a reply is queued, what the claims look like afterwards, and the recognition of redelivered
  messages; and the two decisions with a declarative reading, the inferred line of business and the
  identity of a message.
\<close>

section \<open>What a transaction writes\<close>

lemma upsert_aggregate_parts:
  assumes "upsert_aggregate now s d = Inr d'"
  obtains d1 d2 where "upsertSubmissionRow now s d = Inr d1" "upsert_emails (s_Emails s) d1 = Inr d2"
    "upsert_documents (s_Documents s) d2 = Inr d'"
  using assms by (auto simp: upsert_aggregate_def split: sum.splits)

lemma upsert_aggregate_lookup:
  assumes "upsert_aggregate now s d = Inr d'"
  shows "lookup_by q_id i (db_submissions d') =
           (if i = s_ID s then Some (case lookup_by q_id i (db_submissions d) of None \<Rightarrow> sub_row_of now s
              | Some r \<Rightarrow> merge_sub_row r (sub_row_of now s))
            else lookup_by q_id i (db_submissions d))"
  using assms
proof (rule upsert_aggregate_parts)
  fix d1 d2
  assume 1: "upsertSubmissionRow now s d = Inr d1" and 2: "upsert_emails (s_Emails s) d1 = Inr d2"
    and 3: "upsert_documents (s_Documents s) d2 = Inr d'"
  have "db_submissions d' = upsert_by q_id merge_sub_row (sub_row_of now s) (db_submissions d)"
    using upsert_documents_subs [OF 3] upsert_emails_subs [OF 2] upsertSubmissionRow_Inr [OF 1] by simp
  then show ?thesis by (simp add: sub_t.lookup_upsert)
qed

lemma upsertEmailRow_outbox: "upsertEmailRow e d = Inr d' \<Longrightarrow> db_outbox d' = db_outbox d"
  by (auto simp: upsertEmailRow_def split: if_splits)

lemma upsert_emails_outbox: "upsert_emails es d = Inr d' \<Longrightarrow> db_outbox d' = db_outbox d"
proof (induction es arbitrary: d)
  case (Cons e es)
  then show ?case by (auto split: sum.splits error.splits dest: upsertEmailRow_outbox)
qed simp

lemma upsertDocumentRow_outbox: "upsertDocumentRow c d = Inr d' \<Longrightarrow> db_outbox d' = db_outbox d"
  by (auto simp: upsertDocumentRow_def split: if_splits)

lemma upsert_documents_outbox: "upsert_documents cs d = Inr d' \<Longrightarrow> db_outbox d' = db_outbox d"
  by (induction cs arbitrary: d) (auto split: sum.splits dest: upsertDocumentRow_outbox)

lemma upsert_aggregate_outbox: "upsert_aggregate now s d = Inr d' \<Longrightarrow> db_outbox d' = db_outbox d"
  by (erule upsert_aggregate_parts)
    (auto dest!: upsert_documents_outbox upsert_emails_outbox upsertSubmissionRow_Inr)

lemma upsert_emails_stores:
  "upsert_emails es d = Inr d' \<Longrightarrow> e \<in> set es \<Longrightarrow> e_DeterministicID e \<in> e_DeterministicID ` set (db_emails d')"
proof (induction es arbitrary: d)
  case (Cons x es)
  show ?case
  proof (cases "upsertEmailRow x d")
    case (Inl err)
    then have dup: "err = ErrDuplicateEmail" using Cons.prems(1) by (cases err) auto
    then have "e_DeterministicID x \<in> e_DeterministicID ` set (db_emails d)"
      using Inl by (auto simp: upsertEmailRow_def list_ex_key split: if_splits)
    moreover have rest: "upsert_emails es d = Inr d'" using Cons.prems(1) Inl dup by simp
    ultimately show ?thesis using Cons.IH [OF rest] upsert_emails_emails [OF rest] Cons.prems(2) by auto
  next
    case (Inr d1)
    then have rest: "upsert_emails es d1 = Inr d'" using Cons.prems(1) by simp
    have "email_row_of x \<in> set (db_emails d1)" using Inr by (auto simp: upsertEmailRow_def split: if_splits)
    then have "e_DeterministicID x \<in> e_DeterministicID ` set (db_emails d')"
      using upsert_emails_emails [OF rest] by (metis email_row_of_keys(1) imageI subsetD)
    then show ?thesis using Cons.IH [OF rest] Cons.prems(2) by auto
  qed
qed simp

lemma upsert_aggregate_stores:
  assumes "upsert_aggregate now s d = Inr d'" and "e \<in> set (s_Emails s)"
  shows "e_DeterministicID e \<in> e_DeterministicID ` set (db_emails d')"
  using assms(1)
  by (rule upsert_aggregate_parts) (metis assms(2) upsert_documents_emails upsert_emails_stores)

lemma repo_upsert_Inr:
  assumes "repo_upsert v sub w = Inr w'"
  shows "\<exists>d. upsert_aggregate (v_now v) sub (w_db w) = Inr d \<and> w' = w\<lparr>w_db := d\<rparr>"
  using assms by (auto simp: repo_upsert_def upsertSubmission_def split: option.splits sum.splits if_splits)

text \<open>A reply committed with its submission: the transaction, the queue and the claims.\<close>

lemma persistWithReply_Inr:
  assumes "persistWithReply v sub reply res w = (Inr res', w')"
  obtains d e entry where "upsert_aggregate (v_now v) sub (w_db w) = Inr d" "o_SubmissionID entry = s_ID sub"
    "o_Reply entry = reply" "o_Status entry = OutboxPending" "o_NotBefore entry = replyNotBefore v sub"
    "insertOutboxRow (has_submission d) '''' (v_now v) (Some entry) (db_outbox d) = Inr (e, db_outbox (w_db w'))"
    "w_db w' = d\<lparr>db_outbox := db_outbox (w_db w')\<rparr>" "res' = res\<lparr>rs_ReplyQueued := True\<rparr>" "w_sent w' = w_sent w"
    "w_closed w' = w_closed w"
    "(w_jobs w' = w_jobs w \<and> w_dispatching w' = w_dispatching w) \<or>
     (s_ID sub \<notin> set (w_dispatching w) \<and> w_dispatching w' = s_ID sub # w_dispatching w \<and> replyNotBefore v sub \<le> v_now v \<and> \<not> w_closed w \<and>
      w_jobs w' = w_jobs w @ [\<lparr>j_Reply = reply, j_SubmissionID = s_ID sub, j_OutboxID = o_ID e, j_Version = o_UpdatedAt e\<rparr>])"
proof -
  define entry where "entry = \<lparr>o_ID = v_uuid v (w_supply w), o_SubmissionID = s_ID sub, o_Reply = reply, o_Status = OutboxPending, o_Attempts = 0,
      o_LastError = '''', o_CreatedAt = zero_time, o_UpdatedAt = zero_time, o_NotBefore = replyNotBefore v sub\<rparr>"
  obtain claimed w2 where cl: "claimDispatch (s_ID sub) (w\<lparr>w_supply := Suc (w_supply w)\<rparr>) = (claimed, w2)"
    by (cases "claimDispatch (s_ID sub) (w\<lparr>w_supply := Suc (w_supply w)\<rparr>)")
  have w2: "w_db w2 = w_db w" "w_jobs w2 = w_jobs w" "w_sent w2 = w_sent w" "w_closed w2 = w_closed w"
    "claimed \<longleftrightarrow> s_ID sub \<notin> set (w_dispatching w)"
    "w_dispatching w2 = (if claimed then s_ID sub # w_dispatching w else w_dispatching w)"
    using cl by (auto simp: claimDispatch_def split: if_splits)
  obtain e w3 where up: "repo_upsert_with_reply v sub entry w2 = Inr (e, w3)"
    using assms cl by (auto simp: persistWithReply_def Let_def newUUID_def entry_def split: sum.splits)
  have res: "(let (enqueued, w4) =
        (if claimed \<and> \<not> v_now v < replyNotBefore v sub
         then enqueueReply v \<lparr>j_Reply = reply, j_SubmissionID = s_ID sub, j_OutboxID = o_ID e, j_Version = o_UpdatedAt e\<rparr> w3
         else (False, w3))
      in (Inr (res\<lparr>rs_ReplyQueued := True\<rparr>), if enqueued then w4 else if claimed then releaseDispatch (s_ID sub) w4 else w4)) = (Inr res' :: error + ingest_result, w')"
    using assms cl up by (simp add: persistWithReply_def Let_def newUUID_def entry_def split del: if_split)
  from up obtain d tbl where agg: "upsert_aggregate (v_now v) sub (w_db w2) = Inr d"
    and ins: "insertOutboxRow (has_submission d) '''' (v_now v) (Some entry) (db_outbox d) = Inr (e, tbl)"
    and w3: "w3 = w2\<lparr>w_db := d\<lparr>db_outbox := tbl\<rparr>\<rparr>"
    by (auto simp: repo_upsert_with_reply_def upsertSubmissionWithReply_def split: option.splits sum.splits if_splits)
  have unclaim: "claimed \<Longrightarrow> filter (\<lambda>x. x \<noteq> s_ID sub) (w_dispatching w3) = w_dispatching w"
    using w2 w3 by (auto simp: filter_id_conv)
  have db: "w_db w' = d\<lparr>db_outbox := tbl\<rparr>" "res' = res\<lparr>rs_ReplyQueued := True\<rparr>" "w_sent w' = w_sent w" "w_closed w' = w_closed w"
    using res w2 w3 by (auto simp: enqueueReply_def releaseDispatch_def Let_def split: if_splits)
  have jobs: "(w_jobs w' = w_jobs w \<and> w_dispatching w' = w_dispatching w) \<or>
     (s_ID sub \<notin> set (w_dispatching w) \<and> w_dispatching w' = s_ID sub # w_dispatching w \<and> replyNotBefore v sub \<le> v_now v \<and> \<not> w_closed w \<and>
      w_jobs w' = w_jobs w @ [\<lparr>j_Reply = reply, j_SubmissionID = s_ID sub, j_OutboxID = o_ID e, j_Version = o_UpdatedAt e\<rparr>])"
    using res w2 w3 unclaim by (auto simp: enqueueReply_def releaseDispatch_def Let_def split: if_splits)
  show thesis
    by (rule that [of d entry e]) (use agg ins w2 db jobs in \<open>simp_all add: entry_def\<close>)
qed

lemma persistWithReply_written:
  assumes "persistWithReply v sub reply res w = (Inr res', w')"
  shows "\<exists>d. upsert_aggregate (v_now v) sub (w_db w) = Inr d \<and> db_emails (w_db w') = db_emails d \<and>
             db_submissions (w_db w') = db_submissions d \<and> res' = res\<lparr>rs_ReplyQueued := True\<rparr>"
  using assms
proof (rule persistWithReply_Inr)
  fix d
  assume "upsert_aggregate (v_now v) sub (w_db w) = Inr d" "res' = res\<lparr>rs_ReplyQueued := True\<rparr>"
    and d: "w_db w' = d\<lparr>db_outbox := db_outbox (w_db w')\<rparr>"
  moreover have "db_emails (w_db w') = db_emails d" "db_submissions (w_db w') = db_submissions d"
    by (subst d, simp)+
  ultimately show ?thesis by blast
qed

section \<open>From the handler to its outcome\<close>

definition stamped :: "env \<Rightarrow> ingest_request \<Rightarrow> ingest_request" where
  "stamped v req = (if is_zero_time (rq_ReceivedAt req) then req\<lparr>rq_ReceivedAt := v_now v\<rparr> else req)"

definition message_id :: "env \<Rightarrow> ingest_request \<Rightarrow> string" where
  "message_id v req = computeEmailID (v_sha v) (rq_MessageID req) (rq_BodyText req) (rq_Attachments req)"

lemma stamped_simps [simp]:
  "rq_Bounce (stamped v req) = rq_Bounce req" "rq_AutoSubmitted (stamped v req) = rq_AutoSubmitted req"
  "rq_BouncePermanent (stamped v req) = rq_BouncePermanent req" "rq_MessageID (stamped v req) = rq_MessageID req"
  "rq_InReplyTo (stamped v req) = rq_InReplyTo req" "rq_References (stamped v req) = rq_References req"
  "message_id v (stamped v req) = message_id v req"
  by (simp_all add: stamped_def message_id_def)

text \<open>The same facts of two worlds that differ in the audit log only.\<close>

lemma ingestEmail_outcome:
  assumes "ingestEmail v req w = (r, w')"
  obtains w1 where "outcome v (stamped v req) (message_id v req) (w\<lparr>w_collector := Some []\<rparr>) r w1" "same_core w1 w'"
proof -
  let ?w0 = "w\<lparr>w_collector := Some []\<rparr>"
  obtain r1 w1 where b: "ingest_body v (stamped v req) (message_id v req) ?w0 = (r1, w1)"
    by (cases "ingest_body v (stamped v req) (message_id v req) ?w0")
  have "r = r1" and "w' = flushAudit v w1"
    using assms b unfolding ingestEmail_def Let_def stamped_def [symmetric] ingestEmailInner_def
    by (auto simp: message_id_def) (simp_all add: stamped_def split: if_splits)
  then show thesis using that [of w1] ingest_body_outcome [OF b] by auto
qed

lemma same_core_collector [simp]:
  "w_db (w\<lparr>w_collector := c\<rparr>) = w_db w" "fresh_id v (w\<lparr>w_collector := c\<rparr>) = fresh_id v w"
  "same_core (w\<lparr>w_collector := c\<rparr>) w' = same_core w w'"
  by (simp_all add: same_core_def fresh_id_def)

section \<open>Atomicity and storage\<close>

text \<open>An ingest that succeeds, also as a duplicate, has the message in the database.\<close>

lemma ingest_mail_stored:
  assumes "ingestEmail v req w = (Inr res, w')"
  shows "message_id v req \<in> e_DeterministicID ` set (db_emails (w_db w'))"
proof -
  obtain w1 where o: "outcome v (stamped v req) (message_id v req) (w\<lparr>w_collector := Some []\<rparr>) (Inr res) w1"
    and c: "same_core w1 w'" by (rule ingestEmail_outcome [OF assms])
  have db: "w_db w' = w_db w1" using c by (simp add: same_core_def)
  have mail: "message_id v req \<in> e_DeterministicID ` set (db_emails d')"
    if "upsert_aggregate (v_now v) sub d = Inr d'" "inboundEmail (stamped v req) (message_id v req) (s_ID sub) \<in> set (s_Emails sub)"
    for sub d d'
    using upsert_aggregate_stores [OF that] by (simp add: inboundEmail_def)
  from o show ?thesis
  proof cases
    case (duplicate s)
    then show ?thesis using db by (simp add: same_core_def)
  next
    case (bounced sub wa)
    then obtain d where d: "upsert_aggregate (v_now v) sub (w_db wa) = Inr d" "w1 = wa\<lparr>w_db := d\<rparr>" using repo_upsert_Inr by blast
    then show ?thesis using mail [OF d(1)] bounced db by (simp add: carries_def)
  next
    case (silent sub wa wb inbound unknown)
    then obtain d where d: "upsert_aggregate (v_now v) sub (w_db wa) = Inr d" "wb = wa\<lparr>w_db := d\<rparr>" using repo_upsert_Inr by blast
    then show ?thesis using mail [OF d(1)] silent db by (simp add: carries_def same_core_def)
  next
    case (replied sub wa inbound unknown reply fp)
    then obtain d where "upsert_aggregate (v_now v) (sub\<lparr>s_LastReplyHash := fp\<rparr>) (w_db wa) = Inr d" "db_emails (w_db w') = db_emails d"
      using persistWithReply_written [OF replied(11)] db by auto
    then show ?thesis using mail replied by (simp add: carries_def)
  qed
qed

text \<open>
  C4. An ingest is all or nothing. When it fails, at whatever point, the database, the reply queue, the
  dispatch claims and the sent mail are exactly what they were, so the poller can retry; and when it
  reports a duplicate the same holds. Only the audit log grows.
\<close>

theorem ingest_all_or_nothing:
  assumes "ingestEmail v req w = (r, w')" and "case r of Inl e \<Rightarrow> True | Inr res \<Rightarrow> rs_IsDuplicate res"
  shows "w_db w' = w_db w \<and> w_jobs w' = w_jobs w \<and> w_dispatching w' = w_dispatching w \<and> w_sent w' = w_sent w"
proof -
  obtain w1 where o: "outcome v (stamped v req) (message_id v req) (w\<lparr>w_collector := Some []\<rparr>) r w1"
    and c: "same_core w1 w'" by (rule ingestEmail_outcome [OF assms(1)])
  from o have "same_core w w1"
  proof cases
    case (replied sub w1' inbound unknown reply fp res)
    then show ?thesis using assms(2) by (auto elim!: persistWithReply_Inr)
  qed (use assms(2) in \<open>auto simp: result_for_def\<close>)
  then show ?thesis using c by (simp add: same_core_def)
qed

definition sample_request :: ingest_request where
  "sample_request = \<lparr>rq_MessageID = ''m9'', rq_InReplyTo = '''', rq_References = [], rq_FromAddress = ''diane@acme.com'',
     rq_FromName = ''Diane'', rq_ReplyTo = '''', rq_ToAddresses = [''in@agency''], rq_Subject = ''New CGL submission'',
     rq_BodyText = ''see below'', rq_ReceivedAt = 90, rq_Attachments = [], rq_Source = ''imap'', rq_AutoSubmitted = False,
     rq_AutoResponseHeaders = [], rq_Bounce = False, rq_BouncePermanent = False\<rparr>"

theorem ingest_all_or_nothing_witness:
  "\<exists>w'. ingestEmail (sample_env\<lparr>v_fault := (\<lambda>op' _. if op' = OpFindByReference then Some (ErrOther ''disk'') else None)\<rparr>)
          sample_request empty_world = (Inl (ErrOther ''disk''), w') \<and> w_db w' = empty_db"
proof -
  let ?v = "sample_env\<lparr>v_fault := (\<lambda>op' _. if op' = OpFindByReference then Some (ErrOther ''disk'') else None)\<rparr>"
  have "\<exists>w'. ingestEmail ?v sample_request empty_world = (Inl (ErrOther ''disk''), w')"
    by (simp add: ingestEmail_def Let_def sample_request_def is_zero_time_def zero_time_def ingestEmailInner_def
        ingest_body_def resolveSubmission_def repo_find_reference_def sample_env_def)
  then obtain w' where w': "ingestEmail ?v sample_request empty_world = (Inl (ErrOther ''disk''), w')" by blast
  from ingest_all_or_nothing [OF this] w' show ?thesis by (auto simp: empty_world_def)
qed


text \<open>The run the witnesses are about: a first message, of a known line of business and without attachments.\<close>

lemma sample_ingest:
  "case ingestEmail sample_env sample_request empty_world of
     (Inr res, w') \<Rightarrow> \<not> rs_IsDuplicate res \<and> rs_ReplyQueued res \<and> rs_State res = StateAwaiting \<and> length (w_jobs w') = 1
   | (Inl e, w') \<Rightarrow> False"
  by code_simp

lemma sample_ingest_result:
  obtains res w' where "ingestEmail sample_env sample_request empty_world = (Inr res, w')" "\<not> rs_IsDuplicate res"
    "rs_ReplyQueued res" "rs_State res = StateAwaiting"
  using sample_ingest that by (auto split: prod.splits sum.splits)


section \<open>The reply gate\<close>

lemma insertOutboxRow_stored:
  assumes "insertOutboxRow fk uid now (Some e) tbl = Inr (e', tbl')" and "o_Status e = OutboxPending"
  shows "\<exists>q\<in>set tbl'. is_pending q \<and> ob_submission_id q = o_SubmissionID e \<and> ob_reply_json q = Some (o_Reply e) \<and>
           ob_not_before q = nanoOrZero (o_NotBefore e) \<and> ob_updated_at q = unix_nano now \<and> ob_id q = o_ID e'"
proof -
  let ?n = "outbox_row_of (outbox_defaults uid now e)"
  have st: "o_Status (outbox_defaults uid now e) = OutboxPending" using assms(2) by (simp add: outbox_defaults_def)
  from assms(1) show ?thesis
  proof (cases rule: insertOutboxRow_cases)
    case (coalesced q)
    note q = find_Some_mem [OF coalesced(1)]
    then have "supersede ?n q \<in> set tbl'" using coalesced(3) by (auto simp: in_update_where)
    then show ?thesis by (rule bexI [rotated]) (use q st coalesced in \<open>simp add: pending_conflict_def\<close>)
  next
    case fresh
    have "?n \<in> set tbl'" using fresh(3) by simp
    then show ?thesis by (rule bexI [rotated]) (use st fresh(2) in \<open>simp add: outbox_row_of_def outbox_defaults_def\<close>)
  qed
qed

lemma replyNotBefore_spacing:
  "v_now v \<le> replyNotBefore v sub"
  "\<not> is_zero_time (s_LastReplyAt sub) \<Longrightarrow> time_add (s_LastReplyAt sub) (cfg_CoalesceWindow (v_cfg v)) \<le> replyNotBefore v sub"
  by (simp_all add: replyNotBefore_def Let_def)

lemma replyNotBefore_hash [simp]: "replyNotBefore v (s\<lparr>s_LastReplyHash := h\<rparr>) = replyNotBefore v s"
  by (simp add: replyNotBefore_def Let_def)

text \<open>The reply that an ingest queues, with the submission it was decided on.\<close>

lemma reply_queued_parts:
  assumes "ingestEmail v req w = (Inr res, w')" and "rs_ReplyQueued res"
  obtains sub i reply fp wa wb where "\<not> rq_Bounce req" "\<not> rq_AutoSubmitted req" "\<not> replies_disabled (v_cfg v)"
    "\<not> s_DeliveryFailed sub" "\<not> s_OnHold sub" "fp \<noteq> s_LastReplyHash sub"
    "rs_SubmissionID res = s_ID sub" "rs_MissingItems res = s_MissingItems sub" "fresh_id v w \<longrightarrow> agrees (w_db w) sub"
    "buildReply v sub (rs_MissingItems res) (inboundEmail (stamped v req) (message_id v req) i) (rs_PolicyUnknown res) = Some (reply, fp)"
    "same_core w wa" "same_core wb w'"
    "persistWithReply v (sub\<lparr>s_LastReplyHash := fp\<rparr>) reply (plain_result sub (rs_PolicyUnknown res)) wa = (Inr res, wb)"
proof -
  obtain wb where o: "outcome v (stamped v req) (message_id v req) (w\<lparr>w_collector := Some []\<rparr>) (Inr res) wb"
    and c: "same_core wb w'" by (rule ingestEmail_outcome [OF assms(1)])
  from o show thesis
  proof cases
    case (replied sub wa inbound unknown reply fp)
    have res: "rs_SubmissionID res = s_ID sub" "rs_MissingItems res = s_MissingItems sub" "rs_PolicyUnknown res = unknown"
      using persistWithReply_written [OF replied(11)] by auto
    obtain i where "inbound = inboundEmail (stamped v req) (message_id v req) i" using replied by blast
    then show thesis using replied res that [of sub fp i reply wa wb] c by (auto simp: carries_def)
  qed (use assms(2) in \<open>auto simp: result_for_def\<close>)
qed

text \<open>What the transaction of a reply leaves: the submission's row, and its one pending reply.\<close>

lemma queued_row:
  assumes "persistWithReply v sub reply res0 wa = (Inr res, wb)"
  shows "\<exists>row q. lookup_by q_id (s_ID sub) (db_submissions (w_db wb)) = Some row \<and>
    row = (sub_row_of (v_now v) sub)\<lparr>q_created_at := q_created_at row, q_last_reply_at := q_last_reply_at row, q_on_hold := q_on_hold row\<rparr> \<and>
    q \<in> set (db_outbox (w_db wb)) \<and> is_pending q \<and> ob_submission_id q = s_ID sub \<and> ob_reply_json q = Some reply \<and>
    ob_not_before q = nanoOrZero (replyNotBefore v sub) \<and> ob_updated_at q = unix_nano (v_now v) \<and>
    (db_wf (w_db wa) \<longrightarrow> (\<forall>q'\<in>set (db_outbox (w_db wb)). is_pending q' \<and> ob_submission_id q' = s_ID sub \<longrightarrow> q' = q))"
  using assms
proof (rule persistWithReply_Inr)
  fix d e entry
  assume agg: "upsert_aggregate (v_now v) sub (w_db wa) = Inr d"
    and en: "o_SubmissionID entry = s_ID sub" "o_Reply entry = reply" "o_Status entry = OutboxPending" "o_NotBefore entry = replyNotBefore v sub"
    and ins: "insertOutboxRow (has_submission d) '''' (v_now v) (Some entry) (db_outbox d) = Inr (e, db_outbox (w_db wb))"
    and d: "w_db wb = d\<lparr>db_outbox := db_outbox (w_db wb)\<rparr>"
  have subs: "db_submissions (w_db wb) = db_submissions d" by (subst d, simp)
  obtain q where q: "q \<in> set (db_outbox (w_db wb))" "is_pending q" "ob_submission_id q = s_ID sub" "ob_reply_json q = Some reply"
    "ob_not_before q = nanoOrZero (replyNotBefore v sub)" "ob_updated_at q = unix_nano (v_now v)"
    using insertOutboxRow_stored [OF ins en(3)] en by auto
  have "\<exists>row. lookup_by q_id (s_ID sub) (db_submissions d) = Some row \<and>
      row = (sub_row_of (v_now v) sub)\<lparr>q_created_at := q_created_at row, q_last_reply_at := q_last_reply_at row, q_on_hold := q_on_hold row\<rparr>"
    using upsert_aggregate_lookup [OF agg, of "s_ID sub"]
    by (auto simp: merge_sub_row_def split: option.splits dest!: lookup_by_Some)
  moreover have "q' = q" if "db_wf (w_db wa)" "q' \<in> set (db_outbox (w_db wb))" "is_pending q'" "ob_submission_id q' = s_ID sub" for q'
  proof -
    have "db_wf d" using upsert_aggregate_wf [OF that(1) agg] by simp
    then have "ob.wf (db_outbox (w_db wb))" using insert_with_fk_wf [OF _ ins] by (simp add: db_wf_def)
    then have "inj_on ob_submission_id {x \<in> set (db_outbox (w_db wb)). is_pending x}" by (auto simp: ob.wf_def distinct_map)
    then show ?thesis using that(2-) q(1-3) unfolding inj_on_def by auto
  qed
  ultimately show ?thesis unfolding subs using q by blast
qed

text \<open>
  C5. When an ingest queues a reply, the message was neither a bounce nor automatic, the kill switch is
  off, the stored submission was not on hold, and its reply differs from the last one sent: the
  fingerprint stored with the submission changes. The pending outbox row of the submission, the only one while the database is intact,
  holds the reply that \<open>buildReply\<close> makes of this message, the submission as it is stored now and the missing items reported, and the
  fingerprint stored is the one of that reply. The row is stamped now and due neither before now nor before the end of the
  coalescing window that the last reply started; the submission ends up deliverable.
\<close>

theorem reply_gate:
  assumes "ingestEmail v req w = (Inr res, w')" and "rs_ReplyQueued res" and "fresh_id v w"
  shows "\<not> rq_Bounce req \<and> \<not> rq_AutoSubmitted req \<and> \<not> replies_disabled (v_cfg v) \<and>
    (\<exists>row' q t reply sub i. lookup_by q_id (rs_SubmissionID res) (db_submissions (w_db w')) = Some row' \<and> \<not> q_delivery_failed row' \<and>
       q \<in> set (db_outbox (w_db w')) \<and> is_pending q \<and> ob_submission_id q = rs_SubmissionID res \<and>
       (db_wf (w_db w) \<longrightarrow> (\<forall>q'\<in>set (db_outbox (w_db w')). is_pending q' \<and> ob_submission_id q' = rs_SubmissionID res \<longrightarrow> q' = q)) \<and>
       ob_reply_json q = Some reply \<and>
       buildReply v sub (rs_MissingItems res) (inboundEmail (stamped v req) (message_id v req) i) (rs_PolicyUnknown res) =
         Some (reply, q_last_reply_hash row') \<and>
       row' = (sub_row_of (v_now v) sub)\<lparr>q_created_at := q_created_at row', q_last_reply_at := q_last_reply_at row',
                 q_on_hold := q_on_hold row', q_last_reply_hash := q_last_reply_hash row'\<rparr> \<and>
       ob_updated_at q = unix_nano (v_now v) \<and> ob_not_before q = nanoOrZero t \<and> v_now v \<le> t \<and>
       (\<forall>row. lookup_by q_id (rs_SubmissionID res) (db_submissions (w_db w)) = Some row \<longrightarrow>
          \<not> q_on_hold row \<and> q_last_reply_hash row' \<noteq> q_last_reply_hash row \<and>
          (let last = time_of_nano (q_last_reply_at row) in
           \<not> is_zero_time last \<longrightarrow> time_add last (cfg_CoalesceWindow (v_cfg v)) \<le> t)))"
proof -
  obtain sub i reply fp wa wb where g: "\<not> rq_Bounce req" "\<not> rq_AutoSubmitted req" "\<not> replies_disabled (v_cfg v)"
    "\<not> s_DeliveryFailed sub" "\<not> s_OnHold sub" "fp \<noteq> s_LastReplyHash sub" "rs_SubmissionID res = s_ID sub"
    and ag: "agrees (w_db w) sub" and core: "same_core w wa" "same_core wb w'"
    and b: "buildReply v sub (rs_MissingItems res) (inboundEmail (stamped v req) (message_id v req) i) (rs_PolicyUnknown res) = Some (reply, fp)"
    and p: "persistWithReply v (sub\<lparr>s_LastReplyHash := fp\<rparr>) reply (plain_result sub (rs_PolicyUnknown res)) wa = (Inr res, wb)"
    using reply_queued_parts [OF assms(1,2)] assms(3) by metis
  have db: "w_db wa = w_db w" "w_db w' = w_db wb" using core by (simp_all add: same_core_def)
  obtain row' q where q: "lookup_by q_id (s_ID sub) (db_submissions (w_db w')) = Some row'"
    "row' = (sub_row_of (v_now v) (sub\<lparr>s_LastReplyHash := fp\<rparr>))\<lparr>q_created_at := q_created_at row', q_last_reply_at := q_last_reply_at row', q_on_hold := q_on_hold row'\<rparr>"
    "q \<in> set (db_outbox (w_db w'))" "is_pending q" "ob_submission_id q = s_ID sub" "ob_reply_json q = Some reply"
    "ob_not_before q = nanoOrZero (replyNotBefore v sub)" "ob_updated_at q = unix_nano (v_now v)"
    "db_wf (w_db w) \<longrightarrow> (\<forall>q'\<in>set (db_outbox (w_db w')). is_pending q' \<and> ob_submission_id q' = s_ID sub \<longrightarrow> q' = q)"
    using queued_row [OF p] unfolding db by auto
  have h: "q_last_reply_hash row' = fp" "q_delivery_failed row' = s_DeliveryFailed sub"
    by (subst q(2), simp add: sub_row_of_def)+
  have r': "row' = (sub_row_of (v_now v) sub)\<lparr>q_created_at := q_created_at row', q_last_reply_at := q_last_reply_at row',
      q_on_hold := q_on_hold row', q_last_reply_hash := q_last_reply_hash row'\<rparr>"
    unfolding h(1) by (subst (1) q(2)) (simp add: sub_row_of_def)
  have old: "\<not> q_on_hold row \<and> fp \<noteq> q_last_reply_hash row \<and> time_of_nano (q_last_reply_at row) = s_LastReplyAt sub"
    if "lookup_by q_id (s_ID sub) (db_submissions (w_db w)) = Some row" for row
    using ag that g(5,6) by (auto simp: agrees_def)
  show ?thesis unfolding g(7) Let_def
    by (intro conjI g exI [of _ row'] exI [of _ q] exI [of _ "replyNotBefore v sub"] exI [of _ reply] exI [of _ sub] exI [of _ i])
      (use r' q b h g(4,7) old replyNotBefore_spacing [where v = v and sub = sub] in auto)
qed

theorem reply_gate_witness:
  "\<exists>res w'. ingestEmail sample_env sample_request empty_world = (Inr res, w') \<and> \<not> replies_disabled (v_cfg sample_env) \<and>
     (\<exists>q. q \<in> set (db_outbox (w_db w')) \<and> is_pending q)"
proof -
  obtain res w' where r: "ingestEmail sample_env sample_request empty_world = (Inr res, w')" "rs_ReplyQueued res"
    by (rule sample_ingest_result)
  have "fresh_id sample_env empty_world" by (simp add: fresh_id_def empty_world_def empty_db_def sub_ids_def)
  from reply_gate [OF r this] r(1) show ?thesis by blast
qed

section \<open>Redelivered messages\<close>

text \<open>The references under which a message is looked up.\<close>

definition thread_refs :: "ingest_request \<Rightarrow> string list" where
  "thread_refs req = cleanThreadRefs (rq_MessageID req) (rq_InReplyTo req) (rq_References req)"

lemma findByEmailReference_single:
  assumes "\<forall>i\<in>set (findSubmissionIDsByRefs (nonEmpty refs) d). i = sid" and "sid \<in> sub_ids d"
  shows "findByEmailReference refs d = Inl ErrSubmissionNotFound \<or>
         (\<exists>s. findByEmailReference refs d = Inr (s, False) \<and> getByID sid d = Inr s)"
proof -
  let ?ids = "findSubmissionIDsByRefs (nonEmpty refs) d"
  obtain s where s: "getByID sid d = Inr s" using getByID_known [OF assms(2)] by blast
  have "distinct ?ids" by (simp add: findSubmissionIDsByRefs_def)
  then have "?ids = [] \<or> ?ids = [sid]" using assms(1) by (cases ?ids; cases "tl ?ids") auto
  then show ?thesis using s by (elim disjE) (simp_all add: findByEmailReference_def Let_def)
qed

lemma resolve_duplicate:
  assumes "db_wf (w_db w)" and "e \<in> set (db_emails (w_db w))" and "e_DeterministicID e = i" and "i \<noteq> ''''"
    and "v_fault v OpFindByReference '''' = None" and "v_fault v OpFindByDeterministicID i = None"
    and "\<forall>x\<in>set (findSubmissionIDsByRefs (nonEmpty (thread_refs req)) (w_db w)). x = e_SubmissionID e"
  shows "\<exists>s. resolveSubmission v req i w = duplicate_of v req i s w \<and> s_ID s = e_SubmissionID e"
proof -
  have known: "e_SubmissionID e \<in> sub_ids (w_db w)" using assms(1,2) by (auto simp: db_wf_def)
  obtain f where f: "findByDeterministicID i (w_db w) = Inr f" "s_ID f = e_SubmissionID e"
    using email_lookup [OF assms(1,2)] assms(3,4) by blast
  from findByEmailReference_single [OF assms(7) known] show ?thesis
  proof
    assume "findByEmailReference (thread_refs req) (w_db w) = Inl ErrSubmissionNotFound"
    then have "resolveSubmission v req i w = duplicate_of v req i f w"
      using f assms(5,6) by (simp add: resolveSubmission_def repo_find_reference_def repo_find_deterministic_def thread_refs_def Let_def)
    then show ?thesis using f by blast
  next
    assume "\<exists>s. findByEmailReference (thread_refs req) (w_db w) = Inr (s, False) \<and> getByID (e_SubmissionID e) (w_db w) = Inr s"
    then obtain s where s: "findByEmailReference (thread_refs req) (w_db w) = Inr (s, False)" "getByID (e_SubmissionID e) (w_db w) = Inr s" by blast
    have "e \<in> set (s_Emails s)" and sid: "s_ID s = e_SubmissionID e" using getByID_emails [OF s(2)] assms(2) by auto
    then have "list_ex (\<lambda>x. e_DeterministicID x = i) (s_Emails s)" using assms(3) by (auto simp: list_ex_iff)
    then have "resolveSubmission v req i w = duplicate_of v req i s w"
      using s(1) assms(5) by (simp add: resolveSubmission_def repo_find_reference_def thread_refs_def Let_def)
    then show ?thesis using sid by blast
  qed
qed


definition delivered_email :: email where
  "delivered_email = inboundEmail sample_request (message_id sample_env sample_request) ''s1''"

definition delivered_world :: world where
  "delivered_world = empty_world\<lparr>w_db := \<lparr>db_submissions = [sub_row_of 1 stored_sub], db_emails = [delivered_email],
     db_documents = [], db_outbox = []\<rparr>\<rparr>"

lemma delivered_world_wf: "db_wf (w_db delivered_world)"
  by (simp add: db_wf_def delivered_world_def delivered_email_def inboundEmail_def sub_ids_def ob.wf_def
      stored_sub_def sample_sub_def newSubmission_def)


section \<open>Message identity and line of business\<close>

text \<open>
  The identity of a message does not depend on the order in which a mail client lists its
  attachments, nor on their names or types, only on the content hashes: two deliveries with the same
  Message-ID, body and hashes get the same id. With a hash that does not collide the identity determines
  all three, as long as neither Message-ID, body nor hash contains the separator byte.
\<close>

theorem message_identity:
  assumes "inj sha" and "NUL \<notin> set m" "NUL \<notin> set m'" "NUL \<notin> set b" "NUL \<notin> set b'"
    and "\<forall>a\<in>set (as @ as'). NUL \<notin> set (attachment_hash sha a)"
  shows "computeEmailID sha m b as = computeEmailID sha m' b' as' \<longleftrightarrow>
         m = m' \<and> b = b' \<and> image_mset (attachment_hash sha) (mset as) = image_mset (attachment_hash sha) (mset as')"
proof -
  let ?h = "\<lambda>as. sort (map (attachment_hash sha) as)"
  let ?join = "\<lambda>hs. concat (map (\<lambda>h. NUL # h) hs)"
  have cut: "x @ NUL # y = x' @ NUL # y' \<longleftrightarrow> x = x' \<and> y = y'" if "NUL \<notin> set x" "NUL \<notin> set x'" for x x' y y' :: string
    using that by (auto simp: append_eq_append_conv2 append_eq_Cons_conv Cons_eq_append_conv)
  have join: "x @ ?join hs = x' @ ?join hs' \<longleftrightarrow> x = x' \<and> hs = hs'"
    if "NUL \<notin> set x" "NUL \<notin> set x'" "\<forall>h\<in>set hs. NUL \<notin> set h" "\<forall>h\<in>set hs'. NUL \<notin> set h" for x x' hs hs'
    using that
  proof (induction hs arbitrary: x x' hs')
    case Nil
    then show ?case by (cases hs') auto
  next
    case (Cons h hs)
    then show ?case
    proof (cases hs')
      case Nil
      then show ?thesis using Cons.prems by auto
    next
      case (Cons h' hs'')
      then show ?thesis using Cons.prems Cons.IH [of h h' hs''] cut by simp
    qed
  qed
  have ms: "?h as = ?h as' \<longleftrightarrow> image_mset (attachment_hash sha) (mset as) = image_mset (attachment_hash sha) (mset as')"
    by (metis mset_map mset_sort sorted_list_of_multiset_mset)
  have "computeEmailID sha m b as = computeEmailID sha m' b' as' \<longleftrightarrow>
      m @ NUL # (b @ ?join (?h as)) = m' @ NUL # (b' @ ?join (?h as'))"
    using assms(1) by (simp add: computeEmailID_def inj_eq)
  also have "\<dots> \<longleftrightarrow> m = m' \<and> b = b' \<and> ?h as = ?h as'"
    using cut [OF assms(2,3)] join [OF assms(4,5), of "?h as" "?h as'"] assms(6) by auto
  finally show ?thesis using ms by simp
qed

theorem message_identity_witness:
  "computeEmailID (\<lambda>s. s) ''m'' ''b'' [sample_attachment\<lparr>t_SHA256 := ''h1''\<rparr>, sample_attachment\<lparr>t_SHA256 := ''h2''\<rparr>] =
   computeEmailID (\<lambda>s. s) ''m'' ''b'' [sample_attachment\<lparr>t_SHA256 := ''h2''\<rparr>, sample_attachment\<lparr>t_SHA256 := ''h1''\<rparr>]"
  by (subst message_identity) (auto simp: attachment_hash_def)

text \<open>How far the scan of the candidates has come.\<close>

definition policy_hit :: "string \<Rightarrow> string \<times> string \<Rightarrow> nat \<Rightarrow> bool" where
  "policy_hit lower c p \<longleftrightarrow> fst c \<noteq> '''' \<and> str_index lower (to_lower (fst c)) = Some p"

definition best_policy :: "string \<Rightarrow> (string \<times> string) list \<Rightarrow> string \<times> nat option \<Rightarrow> bool" where
  "best_policy lower cs best \<longleftrightarrow> (case snd best of
       None \<Rightarrow> fst best = PolicyTypeUnknown \<and> (\<forall>c\<in>set cs. \<forall>p. \<not> policy_hit lower c p)
     | Some p \<Rightarrow> (\<exists>c\<in>set cs. policy_hit lower c p \<and> snd c = fst best) \<and> (\<forall>c\<in>set cs. \<forall>p'. policy_hit lower c p' \<longrightarrow> p \<le> p'))"

lemma best_policy_fold:
  "best_policy lower cs best \<Longrightarrow> best_policy lower (cs @ ds) (fold (consider_policy lower) ds best)"
proof (induction ds arbitrary: cs best)
  case (Cons d ds)
  have "best_policy lower (cs @ [d]) (consider_policy lower d best)"
    using Cons.prems by (auto simp: best_policy_def consider_policy_def policy_hit_def split: option.splits)
  then show ?case using Cons.IH [of "cs @ [d]"] by simp
qed simp

text \<open>
  The inferred line of business is that of the checklist name, policy type or alias that occurs
  earliest in the text, ignoring case; it is unknown only when none occurs.
\<close>

theorem inferred_policy_earliest:
  defines "hits \<equiv> \<lambda>text all c p. c \<in> set (policy_candidates all) \<and> policy_hit (to_lower text) c p"
  assumes "hits text all c p"
  shows "\<exists>c0 p0. hits text all c0 p0 \<and> inferPolicyType text all = snd c0 \<and> p0 \<le> p"
proof -
  have "best_policy (to_lower text) ([] @ policy_candidates all)
      (fold (consider_policy (to_lower text)) (policy_candidates all) (PolicyTypeUnknown, None))"
    by (rule best_policy_fold) (simp add: best_policy_def)
  then show ?thesis using assms by (fastforce simp: best_policy_def inferPolicyType_def split: option.splits)
qed

theorem inferred_policy_earliest_witness:
  "\<exists>c0 p0. policy_hit (to_lower ''New CGL and cyber'') c0 p0 \<and> inferPolicyType ''New CGL and cyber'' [] = snd c0 \<and> p0 \<le> 4"
proof -
  have hit: "policy_hit (to_lower ''New CGL and cyber'') (''cgl'', ''cgl'') 4" by code_simp
  have mem: "(''cgl'', ''cgl'') \<in> set (policy_candidates [])" by (simp add: policy_candidates_def policyAliases_def)
  from inferred_policy_earliest [OF conjI [OF mem hit]] show ?thesis by blast
qed

end
