(* ===== verification/Delivery_Service.thy ===== *)
theory Delivery_Service
  imports Ingest_Properties
begin

text \<open>
  Sending replies: the reply workers' \<open>dispatchOnline\<close> and the outbox sweep \<open>RedeliverOutbox\<close> of
  \<open>internal/service/submissions.go\<close> and \<open>outbox_worker.go\<close>. The sender is the function \<open>v_send\<close>; what
  it accepts is appended to \<open>w_sent\<close>. A cancelled context ends the sweep between two rows: the sweep is
  given the number of rows it may still look at.

  The lemmas show that nothing goes to a held or bounced submission or past the kill switch, that a row
  sent or superseded since the sweep listed it is not sent from the stale snapshot, that claims are
  always given back, and that a failing row is dead-lettered with its ask made repeatable.
\<close>

section \<open>Sending one reply\<close>

definition outboundEmail :: "(string \<Rightarrow> string) \<Rightarrow> reply \<Rightarrow> string \<Rightarrow> gotime \<Rightarrow> email" where
  "outboundEmail sha r providerMsgID now =
     (let key = (if providerMsgID \<noteq> '''' then r_SubmissionID r @ [NUL] @ providerMsgID
                 else r_SubmissionID r @ [NUL] @ r_ToAddress r @ [NUL] @ r_Subject r @ [NUL] @ r_BodyText r)
      in \<lparr> e_DeterministicID = sha key, e_SubmissionID = r_SubmissionID r, e_Direction = DirectionOutbound,
           e_MessageID = providerMsgID, e_InReplyTo = r_InReplyTo r, e_References = r_References r,
           e_FromAddress = '''', e_FromName = '''', e_ReplyTo = '''', e_ToAddresses = [r_ToAddress r],
           e_Subject = r_Subject r, e_BodyText = r_BodyText r, e_ReceivedAt = now, e_ProviderMsgID = providerMsgID,
           e_Attachments = [] \<rparr>)"

text \<open>A write whose failure is only logged.\<close>

definition repo_try :: "env \<Rightarrow> repo_op \<Rightarrow> string \<Rightarrow> (db \<Rightarrow> error + db) \<Rightarrow> world \<Rightarrow> world" where
  "repo_try v opn subject f w = (case v_fault v opn subject of
       Some _ \<Rightarrow> w
     | None \<Rightarrow> (case f (w_db w) of Inl _ \<Rightarrow> w | Inr d \<Rightarrow> w\<lparr>w_db := d\<rparr>))"

definition record_sent :: "reply \<Rightarrow> world \<Rightarrow> world" where
  "record_sent r w = w\<lparr>w_sent := w_sent w @ [r]\<rparr>"

definition deliver :: "env \<Rightarrow> reply \<Rightarrow> string \<Rightarrow> world \<Rightarrow> error option \<times> world" where
  "deliver v reply sid w =
     (case v_send v reply of
        Inl err \<Rightarrow> (Some err, w)
      | Inr providerMsgID \<Rightarrow>
          (let w0 = record_sent reply w;
               w1 = repo_try v OpUpsertEmail (r_SubmissionID reply)
                      (upsertEmail (outboundEmail (v_sha v) reply providerMsgID (v_now v))) w0;
               w2 = repo_try v OpSetLastReplyAt sid (\<lambda>d. Inr (setLastReplyAt sid (v_now v) d)) w1
           in (None, audit v sid EventReplySent
                 [(''provider_msg_id'', AString providerMsgID), (''to'', AString (r_ToAddress reply)),
                  (''subject'', AString (r_Subject reply)), (''via'', AString (v_senderName v))] w2)))"

definition update_outbox :: "(outbox_row list \<Rightarrow> error + outbox_row list) \<Rightarrow> db \<Rightarrow> error + db" where
  "update_outbox f d = map_sum id (\<lambda>tbl. d\<lparr>db_outbox := tbl\<rparr>) (f (db_outbox d))"

definition repo_mark_sent :: "env \<Rightarrow> string \<Rightarrow> gotime \<Rightarrow> world \<Rightarrow> world" where
  "repo_mark_sent v i version w = repo_try v OpMarkSent i (update_outbox (\<lambda>tbl. Inr (markSent (v_now v) i version tbl))) w"

definition repo_outbox_update :: "env \<Rightarrow> string \<Rightarrow> outbox_status \<Rightarrow> int \<Rightarrow> string \<Rightarrow> world \<Rightarrow> world" where
  "repo_outbox_update v i status attempts lastErr w =
     repo_try v OpOutboxUpdate i (update_outbox (outbox_update (v_now v) i status attempts lastErr)) w"

section \<open>The online path\<close>

definition dispatchOnline :: "env \<Rightarrow> reply_job \<Rightarrow> world \<Rightarrow> world" where
  "dispatchOnline v job w =
     releaseDispatch (j_SubmissionID job)
       (case deliver v (j_Reply job) (j_SubmissionID job) w of
          (Some err, w1) \<Rightarrow> audit v (j_SubmissionID job) EventReplyFailed [(''error'', AString (error_str err))] w1
        | (None, w1) \<Rightarrow> repo_mark_sent v (j_OutboxID job) (j_Version job) w1)"

text \<open>A worker takes the next job from the channel.\<close>

definition replyWorker :: "env \<Rightarrow> world \<Rightarrow> world" where
  "replyWorker v w = (case w_jobs w of
       [] \<Rightarrow> w
     | job # rest \<Rightarrow> dispatchOnline v job (w\<lparr>w_jobs := rest\<rparr>))"

text \<open>
  \<open>Shutdown\<close> refuses further jobs and waits for the workers, which process the first \<open>served\<close> jobs before
  the waits are over; a send cancelled after the grace period shows as an error of the sender.
\<close>

definition shutdown :: "(nat \<Rightarrow> env) \<Rightarrow> nat \<Rightarrow> world \<Rightarrow> world" where
  "shutdown vs served w =
     (if w_closed w then w
      else fold (\<lambda>n. replyWorker (vs n)) [0..<served] (w\<lparr>w_closed := True\<rparr>))"

section \<open>The outbox sweep\<close>

definition outboxRetryAfter :: duration where "outboxRetryAfter = 2 * 60 * 1000000000"
definition outboxMaxAttempts :: int where "outboxMaxAttempts = 10"
definition outboxBatch :: int where "outboxBatch = 100"

definition redeliverOne :: "env \<Rightarrow> outbox_entry \<Rightarrow> world \<Rightarrow> world" where
  "redeliverOne v listed w =
     releaseDispatch (o_SubmissionID listed)
       (case v_fault v OpGetPending (o_ID listed) of
          Some _ \<Rightarrow> w
        | None \<Rightarrow> (case getPending (o_ID listed) (db_outbox (w_db w)) of
            Inl _ \<Rightarrow> w
          | Inr None \<Rightarrow> w
          | Inr (Some row) \<Rightarrow>
              (case deliver v (o_Reply row) (o_SubmissionID row) w of
                 (Some err, w1) \<Rightarrow>
                   (let attempts = o_Attempts row + 1 in
                    if attempts < outboxMaxAttempts
                    then repo_outbox_update v (o_ID row) OutboxPending attempts (error_str err) w1
                    else let w2 = repo_outbox_update v (o_ID row) OutboxFailed attempts (error_str err) w1;
                             w3 = repo_try v OpClearReplyHash (o_SubmissionID row)
                                    (\<lambda>d. Inr (clearReplyHash (o_SubmissionID row) d)) w2
                         in audit v (o_SubmissionID row) EventReplyFailed
                              [(''error'', AString (error_str err)), (''attempts'', AInt attempts), (''dead_lettered'', ABool True)] w3)
               | (None, w1) \<Rightarrow> repo_mark_sent v (o_ID row) (o_UpdatedAt row) w1)))"

definition blockedSubmissions :: "env \<Rightarrow> outbox_entry list \<Rightarrow> world \<Rightarrow> error + string list" where
  "blockedSubmissions v rows w =
     (if rows = [] then Inr []
      else let ids = rev (remdups (rev (map o_SubmissionID rows))) in
           case v_fault v OpReplyBlocked '''' of
             Some e \<Rightarrow> Inl e
           | None \<Rightarrow> Inr (replyBlockedIDs ids (w_db w)))"

text \<open>The loop over the listed rows; \<open>live\<close> is how many of them it reaches before the context is cancelled.\<close>

fun redeliver_rows :: "env \<Rightarrow> string list \<Rightarrow> nat \<Rightarrow> outbox_entry list \<Rightarrow> world \<Rightarrow> error option \<times> world" where
  "redeliver_rows v blocked live [] w = (None, w)"
| "redeliver_rows v blocked 0 (row # rows) w = (Some (ErrOther ''context canceled''), w)"
| "redeliver_rows v blocked (Suc live) (row # rows) w =
     (if o_SubmissionID row \<in> set blocked then redeliver_rows v blocked live rows w
      else let (claimed, w1) = claimDispatch (o_SubmissionID row) w in
           if claimed then redeliver_rows v blocked live rows (redeliverOne v row w1)
           else redeliver_rows v blocked live rows w1)"

definition redeliverOutbox :: "env \<Rightarrow> nat \<Rightarrow> world \<Rightarrow> error option \<times> world" where
  "redeliverOutbox v live w =
     (if replies_disabled (v_cfg v) then (None, w)
      else case v_fault v OpListPending '''' of
             Some e \<Rightarrow> (Some e, w)
           | None \<Rightarrow>
               (let cutoff = time_add (v_now v) (- outboxRetryAfter);
                    (rows, tbl) = listPending (v_now v) (v_now v) cutoff outboxBatch (db_outbox (w_db w));
                    w1 = w\<lparr>w_db := (w_db w)\<lparr>db_outbox := tbl\<rparr>\<rparr>
                in case blockedSubmissions v rows w1 of
                     Inl e \<Rightarrow> (Some e, w1)
                   | Inr blocked \<Rightarrow> redeliver_rows v blocked live rows w1))"

section \<open>What a delivery touches\<close>

abbreviation db_steps :: "world \<Rightarrow> world \<Rightarrow> bool" where
  "db_steps w w' \<equiv> db_step\<^sup>*\<^sup>* (w_db w) (w_db w')"

lemma same_core_simps:
  "same_core w w' \<Longrightarrow> w_db w' = w_db w" "same_core w w' \<Longrightarrow> w_dispatching w' = w_dispatching w"
  "same_core w w' \<Longrightarrow> w_jobs w' = w_jobs w" "same_core w w' \<Longrightarrow> w_closed w' = w_closed w" "same_core w w' \<Longrightarrow> w_sent w' = w_sent w"
  by (simp_all add: same_core_def)

lemmas audit_frame [simp] = same_core_simps [OF same_core_audit]

lemma repo_try_frame [simp]:
  "w_dispatching (repo_try v p i f w) = w_dispatching w" "w_jobs (repo_try v p i f w) = w_jobs w"
  "w_closed (repo_try v p i f w) = w_closed w" "w_sent (repo_try v p i f w) = w_sent w"
  by (auto simp: repo_try_def split: option.split sum.split)

lemma repo_try_db:
  "w_db (repo_try v p i f w) = w_db w \<or> f (w_db w) = Inr (w_db (repo_try v p i f w))"
  by (auto simp: repo_try_def split: option.split sum.split)

lemma repo_try_outbox:
  "(\<And>d d'. f d = Inr d' \<Longrightarrow> g (db_outbox d') = g (db_outbox d)) \<Longrightarrow>
   g (db_outbox (w_db (repo_try v p i f w))) = g (db_outbox (w_db w))"
  using repo_try_db [of v p i f w] by (elim disjE) auto

lemma repo_try_ok: "v_fault v p i = None \<Longrightarrow> f (w_db w) = Inr d \<Longrightarrow> repo_try v p i f w = w\<lparr>w_db := d\<rparr>"
  by (simp add: repo_try_def)

lemma repo_try_steps: "(\<And>d d'. f d = Inr d' \<Longrightarrow> db_step d d') \<Longrightarrow> db_steps w (repo_try v p i f w)"
  using repo_try_db [of v p i f w] by (elim disjE) auto

lemma update_outbox_Inr:
  "update_outbox f d = Inr d' \<longleftrightarrow> (\<exists>tbl. f (db_outbox d) = Inr tbl \<and> d' = d\<lparr>db_outbox := tbl\<rparr>)"
  by (cases "f (db_outbox d)") (auto simp: update_outbox_def)

lemma repo_mark_sent_steps: "db_steps w (repo_mark_sent v i t w)"
  unfolding repo_mark_sent_def by (rule repo_try_steps) (auto simp: update_outbox_Inr intro: db_step.outbox_sent)

lemma repo_outbox_update_steps: "db_steps w (repo_outbox_update v i st n err w)"
  unfolding repo_outbox_update_def by (rule repo_try_steps) (auto simp: update_outbox_Inr intro: db_step.outbox_update)

lemma releaseDispatch_frame [simp]:
  "w_db (releaseDispatch i w) = w_db w" "w_jobs (releaseDispatch i w) = w_jobs w" "w_closed (releaseDispatch i w) = w_closed w"
  "w_sent (releaseDispatch i w) = w_sent w" "w_dispatching (releaseDispatch i w) = filter (\<lambda>x. x \<noteq> i) (w_dispatching w)"
  by (simp_all add: releaseDispatch_def)

lemma upsertEmail_outbox: "upsertEmail e d = Inr d' \<Longrightarrow> db_outbox d' = db_outbox d"
  by (simp add: upsertEmail_def upsertEmailRow_outbox)

lemma setLastReplyAt_outbox [simp]: "db_outbox (setLastReplyAt i t d) = db_outbox d"
  "db_outbox (clearReplyHash i d) = db_outbox d"
  by (simp_all add: setLastReplyAt_def clearReplyHash_def update_sub_def)

lemma deliver_frame:
  assumes "deliver v r sid w = (e, w')"
  shows "w_jobs w' = w_jobs w" "w_dispatching w' = w_dispatching w" "w_closed w' = w_closed w"
    "db_outbox (w_db w') = db_outbox (w_db w)" "w_sent w' = w_sent w @ (if e = None then [r] else [])" "db_steps w w'"
    "e = None \<longleftrightarrow> (\<exists>pid. v_send v r = Inr pid)"
proof -
  have "w_jobs w' = w_jobs w \<and> w_dispatching w' = w_dispatching w \<and> w_closed w' = w_closed w \<and>
    db_outbox (w_db w') = db_outbox (w_db w) \<and> w_sent w' = w_sent w @ (if e = None then [r] else []) \<and> db_steps w w' \<and>
    (e = None \<longleftrightarrow> (\<exists>pid. v_send v r = Inr pid))"
  proof (cases "v_send v r")
    case (Inl err)
    then show ?thesis using assms by (auto simp: deliver_def)
  next
    case (Inr pid)
    define w1 where "w1 = repo_try v OpUpsertEmail (r_SubmissionID r) (upsertEmail (outboundEmail (v_sha v) r pid (v_now v))) (record_sent r w)"
    define w2 where "w2 = repo_try v OpSetLastReplyAt sid (\<lambda>d. Inr (setLastReplyAt sid (v_now v) d)) w1"
    have e: "e = None" and w': "same_core w2 w'"
      using assms Inr by (auto simp: deliver_def Let_def w1_def [symmetric] w2_def [symmetric])
    have "db_steps (record_sent r w) w1" unfolding w1_def by (rule repo_try_steps) (rule db_step.email)
    moreover have "db_steps w1 w2" unfolding w2_def by (rule repo_try_steps) (auto intro: db_step.last_reply)
    ultimately have "db_steps w w2" by (simp add: record_sent_def)
    moreover have "db_outbox (w_db w1) = db_outbox (w_db (record_sent r w))"
      unfolding w1_def by (rule repo_try_outbox [where g = "\<lambda>t. t"]) (rule upsertEmail_outbox)
    moreover have "db_outbox (w_db w2) = db_outbox (w_db w1)"
      unfolding w2_def by (rule repo_try_outbox [where g = "\<lambda>t. t"]) auto
    ultimately show ?thesis using e Inr same_core_simps [OF w'] by (simp add: w2_def w1_def record_sent_def)
  qed
  then show "w_jobs w' = w_jobs w" "w_dispatching w' = w_dispatching w" "w_closed w' = w_closed w"
    "db_outbox (w_db w') = db_outbox (w_db w)" "w_sent w' = w_sent w @ (if e = None then [r] else [])" "db_steps w w'"
    "e = None \<longleftrightarrow> (\<exists>pid. v_send v r = Inr pid)" by simp_all
qed

lemma repo_mark_sent_frame [simp]:
  "w_dispatching (repo_mark_sent v i t w) = w_dispatching w" "w_jobs (repo_mark_sent v i t w) = w_jobs w"
  "w_closed (repo_mark_sent v i t w) = w_closed w" "w_sent (repo_mark_sent v i t w) = w_sent w"
  "w_dispatching (repo_outbox_update v i st n err w) = w_dispatching w" "w_jobs (repo_outbox_update v i st n err w) = w_jobs w"
  "w_closed (repo_outbox_update v i st n err w) = w_closed w" "w_sent (repo_outbox_update v i st n err w) = w_sent w"
  by (simp_all add: repo_mark_sent_def repo_outbox_update_def)

lemma dispatchOnline_frame:
  shows "w_jobs (dispatchOnline v job w) = w_jobs w" "w_closed (dispatchOnline v job w) = w_closed w"
    "w_dispatching (dispatchOnline v job w) = filter (\<lambda>x. x \<noteq> j_SubmissionID job) (w_dispatching w)"
    "w_sent (dispatchOnline v job w) = w_sent w @ (case v_send v (j_Reply job) of Inl _ \<Rightarrow> [] | Inr _ \<Rightarrow> [j_Reply job])"
    "db_steps w (dispatchOnline v job w)"
proof -
  obtain e w1 where d: "deliver v (j_Reply job) (j_SubmissionID job) w = (e, w1)"
    by (cases "deliver v (j_Reply job) (j_SubmissionID job) w")
  note f = deliver_frame [OF d]
  have "w_jobs (dispatchOnline v job w) = w_jobs w \<and> w_closed (dispatchOnline v job w) = w_closed w \<and>
    w_dispatching (dispatchOnline v job w) = filter (\<lambda>x. x \<noteq> j_SubmissionID job) (w_dispatching w) \<and>
    w_sent (dispatchOnline v job w) = w_sent w @ (case v_send v (j_Reply job) of Inl _ \<Rightarrow> [] | Inr _ \<Rightarrow> [j_Reply job]) \<and>
    db_steps w (dispatchOnline v job w)"
  proof (cases e)
    case None
    have "db_steps w (repo_mark_sent v (j_OutboxID job) (j_Version job) w1)"
      using f(6) repo_mark_sent_steps [of w1] by (rule rtranclp_trans)
    then show ?thesis using None f d by (auto simp: dispatchOnline_def)
  next
    case (Some err)
    then show ?thesis using f d by (auto simp: dispatchOnline_def split: sum.split)
  qed
  then show "w_jobs (dispatchOnline v job w) = w_jobs w" "w_closed (dispatchOnline v job w) = w_closed w"
    "w_dispatching (dispatchOnline v job w) = filter (\<lambda>x. x \<noteq> j_SubmissionID job) (w_dispatching w)"
    "w_sent (dispatchOnline v job w) = w_sent w @ (case v_send v (j_Reply job) of Inl _ \<Rightarrow> [] | Inr _ \<Rightarrow> [j_Reply job])"
    "db_steps w (dispatchOnline v job w)" by simp_all
qed

text \<open>One row of the sweep: at most the reply that is pending under its id now is sent, and no other row changes.\<close>

definition pending_entry :: "string \<Rightarrow> outbox_row list \<Rightarrow> outbox_row option" where
  "pending_entry i tbl = find (\<lambda>r. ob_id r = i \<and> is_pending r) tbl"

definition others :: "string \<Rightarrow> world \<Rightarrow> outbox_row list" where
  "others i w = filter (\<lambda>r. ob_id r \<noteq> i) (db_outbox (w_db w))"

lemma filter_update_where_other:
  assumes "\<And>r. p r \<Longrightarrow> \<not> g r \<and> \<not> g (f r)"
  shows "filter g (update_where p f tbl) = filter g tbl"
  using assms by (induction tbl) (auto simp: update_where_def)

lemma repo_mark_sent_others [simp]: "others i (repo_mark_sent v i t w) = others i w"
  unfolding others_def repo_mark_sent_def
  by (rule repo_try_outbox [where g = "filter (\<lambda>r. ob_id r \<noteq> i)"])
    (auto simp: update_outbox_Inr markSent_def intro!: filter_update_where_other)

lemma repo_outbox_update_others [simp]: "others i (repo_outbox_update v i st n err w) = others i w"
  unfolding others_def repo_outbox_update_def
  by (rule repo_try_outbox [where g = "filter (\<lambda>r. ob_id r \<noteq> i)"])
    (auto simp: update_outbox_Inr outbox_update_def intro!: filter_update_where_other split: if_splits)

lemma repo_clear_hash_others [simp]: "others i (repo_try v p j (\<lambda>d. Inr (clearReplyHash k d)) w) = others i w"
  unfolding others_def by (rule repo_try_outbox [where g = "filter (\<lambda>r. ob_id r \<noteq> i)"]) auto

lemma others_frame [simp]:
  "others i (audit v s ev p w) = others i w" "others i (releaseDispatch s w) = others i w"
  by (simp_all add: others_def)

lemma getPending_cases:
  assumes "getPending i tbl = Inr (Some row)"
  obtains r where "pending_entry i tbl = Some r" "ob_reply_json r = Some (o_Reply row)" "r \<in> set tbl" "is_pending r"
    "ob_id r = i" "row = outbox_entry_of r (o_Reply row)"
proof -
  obtain r where r: "find (\<lambda>r. ob_id r = i \<and> is_pending r) tbl = Some r"
    using assms by (auto simp: getPending_def split: option.splits)
  then obtain rep where rep: "ob_reply_json r = Some rep" "row = outbox_entry_of r rep"
    using assms by (auto simp: getPending_def split: option.splits)
  have "o_Reply row = rep" using rep by (simp add: outbox_entry_of_def)
  then show thesis using that [of r] find_Some_mem [OF r] r rep by (simp add: pending_entry_def)
qed

text \<open>What a failed attempt leaves of the row: another attempt, or a dead letter.\<close>

abbreviation attempt_failed :: "env \<Rightarrow> outbox_entry \<Rightarrow> error \<Rightarrow> world \<Rightarrow> world" where
  "attempt_failed v row err w \<equiv>
     (if o_Attempts row + 1 < outboxMaxAttempts
      then repo_outbox_update v (o_ID row) OutboxPending (o_Attempts row + 1) (error_str err) w
      else audit v (o_SubmissionID row) EventReplyFailed
             [(''error'', AString (error_str err)), (''attempts'', AInt (o_Attempts row + 1)), (''dead_lettered'', ABool True)]
             (repo_try v OpClearReplyHash (o_SubmissionID row) (\<lambda>d. Inr (clearReplyHash (o_SubmissionID row) d))
               (repo_outbox_update v (o_ID row) OutboxFailed (o_Attempts row + 1) (error_str err) w)))"

lemma attempt_failed_step:
  "db_steps w (attempt_failed v row err w) \<and> w_jobs (attempt_failed v row err w) = w_jobs w \<and>
   w_closed (attempt_failed v row err w) = w_closed w \<and> w_dispatching (attempt_failed v row err w) = w_dispatching w \<and>
   w_sent (attempt_failed v row err w) = w_sent w \<and> others (o_ID row) (attempt_failed v row err w) = others (o_ID row) w"
proof -
  have "db_steps w (repo_try v OpClearReplyHash s (\<lambda>d. Inr (clearReplyHash s d)) (repo_outbox_update v i st n er w))" for i st n er s
    by (rule rtranclp_trans [OF repo_outbox_update_steps repo_try_steps]) (auto intro: db_step.clear_hash)
  then show ?thesis by (simp add: repo_outbox_update_steps)
qed

lemma redeliverOne_step:
  assumes "w' = redeliverOne v listed w"
  shows "w_jobs w' = w_jobs w \<and> w_closed w' = w_closed w \<and>
    w_dispatching w' = filter (\<lambda>x. x \<noteq> o_SubmissionID listed) (w_dispatching w) \<and> db_steps w w' \<and>
    others (o_ID listed) w' = others (o_ID listed) w \<and>
    (w_sent w' = w_sent w \<or> (\<exists>q\<in>set (db_outbox (w_db w)). \<exists>r. is_pending q \<and> ob_id q = o_ID listed \<and> ob_reply_json q = Some r \<and>
        w_sent w' = w_sent w @ [r]))"
proof (cases "v_fault v OpGetPending (o_ID listed) = None \<and> (\<exists>row. getPending (o_ID listed) (db_outbox (w_db w)) = Inr (Some row))")
  case False
  then have "w' = releaseDispatch (o_SubmissionID listed) w"
    using assms by (auto simp: redeliverOne_def split: option.splits sum.splits)
  then show ?thesis by simp
next
  case True
  then obtain row where nf: "v_fault v OpGetPending (o_ID listed) = None" and g: "getPending (o_ID listed) (db_outbox (w_db w)) = Inr (Some row)" by blast
  obtain q where q: "q \<in> set (db_outbox (w_db w))" "is_pending q" "ob_id q = o_ID listed" "ob_reply_json q = Some (o_Reply row)"
    and row: "row = outbox_entry_of q (o_Reply row)" using g by (rule getPending_cases)
  have rid: "o_ID row = o_ID listed" using arg_cong [OF row, of o_ID] q(3) by (simp add: outbox_entry_of_def)
  obtain e w1 where d: "deliver v (o_Reply row) (o_SubmissionID row) w = (e, w1)"
    by (cases "deliver v (o_Reply row) (o_SubmissionID row) w")
  note f = deliver_frame [OF d]
  have o1: "others i w1 = others i w" for i using f(4) by (simp add: others_def)
  show ?thesis
  proof (cases e)
    case None
    then have w': "w' = releaseDispatch (o_SubmissionID listed) (repo_mark_sent v (o_ID listed) (o_UpdatedAt row) w1)"
      using assms nf g d rid by (simp add: redeliverOne_def)
    have "db_steps w (repo_mark_sent v (o_ID listed) (o_UpdatedAt row) w1)"
      using f(6) repo_mark_sent_steps by (rule rtranclp_trans)
    then show ?thesis unfolding w' using f None o1 q by auto
  next
    case (Some err)
    have "w' = releaseDispatch (o_SubmissionID listed) (attempt_failed v row err w1)"
      using assms nf g d Some by (simp add: redeliverOne_def Let_def)
    moreover have "db_steps w (attempt_failed v row err w1)"
      using f(6) attempt_failed_step [of w1 row v err] by (blast intro: rtranclp_trans)
    ultimately show ?thesis using attempt_failed_step [of w1 row v err] f Some o1 rid by simp
  qed
qed

text \<open>A row whose submission is not being sent to is claimed, settled and given back.\<close>

lemma redeliver_rows_Suc:
  "redeliver_rows v blocked (Suc k) (row # rows) w =
     (if o_SubmissionID row \<in> set blocked \<or> o_SubmissionID row \<in> set (w_dispatching w) then redeliver_rows v blocked k rows w
      else redeliver_rows v blocked k rows (redeliverOne v row (w\<lparr>w_dispatching := o_SubmissionID row # w_dispatching w\<rparr>)))"
  by (simp add: claimDispatch_def)

lemma redeliverOne_claimed:
  assumes "w2 = redeliverOne v row (w\<lparr>w_dispatching := o_SubmissionID row # w_dispatching w\<rparr>)"
    and "o_SubmissionID row \<notin> set (w_dispatching w)"
  shows "w_jobs w2 = w_jobs w \<and> w_closed w2 = w_closed w \<and> w_dispatching w2 = w_dispatching w \<and> db_steps w w2"
    and "ob_id q \<noteq> o_ID row \<Longrightarrow> q \<in> set (db_outbox (w_db w2)) \<longleftrightarrow> q \<in> set (db_outbox (w_db w))"
    and "w_sent w2 = w_sent w \<or> (\<exists>q\<in>set (db_outbox (w_db w)). \<exists>r. is_pending q \<and> ob_id q = o_ID row \<and> ob_reply_json q = Some r \<and>
        w_sent w2 = w_sent w @ [r])"
proof -
  note st = redeliverOne_step [OF assms(1)]
  show "w_jobs w2 = w_jobs w \<and> w_closed w2 = w_closed w \<and> w_dispatching w2 = w_dispatching w \<and> db_steps w w2"
    using st assms(2) by (auto simp: filter_id_conv)
  have "set (others (o_ID row) w2) = set (others (o_ID row) w)" using st by (simp add: others_def)
  then show "q \<in> set (db_outbox (w_db w2)) \<longleftrightarrow> q \<in> set (db_outbox (w_db w))" if "ob_id q \<noteq> o_ID row"
    using that by (auto simp: others_def)
  show "w_sent w2 = w_sent w \<or> (\<exists>q\<in>set (db_outbox (w_db w)). \<exists>r. is_pending q \<and> ob_id q = o_ID row \<and> ob_reply_json q = Some r \<and>
        w_sent w2 = w_sent w @ [r])" using st by simp
qed

lemma redeliver_rows_frame:
  "redeliver_rows v blocked live rows w = (e, w') \<Longrightarrow>
   w_jobs w' = w_jobs w \<and> w_dispatching w' = w_dispatching w \<and> w_closed w' = w_closed w \<and> db_steps w w'"
proof (induction rows arbitrary: live w)
  case (Cons row rows)
  show ?case
  proof (cases live)
    case (Suc k)
    let ?w2 = "redeliverOne v row (w\<lparr>w_dispatching := o_SubmissionID row # w_dispatching w\<rparr>)"
    show ?thesis
      using Cons.prems Cons.IH [of k w] Cons.IH [of k ?w2] redeliverOne_claimed(1) [OF refl, of row w v]
      unfolding Suc redeliver_rows_Suc by (auto split: if_splits)
  qed (use Cons.prems in simp)
qed simp

text \<open>
  The loop: every listed row whose submission is neither blocked nor claimed is looked at once. \<open>sent_from\<close> says that the
  replies sent between two worlds are those of distinct pending rows among some ids, of submissions free to send to.
\<close>

definition sent_from :: "string list \<Rightarrow> string set \<Rightarrow> world \<Rightarrow> world \<Rightarrow> bool" where
  "sent_from blocked ids w w' \<longleftrightarrow>
     (\<exists>qs sent. w_sent w' = w_sent w @ sent \<and> list_all2 (\<lambda>q r. ob_reply_json q = Some r) qs sent \<and> distinct (map ob_id qs) \<and>
       ob_id ` set qs \<subseteq> ids \<and>
       (\<forall>q\<in>set qs. q \<in> set (db_outbox (w_db w)) \<and> is_pending q \<and> ob_submission_id q \<notin> set blocked \<and>
           ob_submission_id q \<notin> set (w_dispatching w)))"

lemma sent_from_mono: "sent_from blocked ids w w' \<Longrightarrow> ids \<subseteq> ids' \<Longrightarrow> sent_from blocked ids' w w'"
  unfolding sent_from_def by (meson order_trans)

lemma sent_from_refl: "sent_from blocked ids w w"
  unfolding sent_from_def by (rule exI [of _ "[]"]) simp

lemma sent_from_step:
  assumes "sent_from blocked ids w2 w'" and "i \<notin> ids"
    and keep: "\<And>q. ob_id q \<noteq> i \<Longrightarrow> q \<in> set (db_outbox (w_db w2)) \<longleftrightarrow> q \<in> set (db_outbox (w_db w))"
    and disp: "w_dispatching w2 = w_dispatching w"
    and one: "w_sent w2 = w_sent w \<or> (\<exists>q\<in>set (db_outbox (w_db w)). \<exists>r. is_pending q \<and> ob_id q = i \<and> ob_reply_json q = Some r \<and>
        w_sent w2 = w_sent w @ [r] \<and> ob_submission_id q \<notin> set blocked \<and> ob_submission_id q \<notin> set (w_dispatching w))"
  shows "sent_from blocked (insert i ids) w w'"
proof -
  obtain qs sent where s: "w_sent w' = w_sent w2 @ sent" "list_all2 (\<lambda>q r. ob_reply_json q = Some r) qs sent" "distinct (map ob_id qs)"
    "ob_id ` set qs \<subseteq> ids" and free: "\<forall>q\<in>set qs. q \<in> set (db_outbox (w_db w2)) \<and> is_pending q \<and> ob_submission_id q \<notin> set blocked \<and>
      ob_submission_id q \<notin> set (w_dispatching w2)"
    using assms(1) unfolding sent_from_def by blast
  have new: "i \<notin> ob_id ` set qs" using s(4) assms(2) by blast
  then have "ob_id q \<noteq> i" if "q \<in> set qs" for q using that by blast
  then have qs: "\<forall>q\<in>set qs. q \<in> set (db_outbox (w_db w)) \<and> is_pending q \<and> ob_submission_id q \<notin> set blocked \<and>
      ob_submission_id q \<notin> set (w_dispatching w)"
    using free keep disp by metis
  from one show ?thesis
  proof (elim disjE bexE exE conjE)
    assume "w_sent w2 = w_sent w"
    then show ?thesis unfolding sent_from_def using s qs by (intro exI [of _ qs] exI [of _ sent]) auto
  next
    fix q r assume "q \<in> set (db_outbox (w_db w))" "is_pending q" "ob_id q = i" "ob_reply_json q = Some r" "w_sent w2 = w_sent w @ [r]"
      "ob_submission_id q \<notin> set blocked" "ob_submission_id q \<notin> set (w_dispatching w)"
    then show ?thesis unfolding sent_from_def using s qs new by (intro exI [of _ "q # qs"] exI [of _ "r # sent"]) auto
  qed
qed

definition owned_rows :: "outbox_entry list \<Rightarrow> world \<Rightarrow> bool" where
  "owned_rows rows w \<longleftrightarrow>
     (\<forall>row\<in>set rows. \<forall>q\<in>set (db_outbox (w_db w)). ob_id q = o_ID row \<longrightarrow> ob_submission_id q = o_SubmissionID row)"

lemma redeliver_rows_sent:
  "redeliver_rows v blocked live rows w = (e, w') \<Longrightarrow> distinct (map o_ID rows) \<Longrightarrow> owned_rows rows w \<Longrightarrow>
   sent_from blocked (o_ID ` set rows) w w'"
proof (induction rows arbitrary: live w)
  case (Cons row rows)
  have own: "owned_rows rows w" and dist: "distinct (map o_ID rows)" "o_ID row \<notin> o_ID ` set rows"
    using Cons.prems(2,3) by (auto simp: owned_rows_def)
  show ?case
  proof (cases live)
    case 0
    then show ?thesis using Cons.prems(1) sent_from_refl by simp
  next
    case (Suc k)
    define w2 where "w2 = redeliverOne v row (w\<lparr>w_dispatching := o_SubmissionID row # w_dispatching w\<rparr>)"
    note run = Cons.prems(1) [unfolded Suc redeliver_rows_Suc, folded w2_def]
    show ?thesis
    proof (cases "o_SubmissionID row \<in> set blocked \<or> o_SubmissionID row \<in> set (w_dispatching w)")
      case True
      then have "sent_from blocked (o_ID ` set rows) w w'" using run by (intro Cons.IH [OF _ dist(1) own]) simp
      then show ?thesis by (rule sent_from_mono) auto
    next
      case False
      note one = redeliverOne_claimed [OF w2_def]
      have "owned_rows rows w2" unfolding owned_rows_def
        using own dist(2) one(2) False unfolding owned_rows_def by (metis imageI)
      then have rest: "sent_from blocked (o_ID ` set rows) w2 w'" using run False by (intro Cons.IH [OF _ dist(1)]) simp_all
      have "sent_from blocked (insert (o_ID row) (o_ID ` set rows)) w w'"
      proof (rule sent_from_step [OF rest dist(2)])
        show "q \<in> set (db_outbox (w_db w2)) \<longleftrightarrow> q \<in> set (db_outbox (w_db w))" if "ob_id q \<noteq> o_ID row" for q
          using one(2) that False by blast
        show "w_dispatching w2 = w_dispatching w" using one(1) False by blast
        have "ob_submission_id q = o_SubmissionID row" if "q \<in> set (db_outbox (w_db w))" "ob_id q = o_ID row" for q
          using Cons.prems(3) that by (auto simp: owned_rows_def)
        then show "w_sent w2 = w_sent w \<or> (\<exists>q\<in>set (db_outbox (w_db w)). \<exists>r. is_pending q \<and> ob_id q = o_ID row \<and> ob_reply_json q = Some r \<and>
            w_sent w2 = w_sent w @ [r] \<and> ob_submission_id q \<notin> set blocked \<and> ob_submission_id q \<notin> set (w_dispatching w))"
          using one(3) False by metis
      qed
      then show ?thesis by simp
    qed
  qed
qed (simp add: sent_from_refl)

section \<open>Properties of the sweep\<close>

lemma listPending_rows:
  assumes "ob.wf tbl" and "listPending clock now cutoff limit tbl = (rows, tbl')"
  shows "distinct (map o_ID rows)"
    and "\<And>e. e \<in> set rows \<Longrightarrow> \<exists>r\<in>set tbl. outbox_due now cutoff r \<and> ob_id r = o_ID e \<and> ob_submission_id r = o_SubmissionID e"
    and "\<And>q. q \<in> set tbl' \<Longrightarrow> is_pending q \<Longrightarrow> q \<in> set tbl"
    and "\<And>q. q \<in> set tbl' \<Longrightarrow> \<exists>r\<in>set tbl. ob_id r = ob_id q \<and> ob_submission_id r = ob_submission_id q"
proof -
  have ids: "distinct (map ob_id tbl)" using assms(1) by (simp add: ob.wf_def)
  have rows: "rows = decoded_entries (due_page now cutoff limit tbl)" using assms(2) by (simp add: listPending_def Let_def)
  show "distinct (map o_ID rows)" unfolding rows by (rule distinct_decoded_entries [OF distinct_due_page [OF ids]])
  show "\<exists>r\<in>set tbl. outbox_due now cutoff r \<and> ob_id r = o_ID e \<and> ob_submission_id r = o_SubmissionID e" if "e \<in> set rows" for e
    using that unfolding rows in_decoded_entries by (auto simp: outbox_entry_of_def dest: in_due_page)
  have tbl': "tbl' = map (\<lambda>r. if r \<in> set (due_page now cutoff limit tbl) \<and> ob_reply_json r = None
                         then dead_lettered clock r else r) tbl"
    using listPending_table [OF ids, of clock now cutoff limit] assms(2) by simp
  show "q \<in> set tbl" if "q \<in> set tbl'" "is_pending q" for q
    using that unfolding tbl' by (auto simp: dead_lettered_def split: if_splits)
  show "\<exists>r\<in>set tbl. ob_id r = ob_id q \<and> ob_submission_id r = ob_submission_id q" if "q \<in> set tbl'" for q
    using that unfolding tbl' by (auto simp: dead_lettered_def split: if_splits)
qed

lemma wf_same_row: "ob.wf tbl \<Longrightarrow> q \<in> set tbl \<Longrightarrow> r \<in> set tbl \<Longrightarrow> ob_id q = ob_id r \<Longrightarrow> q = r"
  by (auto simp: ob.wf_def distinct_map inj_on_def)

lemma blockedSubmissions_Inr:
  assumes "blockedSubmissions v rows w = Inr blocked" and "row \<in> set rows" and "trim_space (o_SubmissionID row) = o_SubmissionID row"
    and "o_SubmissionID row \<noteq> ''''" and "o_SubmissionID row \<notin> set blocked" and "s \<in> set (db_submissions (w_db w))" and "q_id s = o_SubmissionID row"
  shows "\<not> q_on_hold s \<and> \<not> q_delivery_failed s"
proof -
  have "blocked = replyBlockedIDs (rev (remdups (rev (map o_SubmissionID rows)))) (w_db w)"
    using assms(1,2) by (auto simp: blockedSubmissions_def Let_def split: if_splits option.splits)
  moreover have "o_SubmissionID row \<in> set (nonEmpty (rev (remdups (rev (map o_SubmissionID rows)))))"
    unfolding in_nonEmpty using assms(2-4) by (intro conjI bexI [of _ "o_SubmissionID row"]) auto
  ultimately have "q_on_hold s \<or> q_delivery_failed s \<Longrightarrow> q_id s \<in> set blocked"
    using assms(6,7) by (simp add: replyBlockedIDs_def Let_def) (rule image_eqI [of _ _ s], simp_all)
  then show ?thesis using assms(5,7) by auto
qed

text \<open>The sweep is the listing followed by the loop, unless it is switched off or the database fails.\<close>

lemma redeliverOutbox_cases:
  assumes "redeliverOutbox v live w = (e, w')"
  obtains (off) "w' = w"
    | (ran) rows tbl w1 where "\<not> replies_disabled (v_cfg v)"
        "listPending (v_now v) (v_now v) (time_add (v_now v) (- outboxRetryAfter)) outboxBatch (db_outbox (w_db w)) = (rows, tbl)"
        "w1 = w\<lparr>w_db := (w_db w)\<lparr>db_outbox := tbl\<rparr>\<rparr>" "db_steps w w1"
        "w' = w1 \<or> (\<exists>blocked. blockedSubmissions v rows w1 = Inr blocked \<and> redeliver_rows v blocked live rows w1 = (e, w'))"
proof (cases "replies_disabled (v_cfg v) \<or> v_fault v OpListPending '''' \<noteq> None")
  case True
  then show thesis using assms off by (auto simp: redeliverOutbox_def split: if_splits)
next
  case False
  let ?cut = "time_add (v_now v) (- outboxRetryAfter)"
  obtain rows tbl where lp: "listPending (v_now v) (v_now v) ?cut outboxBatch (db_outbox (w_db w)) = (rows, tbl)"
    by (cases "listPending (v_now v) (v_now v) ?cut outboxBatch (db_outbox (w_db w))")
  let ?w1 = "w\<lparr>w_db := (w_db w)\<lparr>db_outbox := tbl\<rparr>\<rparr>"
  have "db_steps w ?w1" using db_step.outbox_list [of "w_db w" "v_now v" "v_now v" ?cut outboxBatch] lp by auto
  moreover have "w' = ?w1 \<or> (\<exists>blocked. blockedSubmissions v rows ?w1 = Inr blocked \<and> redeliver_rows v blocked live rows ?w1 = (e, w'))"
    using assms False lp by (auto simp: redeliverOutbox_def Let_def split: sum.splits)
  ultimately show thesis using ran [OF _ lp refl] False by blast
qed

lemma redeliverOutbox_frame:
  assumes "redeliverOutbox v live w = (e, w')"
  shows "w_jobs w' = w_jobs w \<and> w_dispatching w' = w_dispatching w \<and> w_closed w' = w_closed w \<and> db_steps w w'"
  using assms
proof (cases rule: redeliverOutbox_cases)
  case (ran rows tbl w1)
  then show ?thesis using redeliver_rows_frame [of v _ live rows w1 e w'] rtranclp_trans [OF ran(4)] by auto
qed simp

lemma listed_owned:
  assumes "ob.wf (db_outbox (w_db w))" and "listPending clock now cutoff limit (db_outbox (w_db w)) = (rows, tbl)"
  shows "owned_rows rows (w\<lparr>w_db := (w_db w)\<lparr>db_outbox := tbl\<rparr>\<rparr>)"
  unfolding owned_rows_def
proof (intro ballI impI)
  note rows = listPending_rows [OF assms]
  fix row q assume "row \<in> set rows" "q \<in> set (db_outbox (w_db (w\<lparr>w_db := (w_db w)\<lparr>db_outbox := tbl\<rparr>\<rparr>)))" "ob_id q = o_ID row"
  moreover obtain r where "r \<in> set (db_outbox (w_db w))" "ob_id r = o_ID row" "ob_submission_id r = o_SubmissionID row"
    using rows(2) \<open>row \<in> set rows\<close> by blast
  moreover obtain r' where "r' \<in> set (db_outbox (w_db w))" "ob_id r' = ob_id q" "ob_submission_id r' = ob_submission_id q"
    using rows(4) \<open>q \<in> _\<close> by auto
  ultimately show "ob_submission_id q = o_SubmissionID row" using wf_same_row [OF assms(1)] by metis
qed

lemma listed_row_due:
  assumes wf: "ob.wf tbl" and lp: "listPending clock now cutoff limit tbl = (rows, tbl')"
    and q: "q \<in> set tbl'" "is_pending q" "ob_id q \<in> o_ID ` set rows"
  shows "q \<in> set tbl \<and> outbox_due now cutoff q \<and> (\<exists>row\<in>set rows. o_SubmissionID row = ob_submission_id q)"
proof -
  note rows = listPending_rows [OF wf lp]
  have mem: "q \<in> set tbl" using rows(3) q(1,2) by blast
  obtain row where r: "row \<in> set rows" "o_ID row = ob_id q" using q(3) by auto
  obtain r' where "r' \<in> set tbl" "outbox_due now cutoff r'" "ob_id r' = o_ID row" "ob_submission_id r' = o_SubmissionID row"
    using rows(2) [OF r(1)] by blast
  then show ?thesis using wf_same_row [OF wf mem] r mem by metis
qed

lemma unblocked_free:
  assumes "blockedSubmissions v rows w1 = Inr blocked" and "row \<in> set rows" "o_SubmissionID row = i" "i \<notin> set blocked"
    and "trim_space i = i" "i \<noteq> ''''" and "i \<in> sub_ids (w_db w1)"
  shows "\<exists>s. lookup_by q_id i (db_submissions (w_db w1)) = Some s \<and> \<not> q_on_hold s \<and> \<not> q_delivery_failed s"
proof -
  obtain s where l: "lookup_by q_id i (db_submissions (w_db w1)) = Some s"
    using assms(7) by (cases "lookup_by q_id i (db_submissions (w_db w1))") (auto simp: lookup_by_None sub_ids_def)
  then show ?thesis using blockedSubmissions_Inr [OF assms(1,2), of s] lookup_by_Some [OF l] assms(3-6) by auto
qed

text \<open>
  C9. What the outbox sweep sends, for submission ids without surrounding space: nothing when replies are
  disabled; otherwise only replies of rows that were pending and due when it began, at most one per
  submission, and only for submissions that are neither on hold nor undeliverable nor being sent to by
  a worker. All its dispatch claims are given back and the worker queue is untouched.
\<close>

theorem sweep_respects_suppression:
  assumes "redeliverOutbox v live w = (e, w')" and "db_wf (w_db w)"
    and "\<forall>q\<in>set (db_outbox (w_db w)). trim_space (ob_submission_id q) = ob_submission_id q \<and> ob_submission_id q \<noteq> ''''"
  shows "\<exists>qs sent. w_sent w' = w_sent w @ sent \<and> list_all2 (\<lambda>q r. ob_reply_json q = Some r) qs sent \<and>
           (replies_disabled (v_cfg v) \<longrightarrow> sent = []) \<and> distinct (map ob_submission_id qs) \<and>
           (\<forall>q\<in>set qs. q \<in> set (db_outbox (w_db w)) \<and> outbox_due (v_now v) (time_add (v_now v) (- outboxRetryAfter)) q \<and>
              ob_submission_id q \<notin> set (w_dispatching w) \<and>
              (\<exists>s. lookup_by q_id (ob_submission_id q) (db_submissions (w_db w)) = Some s \<and> \<not> q_on_hold s \<and> \<not> q_delivery_failed s)) \<and>
           w_dispatching w' = w_dispatching w \<and> w_jobs w' = w_jobs w"
  using assms(1)
proof (cases rule: redeliverOutbox_cases)
  case off
  then show ?thesis by (intro exI [of _ "[]"]) simp
next
  case (ran rows tbl w1)
  have wf: "ob.wf (db_outbox (w_db w))" and fk: "ob_submission_id ` set (db_outbox (w_db w)) \<subseteq> sub_ids (w_db w1)"
    using assms(2) ran(3) by (simp_all add: db_wf_def sub_ids_def)
  note fr = redeliverOutbox_frame [OF assms(1)]
  from ran(5) show ?thesis
  proof (elim disjE exE conjE)
    assume "w' = w1"
    then show ?thesis using ran(3) by (intro exI [of _ "[]"]) simp
  next
    fix blocked assume b: "blockedSubmissions v rows w1 = Inr blocked" and rr: "redeliver_rows v blocked live rows w1 = (e, w')"
    have "sent_from blocked (o_ID ` set rows) w1 w'"
      using redeliver_rows_sent [OF rr listPending_rows(1) [OF wf ran(2)]] listed_owned [OF wf ran(2)] ran(3) by blast
    then obtain qs sent where s: "w_sent w' = w_sent w1 @ sent" "list_all2 (\<lambda>q r. ob_reply_json q = Some r) qs sent" "distinct (map ob_id qs)"
      "ob_id ` set qs \<subseteq> o_ID ` set rows" "\<forall>q\<in>set qs. q \<in> set (db_outbox (w_db w1)) \<and> is_pending q \<and> ob_submission_id q \<notin> set blocked \<and>
        ob_submission_id q \<notin> set (w_dispatching w1)"
      unfolding sent_from_def by blast
    have qs: "q \<in> set tbl \<and> is_pending q \<and> ob_id q \<in> o_ID ` set rows \<and> ob_submission_id q \<notin> set blocked \<and>
        ob_submission_id q \<notin> set (w_dispatching w)" if "q \<in> set qs" for q
      using s(4,5) that ran(3) by auto
    note due = listed_row_due [OF wf ran(2)]
    have ok: "\<exists>s. lookup_by q_id (ob_submission_id q) (db_submissions (w_db w)) = Some s \<and> \<not> q_on_hold s \<and> \<not> q_delivery_failed s"
      if q: "q \<in> set qs" for q
      using unblocked_free [OF b, of _ "ob_submission_id q"] due [of q] qs [OF q] assms(3) fk ran(3) by auto
    have "distinct (map ob_submission_id qs)"
      using s(3) ob.wf_one_active [OF wf] due qs by (auto simp: distinct_map inj_on_def)
    then show ?thesis using s fr qs due ok ran(1,3) by (intro exI [of _ qs] exI [of _ sent]) auto
  qed
qed

definition outbox_world :: world where
  "outbox_world = empty_world\<lparr>w_db := \<lparr>db_submissions = [sub_row_of 1 stored_sub], db_emails = [],
     db_documents = [], db_outbox = sample_outbox\<rparr>\<rparr>"

lemma outbox_world_wf: "db_wf (w_db outbox_world)"
  by (simp add: db_wf_def outbox_world_def sub_ids_def ob.wf_def sample_outbox_def sample_entry_def
      stored_sub_def sample_sub_def newSubmission_def)

lemma outbox_world_run: "length (w_sent (snd (redeliverOutbox sample_env 5 outbox_world))) = 1"
  by code_simp

theorem sweep_respects_suppression_witness:
  "\<exists>r q. w_sent (snd (redeliverOutbox sample_env 5 outbox_world)) = [r] \<and> q \<in> set (db_outbox (w_db outbox_world)) \<and>
     ob_reply_json q = Some r \<and> outbox_due (v_now sample_env) (time_add (v_now sample_env) (- outboxRetryAfter)) q"
proof -
  let ?w' = "snd (redeliverOutbox sample_env 5 outbox_world)"
  have ids: "\<forall>q\<in>set (db_outbox (w_db outbox_world)). trim_space (ob_submission_id q) = ob_submission_id q \<and> ob_submission_id q \<noteq> ''''"
    by code_simp
  obtain qs sent where s: "w_sent ?w' = w_sent outbox_world @ sent" "list_all2 (\<lambda>q r. ob_reply_json q = Some r) qs sent"
    "\<forall>q\<in>set qs. q \<in> set (db_outbox (w_db outbox_world)) \<and> outbox_due (v_now sample_env) (time_add (v_now sample_env) (- outboxRetryAfter)) q"
    using sweep_respects_suppression [OF prod.collapse [symmetric] outbox_world_wf ids] by blast
  have "w_sent outbox_world = []" by (simp add: outbox_world_def empty_world_def)
  then have "length sent = 1" using s(1) outbox_world_run by simp
  then obtain r where "sent = [r]" by (cases sent) auto
  then show ?thesis using s \<open>w_sent outbox_world = []\<close> by (auto simp: list_all2_Cons2)
qed

section \<open>Settling a row\<close>

definition faultless :: "env \<Rightarrow> bool" where
  "faultless v \<longleftrightarrow> v_fault v = (\<lambda>_ _. None)"

lemma db_steps_wf: "db_step\<^sup>*\<^sup>* d d' \<Longrightarrow> db_wf d \<Longrightarrow> db_wf d'"
  by (rule db_inv.steps_good)

lemma getPending_row:
  assumes "ob.wf tbl" and "q \<in> set tbl" and "is_pending q" and "ob_reply_json q = Some r"
  shows "getPending (ob_id q) tbl = Inr (Some (outbox_entry_of q r))"
proof -
  have "find (\<lambda>x. ob_id x = ob_id q \<and> is_pending x) tbl = Some q"
  proof (cases "find (\<lambda>x. ob_id x = ob_id q \<and> is_pending x) tbl")
    case None
    then show ?thesis using assms(2,3) by (auto simp: find_None)
  next
    case (Some x)
    then show ?thesis using find_Some_mem [OF Some] wf_same_row [OF assms(1) _ assms(2)] by auto
  qed
  then show ?thesis using assms(4) by (simp add: getPending_def)
qed

lemma outbox_lookup_update:
  assumes "ob.wf tbl" and "q \<in> set tbl" and "p q" and "\<And>x. ob_id (f x) = ob_id x"
  shows "lookup_by ob_id (ob_id q) (update_where (\<lambda>x. ob_id x = ob_id q \<and> p x) f tbl) = Some (f q)"
proof -
  have "distinct (map ob_id tbl)" using assms(1) by (simp add: ob.wf_def)
  then have "lookup_by ob_id (ob_id q) tbl = Some q" by (intro lookup_by_distinct) (use assms(2) in auto)
  then show ?thesis using assms(3,4) by (simp add: lookup_by_update_where)
qed

lemma retry_update:
  assumes "ob.wf tbl" and "q \<in> set tbl" and "is_pending q"
  shows "outbox_update now (ob_id q) st n err tbl =
    Inr (update_where (\<lambda>x. ob_id x = ob_id q \<and> True) (\<lambda>x. x\<lparr>ob_status := st, ob_attempts := n, ob_last_error := err, ob_updated_at := unix_nano now\<rparr>) tbl)"
proof -
  have "\<not> list_ex (\<lambda>r. ob_id r = ob_id q \<and> list_ex (\<lambda>x. ob_id x \<noteq> ob_id q \<and> is_pending x \<and> ob_submission_id x = ob_submission_id r) tbl) tbl"
    using assms ob.wf_one_active [OF assms(1)] wf_same_row [OF assms(1) _ assms(2)] by (auto simp: list_ex_iff)
  then show ?thesis by (simp add: outbox_update_def)
qed

lemma redeliverOne_failed:
  assumes "faultless v" and "db_wf (w_db w)" and "q \<in> set (db_outbox (w_db w))" and "is_pending q" and "ob_reply_json q = Some r"
    and "o_ID listed = ob_id q" and "v_send v r = Inl err"
  defines "n \<equiv> ob_attempts q + 1" and "w' \<equiv> redeliverOne v listed w"
  shows "lookup_by ob_id (ob_id q) (db_outbox (w_db w')) =
           Some (q\<lparr>ob_status := (if n < outboxMaxAttempts then OutboxPending else OutboxFailed), ob_attempts := n,
                   ob_last_error := error_str err, ob_updated_at := unix_nano (v_now v)\<rparr>) \<and>
         w_sent w' = w_sent w \<and>
         db_submissions (w_db w') = (if n < outboxMaxAttempts then db_submissions (w_db w)
           else db_submissions (clearReplyHash (ob_submission_id q) (w_db w)))"
proof -
  have wf: "ob.wf (db_outbox (w_db w))" using assms(2) by (simp add: db_wf_def)
  have nf: "v_fault v x y = None" for x y using assms(1) by (simp add: faultless_def)
  have g: "getPending (o_ID listed) (db_outbox (w_db w)) = Inr (Some (outbox_entry_of q r))"
    unfolding assms(6) by (rule getPending_row [OF wf assms(3-5)])
  have e: "o_ID (outbox_entry_of q r) = ob_id q" "o_Reply (outbox_entry_of q r) = r" "o_Attempts (outbox_entry_of q r) = ob_attempts q"
    "o_SubmissionID (outbox_entry_of q r) = ob_submission_id q" by (simp_all add: outbox_entry_of_def)
  define tbl where "tbl st = update_where (\<lambda>x. ob_id x = ob_id q \<and> True)
      (\<lambda>x. x\<lparr>ob_status := st, ob_attempts := n, ob_last_error := error_str err, ob_updated_at := unix_nano (v_now v)\<rparr>) (db_outbox (w_db w))" for st
  have upd: "repo_outbox_update v (ob_id q) st n (error_str err) w = w\<lparr>w_db := (w_db w)\<lparr>db_outbox := tbl st\<rparr>\<rparr>" for st
    unfolding repo_outbox_update_def tbl_def
    by (rule repo_try_ok [OF nf]) (simp add: update_outbox_def retry_update [OF wf assms(3,4)])
  have lk: "lookup_by ob_id (ob_id q) (tbl st) = Some (q\<lparr>ob_status := st, ob_attempts := n, ob_last_error := error_str err, ob_updated_at := unix_nano (v_now v)\<rparr>)" for st
    unfolding tbl_def by (rule outbox_lookup_update [OF wf assms(3)]) simp_all
  show ?thesis
  proof (cases "n < outboxMaxAttempts")
    case True
    then have "w' = releaseDispatch (o_SubmissionID listed) (w\<lparr>w_db := (w_db w)\<lparr>db_outbox := tbl OutboxPending\<rparr>\<rparr>)"
      using g assms(7) nf e upd unfolding w'_def redeliverOne_def n_def by (simp add: deliver_def)
    then show ?thesis using True lk by simp
  next
    case False
    define w2 where "w2 = w\<lparr>w_db := clearReplyHash (ob_submission_id q) ((w_db w)\<lparr>db_outbox := tbl OutboxFailed\<rparr>)\<rparr>"
    have "w' = releaseDispatch (o_SubmissionID listed) (audit v (ob_submission_id q) EventReplyFailed
        [(''error'', AString (error_str err)), (''attempts'', AInt n), (''dead_lettered'', ABool True)] w2)"
      using g assms(7) nf e upd False unfolding w'_def redeliverOne_def n_def w2_def by (simp add: deliver_def Let_def repo_try_def)
    then show ?thesis using False lk by (simp add: w2_def) (simp add: clearReplyHash_def update_sub_def)
  qed
qed

lemma redeliverOne_sent:
  assumes "faultless v" and "db_wf (w_db w)" and "q \<in> set (db_outbox (w_db w))" and "is_pending q" and "ob_reply_json q = Some r"
    and "o_ID listed = ob_id q" and "v_send v r = Inr pid" and "in_int64 (ob_updated_at q)"
  defines "w' \<equiv> redeliverOne v listed w"
  shows "lookup_by ob_id (ob_id q) (db_outbox (w_db w')) = Some (q\<lparr>ob_status := OutboxSent, ob_updated_at := unix_nano (v_now v)\<rparr>) \<and>
         w_sent w' = w_sent w @ [r] \<and>
         db_submissions (w_db w') = db_submissions (setLastReplyAt (ob_submission_id q) (v_now v) (w_db w))"
proof -
  have wf: "ob.wf (db_outbox (w_db w))" using assms(2) by (simp add: db_wf_def)
  have nf: "v_fault v x y = None" for x y using assms(1) by (simp add: faultless_def)
  have g: "getPending (o_ID listed) (db_outbox (w_db w)) = Inr (Some (outbox_entry_of q r))"
    unfolding assms(6) by (rule getPending_row [OF wf assms(3-5)])
  have e: "o_ID (outbox_entry_of q r) = ob_id q" "o_Reply (outbox_entry_of q r) = r" "o_UpdatedAt (outbox_entry_of q r) = ob_updated_at q"
    "o_SubmissionID (outbox_entry_of q r) = ob_submission_id q" by (simp_all add: outbox_entry_of_def)
  obtain err w1 where d: "deliver v r (ob_submission_id q) w = (err, w1)" by (cases "deliver v r (ob_submission_id q) w")
  note f = deliver_frame [OF d]
  have ok: "err = None" using f(7) assms(7) by simp
  define tbl where "tbl = markSent (v_now v) (ob_id q) (ob_updated_at q) (db_outbox (w_db w1))"
  have mark: "repo_mark_sent v (ob_id q) (ob_updated_at q) w1 = w1\<lparr>w_db := (w_db w1)\<lparr>db_outbox := tbl\<rparr>\<rparr>"
    unfolding repo_mark_sent_def tbl_def by (rule repo_try_ok [OF nf]) (simp add: update_outbox_def)
  have w': "w' = releaseDispatch (o_SubmissionID listed) (w1\<lparr>w_db := (w_db w1)\<lparr>db_outbox := tbl\<rparr>\<rparr>)"
    using g nf e d ok mark unfolding w'_def redeliverOne_def by simp
  have v: "unix_nano (ob_updated_at q) = ob_updated_at q" using assms(8) by (simp add: unix_nano_def)
  have "lookup_by ob_id (ob_id q) tbl = Some (q\<lparr>ob_status := OutboxSent, ob_updated_at := unix_nano (v_now v)\<rparr>)"
    unfolding tbl_def markSent_def f(4) by (rule outbox_lookup_update [OF wf assms(3)]) (use assms(4) v in auto)
  moreover have "db_submissions (w_db w1) = db_submissions (setLastReplyAt (ob_submission_id q) (v_now v) (w_db w))"
  proof -
    let ?w0 = "repo_try v OpUpsertEmail (r_SubmissionID r) (upsertEmail (outboundEmail (v_sha v) r pid (v_now v))) (record_sent r w)"
    have "w_db w1 = setLastReplyAt (ob_submission_id q) (v_now v) (w_db ?w0)"
      using d assms(7) by (auto simp: deliver_def Let_def repo_try_def nf)
    moreover have "db_submissions (w_db ?w0) = db_submissions (w_db w)"
      using repo_try_db [of v OpUpsertEmail "r_SubmissionID r" "upsertEmail (outboundEmail (v_sha v) r pid (v_now v))" "record_sent r w"]
        upsertEmailRow_subs by (elim disjE) (auto simp: upsertEmail_def record_sent_def)
    ultimately show ?thesis by (simp add: setLastReplyAt_def update_sub_def)
  qed
  ultimately show ?thesis using w' f(5) ok by simp
qed

text \<open>
  A sweep settles the row it sends. When the sender accepts, exactly that reply goes out, the row is
  marked sent and the submission's last reply time becomes now, which starts the next coalescing window.
  When it refuses, nothing goes out and the failed attempt is counted on the row; the tenth failure
  dead-letters it and clears the stored fingerprint, so the same ask can be made again.
\<close>

theorem redelivery_settles_row:
  assumes "faultless v" and "db_wf (w_db w)" and "q \<in> set (db_outbox (w_db w))" and "is_pending q" and "ob_reply_json q = Some r"
    and "o_ID listed = ob_id q" and "in_int64 (ob_updated_at q)"
  defines "n \<equiv> ob_attempts q + 1" and "w' \<equiv> redeliverOne v listed w"
  shows "case v_send v r of
      Inr pid \<Rightarrow> w_sent w' = w_sent w @ [r] \<and>
        lookup_by ob_id (ob_id q) (db_outbox (w_db w')) = Some (q\<lparr>ob_status := OutboxSent, ob_updated_at := unix_nano (v_now v)\<rparr>) \<and>
        (\<forall>s\<in>set (db_submissions (w_db w')). q_id s = ob_submission_id q \<longrightarrow> q_last_reply_at s = nanoOrZero (v_now v))
    | Inl err \<Rightarrow> w_sent w' = w_sent w \<and>
        lookup_by ob_id (ob_id q) (db_outbox (w_db w')) =
          Some (q\<lparr>ob_status := (if n < 10 then OutboxPending else OutboxFailed), ob_attempts := n,
                  ob_last_error := error_str err, ob_updated_at := unix_nano (v_now v)\<rparr>) \<and>
        (10 \<le> n \<longrightarrow> (\<forall>s\<in>set (db_submissions (w_db w')). q_id s = ob_submission_id q \<longrightarrow> q_last_reply_hash s = ''''))"
proof (cases "v_send v r")
  case (Inl err)
  show ?thesis using redeliverOne_failed [OF assms(1-6) Inl] Inl
    by (auto simp: n_def w'_def outboxMaxAttempts_def clearReplyHash_def update_sub_def in_update_where)
next
  case (Inr pid)
  show ?thesis using redeliverOne_sent [OF assms(1-6) Inr assms(7)] Inr
    by (auto simp: w'_def setLastReplyAt_def update_sub_def in_update_where)
qed

definition sample_out_row :: outbox_row where
  "sample_out_row = outbox_row_of (outbox_defaults ''u'' 5 (sample_entry ''a'' ''s1'' ''one''))"

lemma sample_out_row_facts:
  "sample_out_row \<in> set (db_outbox (w_db outbox_world))" "is_pending sample_out_row"
  "ob_reply_json sample_out_row = Some (o_Reply (sample_entry ''a'' ''s1'' ''one''))" "ob_id sample_out_row = ''a''"
  "in_int64 (ob_updated_at sample_out_row)" "ob_submission_id sample_out_row = ''s1''" "ob_attempts sample_out_row = 0"
  by (simp_all add: sample_out_row_def outbox_world_def sample_outbox_def sample_entry_def outbox_row_of_def outbox_defaults_def)

lemma sample_env_faultless: "faultless sample_env" "faultless (sample_env\<lparr>v_send := f\<rparr>)"
  by (simp_all add: faultless_def sample_env_def)

theorem redelivery_settles_row_witness:
  "w_sent (redeliverOne sample_env (sample_entry ''a'' ''s1'' ''one'') outbox_world) = [o_Reply (sample_entry ''a'' ''s1'' ''one'')]"
  using redelivery_settles_row [OF sample_env_faultless(1) outbox_world_wf sample_out_row_facts(1-3),
      of "sample_entry ''a'' ''s1'' ''one''"] sample_out_row_facts(4,5)
  by (simp add: sample_env_def outbox_world_def empty_world_def sample_entry_def)

lemma redeliverOne_wf: "db_wf (w_db w) \<Longrightarrow> db_wf (w_db (redeliverOne v listed w))"
  using redeliverOne_step [OF refl, of v listed w] db_steps_wf by blast

text \<open>
  C13. A reply whose delivery keeps failing is dead-lettered: after as many failing attempts as are left to
  ten, under whatever clocks and errors, the row is failed with ten attempts, nothing has been sent, and
  the submission's reply fingerprint is cleared. Until then the row stays pending.
\<close>

theorem failing_reply_is_dead_lettered:
  assumes "db_wf (w_db w)" and "q \<in> set (db_outbox (w_db w))" and "is_pending q" and "ob_reply_json q = Some r" and "o_ID listed = ob_id q"
    and "\<forall>v\<in>set vs. faultless v \<and> (\<exists>err. v_send v r = Inl err)" and "ob_attempts q < 10" and "vs \<noteq> []"
    and "ob_attempts q + int (length vs) \<le> 10"
  defines "w' \<equiv> fold (\<lambda>v. redeliverOne v listed) vs w"
  shows "w_sent w' = w_sent w \<and>
    (\<exists>q'. lookup_by ob_id (ob_id q) (db_outbox (w_db w')) = Some q' \<and> ob_attempts q' = ob_attempts q + int (length vs) \<and>
       ob_reply_json q' = Some r \<and> ob_submission_id q' = ob_submission_id q \<and>
       (if ob_attempts q' < 10 then is_pending q'
        else ob_status q' = OutboxFailed \<and>
             (\<forall>s\<in>set (db_submissions (w_db w')). q_id s = ob_submission_id q \<longrightarrow> q_last_reply_hash s = '''')))"
  unfolding w'_def using assms(1-9)
proof (induction vs arbitrary: w q)
  case (Cons v vs)
  let ?w1 = "redeliverOne v listed w"
  obtain err where v: "faultless v" "v_send v r = Inl err" using Cons.prems(6) by auto
  define q1 where "q1 = q\<lparr>ob_status := (if ob_attempts q + 1 < 10 then OutboxPending else OutboxFailed), ob_attempts := ob_attempts q + 1,
      ob_last_error := error_str err, ob_updated_at := unix_nano (v_now v)\<rparr>"
  have step: "lookup_by ob_id (ob_id q) (db_outbox (w_db ?w1)) = Some q1" "w_sent ?w1 = w_sent w"
    "ob_attempts q + 1 = 10 \<longrightarrow> (\<forall>s\<in>set (db_submissions (w_db ?w1)). q_id s = ob_submission_id q \<longrightarrow> q_last_reply_hash s = '''')"
    using redeliverOne_failed [OF v(1) Cons.prems(1-5) v(2)]
    by (auto simp: q1_def outboxMaxAttempts_def clearReplyHash_def update_sub_def in_update_where)
  have q1: "q1 \<in> set (db_outbox (w_db ?w1))" "ob_id q1 = ob_id q" "ob_attempts q1 = ob_attempts q + 1" "ob_reply_json q1 = Some r"
    "ob_submission_id q1 = ob_submission_id q"
    using lookup_by_Some [OF step(1)] Cons.prems(4) by (simp_all add: q1_def)
  show ?case
  proof (cases "vs = []")
    case True
    then show ?thesis using step q1 Cons.prems(7) by (auto simp: q1_def)
  next
    case False
    then have "0 < int (length vs)" by simp
    then have lt: "ob_attempts q + 1 < 10" using Cons.prems(9) by (simp only: length_Cons of_nat_Suc)
    then have "is_pending q1" by (simp add: q1_def)
    then have ih: "w_sent (fold (\<lambda>v. redeliverOne v listed) vs ?w1) = w_sent ?w1 \<and>
      (\<exists>q'. lookup_by ob_id (ob_id q1) (db_outbox (w_db (fold (\<lambda>v. redeliverOne v listed) vs ?w1))) = Some q' \<and>
         ob_attempts q' = ob_attempts q1 + int (length vs) \<and> ob_reply_json q' = Some r \<and> ob_submission_id q' = ob_submission_id q1 \<and>
         (if ob_attempts q' < 10 then is_pending q'
          else ob_status q' = OutboxFailed \<and>
            (\<forall>s\<in>set (db_submissions (w_db (fold (\<lambda>v. redeliverOne v listed) vs ?w1))). q_id s = ob_submission_id q1 \<longrightarrow> q_last_reply_hash s = '''')))"
      using q1 Cons.prems(5,6,9) lt False redeliverOne_wf [OF Cons.prems(1)] by (intro Cons.IH) auto
    have len: "ob_attempts q1 + int (length vs) = ob_attempts q + int (length (v # vs))" using q1(3) by simp
    show ?thesis using ih unfolding step(2) q1(2,5) len fold_simps .
  qed
qed simp

theorem failing_reply_is_dead_lettered_witness:
  "\<exists>q'. lookup_by ob_id ''a'' (db_outbox (w_db (fold (\<lambda>v. redeliverOne v (sample_entry ''a'' ''s1'' ''one''))
      (replicate 10 (sample_env\<lparr>v_send := (\<lambda>r. Inl (ErrOther ''refused''))\<rparr>)) outbox_world))) = Some q' \<and> ob_status q' = OutboxFailed"
  using failing_reply_is_dead_lettered [OF outbox_world_wf sample_out_row_facts(1-3), of "sample_entry ''a'' ''s1'' ''one''"
      "replicate 10 (sample_env\<lparr>v_send := (\<lambda>r. Inl (ErrOther ''refused''))\<rparr>)"] sample_out_row_facts(4,7) sample_env_faultless(2)
  by (auto simp: sample_entry_def split: if_splits)

section \<open>Workers against the sweep\<close>

lemma dispatchOnline_outbox:
  assumes "faultless v" and "v_send v (j_Reply job) = Inr pid"
  shows "db_outbox (w_db (dispatchOnline v job w)) = markSent (v_now v) (j_OutboxID job) (j_Version job) (db_outbox (w_db w))"
proof -
  obtain e w1 where d: "deliver v (j_Reply job) (j_SubmissionID job) w = (e, w1)" by (cases "deliver v (j_Reply job) (j_SubmissionID job) w")
  have e: "e = None" using deliver_frame(7) [OF d] assms(2) by simp
  have nf: "v_fault v x y = None" for x y using assms(1) by (simp add: faultless_def)
  have "repo_mark_sent v (j_OutboxID job) (j_Version job) w1 =
      w1\<lparr>w_db := (w_db w1)\<lparr>db_outbox := markSent (v_now v) (j_OutboxID job) (j_Version job) (db_outbox (w_db w1))\<rparr>\<rparr>"
    unfolding repo_mark_sent_def by (rule repo_try_ok [OF nf]) (simp add: update_outbox_def)
  then show ?thesis using d e deliver_frame(4) [OF d] by (simp add: dispatchOnline_def)
qed

lemma redeliverOne_settled:
  assumes "\<forall>x\<in>set (db_outbox (w_db w)). \<not> (ob_id x = o_ID listed \<and> is_pending x)"
  shows "redeliverOne v listed w = releaseDispatch (o_SubmissionID listed) w"
proof -
  have "getPending (o_ID listed) (db_outbox (w_db w)) = Inr None"
    using assms by (auto simp: getPending_def find_None split: option.splits dest!: find_Some_mem)
  then show ?thesis by (simp add: redeliverOne_def split: option.split)
qed

text \<open>
  C8. A worker and a sweep that both hold the same row, the sweep a stale listing of it, send every text
  once. When the row is still at the version the worker was given, the worker's send settles it and the
  sweep sends nothing more. When a follow-up superseded the text meanwhile, the worker's send leaves the
  row pending, and the sweep sends the new text, not the one it had listed.
\<close>

theorem worker_and_sweep_send_once:
  assumes "faultless v" "faultless v'" and "db_wf (w_db w)" and "q \<in> set (db_outbox (w_db w))" and "is_pending q"
    and "ob_id q = j_OutboxID job" and "o_ID listed = ob_id q" and "ob_reply_json q = Some r" and "in_int64 (ob_updated_at q)"
    and "v_send v (j_Reply job) = Inr pid" "v_send v' r = Inr pid'"
  shows "w_sent (redeliverOne v' listed (dispatchOnline v job w)) =
           w_sent w @ [j_Reply job] @ (if ob_updated_at q = unix_nano (j_Version job) then [] else [r])"
proof -
  let ?w1 = "dispatchOnline v job w"
  have wf: "ob.wf (db_outbox (w_db w))" using assms(3) by (simp add: db_wf_def)
  have wf1: "db_wf (w_db ?w1)" using db_steps_wf [OF dispatchOnline_frame(5) assms(3)] .
  have out: "db_outbox (w_db ?w1) = markSent (v_now v) (ob_id q) (j_Version job) (db_outbox (w_db w))"
    using dispatchOnline_outbox [OF assms(1,10), of w] assms(6) by simp
  have sent: "w_sent ?w1 = w_sent w @ [j_Reply job]" using assms(10) by (simp add: dispatchOnline_frame)
  show ?thesis
  proof (cases "ob_updated_at q = unix_nano (j_Version job)")
    case True
    have "\<not> (ob_id x = ob_id q \<and> is_pending x)" if x: "x \<in> set (db_outbox (w_db ?w1))" for x
    proof
      assume px: "ob_id x = ob_id q \<and> is_pending x"
      let ?p = "\<lambda>r. ob_id r = ob_id q \<and> is_pending r \<and> ob_updated_at r = unix_nano (j_Version job)"
      obtain y where y: "y \<in> set (db_outbox (w_db w))" "x = (if ?p y then y\<lparr>ob_status := OutboxSent, ob_updated_at := unix_nano (v_now v)\<rparr> else y)"
        using x unfolding out markSent_def update_where_def by auto
      have "\<not> ?p y" using y(2) px by auto
      moreover have "y = q" by (rule wf_same_row [OF wf y(1) assms(4)]) (use y(2) px in \<open>auto split: if_splits\<close>)
      ultimately show False using True assms(5) by simp
    qed
    then have "\<forall>x\<in>set (db_outbox (w_db ?w1)). \<not> (ob_id x = o_ID listed \<and> is_pending x)" using assms(7) by simp
    then show ?thesis using redeliverOne_settled [of ?w1 listed v'] sent True by simp
  next
    case False
    have "q \<in> set (db_outbox (w_db ?w1))" unfolding out markSent_def using False assms(4) by (auto simp: in_update_where)
    then show ?thesis using redeliverOne_sent [OF assms(2) wf1 _ assms(5,8,7,11,9)] sent False by simp
  qed
qed

theorem worker_and_sweep_send_once_witness:
  "w_sent (redeliverOne sample_env (sample_entry ''a'' ''s1'' ''one'') (dispatchOnline sample_env
     \<lparr>j_Reply = o_Reply (sample_entry ''a'' ''s1'' ''one''), j_SubmissionID = ''s1'', j_OutboxID = ''a'', j_Version = 5\<rparr> outbox_world)) =
   [o_Reply (sample_entry ''a'' ''s1'' ''one'')]"
proof -
  let ?job = "\<lparr>j_Reply = o_Reply (sample_entry ''a'' ''s1'' ''one''), j_SubmissionID = ''s1'', j_OutboxID = ''a'', j_Version = 5\<rparr>"
  have up: "ob_updated_at sample_out_row = unix_nano 5"
    by (simp add: sample_out_row_def outbox_row_of_def outbox_defaults_def)
  have send: "v_send sample_env x = Inr ''<sent@x>''" for x by (simp add: sample_env_def)
  have start: "w_sent outbox_world = []" by (simp add: outbox_world_def empty_world_def)
  show ?thesis
    using worker_and_sweep_send_once [OF sample_env_faultless(1) sample_env_faultless(1) outbox_world_wf sample_out_row_facts(1,2),
        of ?job "sample_entry ''a'' ''s1'' ''one''"] sample_out_row_facts(3-5) up send start
    by (simp add: sample_entry_def)
qed

section \<open>Claims and the database across handlers\<close>

text \<open>Exactly the submissions of the queued jobs, and those a delivery in flight holds, are claimed, each once.\<close>

definition claims_ok :: "string list \<Rightarrow> world \<Rightarrow> bool" where
  "claims_ok held w \<longleftrightarrow> distinct (w_dispatching w) \<and> mset (w_dispatching w) = mset (map j_SubmissionID (w_jobs w)) + mset held"

lemma claims_same_core: "same_core w w' \<Longrightarrow> claims_ok held w' = claims_ok held w"
  by (simp add: claims_ok_def same_core_def)

lemma persistWithReply_db_step:
  assumes "persistWithReply v sub reply res w = (Inr res', w')"
  shows "db_step (w_db w) (w_db w')"
proof -
  define w1 where "w1 = w\<lparr>w_supply := Suc (w_supply w)\<rparr>"
  obtain claimed w2 where cl: "claimDispatch (s_ID sub) w1 = (claimed, w2)" by (cases "claimDispatch (s_ID sub) w1")
  have db2: "w_db w2 = w_db w" using cl by (auto simp: claimDispatch_def w1_def split: if_splits)
  obtain entry e w3 where up: "repo_upsert_with_reply v sub entry w2 = Inr (e, w3)" and db: "w_db w' = w_db w3"
    using assms cl
    by (auto simp: persistWithReply_def Let_def newUUID_def w1_def enqueueReply_def releaseDispatch_def split: sum.splits if_splits)
  from up obtain d where "upsertSubmissionWithReply '''' (v_now v) sub (Some entry) (w_db w2) = Inr (e, d)" "w_db w3 = d"
    by (auto simp: repo_upsert_with_reply_def split: option.splits sum.splits)
  then show ?thesis using db db2 db_step.upsert_with_reply by metis
qed

lemma persistWithReply_effect:
  assumes "persistWithReply v sub reply res w = (Inr res', w')"
  shows "db_steps w w' \<and> (claims_ok held w \<longrightarrow> claims_ok held w') \<and> w_sent w' = w_sent w \<and> w_closed w' = w_closed w \<and> rs_ReplyQueued res'"
proof -
  have "(claims_ok held w \<longrightarrow> claims_ok held w') \<and> w_sent w' = w_sent w \<and> w_closed w' = w_closed w \<and> rs_ReplyQueued res'"
    using assms by (rule persistWithReply_Inr) (auto simp: claims_ok_def)
  then show ?thesis using persistWithReply_db_step [OF assms] by blast
qed

definition untouched :: "world \<Rightarrow> world \<Rightarrow> bool" where
  "untouched w w' \<longleftrightarrow> w_sent w' = w_sent w \<and> w_closed w' = w_closed w \<and> db_outbox (w_db w') = db_outbox (w_db w) \<and>
     w_jobs w' = w_jobs w \<and> w_dispatching w' = w_dispatching w"

lemma untouched_claims: "untouched w w' \<Longrightarrow> claims_ok held w' = claims_ok held w"
  by (simp add: untouched_def claims_ok_def)

lemma same_core_untouched: "same_core w w' \<Longrightarrow> untouched w w' \<and> db_steps w w'"
  by (simp add: same_core_def untouched_def)

lemma untouched_trans: "untouched a b \<Longrightarrow> untouched b c \<Longrightarrow> untouched a c"
  by (simp add: untouched_def)

lemma repo_upsert_effect:
  assumes "repo_upsert v sub w = Inr w'"
  shows "untouched w w' \<and> db_steps w w'"
proof -
  obtain d where d: "upsert_aggregate (v_now v) sub (w_db w) = Inr d" "w' = w\<lparr>w_db := d\<rparr>" using repo_upsert_Inr [OF assms] by blast
  have "upsertSubmission (v_now v) sub (w_db w) = Inr d"
    using assms d by (auto simp: repo_upsert_def upsertSubmission_def split: option.splits if_splits)
  then have "db_step (w_db w) d" by (rule db_step.upsert)
  then show ?thesis using d upsert_aggregate_outbox [OF d(1)] by (auto simp: untouched_def)
qed

lemma ingest_effect:
  assumes "ingestEmail v req w = (r, w')"
  shows "db_steps w w' \<and> (claims_ok held w \<longrightarrow> claims_ok held w') \<and> w_sent w' = w_sent w \<and> w_closed w' = w_closed w \<and>
    ((case r of Inl _ \<Rightarrow> True | Inr res \<Rightarrow> \<not> rs_ReplyQueued res) \<longrightarrow> untouched w w')"
proof -
  let ?w0 = "w\<lparr>w_collector := Some []\<rparr>"
  obtain w1 where o: "outcome v (stamped v req) (message_id v req) ?w0 r w1"
    and c: "same_core w1 w'" by (rule ingestEmail_outcome [OF assms(1)])
  have quietly: ?thesis if u: "untouched w w1" "db_steps w w1"
  proof -
    have "untouched w w'" by (rule untouched_trans [OF u(1)]) (simp add: same_core_untouched [OF c])
    then show ?thesis using u(2) c untouched_claims [of w w' held] by (simp add: untouched_def same_core_def)
  qed
  from o show ?thesis
  proof cases
    case (failed)
    then show ?thesis using quietly same_core_untouched by simp
  next
    case (duplicate)
    then show ?thesis using quietly same_core_untouched by simp
  next
    case (bounced sub wa)
    then have "same_core w wa" by simp
    then show ?thesis using quietly repo_upsert_effect [OF bounced(5)] same_core_untouched untouched_trans
      by (metis rtranclp_trans)
  next
    case (silent sub wa wb)
    then have "same_core w wa" by simp
    then show ?thesis
      using quietly repo_upsert_effect [OF silent(6)] same_core_untouched untouched_trans same_core_untouched [OF silent(7)]
      by (metis rtranclp_trans)
  next
    case (replied sub wa inbound unknown reply fp res)
    have core: "same_core w wa" using replied by simp
    note p = persistWithReply_effect [OF replied(12)]
    show ?thesis using p core c replied(1) claims_same_core [OF core, of held] claims_same_core [OF c, of held] by (auto simp: same_core_def)
  qed
qed

text \<open>A delivery gives back exactly the claim it holds.\<close>

lemma claims_release:
  assumes "claims_ok (i # held) w" and "w_jobs w' = w_jobs w" and "w_dispatching w' = filter (\<lambda>x. x \<noteq> i) (w_dispatching w)"
  shows "claims_ok held w'"
proof -
  let ?rest = "map j_SubmissionID (w_jobs w) @ held"
  have m: "mset (w_dispatching w) = mset (i # ?rest)" and d: "distinct (w_dispatching w)"
    using assms(1) by (simp_all add: claims_ok_def)
  have "i \<notin> set ?rest" using d mset_eq_imp_distinct_iff [OF m] by simp
  then have "filter (\<lambda>x. x \<noteq> i) ?rest = ?rest" by (intro filter_True) auto
  then have "filter (\<lambda>x. x \<noteq> i) (i # ?rest) = ?rest" by simp
  then have "mset (w_dispatching w') = mset ?rest" unfolding assms(3) by (metis m mset_filter)
  then show ?thesis using d assms(2,3) by (simp add: claims_ok_def)
qed

end
