(* ===== verification/Sweep_Service.thy ===== *)
theory Sweep_Service
  imports Delivery_Service Digest_Model
begin

text \<open>
  The periodic work of \<open>internal/service\<close>: escalation and closure sweeps, the reconciliation with the
  Hold folder and the digest of \<open>submissions.go\<close>, and the retention sweep of \<open>retention.go\<close>, with the
  loops of the workers that run them as the list of their ticks.

  The lemmas show exactly which submissions a sweep changes and how, that the hold flag mirrors the
  folder, that the digest counts every open submission, and what retention keeps.
\<close>

section \<open>Escalation\<close>

definition sweepBatch :: int where "sweepBatch = 100"
definition defaultDigestMaxRows :: int where "defaultDigestMaxRows = 500"

definition hours :: "int \<Rightarrow> duration" where "hours h = int64 (h * dur_hour)"

definition min_threshold :: "env \<Rightarrow> duration" where
  "min_threshold v =
     fold (\<lambda>c m. let t = hours (ep_ThresholdHours (c_Escalation c)) in if 0 < t \<and> t < m then t else m)
       (store_all (v_store v)) (cfg_EscalationThreshold (v_cfg v))"

definition escalation_threshold :: "env \<Rightarrow> submission \<Rightarrow> duration" where
  "escalation_threshold v sub = (case store_get (v_store v) (s_PolicyType sub) of
       Some cl \<Rightarrow> if 0 < ep_ThresholdHours (c_Escalation cl) then hours (ep_ThresholdHours (c_Escalation cl))
                  else cfg_EscalationThreshold (v_cfg v)
     | None \<Rightarrow> cfg_EscalationThreshold (v_cfg v))"

definition escalate :: "env \<Rightarrow> submission \<Rightarrow> string \<Rightarrow> world \<Rightarrow> bool \<times> world" where
  "escalate v sub reason w =
     (if brokerActionable (s_MissingItems sub) = [] then (False, w)
      else case transitionTo sub StateEscalated (v_now v) of
        Inl _ \<Rightarrow> (False, w)
      | Inr sub1 \<Rightarrow>
          (let sub2 = sub1\<lparr>s_LastEscalatedAt := Some (v_now v)\<rparr> in
           case repo_upsert v sub2 w of
             Inl _ \<Rightarrow> (False, w)
           | Inr w1 \<Rightarrow> (True, audit v (s_ID sub2) EventEscalated
                 [(''reason'', AString reason), (''last_action_at'', ATime (s_LastActionAt sub2))] w1)))"

fun escalate_stale :: "env \<Rightarrow> submission list \<Rightarrow> string list \<Rightarrow> world \<Rightarrow> string list \<times> world" where
  "escalate_stale v [] seen w = (seen, w)"
| "escalate_stale v (sub # subs) seen w =
     (if time_sub (v_now v) (s_LastActionAt sub) < escalation_threshold v sub then escalate_stale v subs seen w
      else case escalate v sub ''quiet_threshold'' w of
        (True, w1) \<Rightarrow> escalate_stale v subs (s_ID sub # seen) w1
      | (False, w1) \<Rightarrow> escalate_stale v subs seen w1)"

fun escalate_soon :: "env \<Rightarrow> string list \<Rightarrow> submission list \<Rightarrow> world \<Rightarrow> world" where
  "escalate_soon v seen [] w = w"
| "escalate_soon v seen (sub # subs) w =
     (if s_ID sub \<in> set seen then escalate_soon v seen subs w
      else if (case s_LastEscalatedAt sub of None \<Rightarrow> False | Some t \<Rightarrow> time_sub (v_now v) t < cfg_MinGap (v_cfg v))
      then escalate_soon v seen subs w
      else escalate_soon v seen subs (snd (escalate v sub ''bind_window'' w)))"

definition checkEscalations :: "env \<Rightarrow> world \<Rightarrow> error option \<times> world" where
  "checkEscalations v w =
     (case v_fault v OpListStale '''' of
        Some e \<Rightarrow> (Some e, w)
      | None \<Rightarrow>
          (let stale = listStale (unix_nano (time_add (v_now v) (- min_threshold v))) 100 (w_db w);
               (seen, w1) = escalate_stale v stale [] w;
               bindWindow = cfg_BindWindow (v_cfg v)
           in if bindWindow \<le> 0 then (None, w1)
              else case v_fault v OpListBindSoon '''' of
                Some e \<Rightarrow> (Some e, w1)
              | None \<Rightarrow>
                  (let graceFloor = utc_midnight (time_add (v_now v) (- cfg_BindGrace (v_cfg v)));
                       soon = listBindSoon (unix_nano graceFloor) (unix_nano (time_add (v_now v) bindWindow)) sweepBatch (w_db w1)
                   in (None, escalate_soon v seen soon w1))))"

section \<open>Closure\<close>

definition closeQuiet :: "env \<Rightarrow> string \<Rightarrow> submission \<Rightarrow> world \<Rightarrow> world" where
  "closeQuiet v reason sub w =
     (case transitionTo sub StateClosed (v_now v) of
        Inl _ \<Rightarrow> w
      | Inr sub1 \<Rightarrow> (case repo_upsert v sub1 w of
            Inl _ \<Rightarrow> w
          | Inr w1 \<Rightarrow> audit v (s_ID sub1) EventClosed
                [(''reason'', AString reason), (''auto_close_at'', ATime (v_now v))] w1))"

definition closeSettled :: "env \<Rightarrow> gotime \<Rightarrow> world \<Rightarrow> error option \<times> world" where
  "closeSettled v cutoff w =
     (case v_fault v OpListCompleted '''' of
        Some e \<Rightarrow> (Some e, w)
      | None \<Rightarrow>
          (let w1 = fold (closeQuiet v ''auto_close_after_complete'') (listCompletedBefore (unix_nano cutoff) sweepBatch (w_db w)) w
           in case v_fault v OpListEscalated '''' of
                Some e \<Rightarrow> (Some e, w1)
              | None \<Rightarrow>
                  (None, fold (closeQuiet v ''auto_close_after_escalation'')
                     (filter (\<lambda>s. \<not> cutoff < s_LastActionAt s) (listEscalatedSince 0 500 (w_db w1))) w1)))"

definition checkClosures :: "env \<Rightarrow> world \<Rightarrow> error option \<times> world" where
  "checkClosures v w =
     (let autoClose = cfg_AutoCloseAfter (v_cfg v);
          (err, w1) = (if 0 < autoClose then closeSettled v (time_add (v_now v) (- autoClose)) w else (None, w));
          stalledAfter = cfg_AwaitingAutoCloseAfter (v_cfg v)
      in if err \<noteq> None then (err, w1)
         else if stalledAfter \<le> 0 then (None, w1)
         else case v_fault v OpListStalled '''' of
           Some e \<Rightarrow> (Some e, w1)
         | None \<Rightarrow> (None, fold (closeQuiet v ''auto_close_stalled'')
              (listStalledBefore (unix_nano (time_add (v_now v) (- stalledAfter))) sweepBatch (w_db w1)) w1))"

section \<open>The Hold folder\<close>

definition repo_set_on_hold :: "env \<Rightarrow> string list \<Rightarrow> bool \<Rightarrow> world \<Rightarrow> error + world" where
  "repo_set_on_hold v ids b w = (case v_fault v OpSetOnHold (if b then ''hold'' else ''release'') of
       Some e \<Rightarrow> Inl e | None \<Rightarrow> Inr (w\<lparr>w_db := setOnHold ids b (w_db w)\<rparr>))"

definition audit_each :: "env \<Rightarrow> event_type \<Rightarrow> string list \<Rightarrow> world \<Rightarrow> world" where
  "audit_each v ev ids w = fold (\<lambda>i. audit v i ev []) ids w"

definition reconcileHold :: "env \<Rightarrow> string list \<Rightarrow> world \<Rightarrow> error option \<times> world" where
  "reconcileHold v messageIDs w =
     (case v_fault v OpIDsByMessageIDs '''' of
        Some e \<Rightarrow> (Some e, w)
      | None \<Rightarrow> (case v_fault v OpListHeld '''' of
          Some e \<Rightarrow> (Some e, w)
        | None \<Rightarrow>
            (let inFolder = submissionIDsByMessageIDs messageIDs (w_db w);
                 held = listHeldIDs (w_db w);
                 toHold = filter (\<lambda>i. i \<notin> set held) inFolder;
                 toRelease = filter (\<lambda>i. i \<notin> set inFolder) held
             in case repo_set_on_hold v toHold True w of
                  Inl e \<Rightarrow> (Some e, w)
                | Inr w1 \<Rightarrow> (case repo_set_on_hold v toRelease False w1 of
                    Inl e \<Rightarrow> (Some e, w1)
                  | Inr w2 \<Rightarrow>
                      (let w3 = repo_try v OpExpireForSubmissions ''''
                                  (update_outbox (\<lambda>tbl. Inr (snd (expirePendingForSubmissions (v_now v) toRelease ''stale: queued before hold'' tbl)))) w2
                       in (None, audit_each v EventReleased toRelease (audit_each v EventHeld toHold w3)))))))"

section \<open>The digest\<close>

definition replyWithheld :: "env \<Rightarrow> submission list \<Rightarrow> world \<Rightarrow> string \<Rightarrow> bool" where
  "replyWithheld v subs w sid = (case v_fault v OpIDsByEvent '''' of
       Some _ \<Rightarrow> False
     | None \<Rightarrow>
         (let disabled = listSubmissionIDsByEvent EventReplyDisabled 0 (w_audit w)
          in list_ex (\<lambda>s. s_ID s = sid \<and> s_ID s \<in> set disabled \<and> is_zero_time (s_LastReplyAt s)) subs))"

definition firstDigestRecipient :: "env \<Rightarrow> string" where
  "firstDigestRecipient v =
     (case find (\<lambda>c. ep_DigestRecipient (c_Escalation c) \<noteq> '''') (store_all (v_store v)) of
        Some c \<Rightarrow> ep_DigestRecipient (c_Escalation c)
      | None \<Rightarrow> cfg_DigestRecipient (v_cfg v))"

text \<open>The description of an item id: the last item with that id wins, an absent id has the empty one.\<close>

definition item_description :: "checklist \<Rightarrow> string \<Rightarrow> string" where
  "item_description cl i = (case find (\<lambda>it. i_ID it = i) (rev (c_Required cl)) of
       None \<Rightarrow> '''' | Some it \<Rightarrow> i_Description it)"

definition filename_only_names :: "env \<Rightarrow> submission \<Rightarrow> string list \<Rightarrow> string list" where
  "filename_only_names v sub itemIDs = (case store_get (v_store v) (s_PolicyType sub) of
       None \<Rightarrow> []
     | Some cl \<Rightarrow> filter (\<lambda>d. d \<noteq> '''')
         (map (item_description cl) (filter (\<lambda>i. i \<notin> m_ID ` set (s_MissingItems sub)) itemIDs)))"

text \<open>The names of a submission; the map keeps the last row of an id that has any.\<close>

definition resolveFilenameOnly :: "env \<Rightarrow> submission list \<Rightarrow> (string \<Rightarrow> string list option) \<Rightarrow> string \<Rightarrow> string list" where
  "resolveFilenameOnly v subs byID sid =
     (let names = (\<lambda>s. case byID (s_ID s) of None \<Rightarrow> [] | Some ids \<Rightarrow> filename_only_names v s ids)
      in case find (\<lambda>s. s_ID s = sid \<and> names s \<noteq> []) (rev subs) of None \<Rightarrow> [] | Some s \<Rightarrow> names s)"

definition digest_max_rows :: "env \<Rightarrow> int" where
  "digest_max_rows v = (if cfg_DigestMaxRows (v_cfg v) \<le> 0 then defaultDigestMaxRows else cfg_DigestMaxRows (v_cfg v))"

definition digest_omitted :: "env \<Rightarrow> submission list \<Rightarrow> world \<Rightarrow> int" where
  "digest_omitted v subs w =
     (if int (length subs) = digest_max_rows v \<and> v_fault v OpCountOpen '''' = None \<and> digest_max_rows v < countOpen (w_db w)
      then countOpen (w_db w) - digest_max_rows v else 0)"

definition sendDigest :: "env \<Rightarrow> world \<Rightarrow> error option \<times> world" where
  "sendDigest v w =
     (if cfg_DigestInterval (v_cfg v) \<le> 0 then (None, w)
      else let recipient = firstDigestRecipient v in
        if recipient = '''' then (None, w)
        else case v_fault v OpListOpen '''' of
          Some e \<Rightarrow> (Some e, w)
        | None \<Rightarrow>
            (let subs = listOpen (digest_max_rows v) (w_db w) in
             if subs = [] then (None, w)
             else let omitted = digest_omitted v subs w in
               case v_fault v OpFilenameOnly '''' of
                 Some e \<Rightarrow> (Some e, w)
               | None \<Rightarrow>
                   (let reply = \<lparr>r_SubmissionID = '''', r_ToAddress = recipient,
                          r_Subject = ''[submission-triage] Daily digest ('' @ int_str (int (length subs) + omitted) @ '' open)'',
                          r_BodyText = buildDigest subs (resolveFilenameOnly v subs (filenameOnlyItems (map s_ID subs) (w_db w)))
                            (replyWithheld v subs w) omitted (v_now v),
                          r_InReplyTo = '''', r_References = []\<rparr>
                    in case v_send v reply of
                         Inl e \<Rightarrow> (Some e, w)
                       | Inr _ \<Rightarrow> (None, audit v '''' EventDigestSent
                            [(''recipient'', AString recipient), (''open'', AInt (int (length subs))), (''omitted'', AInt omitted)]
                            (record_sent reply w)))))"

section \<open>Retention\<close>

record retention =
  rt_OutboxPendingTTL :: duration
  rt_AuditRetention :: duration

text \<open>The three deletions past the audit horizon, and the whole sweep with its count of touched rows.\<close>

definition prune_settled :: "env \<Rightarrow> int \<Rightarrow> int \<Rightarrow> world \<Rightarrow> (error + int) \<times> world" where
  "prune_settled v cutoff touched w =
     (case v_fault v OpAuditPrune '''' of
        Some e \<Rightarrow> (Inl e, w)
      | None \<Rightarrow>
          (let (audits, entries) = audit_prune cutoff (w_audit w); w1 = w\<lparr>w_audit := entries\<rparr> in
           case v_fault v OpOutboxPrune '''' of
             Some e \<Rightarrow> (Inl e, w1)
           | None \<Rightarrow>
               (let (settled, tbl) = outbox_prune cutoff (db_outbox (w_db w1)); w2 = w1\<lparr>w_db := (w_db w1)\<lparr>db_outbox := tbl\<rparr>\<rparr> in
                case v_fault v OpClearText '''' of
                  Some e \<Rightarrow> (Inl e, w2)
                | None \<Rightarrow>
                    (let (docs, d) = clearExtractedTextForClosed cutoff (w_db w2)
                     in (Inr (touched + audits + settled + docs), w2\<lparr>w_db := d\<rparr>)))))"

definition pruneRetention :: "env \<Rightarrow> retention \<Rightarrow> world \<Rightarrow> (error + int) \<times> world" where
  "pruneRetention v rt w =
     (let ttl = rt_OutboxPendingTTL rt;
          expired = (if 0 < ttl
                     then case v_fault v OpExpirePending '''' of
                       Some e \<Rightarrow> Inl e
                     | None \<Rightarrow> (let (n, tbl) = expirePending (v_now v) (unix_nano (time_add (v_now v) (- ttl))) (db_outbox (w_db w))
                                in Inr (n, w\<lparr>w_db := (w_db w)\<lparr>db_outbox := tbl\<rparr>\<rparr>))
                     else Inr (0, w))
      in case expired of
           Inl e \<Rightarrow> (Inl e, w)
         | Inr (n, w1) \<Rightarrow>
             if rt_AuditRetention rt \<le> 0 then (Inr n, w1)
             else prune_settled v (unix_nano (time_add (v_now v) (- rt_AuditRetention rt))) n w1)"

section \<open>Workers\<close>

text \<open>One tick of the escalation worker, with errors only logged; the worker is the list of its ticks.\<close>

definition periodic_checks :: "env \<Rightarrow> world \<Rightarrow> world" where
  "periodic_checks v w = snd (checkClosures v (snd (checkEscalations v w)))"

datatype tick = PeriodicTick env | DigestTick env

definition escalation_tick :: "tick \<Rightarrow> world \<Rightarrow> world" where
  "escalation_tick t w = (case t of PeriodicTick v \<Rightarrow> periodic_checks v w | DigestTick v \<Rightarrow> snd (sendDigest v w))"

definition escalationWorker :: "tick list \<Rightarrow> world \<Rightarrow> world" where
  "escalationWorker ts w = fold escalation_tick ts w"

text \<open>The outbox worker sweeps once at startup and then at every tick.\<close>

definition outboxWorker :: "env \<times> nat \<Rightarrow> (env \<times> nat) list \<Rightarrow> world \<Rightarrow> world" where
  "outboxWorker start ticks w = fold (\<lambda>(v, live) w. snd (redeliverOutbox v live w)) (start # ticks) w"

text \<open>The retention worker only runs at its ticks, and vacuums after a sweep that touched something.\<close>

definition retention_tick :: "retention \<Rightarrow> env \<Rightarrow> bool \<times> world \<Rightarrow> bool \<times> world" where
  "retention_tick rt v s = (case pruneRetention v rt (snd s) of
       (Inl _, w') \<Rightarrow> (fst s, w')
     | (Inr touched, w') \<Rightarrow> (fst s \<or> touched \<noteq> 0, w'))"

definition retentionWorker :: "duration \<Rightarrow> retention \<Rightarrow> env list \<Rightarrow> bool \<times> world \<Rightarrow> bool \<times> world" where
  "retentionWorker interval rt ticks s = (if interval \<le> 0 then s else fold (retention_tick rt) ticks s)"

section \<open>What a sweep changes\<close>

abbreviation row_of :: "string \<Rightarrow> world \<Rightarrow> sub_row option" where
  "row_of i w \<equiv> lookup_by q_id i (db_submissions (w_db w))"

text \<open>Only submissions of a set are rewritten, each into a row related to it; mail, queue and claims are untouched.\<close>

definition sweeps :: "(submission \<Rightarrow> sub_row \<Rightarrow> bool) \<Rightarrow> submission set \<Rightarrow> world \<Rightarrow> world \<Rightarrow> bool" where
  "sweeps Q S w w' \<longleftrightarrow> untouched w w' \<and> db_steps w w' \<and>
     (\<forall>i. row_of i w' = row_of i w \<or> (\<exists>s\<in>S. s_ID s = i \<and> (\<exists>r'. row_of i w' = Some r' \<and> Q s r')))"

lemma untouched_refl [simp, intro]: "untouched w w"
  by (simp add: untouched_def)

lemma sweeps_refl [simp, intro]: "sweeps Q S w w"
  by (simp add: sweeps_def)

lemma sweeps_mono: "sweeps Q S w w' \<Longrightarrow> S \<subseteq> T \<Longrightarrow> sweeps Q T w w'"
  unfolding sweeps_def by (meson subsetD)

lemma sweeps_trans:
  assumes "sweeps Q S w w1" and "sweeps Q S w1 w2"
  shows "sweeps Q S w w2"
proof -
  have "untouched w w2" by (rule untouched_trans) (use assms in \<open>auto simp: sweeps_def\<close>)
  moreover have "db_steps w w2" by (rule rtranclp_trans) (use assms in \<open>auto simp: sweeps_def\<close>)
  moreover have "row_of i w2 = row_of i w \<or> (\<exists>s\<in>S. s_ID s = i \<and> (\<exists>r'. row_of i w2 = Some r' \<and> Q s r'))" for i
  proof (cases "row_of i w2 = row_of i w1")
    case True
    then show ?thesis using assms(1) by (simp add: sweeps_def)
  next
    case False
    then show ?thesis using assms(2) unfolding sweeps_def by blast
  qed
  ultimately show ?thesis by (simp add: sweeps_def)
qed

lemma same_core_sweeps: "same_core w w' \<Longrightarrow> sweeps Q S w w'"
  using same_core_untouched by (simp add: sweeps_def same_core_def)

lemma repo_upsert_row:
  assumes "repo_upsert v sub w = Inr w'"
  shows "row_of i w' = (if i = s_ID sub then Some (case row_of i w of None \<Rightarrow> sub_row_of (v_now v) sub
              | Some r \<Rightarrow> merge_sub_row r (sub_row_of (v_now v) sub)) else row_of i w)"
  using repo_upsert_Inr [OF assms] upsert_aggregate_lookup by fastforce

lemma repo_upsert_sweeps:
  assumes "repo_upsert v sub w = Inr w'" and "s_ID s = s_ID sub"
    and "\<And>r. Q s (merge_sub_row r (sub_row_of (v_now v) sub))" and "Q s (sub_row_of (v_now v) sub)"
  shows "sweeps Q {s} w w'"
proof -
  have "row_of i w' = row_of i w \<or> (s_ID s = i \<and> (\<exists>r'. row_of i w' = Some r' \<and> Q s r'))" for i
    using repo_upsert_row [OF assms(1), of i] assms(2-4) by (cases "i = s_ID sub"; cases "row_of i w") auto
  then show ?thesis using repo_upsert_effect [OF assms(1)] by (auto simp: sweeps_def)
qed

lemma fold_sweeps:
  assumes "\<And>s w. s \<in> set subs \<Longrightarrow> sweeps Q {s} w (f s w)"
  shows "sweeps Q (set subs) w (fold f subs w)"
  using assms
proof (induction subs arbitrary: w)
  case (Cons s subs)
  have "sweeps Q (set (s # subs)) w (f s w)" by (rule sweeps_mono [OF Cons.prems]) auto
  moreover have "sweeps Q (set (s # subs)) (f s w) (fold f subs (f s w))" by (rule sweeps_mono [OF Cons.IH]) (auto intro: Cons.prems)
  ultimately show ?case by (simp add: sweeps_trans)
qed simp

definition escalated_as :: "env \<Rightarrow> submission \<Rightarrow> sub_row \<Rightarrow> bool" where
  "escalated_as v s r' \<longleftrightarrow> brokerActionable (s_MissingItems s) \<noteq> [] \<and> q_state r' = StateEscalated \<and>
     q_escalated_at r' = Some (unix_nano (v_now v)) \<and> q_last_escalated_at r' = Some (unix_nano (v_now v))"

lemma escalate_sweeps:
  assumes "escalate v sub reason w = (b, w')" and "s_State sub = StateAwaiting"
  shows "sweeps (escalated_as v) {sub} w w'"
proof (cases "brokerActionable (s_MissingItems sub) = []")
  case True
  then show ?thesis using assms by (simp add: escalate_def)
next
  case False
  define sub2 where "sub2 = sub\<lparr>s_State := StateEscalated, s_UpdatedAt := v_now v, s_LastActionAt := v_now v,
      s_EscalatedAt := Some (v_now v), s_LastEscalatedAt := Some (v_now v)\<rparr>"
  have t: "transitionTo sub StateEscalated (v_now v) = Inr (sub\<lparr>s_State := StateEscalated, s_UpdatedAt := v_now v, s_LastActionAt := v_now v,
      s_EscalatedAt := Some (v_now v)\<rparr>)"
    using assms(2) by (simp add: transitionTo_def)
  have run: "escalate v sub reason w = (case repo_upsert v sub2 w of Inl _ \<Rightarrow> (False, w)
      | Inr w1 \<Rightarrow> (True, audit v (s_ID sub2) EventEscalated
           [(''reason'', AString reason), (''last_action_at'', ATime (s_LastActionAt sub2))] w1))"
    unfolding sub2_def using False t by (simp add: escalate_def Let_def)
  show ?thesis
  proof (cases "repo_upsert v sub2 w")
    case (Inl e)
    then show ?thesis using assms(1) run by simp
  next
    case (Inr w1)
    have "sweeps (escalated_as v) {sub} w w1"
      by (rule repo_upsert_sweeps [OF Inr]) (use False in \<open>simp_all add: escalated_as_def sub2_def sub_row_of_def merge_sub_row_def\<close>)
    moreover have "sweeps (escalated_as v) {sub} w1 w'" using assms(1) run Inr by (auto intro: same_core_sweeps)
    ultimately show ?thesis by (rule sweeps_trans)
  qed
qed

lemma escalate_stale_sweeps:
  assumes "escalate_stale v subs seen w = (seen', w')" and "\<forall>s\<in>set subs. s_State s = StateAwaiting"
  shows "sweeps (escalated_as v) {s \<in> set subs. escalation_threshold v s \<le> time_sub (v_now v) (s_LastActionAt s)} w w'"
  using assms
proof (induction subs arbitrary: seen w)
  case (Cons s subs)
  let ?S = "\<lambda>xs. {s \<in> set xs. escalation_threshold v s \<le> time_sub (v_now v) (s_LastActionAt s)}"
  show ?case
  proof (cases "time_sub (v_now v) (s_LastActionAt s) < escalation_threshold v s")
    case True
    then have "sweeps (escalated_as v) (?S subs) w w'" using Cons by simp
    then show ?thesis by (rule sweeps_mono) auto
  next
    case False
    obtain b w1 where e: "escalate v s ''quiet_threshold'' w = (b, w1)" by (cases "escalate v s ''quiet_threshold'' w")
    have "\<exists>seen1. escalate_stale v subs seen1 w1 = (seen', w')" using Cons.prems(1) False e by (cases b) auto
    then have "sweeps (escalated_as v) (?S subs) w1 w'" using Cons.IH Cons.prems(2) by auto
    then have "sweeps (escalated_as v) (?S (s # subs)) w1 w'" by (rule sweeps_mono) auto
    moreover have "sweeps (escalated_as v) (?S (s # subs)) w w1"
      by (rule sweeps_mono [OF escalate_sweeps [OF e]]) (use Cons.prems(2) False in auto)
    ultimately show ?thesis using sweeps_trans by blast
  qed
qed simp

definition nudge_allowed :: "env \<Rightarrow> submission \<Rightarrow> bool" where
  "nudge_allowed v s \<longleftrightarrow> (case s_LastEscalatedAt s of None \<Rightarrow> True | Some t \<Rightarrow> cfg_MinGap (v_cfg v) \<le> time_sub (v_now v) t)"

lemma escalate_soon_sweeps:
  assumes "\<forall>s\<in>set subs. s_State s = StateAwaiting"
  shows "sweeps (escalated_as v) {s \<in> set subs. nudge_allowed v s} w (escalate_soon v seen subs w)"
  using assms
proof (induction subs arbitrary: w)
  case (Cons s subs)
  let ?S = "\<lambda>xs. {s \<in> set xs. nudge_allowed v s}"
  have skip: "sweeps (escalated_as v) (?S (s # subs)) w1 (escalate_soon v seen subs w1)" for w1
    by (rule sweeps_mono [OF Cons.IH]) (use Cons.prems in auto)
  show ?case
  proof (cases "s_ID s \<in> set seen \<or> \<not> nudge_allowed v s")
    case True
    then have "escalate_soon v seen (s # subs) w = escalate_soon v seen subs w"
      by (cases "s_LastEscalatedAt s") (auto simp: nudge_allowed_def)
    then show ?thesis using skip by simp
  next
    case False
    obtain b w1 where e: "escalate v s ''bind_window'' w = (b, w1)" by (cases "escalate v s ''bind_window'' w")
    have "escalate_soon v seen (s # subs) w = escalate_soon v seen subs w1"
      using False e by (cases "s_LastEscalatedAt s") (auto simp: nudge_allowed_def)
    moreover have "sweeps (escalated_as v) (?S (s # subs)) w w1"
      by (rule sweeps_mono [OF escalate_sweeps [OF e]]) (use Cons.prems False in auto)
    ultimately show ?thesis using sweeps_trans [OF _ skip] by simp
  qed
qed simp

section \<open>Properties of the sweeps\<close>

text \<open>A row listed by a query, as the one row of its id.\<close>

lemma listed_row:
  assumes "db_wf d" and "s \<in> set (list_query p k n d)"
  shows "\<exists>r. lookup_by q_id (s_ID s) (db_submissions d) = Some r \<and> p r \<and> s = scanSubmission r"
proof -
  obtain r where r: "r \<in> set (db_submissions d)" "p r" "s = scanSubmission r" using in_list_query [OF assms(2)] by blast
  have "lookup_by q_id (q_id r) (db_submissions d) = Some r"
    by (rule lookup_by_distinct) (use assms(1) r in \<open>auto simp: db_wf_def\<close>)
  then show ?thesis using r by auto
qed

definition quiet_enough :: "env \<Rightarrow> sub_row \<Rightarrow> bool" where
  "quiet_enough v r \<longleftrightarrow>
     escalation_threshold v (scanSubmission r) \<le> time_sub (v_now v) (q_last_action_at r)"

definition binds_soon :: "env \<Rightarrow> sub_row \<Rightarrow> bool" where
  "binds_soon v r \<longleftrightarrow> 0 < cfg_BindWindow (v_cfg v) \<and> nudge_allowed v (scanSubmission r) \<and>
     (\<exists>t. q_effective_date r = Some t \<and> unix_nano (utc_midnight (time_add (v_now v) (- cfg_BindGrace (v_cfg v)))) \<le> t \<and>
        t \<le> unix_nano (time_add (v_now v) (cfg_BindWindow (v_cfg v))))"

definition may_escalate :: "env \<Rightarrow> sub_row \<Rightarrow> bool" where
  "may_escalate v r \<longleftrightarrow> q_state r = StateAwaiting \<and> \<not> q_on_hold r \<and> \<not> q_delivery_failed r \<and>
     brokerActionable (decodeMissingItems (q_missing_items r)) \<noteq> [] \<and> (quiet_enough v r \<or> binds_soon v r)"

lemma scan_missing [simp]: "s_MissingItems (scanSubmission r) = decodeMissingItems (q_missing_items r)"
  by (simp add: scanSubmission_def)

definition escalated_or_same :: "env \<Rightarrow> world \<Rightarrow> world \<Rightarrow> string \<Rightarrow> bool" where
  "escalated_or_same v w w' i \<longleftrightarrow> row_of i w' = row_of i w \<or>
     (\<exists>r r'. row_of i w = Some r \<and> may_escalate v r \<and> row_of i w' = Some r' \<and> q_state r' = StateEscalated \<and>
        q_escalated_at r' = Some (unix_nano (v_now v)) \<and> q_last_escalated_at r' = Some (unix_nano (v_now v)))"

lemma stale_pass:
  assumes p: "escalate_stale v (listStale (unix_nano (time_add (v_now v) (- min_threshold v))) 100 (w_db w)) [] w = (seen, w1)"
    and wf: "db_wf (w_db w)"
  shows "untouched w w1 \<and> db_steps w w1 \<and> (\<forall>i. escalated_or_same v w w1 i)"
proof -
  let ?cut = "unix_nano (time_add (v_now v) (- min_threshold v))"
  let ?S = "{s \<in> set (listStale ?cut 100 (w_db w)). escalation_threshold v s \<le> time_sub (v_now v) (s_LastActionAt s)}"
  have sw: "sweeps (escalated_as v) ?S w w1"
    by (rule escalate_stale_sweeps [OF p]) (use sweep_rows_not_held(1) in blast)
  have "escalated_or_same v w w1 i" for i
  proof (cases "row_of i w1 = row_of i w")
    case False
    then obtain s r' where s: "s \<in> ?S" "s_ID s = i" and r': "row_of i w1 = Some r'" "escalated_as v s r'"
      using sw unfolding sweeps_def by blast
    obtain r where "row_of i w = Some r" "stale_row ?cut r" "s = scanSubmission r"
      using listed_row [OF wf, of s "stale_row ?cut"] s unfolding listStale_def by blast
    then show ?thesis using s r'
      by (auto simp: escalated_or_same_def may_escalate_def quiet_enough_def stale_row_def escalated_as_def)
  qed (simp add: escalated_or_same_def)
  then show ?thesis using sw by (simp add: sweeps_def)
qed

lemma soon_pass:
  assumes first: "\<forall>i. escalated_or_same v w w1 i" and wf: "db_wf (w_db w1)" and window: "0 < cfg_BindWindow (v_cfg v)"
    and w': "w' = escalate_soon v seen (listBindSoon (unix_nano (utc_midnight (time_add (v_now v) (- cfg_BindGrace (v_cfg v)))))
      (unix_nano (time_add (v_now v) (cfg_BindWindow (v_cfg v)))) sweepBatch (w_db w1)) w1"
  shows "untouched w1 w' \<and> db_steps w1 w' \<and> (\<forall>i. escalated_or_same v w w' i)"
proof -
  let ?lo = "unix_nano (utc_midnight (time_add (v_now v) (- cfg_BindGrace (v_cfg v))))"
  let ?hi = "unix_nano (time_add (v_now v) (cfg_BindWindow (v_cfg v)))"
  let ?S = "{s \<in> set (listBindSoon ?lo ?hi sweepBatch (w_db w1)). nudge_allowed v s}"
  have sw: "sweeps (escalated_as v) ?S w1 w'"
    unfolding w' by (rule escalate_soon_sweeps) (use sweep_rows_not_held(2) in blast)
  have "escalated_or_same v w w' i" for i
  proof (cases "row_of i w' = row_of i w1")
    case True
    then show ?thesis using first [rule_format, of i] by (simp add: escalated_or_same_def)
  next
    case False
    then obtain s r' where s: "s \<in> ?S" "s_ID s = i" and r': "row_of i w' = Some r'" "escalated_as v s r'"
      using sw unfolding sweeps_def by blast
    obtain r where r: "row_of i w1 = Some r" "s = scanSubmission r" "bind_soon_row ?lo ?hi r"
      using listed_row [OF wf, of s "bind_soon_row ?lo ?hi"] s unfolding listBindSoon_def by blast
    then have "row_of i w = Some r" using first [rule_format, of i] by (auto simp: escalated_or_same_def bind_soon_row_def)
    then show ?thesis using r s r' window
      by (auto simp: escalated_or_same_def may_escalate_def binds_soon_def bind_soon_row_def escalated_as_def split: option.splits)
  qed
  then show ?thesis using sw by (simp add: sweeps_def)
qed

lemma checkEscalations_effect:
  assumes "checkEscalations v w = (e, w')" and "db_wf (w_db w)"
  shows "untouched w w' \<and> db_steps w w' \<and> (\<forall>i. escalated_or_same v w w' i)"
proof (cases "v_fault v OpListStale ''''")
  case (Some err)
  then show ?thesis using assms(1) by (simp add: checkEscalations_def escalated_or_same_def)
next
  case None
  let ?stale = "listStale (unix_nano (time_add (v_now v) (- min_threshold v))) 100 (w_db w)"
  obtain seen w1 where p1: "escalate_stale v ?stale [] w = (seen, w1)" by (cases "escalate_stale v ?stale [] w")
  note first = stale_pass [OF p1 assms(2)]
  show ?thesis
  proof (cases "cfg_BindWindow (v_cfg v) \<le> 0 \<or> v_fault v OpListBindSoon '''' \<noteq> None")
    case True
    then have "w' = w1" using assms(1) None p1 by (auto simp: checkEscalations_def Let_def split: if_splits)
    then show ?thesis using first by blast
  next
    case False
    have "db_wf (w_db w1)" using first db_steps_wf assms(2) by blast
    moreover have "w' = escalate_soon v seen (listBindSoon (unix_nano (utc_midnight (time_add (v_now v) (- cfg_BindGrace (v_cfg v)))))
      (unix_nano (time_add (v_now v) (cfg_BindWindow (v_cfg v)))) sweepBatch (w_db w1)) w1"
      using assms(1) None p1 False by (auto simp: checkEscalations_def Let_def)
    ultimately have "untouched w1 w' \<and> db_steps w1 w' \<and> (\<forall>i. escalated_or_same v w w' i)"
      using first False by (intro soon_pass) auto
    then show ?thesis using first untouched_trans by (meson rtranclp_trans)
  qed
qed

text \<open>
  C19. The escalation sweep changes nothing but submissions that were awaiting the broker, neither on hold
  nor undeliverable, with something outstanding the broker can act on, and either quiet for at least the
  threshold of their policy or close to their effective date and not nudged within the minimal gap. Those
  it changes become escalated, stamped now. It sends and queues nothing.
\<close>

theorem escalation_sweep_exact:
  assumes "checkEscalations v w = (e, w')" and "db_wf (w_db w)"
  shows "untouched w w' \<and>
    (\<forall>i. row_of i w' = row_of i w \<or>
       (\<exists>r r'. row_of i w = Some r \<and> may_escalate v r \<and> row_of i w' = Some r' \<and> q_state r' = StateEscalated \<and>
          q_escalated_at r' = Some (unix_nano (v_now v)) \<and> q_last_escalated_at r' = Some (unix_nano (v_now v))))"
  using checkEscalations_effect [OF assms] by (simp add: escalated_or_same_def)

definition awaiting_world :: world where
  "awaiting_world = empty_world\<lparr>w_db := \<lparr>db_submissions = [sub_row_of 1 (stored_sub\<lparr>s_PolicyType := ''other'', s_State := StateAwaiting, s_Emails := [],
     s_LastActionAt := 1, s_MissingItems := [missing_attachment_item]\<rparr>)], db_emails = [], db_documents = [], db_outbox = []\<rparr>\<rparr>"

lemma awaiting_world_wf: "db_wf (w_db awaiting_world)"
  by (simp add: db_wf_def awaiting_world_def sub_ids_def ob.wf_def)

lemma awaiting_world_run:
  "map q_state (db_submissions (w_db (snd (checkEscalations sample_env awaiting_world)))) = [StateEscalated]"
  "map q_id (db_submissions (w_db (snd (checkEscalations sample_env awaiting_world)))) = [''s1'']"
  by code_simp+

theorem escalation_sweep_exact_witness:
  "\<exists>r r'. row_of ''s1'' awaiting_world = Some r \<and> may_escalate sample_env r \<and>
     row_of ''s1'' (snd (checkEscalations sample_env awaiting_world)) = Some r' \<and> q_state r' = StateEscalated"
proof -
  let ?w' = "snd (checkEscalations sample_env awaiting_world)"
  obtain x where "db_submissions (w_db ?w') = [x]" "q_state x = StateEscalated" "q_id x = ''s1''"
    using awaiting_world_run by (auto simp: map_eq_Cons_conv)
  then have "row_of ''s1'' ?w' = Some x" "q_state x = StateEscalated" by simp_all
  moreover have "row_of ''s1'' awaiting_world \<noteq> Some x"
  proof -
    have "list_all (\<lambda>r. q_state r = StateAwaiting) (db_submissions (w_db awaiting_world))" by code_simp
    then show ?thesis using \<open>q_state x = StateEscalated\<close> by (auto simp: list_all_iff dest: lookup_by_Some)
  qed
  ultimately show ?thesis
    using escalation_sweep_exact [OF prod.collapse [symmetric] awaiting_world_wf, where v = sample_env] by metis
qed

text \<open>Closing: when a row may be closed, and passes that close only such rows compose.\<close>

definition may_close :: "env \<Rightarrow> sub_row \<Rightarrow> bool" where
  "may_close v r \<longleftrightarrow> \<not> q_on_hold r \<and>
     (let settled = time_add (v_now v) (- cfg_AutoCloseAfter (v_cfg v));
          stalled = time_add (v_now v) (- cfg_AwaitingAutoCloseAfter (v_cfg v)) in
      0 < cfg_AutoCloseAfter (v_cfg v) \<and> q_state r = StateComplete \<and> (\<exists>t. q_completed_at r = Some t \<and> t < unix_nano settled) \<or>
      0 < cfg_AutoCloseAfter (v_cfg v) \<and> q_state r = StateEscalated \<and> q_last_action_at r \<le> settled \<or>
      0 < cfg_AwaitingAutoCloseAfter (v_cfg v) \<and> (q_state r = StateAwaiting \<or> q_state r = StateOpen) \<and>
        q_last_action_at r < unix_nano stalled)"

definition closes :: "env \<Rightarrow> world \<Rightarrow> world \<Rightarrow> bool" where
  "closes v w w' \<longleftrightarrow> untouched w w' \<and> db_steps w w' \<and>
     (\<forall>i. row_of i w' = row_of i w \<or>
        (\<exists>r r'. row_of i w = Some r \<and> may_close v r \<and> row_of i w' = Some r' \<and> q_state r' = StateClosed))"

lemma closes_refl [simp]: "closes v w w"
  by (simp add: closes_def)

lemma may_close_open: "may_close v r \<Longrightarrow> q_state r \<noteq> StateClosed"
  by (auto simp: may_close_def Let_def)

lemma closes_trans:
  assumes "closes v w w1" and "closes v w1 w2"
  shows "closes v w w2"
proof -
  have "untouched w w2" by (rule untouched_trans) (use assms in \<open>auto simp: closes_def\<close>)
  moreover have "db_steps w w2" by (rule rtranclp_trans) (use assms in \<open>auto simp: closes_def\<close>)
  moreover have "row_of i w2 = row_of i w \<or>
      (\<exists>r r'. row_of i w = Some r \<and> may_close v r \<and> row_of i w2 = Some r' \<and> q_state r' = StateClosed)" for i
  proof (cases "row_of i w2 = row_of i w1")
    case True
    then show ?thesis using assms(1) by (simp add: closes_def)
  next
    case False
    then obtain r r' where r: "row_of i w1 = Some r" "may_close v r" "row_of i w2 = Some r'" "q_state r' = StateClosed"
      using assms(2) unfolding closes_def by blast
    then have "row_of i w = Some r" using assms(1) may_close_open [OF r(2)] unfolding closes_def by (metis option.inject)
    then show ?thesis using r by blast
  qed
  ultimately show ?thesis by (simp add: closes_def)
qed

lemma closeQuiet_sweeps:
  assumes "s_State sub \<noteq> StateClosed"
  shows "sweeps (\<lambda>s r'. q_state r' = StateClosed) {sub} w (closeQuiet v reason sub w)"
proof (cases "transitionTo sub StateClosed (v_now v)")
  case (Inl e)
  then show ?thesis by (simp add: closeQuiet_def)
next
  case (Inr sub1)
  note fr = transitionTo_frame [OF Inr]
  show ?thesis
  proof (cases "repo_upsert v sub1 w")
    case (Inl e)
    then show ?thesis using Inr by (simp add: closeQuiet_def)
  next
    case up: (Inr w1)
    have "sweeps (\<lambda>s r'. q_state r' = StateClosed) {sub} w w1"
      by (rule repo_upsert_sweeps [OF up]) (use fr in \<open>simp_all add: sub_row_of_def merge_sub_row_def\<close>)
    moreover have "same_core w1 (closeQuiet v reason sub w)" using Inr up by (simp add: closeQuiet_def same_core_audit)
    ultimately show ?thesis using same_core_sweeps sweeps_trans by blast
  qed
qed

lemma close_pass:
  assumes "db_wf (w_db w)" and "set subs \<subseteq> set (list_query p k n (w_db w))"
    and "\<And>r. p r \<Longrightarrow> scanSubmission r \<in> set subs \<Longrightarrow> may_close v r"
  shows "closes v w (fold (closeQuiet v reason) subs w)"
proof -
  have row: "\<exists>r. row_of (s_ID s) w = Some r \<and> may_close v r \<and> s = scanSubmission r" if "s \<in> set subs" for s
    using listed_row [OF assms(1)] assms(2,3) that by blast
  have "sweeps (\<lambda>s r'. q_state r' = StateClosed) (set subs) w (fold (closeQuiet v reason) subs w)"
    by (rule fold_sweeps, rule closeQuiet_sweeps) (use row may_close_open in fastforce)
  then show ?thesis unfolding sweeps_def closes_def using row by metis
qed

lemma closes_wf: "closes v w w' \<Longrightarrow> db_wf (w_db w) \<Longrightarrow> db_wf (w_db w')"
  using db_steps_wf by (auto simp: closes_def)

lemma closeSettled_closes:
  assumes "closeSettled v (time_add (v_now v) (- cfg_AutoCloseAfter (v_cfg v))) w = (e, w')" and "db_wf (w_db w)"
    and "0 < cfg_AutoCloseAfter (v_cfg v)"
  shows "closes v w w'"
proof (cases "v_fault v OpListCompleted ''''")
  case (Some err)
  then show ?thesis using assms(1) by (simp add: closeSettled_def)
next
  case None
  let ?cut = "time_add (v_now v) (- cfg_AutoCloseAfter (v_cfg v))"
  define w1 where "w1 = fold (closeQuiet v ''auto_close_after_complete'') (listCompletedBefore (unix_nano ?cut) sweepBatch (w_db w)) w"
  have c1: "closes v w w1" unfolding w1_def listCompletedBefore_def
    by (rule close_pass [OF assms(2) subset_refl]) (use assms(3) in \<open>auto simp: completed_before_def may_close_def Let_def split: option.splits\<close>)
  show ?thesis
  proof (cases "v_fault v OpListEscalated ''''")
    case (Some err)
    then show ?thesis using assms(1) None c1 by (simp add: closeSettled_def w1_def [symmetric] Let_def)
  next
    case nf: None
    let ?esc = "filter (\<lambda>s. \<not> ?cut < s_LastActionAt s) (listEscalatedSince 0 500 (w_db w1))"
    have "closes v w1 (fold (closeQuiet v ''auto_close_after_escalation'') ?esc w1)"
      unfolding listEscalatedSince_def
      by (rule close_pass [OF closes_wf [OF c1 assms(2)], where p = "escalated_since 0" and k = "\<lambda>r. null_or_zero (q_escalated_at r)" and n = "limit_or 100 500"])
        (use assms(3) in \<open>auto simp: escalated_since_def may_close_def Let_def not_less\<close>)
    moreover have "w' = fold (closeQuiet v ''auto_close_after_escalation'') ?esc w1"
      using assms(1) None nf by (simp add: closeSettled_def w1_def [symmetric] Let_def)
    ultimately show ?thesis using closes_trans [OF c1] by simp
  qed
qed

lemma checkClosures_closes:
  assumes "checkClosures v w = (e, w')" and "db_wf (w_db w)"
  shows "closes v w w'"
proof -
  let ?cut = "time_add (v_now v) (- cfg_AutoCloseAfter (v_cfg v))"
  obtain err w1 where s: "(if 0 < cfg_AutoCloseAfter (v_cfg v) then closeSettled v ?cut w else (None, w)) = (err, w1)"
    by (metis surj_pair)
  have c1: "closes v w w1" using s closeSettled_closes [of v w err w1] assms(2) by (auto split: if_splits)
  let ?st = "listStalledBefore (unix_nano (time_add (v_now v) (- cfg_AwaitingAutoCloseAfter (v_cfg v)))) sweepBatch (w_db w1)"
  show ?thesis
  proof (cases "err \<noteq> None \<or> cfg_AwaitingAutoCloseAfter (v_cfg v) \<le> 0 \<or> v_fault v OpListStalled '''' \<noteq> None")
    case True
    then have "w' = w1" using assms(1) s by (auto simp: checkClosures_def Let_def split: if_splits)
    then show ?thesis using c1 by simp
  next
    case False
    then have w': "w' = fold (closeQuiet v ''auto_close_stalled'') ?st w1"
      using assms(1) s by (simp add: checkClosures_def Let_def)
    have "closes v w1 w'" unfolding w' listStalledBefore_def
      by (rule close_pass [OF closes_wf [OF c1 assms(2)] subset_refl])
        (use False in \<open>auto simp: stalled_row_def may_close_def Let_def\<close>)
    then show ?thesis using closes_trans [OF c1] by blast
  qed
qed

text \<open>
  C20. The closure sweep changes nothing but submissions that are not on hold and have been quiet too long:
  complete ones past their completion, escalated ones past their last action, awaiting or open ones past
  the longer window, each window only when it is configured. Those it changes are closed.
\<close>

theorem closure_sweep_exact:
  assumes "checkClosures v w = (e, w')" and "db_wf (w_db w)"
  shows "untouched w w' \<and>
    (\<forall>i. row_of i w' = row_of i w \<or>
       (\<exists>r r'. row_of i w = Some r \<and> may_close v r \<and> row_of i w' = Some r' \<and> q_state r' = StateClosed))"
  using checkClosures_closes [OF assms] by (simp add: closes_def)

definition closing_env :: env where
  "closing_env = sample_env\<lparr>v_cfg := (v_cfg sample_env)\<lparr>cfg_AwaitingAutoCloseAfter := 10\<rparr>\<rparr>"

lemma awaiting_world_closes:
  "map (\<lambda>r. (q_id r, q_state r)) (db_submissions (w_db (snd (checkClosures closing_env awaiting_world)))) = [(''s1'', StateClosed)]"
  by code_simp

theorem closure_sweep_exact_witness:
  "\<exists>r. row_of ''s1'' awaiting_world = Some r \<and> may_close closing_env r"
proof -
  let ?w' = "snd (checkClosures closing_env awaiting_world)"
  obtain x where "db_submissions (w_db ?w') = [x]" "q_state x = StateClosed" "q_id x = ''s1''"
    using awaiting_world_closes by (auto simp: map_eq_Cons_conv)
  then have x: "row_of ''s1'' ?w' = Some x" "q_state x = StateClosed" by simp_all
  have "list_all (\<lambda>r. q_state r = StateAwaiting) (db_submissions (w_db awaiting_world))" by code_simp
  then have "row_of ''s1'' awaiting_world \<noteq> Some x" using x(2) by (auto simp: list_all_iff dest: lookup_by_Some)
  then show ?thesis
    using closure_sweep_exact [OF prod.collapse [symmetric] awaiting_world_wf, where v = closing_env] x by metis
qed

section \<open>Holds\<close>

lemma setOnHold_row:
  "lookup_by q_id i (db_submissions (setOnHold ids b d)) =
     map_option (\<lambda>r. if i \<in> set ids then r\<lparr>q_on_hold := b\<rparr> else r) (lookup_by q_id i (db_submissions d))"
proof (cases "lookup_by q_id i (db_submissions d)")
  case (Some r)
  then have "q_id r = i" using lookup_by_Some by fastforce
  then show ?thesis using Some by (simp add: setOnHold_def update_sub_def lookup_by_update_where)
qed (simp add: setOnHold_def update_sub_def lookup_by_update_where)

lemma setOnHold_frame [simp]:
  "db_emails (setOnHold ids b d) = db_emails d" "db_outbox (setOnHold ids b d) = db_outbox d"
  by (simp_all add: setOnHold_def update_sub_def)

lemma in_listHeldIDs:
  assumes "db_wf d"
  shows "i \<in> set (listHeldIDs d) \<longleftrightarrow> (\<exists>r. lookup_by q_id i (db_submissions d) = Some r \<and> q_on_hold r)"
proof -
  have "r \<in> set (db_submissions d) \<Longrightarrow> lookup_by q_id (q_id r) (db_submissions d) = Some r" for r
    by (rule lookup_by_distinct) (use assms in \<open>auto simp: db_wf_def\<close>)
  then show ?thesis unfolding listHeldIDs_def using lookup_by_Some by fastforce
qed

lemma same_core_audit_each: "same_core w (audit_each v ev ids w)"
  unfolding audit_each_def
proof (induction ids arbitrary: w)
  case (Cons i ids)
  then show ?case using same_core_trans [OF same_core_audit [of w v i ev "[]"]] by simp
qed simp

lemma pending_after_expiry:
  assumes "q \<in> set (snd (expirePendingForSubmissions now ids reason tbl))" and "is_pending q"
  shows "q \<in> set tbl \<and> ob_submission_id q \<notin> set ids"
proof (cases "ids = []")
  case False
  let ?p = "\<lambda>r. is_pending r \<and> ob_submission_id r \<in> set ids"
  let ?f = "\<lambda>r. r\<lparr>ob_status := OutboxFailed, ob_last_error := reason, ob_updated_at := unix_nano now\<rparr>"
  obtain x where x: "x \<in> set tbl" "q = (if ?p x then ?f x else x)"
    using assms(1) False by (auto simp: expirePendingForSubmissions_def fail_rows_def update_where_def)
  have "\<not> ?p x"
  proof
    assume "?p x"
    then have "ob_status q = OutboxFailed" using x(2) by simp
    then show False using assms(2) by simp
  qed
  then show ?thesis using x assms(2) by auto
qed (use assms in \<open>simp add: expirePendingForSubmissions_def\<close>)

text \<open>The database a reconciliation leaves when no statement fails.\<close>

definition released :: "string list \<Rightarrow> db \<Rightarrow> string list" where
  "released inFolder d = filter (\<lambda>i. i \<notin> set inFolder) (listHeldIDs d)"

lemma reconcileHold_db:
  assumes "faultless v" and "reconcileHold v mids w = (e, w')"
  defines "inFolder \<equiv> submissionIDsByMessageIDs mids (w_db w)"
  shows "e = None" and "w_db w' = (setOnHold (released inFolder (w_db w)) False
            (setOnHold (filter (\<lambda>i. i \<notin> set (listHeldIDs (w_db w))) inFolder) True (w_db w)))
              \<lparr>db_outbox := snd (expirePendingForSubmissions (v_now v) (released inFolder (w_db w)) ''stale: queued before hold'' (db_outbox (w_db w)))\<rparr>"
proof -
  have nf: "v_fault v x y = None" for x y using assms(1) by (simp add: faultless_def)
  have "w_db (audit_each v ev ids x) = w_db x" for ev ids x using same_core_audit_each same_core_simps(1) by blast
  then show "e = None" and "w_db w' = (setOnHold (released inFolder (w_db w)) False
            (setOnHold (filter (\<lambda>i. i \<notin> set (listHeldIDs (w_db w))) inFolder) True (w_db w)))
              \<lparr>db_outbox := snd (expirePendingForSubmissions (v_now v) (released inFolder (w_db w)) ''stale: queued before hold'' (db_outbox (w_db w)))\<rparr>"
    using assms(2) nf
    by (auto simp: reconcileHold_def Let_def repo_set_on_hold_def repo_try_def update_outbox_def released_def inFolder_def)
qed

lemma reconcileHold_rows:
  assumes "faultless v" and "reconcileHold v mids w = (e, w')" and "db_wf (w_db w)"
  shows "row_of i w' = map_option (\<lambda>r. r\<lparr>q_on_hold := (i \<in> set (submissionIDsByMessageIDs mids (w_db w)))\<rparr>) (row_of i w)"
proof (cases "row_of i w")
  case None
  then show ?thesis by (simp add: reconcileHold_db(2) [OF assms(1,2)] setOnHold_row)
next
  case (Some r)
  have "i \<in> set (listHeldIDs (w_db w)) \<longleftrightarrow> q_on_hold r" using in_listHeldIDs [OF assms(3)] Some by simp
  then show ?thesis using Some
    by (cases "q_on_hold r") (auto simp: reconcileHold_db(2) [OF assms(1,2)] setOnHold_row released_def)
qed

text \<open>
  C21. The Hold folder is the state: after a reconciliation in which no statement fails, a submission is on
  hold exactly when one of the messages in the folder belongs to it, nothing else of any submission has
  changed, the submissions just released have no pending reply left, the replies of all others are as
  they were, and reconciling again with the same folder changes nothing.
\<close>

theorem hold_mirrors_folder:
  assumes "faultless v" and "reconcileHold v mids w = (e, w')" and "db_wf (w_db w)" and "faultless v'"
  defines "inFolder \<equiv> set (submissionIDsByMessageIDs mids (w_db w))"
  shows "e = None \<and>
    (\<forall>i. row_of i w' = map_option (\<lambda>r. r\<lparr>q_on_hold := (i \<in> inFolder)\<rparr>) (row_of i w)) \<and>
    (\<forall>q\<in>set (db_outbox (w_db w')). is_pending q \<longrightarrow> q \<in> set (db_outbox (w_db w)) \<and>
       \<not> (\<exists>r. row_of (ob_submission_id q) w = Some r \<and> q_on_hold r \<and> ob_submission_id q \<notin> inFolder)) \<and>
    (\<forall>q\<in>set (db_outbox (w_db w)). \<not> (\<exists>r. row_of (ob_submission_id q) w = Some r \<and> q_on_hold r \<and> ob_submission_id q \<notin> inFolder) \<longrightarrow>
       q \<in> set (db_outbox (w_db w'))) \<and>
    w_db (snd (reconcileHold v' mids w')) = w_db w'"
proof -
  let ?rel = "released (submissionIDsByMessageIDs mids (w_db w)) (w_db w)"
  have db: "db_outbox (w_db w') = snd (expirePendingForSubmissions (v_now v) ?rel ''stale: queued before hold'' (db_outbox (w_db w)))"
    "db_emails (w_db w') = db_emails (w_db w)"
    by (simp_all add: reconcileHold_db(2) [OF assms(1,2)])
  have rel: "i \<in> set ?rel \<longleftrightarrow> (\<exists>r. row_of i w = Some r \<and> q_on_hold r \<and> i \<notin> inFolder)" for i
    using in_listHeldIDs [OF assms(3), of i] by (auto simp: released_def inFolder_def)
  have rows: "row_of i w' = map_option (\<lambda>r. r\<lparr>q_on_hold := (i \<in> inFolder)\<rparr>) (row_of i w)" for i
    unfolding inFolder_def by (rule reconcileHold_rows [OF assms(1-3)])
  have out: "\<forall>q\<in>set (db_outbox (w_db w')). is_pending q \<longrightarrow> q \<in> set (db_outbox (w_db w)) \<and> ob_submission_id q \<notin> set ?rel"
    unfolding db using pending_after_expiry by blast
  have keep: "\<forall>q\<in>set (db_outbox (w_db w)). ob_submission_id q \<notin> set ?rel \<longrightarrow> q \<in> set (db_outbox (w_db w'))"
    unfolding db by (auto simp: expirePendingForSubmissions_def fail_rows_def in_update_where)
  have wf': "db_wf (w_db w')"
  proof -
    have "db_wf ((setOnHold ids b d)\<lparr>db_outbox := snd (expirePendingForSubmissions n x y (db_outbox (setOnHold ids b d)))\<rparr>)" if "db_wf d" for ids b d n x y
      by (rule db_step_wf [OF db_step.outbox_expire_for]) (rule db_step_wf [OF db_step.hold that])
    from this [OF db_step_wf [OF db_step.hold assms(3)]] show ?thesis unfolding reconcileHold_db(2) [OF assms(1,2)] by simp
  qed
  have "w_db (snd (reconcileHold v' mids w')) = w_db w'"
  proof -
    obtain e2 w2 where r2: "reconcileHold v' mids w' = (e2, w2)" by (cases "reconcileHold v' mids w'")
    have same: "submissionIDsByMessageIDs mids (w_db w') = submissionIDsByMessageIDs mids (w_db w)"
      by (simp add: submissionIDsByMessageIDs_def db)
    have held: "i \<in> set (listHeldIDs (w_db w')) \<longleftrightarrow> row_of i w \<noteq> None \<and> i \<in> inFolder" for i
      unfolding in_listHeldIDs [OF wf'] rows by auto
    have known: "i \<in> inFolder \<Longrightarrow> row_of i w \<noteq> None" for i
      using assms(3) by (auto simp: inFolder_def submissionIDsByMessageIDs_def Let_def db_wf_def sub_ids_def lookup_by_None)
    have "released (submissionIDsByMessageIDs mids (w_db w)) (w_db w') = []"
      "filter (\<lambda>i. i \<notin> set (listHeldIDs (w_db w'))) (submissionIDsByMessageIDs mids (w_db w)) = []"
      using held known by (auto simp: released_def filter_empty_conv inFolder_def)
    then show ?thesis using reconcileHold_db(2) [OF assms(4) r2] r2 same
      by (simp add: setOnHold_def expirePendingForSubmissions_def)
  qed
  then show ?thesis using reconcileHold_db(1) [OF assms(1,2)] rows out keep by (simp only: rel) blast
qed

theorem hold_mirrors_folder_witness:
  "\<exists>r. row_of ''s1'' (snd (reconcileHold sample_env [''m9''] delivered_world)) = Some r \<and> q_on_hold r"
proof -
  let ?w' = "snd (reconcileHold sample_env [''m9''] delivered_world)"
  have "row_of i ?w' = map_option (\<lambda>r. r\<lparr>q_on_hold := (i \<in> set (submissionIDsByMessageIDs [''m9''] (w_db delivered_world)))\<rparr>) (row_of i delivered_world)" for i
    using hold_mirrors_folder [OF sample_env_faultless(1) prod.collapse [symmetric] delivered_world_wf sample_env_faultless(1)] by blast
  moreover have "submissionIDsByMessageIDs [''m9''] (w_db delivered_world) = [''s1'']" by code_simp
  moreover have "\<exists>r. row_of ''s1'' delivered_world = Some r"
    by (simp add: delivered_world_def lookup_by_def) (simp add: stored_sub_def sample_sub_def newSubmission_def)
  ultimately show ?thesis by auto
qed

section \<open>Digest and retention\<close>

lemma length_listOpen:
  "0 < n \<Longrightarrow> int (length (listOpen n d)) = min n (countOpen d)"
  by (simp add: listOpen_def list_query_def order_limit_def limit_or_def countOpen_def count_where_def)

lemma digest_total:
  assumes "faultless v"
  shows "int (length (listOpen (digest_max_rows v) (w_db w))) + digest_omitted v (listOpen (digest_max_rows v) (w_db w)) w = countOpen (w_db w)"
proof -
  have pos: "0 < digest_max_rows v" by (simp add: digest_max_rows_def defaultDigestMaxRows_def)
  show ?thesis using length_listOpen [OF pos, of "w_db w"] assms by (auto simp: digest_omitted_def faultless_def)
qed

text \<open>
  The digest counts every open submission: when one is sent it goes to the configured recipient, once,
  and its subject states the number of submissions that are not closed, also when the body lists only
  the first of them. It is sent whenever the digest is on, a recipient is set, something is open and the
  sender accepts; otherwise nothing is sent. The database is not changed.
\<close>

theorem digest_counts_open:
  assumes "faultless v" and "sendDigest v w = (e, w')"
  shows "w_db w' = w_db w \<and>
    (if 0 < cfg_DigestInterval (v_cfg v) \<and> firstDigestRecipient v \<noteq> '''' \<and> 0 < countOpen (w_db w)
     then \<exists>r. r_ToAddress r = firstDigestRecipient v \<and>
            r_Subject r = ''[submission-triage] Daily digest ('' @ int_str (countOpen (w_db w)) @ '' open)'' \<and>
            (case v_send v r of Inr _ \<Rightarrow> e = None \<and> w_sent w' = w_sent w @ [r] | Inl err \<Rightarrow> e = Some err \<and> w' = w)
     else e = None \<and> w' = w)"
proof -
  let ?subs = "listOpen (digest_max_rows v) (w_db w)"
  have nf: "v_fault v x y = None" for x y using assms(1) by (simp add: faultless_def)
  have pos: "0 < digest_max_rows v" by (simp add: digest_max_rows_def defaultDigestMaxRows_def)
  have empty: "?subs = [] \<longleftrightarrow> \<not> 0 < countOpen (w_db w)"
  proof -
    have "0 \<le> countOpen (w_db w)" by (simp add: countOpen_def count_where_def)
    moreover have "?subs = [] \<longleftrightarrow> int (length ?subs) = 0" by simp
    ultimately show ?thesis using length_listOpen [OF pos, of "w_db w"] pos by (simp add: min_def split: if_splits)
  qed
  show ?thesis
  proof (cases "0 < cfg_DigestInterval (v_cfg v) \<and> firstDigestRecipient v \<noteq> '''' \<and> 0 < countOpen (w_db w)")
    case False
    then have "sendDigest v w = (None, w)" using empty nf by (auto simp: sendDigest_def Let_def)
    then show ?thesis using assms(2) False by auto
  next
    case True
    define r where "r = \<lparr>r_SubmissionID = '''', r_ToAddress = firstDigestRecipient v,
        r_Subject = ''[submission-triage] Daily digest ('' @ int_str (int (length ?subs) + digest_omitted v ?subs w) @ '' open)'',
        r_BodyText = buildDigest ?subs (resolveFilenameOnly v ?subs (filenameOnlyItems (map s_ID ?subs) (w_db w)))
          (replyWithheld v ?subs w) (digest_omitted v ?subs w) (v_now v),
        r_InReplyTo = '''', r_References = []\<rparr>"
    have run: "sendDigest v w = (case v_send v r of Inl err \<Rightarrow> (Some err, w)
        | Inr _ \<Rightarrow> (None, audit v '''' EventDigestSent [(''recipient'', AString (firstDigestRecipient v)),
              (''open'', AInt (int (length ?subs))), (''omitted'', AInt (digest_omitted v ?subs w))] (record_sent r w)))"
    proof -
      have ne: "?subs \<noteq> []" and "\<not> cfg_DigestInterval (v_cfg v) \<le> 0" "firstDigestRecipient v \<noteq> []" using True empty by auto
      then show ?thesis unfolding sendDigest_def r_def Let_def nf option.case if_False if_not_P [OF ne] by simp
    qed
    have "r_ToAddress r = firstDigestRecipient v" "r_Subject r = ''[submission-triage] Daily digest ('' @ int_str (countOpen (w_db w)) @ '' open)''"
      using digest_total [OF assms(1)] by (simp_all add: r_def)
    moreover have "case v_send v r of Inr _ \<Rightarrow> e = None \<and> w_sent w' = w_sent w @ [r] | Inl err \<Rightarrow> e = Some err \<and> w' = w"
      and "w_db w' = w_db w"
      using assms(2) run by (auto simp: record_sent_def split: sum.splits)
    ultimately show ?thesis using True by auto
  qed
qed

theorem digest_counts_open_witness:
  "\<exists>r. w_sent (snd (sendDigest sample_env awaiting_world)) = [r] \<and>
     r_Subject r = ''[submission-triage] Daily digest ('' @ int_str (countOpen (w_db awaiting_world)) @ '' open)''"
proof -
  have c: "0 < cfg_DigestInterval (v_cfg sample_env) \<and> firstDigestRecipient sample_env \<noteq> '''' \<and> 0 < countOpen (w_db awaiting_world)"
    by code_simp
  have "w_sent awaiting_world = []" by (simp add: awaiting_world_def empty_world_def)
  moreover have "v_send sample_env r = Inr ''<sent@x>''" for r by (simp add: sample_env_def)
  ultimately show ?thesis
    using digest_counts_open [OF sample_env_faultless(1) prod.collapse [symmetric], of awaiting_world] c by auto
qed

text \<open>The two horizons of a retention sweep.\<close>

definition ttl_cutoff :: "env \<Rightarrow> retention \<Rightarrow> int" where
  "ttl_cutoff v rt = unix_nano (time_add (v_now v) (- rt_OutboxPendingTTL rt))"

definition audit_cutoff :: "env \<Rightarrow> retention \<Rightarrow> int" where
  "audit_cutoff v rt = unix_nano (time_add (v_now v) (- rt_AuditRetention rt))"

definition long_closed :: "env \<Rightarrow> retention \<Rightarrow> world \<Rightarrow> document \<Rightarrow> bool" where
  "long_closed v rt w c \<longleftrightarrow> (\<exists>r\<in>set (db_submissions (w_db w)). q_id r = d_SubmissionID c \<and> q_state r = StateClosed \<and> q_updated_at r < audit_cutoff v rt)"

lemma update_where_keeps: "x \<in> set tbl \<Longrightarrow> \<not> p x \<Longrightarrow> x \<in> set (update_where p f tbl)"
  by (force simp: in_update_where)

lemma prune_settled_keeps:
  assumes "prune_settled v cutoff n w = (res, w')"
  shows "db_submissions (w_db w') = db_submissions (w_db w) \<and> db_emails (w_db w') = db_emails (w_db w) \<and>
    (\<forall>q\<in>set (db_outbox (w_db w)). is_pending q \<or> cutoff \<le> ob_created_at q \<longrightarrow> q \<in> set (db_outbox (w_db w'))) \<and>
    set (db_outbox (w_db w')) \<subseteq> set (db_outbox (w_db w)) \<and>
    (\<forall>a\<in>set (w_audit w). cutoff \<le> a_CreatedAt a \<longrightarrow> a \<in> set (w_audit w')) \<and>
    length (db_documents (w_db w')) = length (db_documents (w_db w)) \<and>
    (\<forall>c\<in>set (db_documents (w_db w)). (\<forall>r\<in>set (db_submissions (w_db w)). q_id r = d_SubmissionID c \<longrightarrow> \<not> (q_state r = StateClosed \<and> q_updated_at r < cutoff))
       \<longrightarrow> c \<in> set (db_documents (w_db w'))) \<and>
    w_sent w' = w_sent w \<and> w_jobs w' = w_jobs w \<and> w_dispatching w' = w_dispatching w \<and> w_closed w' = w_closed w \<and> db_steps w w'"
proof -
  define w1 where "w1 = w\<lparr>w_audit := snd (audit_prune cutoff (w_audit w))\<rparr>"
  define w2 where "w2 = w1\<lparr>w_db := (w_db w1)\<lparr>db_outbox := snd (outbox_prune cutoff (db_outbox (w_db w1)))\<rparr>\<rparr>"
  define w3 where "w3 = w2\<lparr>w_db := snd (clearExtractedTextForClosed cutoff (w_db w2))\<rparr>"
  have cases: "w' \<in> {w, w1, w2, w3}"
    using assms by (auto simp: prune_settled_def Let_def w1_def w2_def w3_def split: option.splits prod.splits)
  have step2: "db_steps w w2" unfolding w2_def w1_def using db_step.outbox_prune [of "w_db w" cutoff] by auto
  have step3: "db_steps w w3" unfolding w3_def using step2 db_step.clear_text [of "w_db w2" cutoff] by auto
  have docs: "c \<in> set (db_documents (w_db w3))"
    if "c \<in> set (db_documents (w_db w))" "\<forall>r\<in>set (db_submissions (w_db w)). q_id r = d_SubmissionID c \<longrightarrow> \<not> (q_state r = StateClosed \<and> q_updated_at r < cutoff)" for c
    using that by (auto simp: w3_def w2_def w1_def clearExtractedTextForClosed_def Let_def intro!: update_where_keeps)
  from cases show ?thesis
    by (elim insertE emptyE)
      (use step2 step3 docs in \<open>auto simp: w3_def w2_def w1_def audit_prune_def outbox_prune_def Let_def clearExtractedTextForClosed_def\<close>)
qed

text \<open>The world after the pending replies past their time to live were failed, and how a sweep goes on from there.\<close>

definition expired_world :: "env \<Rightarrow> retention \<Rightarrow> world \<Rightarrow> world" where
  "expired_world v rt w = (if 0 < rt_OutboxPendingTTL rt
      then w\<lparr>w_db := (w_db w)\<lparr>db_outbox := snd (expirePending (v_now v) (ttl_cutoff v rt) (db_outbox (w_db w)))\<rparr>\<rparr> else w)"

lemma expired_world_frame [simp]:
  "db_submissions (w_db (expired_world v rt w)) = db_submissions (w_db w)" "db_emails (w_db (expired_world v rt w)) = db_emails (w_db w)"
  "db_documents (w_db (expired_world v rt w)) = db_documents (w_db w)" "w_audit (expired_world v rt w) = w_audit w"
  "w_sent (expired_world v rt w) = w_sent w" "w_jobs (expired_world v rt w) = w_jobs w"
  "w_dispatching (expired_world v rt w) = w_dispatching w" "w_closed (expired_world v rt w) = w_closed w"
  by (simp_all add: expired_world_def)

lemma expired_world_steps: "db_steps w (expired_world v rt w)"
  using db_step.outbox_expire [of "w_db w" "v_now v" "ttl_cutoff v rt"] by (auto simp: expired_world_def)

lemma expired_world_keeps:
  assumes "q \<in> set (db_outbox (w_db w))" and "is_pending q \<longrightarrow> rt_OutboxPendingTTL rt \<le> 0 \<or> ttl_cutoff v rt \<le> ob_created_at q"
  shows "q \<in> set (db_outbox (w_db (expired_world v rt w)))"
  using assms by (auto simp: expired_world_def expirePending_def fail_rows_def intro!: update_where_keeps)

lemma expired_world_young:
  assumes "q \<in> set (db_outbox (w_db (expired_world v rt w)))" and "is_pending q" and "0 < rt_OutboxPendingTTL rt"
  shows "ttl_cutoff v rt \<le> ob_created_at q"
proof -
  let ?p = "\<lambda>r. is_pending r \<and> ob_created_at r < ttl_cutoff v rt"
  let ?f = "\<lambda>x. x\<lparr>ob_status := OutboxFailed, ob_last_error := ''expired: pending past TTL'', ob_updated_at := unix_nano (v_now v)\<rparr>"
  have "q \<in> set (update_where ?p ?f (db_outbox (w_db w)))"
    using assms(1,3) by (simp add: expired_world_def expirePending_def fail_rows_def)
  then obtain x where x: "q = (if ?p x then ?f x else x)" by (auto simp only: in_update_where)
  have "\<not> ?p x"
  proof
    assume "?p x"
    then have "ob_status q = OutboxFailed" using x by simp
    then show False using assms(2) by simp
  qed
  then show ?thesis using x assms(2) by auto
qed

lemma pruneRetention_cases:
  assumes "pruneRetention v rt w = (res, w')"
  obtains (stuck) "w' = w" "\<nexists>n. res = Inr n"
  | (expired) "w' = expired_world v rt w" "rt_AuditRetention rt \<le> 0"
  | (pruned) n where "prune_settled v (audit_cutoff v rt) n (expired_world v rt w) = (res, w')" "0 < rt_AuditRetention rt"
proof (cases "0 < rt_OutboxPendingTTL rt \<and> v_fault v OpExpirePending '''' \<noteq> None")
  case True
  then have "w' = w" "\<nexists>n. res = Inr n" using assms by (auto simp: pruneRetention_def Let_def)
  then show thesis by (rule stuck)
next
  case False
  then have "\<exists>n. (if rt_AuditRetention rt \<le> 0 then (Inr n, expired_world v rt w)
      else prune_settled v (audit_cutoff v rt) n (expired_world v rt w)) = (res, w')"
    using assms
    by (auto simp: pruneRetention_def Let_def expired_world_def ttl_cutoff_def audit_cutoff_def split: if_splits option.splits prod.splits)
  then obtain n where n: "(if rt_AuditRetention rt \<le> 0 then (Inr n, expired_world v rt w)
      else prune_settled v (audit_cutoff v rt) n (expired_world v rt w)) = (res, w')" ..
  show thesis using n expired pruned [of n] by (cases "rt_AuditRetention rt \<le> 0") simp_all
qed

lemma pruneRetention_effect:
  assumes "pruneRetention v rt w = (res, w')"
  shows "w_sent w' = w_sent w \<and> w_jobs w' = w_jobs w \<and> w_dispatching w' = w_dispatching w \<and> w_closed w' = w_closed w \<and> db_steps w w'"
  using assms
proof (cases rule: pruneRetention_cases)
  case (pruned n)
  then show ?thesis using prune_settled_keeps [OF pruned(1)] rtranclp_trans [OF expired_world_steps] by fastforce
qed (simp_all add: expired_world_steps)

text \<open>
  C22. Retention only ever forgets what is past its horizon: no submission, message or document is deleted;
  a pending reply younger than the time to live, a settled one or an audit entry younger than the audit
  horizon, and the text of every document whose submission is not long closed stay exactly as they
  are, wherever the sweep stops. When it succeeds with a time to live, no older reply is still pending.
\<close>

theorem retention_keeps_recent:
  assumes "pruneRetention v rt w = (res, w')"
  shows "db_submissions (w_db w') = db_submissions (w_db w) \<and> db_emails (w_db w') = db_emails (w_db w) \<and>
    length (db_documents (w_db w')) = length (db_documents (w_db w)) \<and>
    (\<forall>q\<in>set (db_outbox (w_db w)).
       (if is_pending q then rt_OutboxPendingTTL rt \<le> 0 \<or> ttl_cutoff v rt \<le> ob_created_at q
        else rt_AuditRetention rt \<le> 0 \<or> audit_cutoff v rt \<le> ob_created_at q) \<longrightarrow> q \<in> set (db_outbox (w_db w'))) \<and>
    (\<forall>a\<in>set (w_audit w). rt_AuditRetention rt \<le> 0 \<or> audit_cutoff v rt \<le> a_CreatedAt a \<longrightarrow> a \<in> set (w_audit w')) \<and>
    (\<forall>c\<in>set (db_documents (w_db w)). \<not> long_closed v rt w c \<longrightarrow> c \<in> set (db_documents (w_db w'))) \<and>
    ((\<exists>n. res = Inr n) \<and> 0 < rt_OutboxPendingTTL rt \<longrightarrow>
       (\<forall>q\<in>set (db_outbox (w_db w')). is_pending q \<longrightarrow> ttl_cutoff v rt \<le> ob_created_at q))"
  using assms
proof (cases rule: pruneRetention_cases)
  case stuck
  then show ?thesis by auto
next
  case expired
  then show ?thesis using expired_world_keeps expired_world_young by auto
next
  case (pruned n)
  note p = prune_settled_keeps [OF pruned(1)]
  have "q \<in> set (db_outbox (w_db w'))"
    if q: "q \<in> set (db_outbox (w_db w))" and c: "if is_pending q then rt_OutboxPendingTTL rt \<le> 0 \<or> ttl_cutoff v rt \<le> ob_created_at q
      else rt_AuditRetention rt \<le> 0 \<or> audit_cutoff v rt \<le> ob_created_at q" for q
    using p expired_world_keeps [OF q] c pruned(2) by (auto split: if_splits)
  moreover have "c \<in> set (db_documents (w_db w'))" if "c \<in> set (db_documents (w_db w))" "\<not> long_closed v rt w c" for c
    using p that by (auto simp: long_closed_def)
  moreover have "ttl_cutoff v rt \<le> ob_created_at q" if "q \<in> set (db_outbox (w_db w'))" "is_pending q" "0 < rt_OutboxPendingTTL rt" for q
    using p expired_world_young that by blast
  ultimately show ?thesis using p pruned(2) by auto
qed

theorem retention_keeps_recent_witness:
  "sample_out_row \<in> set (db_outbox (w_db (snd (pruneRetention sample_env \<lparr>rt_OutboxPendingTTL = 95, rt_AuditRetention = 10\<rparr> outbox_world)))) \<and>
   sample_out_row \<notin> set (db_outbox (w_db (snd (pruneRetention sample_env \<lparr>rt_OutboxPendingTTL = 5, rt_AuditRetention = 10\<rparr> outbox_world))))"
proof -
  have row: "sample_out_row \<in> set (db_outbox (w_db outbox_world))" "is_pending sample_out_row" "ob_created_at sample_out_row = 5"
    using sample_out_row_facts by (simp_all add: sample_out_row_def outbox_row_of_def outbox_defaults_def sample_entry_def nanoOrZero_def unix_nano_def in_int64_def)
  have kept: "ttl_cutoff sample_env \<lparr>rt_OutboxPendingTTL = 95, rt_AuditRetention = 10\<rparr> \<le> 5"
    and gone: "\<not> ttl_cutoff sample_env \<lparr>rt_OutboxPendingTTL = 5, rt_AuditRetention = 10\<rparr> \<le> 5" by code_simp+
  have "\<not> isl (fst (pruneRetention sample_env \<lparr>rt_OutboxPendingTTL = 5, rt_AuditRetention = 10\<rparr> outbox_world))" by code_simp
  then have "\<exists>n. fst (pruneRetention sample_env \<lparr>rt_OutboxPendingTTL = 5, rt_AuditRetention = 10\<rparr> outbox_world) = Inr n"
    by (auto simp: isl_def) (metis sum.exhaust)
  then show ?thesis
    using retention_keeps_recent [OF prod.collapse [symmetric], of sample_env "\<lparr>rt_OutboxPendingTTL = 95, rt_AuditRetention = 10\<rparr>" outbox_world]
      retention_keeps_recent [OF prod.collapse [symmetric], of sample_env "\<lparr>rt_OutboxPendingTTL = 5, rt_AuditRetention = 10\<rparr>" outbox_world]
      row kept gone by auto
qed

end
