(* ===== verification/Config_Model.thy ===== *)
theory Config_Model
  imports Sweep_Service
begin

text \<open>
  \<open>internal/config/config.go\<close>: the configuration with its defaults, its validation and the durations it
  yields, with what \<open>internal/app/build.go\<close> derives from it (deprecated aliases, the choice of the mail
  sender) and the tickers \<open>internal/app/app.go\<close> starts the workers with. Reading the environment
  (\<open>env.Parse\<close>) and RFC 3339 parsing are parameters. Integers are Go's \<open>int\<close>, and the products that form
  durations wrap at 64 bits as they do in the source.

  The record \<open>config\<close> of the service is what the service reads of a configuration: \<open>service_config\<close> computes it.
  The lemmas show which configurations start all workers, and when a duration is what the setting says.
\<close>

section \<open>Sections\<close>

record http_config =
  http_Port :: int
  http_ReadTimeoutSec :: int
  http_WriteTimeoutSec :: int
  http_ShutdownTimeoutSec :: int
  http_PollStaleMultiplier :: int

record log_config =
  log_Level :: string
  log_Format :: string
  log_Directory :: string
  log_MaxAgeDays :: int
  log_RotationHours :: int

record imap_config =
  imap_Host :: string
  imap_Port :: string
  imap_Username :: string
  imap_Password :: string
  imap_Mailbox :: string
  imap_PollIntervalSeconds :: int
  imap_MaxMessageMB :: int
  imap_FileByStatus :: bool
  imap_FolderPrefix :: string
  imap_FolderComplete :: string
  imap_FolderAwaiting :: string
  imap_FolderEscalated :: string
  imap_FolderUnknownPolicy :: string
  imap_FolderHold :: string
  imap_HoldScanLimit :: int
  imap_IgnoreBefore :: string
  imap_PollMaxAttempts :: int
  imap_PollTimeoutSeconds :: int
  imap_CompleteLabel :: string

record smtp_config =
  smtp_Host :: string
  smtp_Port :: string
  smtp_Username :: string
  smtp_Password :: string
  smtp_FromAddress :: string
  smtp_FromName :: string

record oauth_config =
  oauth_Provider :: string
  oauth_ClientID :: string
  oauth_ClientSecret :: string
  oauth_TenantID :: string
  oauth_RefreshToken :: string
  oauth_User :: string

record mail_config =
  mail_AuthMode :: string
  mail_OAuth :: oauth_config

record anthropic_config =
  ant_APIKey :: string
  ant_Model :: string
  ant_TimeoutSec :: int
  ant_MaxTokens :: int
  ant_DailyCapUSD :: float64

record document_config =
  doc_UnreadableMinSizeBytes :: int
  doc_UnreadableMinChars :: int
  doc_AttachmentLinkDomains :: "string list"

record escalation_config =
  esc_IntervalMinutes :: int
  esc_ThresholdHours :: int
  esc_AutoCloseAfterHours :: int
  esc_AwaitingAutoCloseAfterHours :: int
  esc_BindWindowDays :: int
  esc_BindGraceDays :: int
  esc_MinGapHours :: int

record retention_config =
  ret_AuditDays :: int
  ret_OutboxPendingTTLHours :: int
  ret_IntervalHours :: int

record digest_config =
  dig_IntervalHours :: int
  dig_Recipient :: string
  dig_MaxRows :: int
  dig_LegacyIntervalHours :: int
  dig_LegacyRecipient :: string

record retry_config =
  rty_Attempts :: int
  rty_BaseDelayMs :: int

record reply_config =
  rep_Workers :: int
  rep_QueueSize :: int
  rep_RepliesEnabled :: "bool option"
  rep_PolicyClarifyMaxAsks :: int
  rep_CoalesceWindowSeconds :: int
  rep_FlushIntervalSeconds :: int

record app_config =
  ac_ServiceName :: string
  ac_HTTP :: http_config
  ac_DatabasePath :: string
  ac_Log :: log_config
  ac_IMAP :: imap_config
  ac_SMTP :: smtp_config
  ac_Mail :: mail_config
  ac_OutboundProvider :: string
  ac_Anthropic :: anthropic_config
  ac_ConfidenceFloor :: float64
  ac_Document :: document_config
  ac_ChecklistsDirectory :: string
  ac_Escalation :: escalation_config
  ac_Digest :: digest_config
  ac_Retry :: retry_config
  ac_Reply :: reply_config
  ac_MatchWindowDays :: int
  ac_Retention :: retention_config

section \<open>Defaults\<close>

text \<open>The \<open>envDefault\<close> tags: the configuration of an empty environment.\<close>

definition default_config :: app_config where
  "default_config = \<lparr>
     ac_ServiceName = ''submission-triage'',
     ac_HTTP = \<lparr>http_Port = 8080, http_ReadTimeoutSec = 15, http_WriteTimeoutSec = 30, http_ShutdownTimeoutSec = 10,
                http_PollStaleMultiplier = 3\<rparr>,
     ac_DatabasePath = ''./data/submission-triage.db'',
     ac_Log = \<lparr>log_Level = ''info'', log_Format = ''json'', log_Directory = '''', log_MaxAgeDays = 14, log_RotationHours = 24\<rparr>,
     ac_IMAP = \<lparr>imap_Host = '''', imap_Port = ''993'', imap_Username = '''', imap_Password = '''', imap_Mailbox = ''INBOX'',
                imap_PollIntervalSeconds = 30, imap_MaxMessageMB = 32, imap_FileByStatus = True, imap_FolderPrefix = ''Triage'',
                imap_FolderComplete = ''Ready for Underwriting'', imap_FolderAwaiting = ''Waiting on Broker'',
                imap_FolderEscalated = ''Escalated'', imap_FolderUnknownPolicy = ''Unknown Policy'', imap_FolderHold = ''Hold'',
                imap_HoldScanLimit = 200, imap_IgnoreBefore = '''', imap_PollMaxAttempts = 5, imap_PollTimeoutSeconds = 120,
                imap_CompleteLabel = ''''\<rparr>,
     ac_SMTP = \<lparr>smtp_Host = '''', smtp_Port = ''587'', smtp_Username = '''', smtp_Password = '''', smtp_FromAddress = '''',
                smtp_FromName = ''Submission Triage''\<rparr>,
     ac_Mail = \<lparr>mail_AuthMode = ''password'',
                mail_OAuth = \<lparr>oauth_Provider = '''', oauth_ClientID = '''', oauth_ClientSecret = '''', oauth_TenantID = '''',
                              oauth_RefreshToken = '''', oauth_User = ''''\<rparr>\<rparr>,
     ac_OutboundProvider = '''',
     ac_Anthropic = \<lparr>ant_APIKey = '''', ant_Model = ''claude-haiku-4-5'', ant_TimeoutSec = 30, ant_MaxTokens = 2048,
                     ant_DailyCapUSD = Fin 10\<rparr>,
     ac_ConfidenceFloor = Fin (4/5),
     ac_Document = \<lparr>doc_UnreadableMinSizeBytes = 51200, doc_UnreadableMinChars = 100,
                    doc_AttachmentLinkDomains = [''sharefile'', ''dropbox'', ''wetransfer'', ''box.com'', ''drive.google'',
                      ''sharepoint'', ''egnyte'', ''hightail'', ''smartvault'']\<rparr>,
     ac_ChecklistsDirectory = ''./checklists'',
     ac_Escalation = \<lparr>esc_IntervalMinutes = 15, esc_ThresholdHours = 72, esc_AutoCloseAfterHours = 336,
                      esc_AwaitingAutoCloseAfterHours = 2160, esc_BindWindowDays = 7, esc_BindGraceDays = 3, esc_MinGapHours = 24\<rparr>,
     ac_Digest = \<lparr>dig_IntervalHours = 24, dig_Recipient = '''', dig_MaxRows = 500, dig_LegacyIntervalHours = 0,
                  dig_LegacyRecipient = ''''\<rparr>,
     ac_Retry = \<lparr>rty_Attempts = 3, rty_BaseDelayMs = 500\<rparr>,
     ac_Reply = \<lparr>rep_Workers = 4, rep_QueueSize = 64, rep_RepliesEnabled = Some True, rep_PolicyClarifyMaxAsks = 3,
                 rep_CoalesceWindowSeconds = 120, rep_FlushIntervalSeconds = 30\<rparr>,
     ac_MatchWindowDays = 14,
     ac_Retention = \<lparr>ret_AuditDays = 90, ret_OutboxPendingTTLHours = 168, ret_IntervalHours = 24\<rparr> \<rparr>"

section \<open>Durations\<close>

definition dur_times :: "int \<Rightarrow> duration \<Rightarrow> duration" where
  "dur_times n unit = int64 (n * unit)"

definition days :: "int \<Rightarrow> duration" where
  "days n = int64 (int64 (n * 24) * dur_hour)"

definition defaultThreadMatchWindowDays :: int where "defaultThreadMatchWindowDays = 14"

definition matchWindow :: "app_config \<Rightarrow> duration" where
  "matchWindow c = (let d = ac_MatchWindowDays c in days (if d \<le> 0 then defaultThreadMatchWindowDays else d))"

definition pollInterval :: "imap_config \<Rightarrow> duration" where "pollInterval i = dur_times (imap_PollIntervalSeconds i) dur_second"
definition pollTimeout :: "imap_config \<Rightarrow> duration" where "pollTimeout i = dur_times (imap_PollTimeoutSeconds i) dur_second"
definition auditRetention :: "retention_config \<Rightarrow> duration" where "auditRetention r = days (ret_AuditDays r)"
definition outboxPendingTTL :: "retention_config \<Rightarrow> duration" where "outboxPendingTTL r = dur_times (ret_OutboxPendingTTLHours r) dur_hour"
definition retentionInterval :: "retention_config \<Rightarrow> duration" where "retentionInterval r = dur_times (ret_IntervalHours r) dur_hour"
definition escalationInterval :: "escalation_config \<Rightarrow> duration" where "escalationInterval e = dur_times (esc_IntervalMinutes e) dur_minute"
definition threshold :: "escalation_config \<Rightarrow> duration" where "threshold e = dur_times (esc_ThresholdHours e) dur_hour"
definition autoCloseAfter :: "escalation_config \<Rightarrow> duration" where "autoCloseAfter e = dur_times (esc_AutoCloseAfterHours e) dur_hour"
definition awaitingAutoCloseAfter :: "escalation_config \<Rightarrow> duration" where
  "awaitingAutoCloseAfter e = dur_times (esc_AwaitingAutoCloseAfterHours e) dur_hour"
definition bindGrace :: "escalation_config \<Rightarrow> duration" where "bindGrace e = days (esc_BindGraceDays e)"
definition bindWindow :: "escalation_config \<Rightarrow> duration" where "bindWindow e = days (esc_BindWindowDays e)"
definition minGap :: "escalation_config \<Rightarrow> duration" where "minGap e = dur_times (esc_MinGapHours e) dur_hour"
definition digestInterval :: "digest_config \<Rightarrow> duration" where "digestInterval d = dur_times (dig_IntervalHours d) dur_hour"
definition baseDelay :: "retry_config \<Rightarrow> duration" where "baseDelay r = dur_times (rty_BaseDelayMs r) 1000000"
definition coalesceWindow :: "reply_config \<Rightarrow> duration" where "coalesceWindow r = dur_times (rep_CoalesceWindowSeconds r) dur_second"
definition flushInterval :: "reply_config \<Rightarrow> duration" where "flushInterval r = dur_times (rep_FlushIntervalSeconds r) dur_second"
definition readTimeout :: "http_config \<Rightarrow> duration" where "readTimeout h = dur_times (http_ReadTimeoutSec h) dur_second"
definition writeTimeout :: "http_config \<Rightarrow> duration" where "writeTimeout h = dur_times (http_WriteTimeoutSec h) dur_second"
definition shutdownTimeout :: "http_config \<Rightarrow> duration" where "shutdownTimeout h = dur_times (http_ShutdownTimeoutSec h) dur_second"
definition anthropicTimeout :: "anthropic_config \<Rightarrow> duration" where "anthropicTimeout a = dur_times (ant_TimeoutSec a) dur_second"

definition pollStaleAfter :: "app_config \<Rightarrow> duration" where
  "pollStaleAfter c = int64 (pollInterval (ac_IMAP c) * max (http_PollStaleMultiplier (ac_HTTP c)) 1)"

definition maxMessageBytes :: "imap_config \<Rightarrow> int" where
  "maxMessageBytes i = int64 (imap_MaxMessageMB i * 2 ^ 20)"

section \<open>Validation\<close>

definition maxPort :: int where "maxPort = 65535"

text \<open>\<open>strconv.Atoi\<close>: an optional sign and decimal digits, in the range of a 64-bit integer.\<close>

definition digit_val :: "char \<Rightarrow> int option" where
  "digit_val ch = (let n = char_code ch in if 48 \<le> n \<and> n \<le> 57 then Some (int n - 48) else None)"

fun digits_val :: "int \<Rightarrow> string \<Rightarrow> int option" where
  "digits_val acc [] = Some acc"
| "digits_val acc (ch # s) = (case digit_val ch of None \<Rightarrow> None | Some d \<Rightarrow> digits_val (acc * 10 + d) s)"

definition unsigned_val :: "string \<Rightarrow> int option" where
  "unsigned_val s = (if s = [] then None else digits_val 0 s)"

definition atoi :: "string \<Rightarrow> int option" where
  "atoi s = (case (case s of
         [] \<Rightarrow> None
       | ch # t \<Rightarrow> if ch = CHR ''-'' then map_option uminus (unsigned_val t) else if ch = CHR ''+'' then unsigned_val t else unsigned_val s) of
       None \<Rightarrow> None
     | Some n \<Rightarrow> if in_int64 n then Some n else None)"

definition validatePort :: "string \<Rightarrow> string \<Rightarrow> string option" where
  "validatePort name raw = (case atoi raw of
       None \<Rightarrow> Some (''config: '' @ name @ '' is not a number'')
     | Some p \<Rightarrow> if p < 1 \<or> p > maxPort then Some (''config: '' @ name @ '' must be in 1..65535'') else None)"

definition equal_fold :: "string \<Rightarrow> string \<Rightarrow> bool" where
  "equal_fold a b \<longleftrightarrow> to_lower a = to_lower b"

definition oAuthEnabled :: "mail_config \<Rightarrow> bool" where
  "oAuthEnabled m \<longleftrightarrow> equal_fold (mail_AuthMode m) ''oauth''"

definition imap_configured :: "imap_config \<Rightarrow> bool" where
  "imap_configured i \<longleftrightarrow> imap_Host i \<noteq> '''' \<and> imap_Username i \<noteq> '''' \<and> imap_Password i \<noteq> ''''"

definition imapConfigured :: "app_config \<Rightarrow> bool" where
  "imapConfigured c = (if oAuthEnabled (ac_Mail c) then imap_Host (ac_IMAP c) \<noteq> '''' else imap_configured (ac_IMAP c))"

definition smtp_configured :: "smtp_config \<Rightarrow> bool" where
  "smtp_configured s \<longleftrightarrow> smtp_Host s \<noteq> '''' \<and> smtp_FromAddress s \<noteq> ''''"

definition oauth_validate :: "oauth_config \<Rightarrow> string option" where
  "oauth_validate p =
     (if oauth_Provider p = '''' \<or> oauth_ClientID p = '''' \<or> oauth_ClientSecret p = '''' \<or> oauth_User p = ''''
      then Some ''config: oauth requires MAIL_OAUTH_PROVIDER, MAIL_OAUTH_CLIENT_ID, MAIL_OAUTH_CLIENT_SECRET and MAIL_OAUTH_USER''
      else if to_lower (oauth_Provider p) = ''microsoft''
      then (if oauth_TenantID p = '''' then Some ''config: MAIL_OAUTH_PROVIDER=microsoft requires MAIL_OAUTH_TENANT_ID'' else None)
      else if to_lower (oauth_Provider p) = ''google''
      then (if oauth_RefreshToken p = '''' then Some ''config: MAIL_OAUTH_PROVIDER=google requires MAIL_OAUTH_REFRESH_TOKEN'' else None)
      else Some ''config: MAIL_OAUTH_PROVIDER invalid (want google|microsoft)'')"

definition mail_validate :: "mail_config \<Rightarrow> string option" where
  "mail_validate m =
     (let mode = to_lower (mail_AuthMode m) in
      if mode = '''' \<or> mode = ''password'' then None
      else if mode = ''oauth'' then oauth_validate (mail_OAuth m)
      else Some ''config: MAIL_AUTH_MODE invalid (want password|oauth)'')"

text \<open>The parsed cutoff, \<open>None\<close> inside when it is unset; RFC 3339 parsing is the parameter.\<close>

definition ignoreBeforeTime :: "(string \<Rightarrow> gotime option) \<Rightarrow> imap_config \<Rightarrow> string + gotime option" where
  "ignoreBeforeTime parse i =
     (let raw = trim_space (imap_IgnoreBefore i) in
      if raw = '''' then Inr None
      else case parse raw of None \<Rightarrow> Inl ''config: IMAP_IGNORE_BEFORE is not RFC3339'' | Some t \<Rightarrow> Inr (Some t))"

definition validate_imap :: "(string \<Rightarrow> gotime option) \<Rightarrow> app_config \<Rightarrow> string option" where
  "validate_imap parse c =
     (if \<not> imapConfigured c then None
      else if imap_PollIntervalSeconds (ac_IMAP c) \<le> 0 then Some ''config: imap.poll_interval_seconds must be > 0''
      else case ignoreBeforeTime parse (ac_IMAP c) of
        Inl e \<Rightarrow> Some e
      | Inr _ \<Rightarrow>
          if imap_MaxMessageMB (ac_IMAP c) < 0 then Some ''config: imap.max_message_mb must be >= 0''
          else validatePort ''imap.port'' (imap_Port (ac_IMAP c)))"

definition validate_anthropic :: "anthropic_config \<Rightarrow> string option" where
  "validate_anthropic a =
     (if ant_APIKey a = '''' then None
      else if ant_MaxTokens a \<le> 0 then Some ''config: anthropic.max_tokens must be > 0''
      else if ant_TimeoutSec a \<le> 0 then Some ''config: anthropic.timeout_seconds must be > 0''
      else None)"

definition first_error :: "string option list \<Rightarrow> string option" where
  "first_error es = (case filter (\<lambda>e. e \<noteq> None) es of [] \<Rightarrow> None | e # _ \<Rightarrow> e)"

definition validate :: "(string \<Rightarrow> gotime option) \<Rightarrow> app_config \<Rightarrow> string option" where
  "validate parse c = first_error
     [if http_Port (ac_HTTP c) < 1 \<or> http_Port (ac_HTTP c) > maxPort then Some ''config: http.port must be in 1..65535'' else None,
      if ac_DatabasePath c = '''' then Some ''config: database.path required'' else None,
      if ac_ChecklistsDirectory c = '''' then Some ''config: checklists.directory required'' else None,
      if log_MaxAgeDays (ac_Log c) < 0 then Some ''config: log.max_age_days must be >= 0'' else None,
      if log_RotationHours (ac_Log c) \<le> 0 then Some ''config: log.rotation_hours must be > 0'' else None,
      if esc_IntervalMinutes (ac_Escalation c) \<le> 0 then Some ''config: escalation.interval_minutes must be > 0'' else None,
      mail_validate (ac_Mail c),
      validate_imap parse c,
      if smtp_configured (ac_SMTP c) then validatePort ''smtp.port'' (smtp_Port (ac_SMTP c)) else None,
      validate_anthropic (ac_Anthropic c)]"

definition config_load :: "(string \<Rightarrow> gotime option) \<Rightarrow> string + app_config \<Rightarrow> string + app_config" where
  "config_load parse parsed = (case parsed of
       Inl e \<Rightarrow> Inl (''parse config from environment: '' @ e)
     | Inr c \<Rightarrow> (case validate parse c of Some e \<Rightarrow> Inl e | None \<Rightarrow> Inr c))"

section \<open>What the application makes of it\<close>

definition resolveDeprecatedConfig :: "app_config \<Rightarrow> app_config" where
  "resolveDeprecatedConfig c =
     (let c1 = (if imap_CompleteLabel (ac_IMAP c) \<noteq> ''''
                then c\<lparr>ac_IMAP := (ac_IMAP c)\<lparr>imap_FolderComplete := imap_CompleteLabel (ac_IMAP c)\<rparr>\<rparr> else c);
          c2 = (if dig_LegacyIntervalHours (ac_Digest c1) \<noteq> 0
                then c1\<lparr>ac_Digest := (ac_Digest c1)\<lparr>dig_IntervalHours := dig_LegacyIntervalHours (ac_Digest c1)\<rparr>\<rparr> else c1)
      in if dig_LegacyRecipient (ac_Digest c2) \<noteq> ''''
         then c2\<lparr>ac_Digest := (ac_Digest c2)\<lparr>dig_Recipient := dig_LegacyRecipient (ac_Digest c2)\<rparr>\<rparr> else c2)"

datatype sender_kind = SMTPSender | LogSender

definition chooseSender :: "app_config \<Rightarrow> string + sender_kind" where
  "chooseSender c =
     (let provider = to_lower (ac_OutboundProvider c) in
      if provider = ''smtp''
      then (if \<not> smtp_configured (ac_SMTP c)
            then Inl ''OUTBOUND_PROVIDER=smtp but SMTP is not configured: set SMTP_HOST and SMTP_FROM_ADDRESS'' else Inr SMTPSender)
      else if provider = ''log'' then Inr LogSender
      else if provider = ''''
      then (if smtp_configured (ac_SMTP c) then Inr SMTPSender
            else Inl ''no outbound provider configured: set SMTP_*, or OUTBOUND_PROVIDER=log to send nothing'')
      else Inl ''unknown outbound provider (want smtp|log)'')"

definition service_config :: "app_config \<Rightarrow> config" where
  "service_config c =
     \<lparr>cfg_RepliesEnabled = rep_RepliesEnabled (ac_Reply c),
      cfg_PolicyClarifyMaxAsks = rep_PolicyClarifyMaxAsks (ac_Reply c),
      cfg_CoalesceWindow = coalesceWindow (ac_Reply c),
      cfg_QueueSize = nat (if rep_QueueSize (ac_Reply c) \<le> 0 then 64 else rep_QueueSize (ac_Reply c)),
      cfg_ConfidenceFloor = ac_ConfidenceFloor c,
      cfg_AttachmentLinkDomains = doc_AttachmentLinkDomains (ac_Document c),
      cfg_UnreadableMinSizeBytes = doc_UnreadableMinSizeBytes (ac_Document c),
      cfg_UnreadableMinChars = doc_UnreadableMinChars (ac_Document c),
      cfg_MatchWindow = matchWindow c,
      cfg_EscalationThreshold = threshold (ac_Escalation c),
      cfg_BindWindow = bindWindow (ac_Escalation c),
      cfg_MinGap = minGap (ac_Escalation c),
      cfg_BindGrace = bindGrace (ac_Escalation c),
      cfg_AutoCloseAfter = autoCloseAfter (ac_Escalation c),
      cfg_AwaitingAutoCloseAfter = awaitingAutoCloseAfter (ac_Escalation c),
      cfg_DigestInterval = digestInterval (ac_Digest c),
      cfg_DigestMaxRows = dig_MaxRows (ac_Digest c),
      cfg_DigestRecipient = dig_Recipient (ac_Digest c)\<rparr>"

definition service_retention :: "app_config \<Rightarrow> retention" where
  "service_retention c = \<lparr>rt_OutboxPendingTTL = outboxPendingTTL (ac_Retention c), rt_AuditRetention = auditRetention (ac_Retention c)\<rparr>"

definition reply_workers :: "app_config \<Rightarrow> int" where
  "reply_workers c = (if rep_Workers (ac_Reply c) \<le> 0 then 4 else rep_Workers (ac_Reply c))"

text \<open>\<open>time.NewTicker\<close> panics on a period that is not positive: \<open>None\<close>.\<close>

definition newTicker :: "duration \<Rightarrow> duration option" where
  "newTicker d = (if d \<le> 0 then None else Some d)"

text \<open>The tickers the workers create when they start, each with the worker that runs on it; one panic in a worker ends the process.\<close>

datatype worker = EscalationSweep | DigestSweep | OutboxSweep | RetentionSweep | MailPoll

definition worker_tickers :: "app_config \<Rightarrow> (worker \<times> duration option) list" where
  "worker_tickers c =
     (EscalationSweep, newTicker (escalationInterval (ac_Escalation c))) #
     (if 0 < digestInterval (ac_Digest c) then [(DigestSweep, newTicker (digestInterval (ac_Digest c)))] else []) @
     [(OutboxSweep, newTicker (flushInterval (ac_Reply c)))] @
     (if retentionInterval (ac_Retention c) \<le> 0 then [] else [(RetentionSweep, newTicker (retentionInterval (ac_Retention c)))]) @
     (if imapConfigured c then [(MailPoll, newTicker (pollInterval (ac_IMAP c)))] else [])"

definition startWorkers :: "app_config \<Rightarrow> (worker \<times> duration) list option" where
  "startWorkers c =
     (if list_all (\<lambda>t. snd t \<noteq> None) (worker_tickers c) then Some (map (apsnd the) (worker_tickers c)) else None)"

section \<open>Which configurations run\<close>

text \<open>The settings whose products with their unit fit 64 bits.\<close>

definition fits :: "int \<Rightarrow> duration \<Rightarrow> bool" where
  "fits n unit \<longleftrightarrow> in_int64 (n * unit)"

lemma dur_times_exact: "fits n unit \<Longrightarrow> dur_times n unit = n * unit"
  by (simp add: fits_def dur_times_def)

lemma days_exact: "fits n dur_day \<Longrightarrow> days n = n * dur_day"
proof -
  assume "fits n dur_day"
  then have "in_int64 (n * 24 * dur_hour)" and "in_int64 (n * 24)"
    by (auto simp: fits_def dur_day_def dur_hour_def dur_second_def in_int64_def)
  then show ?thesis by (simp add: days_def dur_day_def dur_hour_def dur_second_def)
qed

lemma first_error_None: "first_error es = None \<longleftrightarrow> (\<forall>e\<in>set es. e = None)"
proof
  assume "first_error es = None"
  then show "\<forall>e\<in>set es. e = None" by (cases "filter (\<lambda>e. e \<noteq> None) es") (auto simp: first_error_def filter_empty_conv filter_eq_Cons_iff)
qed (simp add: first_error_def)

lemma validated:
  assumes "validate parse c = None"
  shows "0 < esc_IntervalMinutes (ac_Escalation c)" and "imapConfigured c \<Longrightarrow> 0 < imap_PollIntervalSeconds (ac_IMAP c)"
    and "1 \<le> http_Port (ac_HTTP c) \<and> http_Port (ac_HTTP c) \<le> 65535"
    and "oAuthEnabled (ac_Mail c) \<Longrightarrow> oauth_validate (mail_OAuth (ac_Mail c)) = None"
  using assms by (auto simp: validate_def first_error_None validate_imap_def maxPort_def oAuthEnabled_def equal_fold_def
      mail_validate_def Let_def to_lower_def to_lower_char_def char_code_def split: if_splits)

lemma newTicker_times: "fits n unit \<Longrightarrow> 0 < unit \<Longrightarrow> newTicker (dur_times n unit) \<noteq> None \<longleftrightarrow> 0 < n"
  by (simp add: newTicker_def dur_times_exact zero_less_mult_iff mult_le_0_iff not_le)

lemma units_positive: "0 < dur_second" "0 < dur_minute" "0 < dur_hour"
  by (simp_all add: dur_second_def dur_minute_def dur_hour_def)

text \<open>
  C37. A configuration that passes validation, with periods that fit 64-bit nanoseconds, starts all its
  workers exactly when the outbox flush interval is positive: validation guarantees the escalation and the poll
  period, the digest and retention workers check theirs, and the outbox worker's is checked nowhere. The
  workers that then run are exactly those configured, each with the period its setting names.
\<close>

theorem workers_start_exactly:
  assumes "validate parse c = None"
    and "fits (esc_IntervalMinutes (ac_Escalation c)) dur_minute" and "fits (rep_FlushIntervalSeconds (ac_Reply c)) dur_second"
    and "imapConfigured c \<Longrightarrow> fits (imap_PollIntervalSeconds (ac_IMAP c)) dur_second"
  shows "(startWorkers c \<noteq> None \<longleftrightarrow> 0 < rep_FlushIntervalSeconds (ac_Reply c)) \<and>
    (\<forall>ts. startWorkers c = Some ts \<longrightarrow> distinct (map fst ts) \<and>
       set ts = {(EscalationSweep, esc_IntervalMinutes (ac_Escalation c) * dur_minute), (OutboxSweep, rep_FlushIntervalSeconds (ac_Reply c) * dur_second)} \<union>
         (if 0 < digestInterval (ac_Digest c) then {(DigestSweep, digestInterval (ac_Digest c))} else {}) \<union>
         (if 0 < retentionInterval (ac_Retention c) then {(RetentionSweep, retentionInterval (ac_Retention c))} else {}) \<union>
         (if imapConfigured c then {(MailPoll, imap_PollIntervalSeconds (ac_IMAP c) * dur_second)} else {}) \<and>
       (\<forall>t\<in>snd ` set ts. 0 < t))"
proof -
  note v = validated [OF assms(1)]
  let ?flush = "rep_FlushIntervalSeconds (ac_Reply c)"
  have esc: "newTicker (escalationInterval (ac_Escalation c)) = Some (esc_IntervalMinutes (ac_Escalation c) * dur_minute)"
    using v(1) dur_times_exact [OF assms(2)] units_positive(2) by (simp add: escalationInterval_def newTicker_def not_le)
  have poll: "newTicker (pollInterval (ac_IMAP c)) = Some (imap_PollIntervalSeconds (ac_IMAP c) * dur_second)" if "imapConfigured c"
    using v(2) [OF that] dur_times_exact [OF assms(4) [OF that]] units_positive(1) by (simp add: pollInterval_def newTicker_def not_le)
  have flush: "newTicker (flushInterval (ac_Reply c)) = (if 0 < ?flush then Some (?flush * dur_second) else None)"
    using dur_times_exact [OF assms(3)] units_positive(1) by (simp add: flushInterval_def newTicker_def mult_le_0_iff)
  have ticks: "0 < d \<Longrightarrow> newTicker d = Some d" for d by (simp add: newTicker_def)
  have ok: "startWorkers c \<noteq> None \<longleftrightarrow> 0 < ?flush"
    using poll by (auto simp: startWorkers_def worker_tickers_def esc flush ticks)
  have pos: "0 < t" if "startWorkers c = Some ts" and t: "t \<in> snd ` set ts" for ts t
  proof -
    have "Some t \<in> snd ` set (worker_tickers c)" using that by (force simp: startWorkers_def list_all_iff split: if_splits)
    then obtain d where "newTicker d = Some t" by (auto simp: worker_tickers_def split: if_splits)
    then show ?thesis by (simp add: newTicker_def split: if_splits)
  qed
  have "distinct (map fst ts) \<and>
       set ts = {(EscalationSweep, esc_IntervalMinutes (ac_Escalation c) * dur_minute), (OutboxSweep, ?flush * dur_second)} \<union>
         (if 0 < digestInterval (ac_Digest c) then {(DigestSweep, digestInterval (ac_Digest c))} else {}) \<union>
         (if 0 < retentionInterval (ac_Retention c) then {(RetentionSweep, retentionInterval (ac_Retention c))} else {}) \<union>
         (if imapConfigured c then {(MailPoll, imap_PollIntervalSeconds (ac_IMAP c) * dur_second)} else {})"
    if s: "startWorkers c = Some ts" for ts
  proof -
    have "ts = map (apsnd the) (worker_tickers c)" using s by (simp add: startWorkers_def split: if_splits)
    moreover have "0 < ?flush" using ok s by simp
    ultimately show ?thesis using poll by (auto simp: worker_tickers_def esc flush ticks)
  qed
  then show ?thesis using ok pos by blast
qed

text \<open>A configured deployment: the defaults with a mailbox.\<close>

definition mailbox_config :: app_config where
  "mailbox_config = default_config\<lparr>ac_IMAP := (ac_IMAP default_config)\<lparr>imap_Host := ''imap.x'', imap_Username := ''u'', imap_Password := ''p''\<rparr>\<rparr>"

lemma mailbox_config_valid: "validate (\<lambda>_. None) mailbox_config = None"
  by code_simp

theorem workers_start_exactly_witness:
  "startWorkers mailbox_config \<noteq> None \<and> validate (\<lambda>_. None) (mailbox_config\<lparr>ac_Reply := (ac_Reply mailbox_config)\<lparr>rep_FlushIntervalSeconds := 0\<rparr>\<rparr>) = None \<and>
   startWorkers (mailbox_config\<lparr>ac_Reply := (ac_Reply mailbox_config)\<lparr>rep_FlushIntervalSeconds := 0\<rparr>\<rparr>) = None"
proof -
  let ?zero = "mailbox_config\<lparr>ac_Reply := (ac_Reply mailbox_config)\<lparr>rep_FlushIntervalSeconds := 0\<rparr>\<rparr>"
  have valid: "validate (\<lambda>_. None) ?zero = None" by code_simp
  have f: "fits (esc_IntervalMinutes (ac_Escalation mailbox_config)) dur_minute" "fits (rep_FlushIntervalSeconds (ac_Reply mailbox_config)) dur_second"
    "fits (imap_PollIntervalSeconds (ac_IMAP mailbox_config)) dur_second" "0 < rep_FlushIntervalSeconds (ac_Reply mailbox_config)" by code_simp+
  have z: "fits (esc_IntervalMinutes (ac_Escalation ?zero)) dur_minute" "fits (rep_FlushIntervalSeconds (ac_Reply ?zero)) dur_second"
    "fits (imap_PollIntervalSeconds (ac_IMAP ?zero)) dur_second" by code_simp+
  show ?thesis
    using workers_start_exactly [OF mailbox_config_valid f(1-3)] workers_start_exactly [OF valid z] f(4) valid by simp
qed

text \<open>Past 64 bits the product wraps: a validated interval can become negative and stop the start.\<close>

lemma overflowing_interval_panics:
  "validate (\<lambda>_. None) (mailbox_config\<lparr>ac_Escalation := (ac_Escalation mailbox_config)\<lparr>esc_IntervalMinutes := 153722868\<rparr>\<rparr>) = None \<and>
   startWorkers (mailbox_config\<lparr>ac_Escalation := (ac_Escalation mailbox_config)\<lparr>esc_IntervalMinutes := 153722868\<rparr>\<rparr>) = None"
  by (intro conjI) code_simp+

text \<open>The sender: mail is only ever replaced by logging on request, and never guessed.\<close>

lemma chooseSender_log: "chooseSender c = Inr LogSender \<longleftrightarrow> equal_fold (ac_OutboundProvider c) ''log''"
  by (auto simp: chooseSender_def Let_def equal_fold_def) (auto simp: to_lower_def to_lower_char_def char_code_def)

lemma chooseSender_smtp:
  "chooseSender c = Inr SMTPSender \<longleftrightarrow>
     smtp_configured (ac_SMTP c) \<and> (equal_fold (ac_OutboundProvider c) ''smtp'' \<or> ac_OutboundProvider c = '''')"
  by (auto simp: chooseSender_def Let_def equal_fold_def) (auto simp: to_lower_def to_lower_char_def char_code_def)

end
