(* ===== verification/Llm_Client.thy ===== *)
theory Llm_Client
  imports Audit_Repo Classifier_Model Retry_Model Config_Model
begin

text \<open>
  \<open>internal/infrastructure/llm/anthropic.go\<close>: the client of the language model. The HTTP exchanges, JSON decoding,
  float parsing, hashing and the clock are parameters; a tool result is the JSON text of its input. A call
  returns its text, usage and error with the number of HTTP requests it made and the spend table after it.
  Costs are exact rationals.

  The lemmas show that the daily cap stops the calls, and that a classification gets through outages and is read out of whatever
  prose the model wraps around it, with a confidence in the unit interval.
\<close>

section \<open>Helpers\<close>

definition maxTextSampleBytes :: nat where "maxTextSampleBytes = 2048"

text \<open>USD per million tokens, input and output; \<open>None\<close> for a model without an entry.\<close>

definition modelPricing :: "string \<Rightarrow> (rat \<times> rat) option" where
  "modelPricing m =
     (if m = ''claude-haiku-4-5'' \<or> m = ''claude-haiku-4-5-20251001'' then Some (1, 5)
      else if m = ''claude-sonnet-4-6'' then Some (3, 15)
      else if m = ''claude-opus-4-8'' then Some (15, 75)
      else None)"

definition clampConfidence :: "float64 \<Rightarrow> float64" where
  "clampConfidence c =
     (if is_nan_or_inf c then Fin 0 else if flt_less c (Fin 0) then Fin 0 else if flt_less (Fin 1) c then Fin 1 else c)"

definition llm_truncate :: "string \<Rightarrow> nat \<Rightarrow> string" where
  "llm_truncate s n = (if length s \<le> n then s else truncateBytes s n @ ''...[truncated]'')"

text \<open>The length of the object that closes at depth zero, scanning from inside or outside a string literal.\<close>

fun json_scan :: "nat \<Rightarrow> bool \<Rightarrow> bool \<Rightarrow> string \<Rightarrow> nat option" where
  "json_scan depth inStr escaped [] = None"
| "json_scan depth inStr escaped (c # s) =
     (if inStr then
        (if escaped then map_option Suc (json_scan depth True False s)
         else if c = CHR 0x5C then map_option Suc (json_scan depth True True s)
         else if c = CHR 0x22 then map_option Suc (json_scan depth False escaped s)
         else map_option Suc (json_scan depth True escaped s))
      else if c = CHR 0x22 then map_option Suc (json_scan depth True escaped s)
      else if c = CHR ''{'' then map_option Suc (json_scan (Suc depth) False escaped s)
      else if c = CHR ''}'' then
        (if depth = 1 then Some 1 else map_option Suc (json_scan (depth - 1) False escaped s))
      else map_option Suc (json_scan depth False escaped s))"

definition extractJSON :: "string \<Rightarrow> string" where
  "extractJSON s = (case str_index s ''{'' of
       None \<Rightarrow> s
     | Some start \<Rightarrow> (case json_scan 0 False False (drop start s) of None \<Rightarrow> s | Some n \<Rightarrow> take n (drop start s)))"

section \<open>Calls\<close>

datatype http_outcome = RequestError string | TransportError string | HttpResponse int string

record content_block =
  cb_Type :: string
  cb_Text :: string
  cb_inputJSON :: "string option"

record api_response =
  ar_Content :: "content_block list"
  ar_InputTokens :: int
  ar_OutputTokens :: int
  ar_ErrorMessage :: "string option"

record anthropic_env =
  an_cfg :: anthropic_config
  an_attempts :: int
  an_base :: duration
  an_http :: "nat \<Rightarrow> http_outcome"
  an_decode :: "string \<Rightarrow> api_response option"
  an_ctxErr :: "nat \<Rightarrow> go_error option"
  an_ctxDone :: "nat \<Rightarrow> go_error option"
  an_jitter :: "nat \<Rightarrow> duration \<Rightarrow> duration"
  an_sha :: "string \<Rightarrow> string"
  an_latencyMs :: int
  an_now :: gotime
  an_tracksSpend :: bool
  an_spendReadFails :: bool
  an_spendAddFails :: bool
  an_parseClass :: "string \<Rightarrow> (string \<times> float64 \<times> string) \<times> bool"
  an_parseField :: "string \<Rightarrow> (any_val \<times> float64 \<times> string) option"
  an_parseIdentity :: "string \<Rightarrow> (string \<times> string) option"
  an_parseFloat :: "string \<Rightarrow> float64 option"

definition classifyHTTPStatus :: "(string \<Rightarrow> api_response option) \<Rightarrow> int \<Rightarrow> string \<Rightarrow> go_error option" where
  "classifyHTTPStatus decode code body =
     (if code \<ge> 500 then Some (Plain (''anthropic: server error '' @ int_str code))
      else if code = 429 then Some (Plain (''anthropic: rate limited '' @ int_str code))
      else if code \<ge> 400 then
        (let msg = (case decode body of None \<Rightarrow> '''' | Some r \<Rightarrow> (case ar_ErrorMessage r of None \<Rightarrow> '''' | Some m \<Rightarrow> m))
         in Some (Permanent (Some (Plain (''anthropic: client error '' @ int_str code @ '': '' @ msg)))))
      else None)"

definition extractResponseText :: "api_response \<Rightarrow> string" where
  "extractResponseText r =
     (case find (\<lambda>b. cb_Type b = ''tool_use'' \<and> cb_inputJSON b \<noteq> None) (ar_Content r) of
        Some b \<Rightarrow> the (cb_inputJSON b)
      | None \<Rightarrow> concat (map cb_Text (filter (\<lambda>b. cb_Type b = ''text'') (ar_Content r))))"

text \<open>One attempt: the decoded response, or the error the retry loop sees.\<close>

definition attempt :: "anthropic_env \<Rightarrow> nat \<Rightarrow> go_error + api_response" where
  "attempt v i = (case an_http v i of
       RequestError m \<Rightarrow> Inl (Permanent (Some (Plain m)))
     | TransportError m \<Rightarrow> Inl (Plain m)
     | HttpResponse code body \<Rightarrow> (case classifyHTTPStatus (an_decode v) code body of
         Some e \<Rightarrow> Inl e
       | None \<Rightarrow> (case an_decode v body of None \<Rightarrow> Inl (Wrapped ''anthropic: decode'' (Plain body)) | Some r \<Rightarrow> Inr r)))"

definition call_retry_env :: "anthropic_env \<Rightarrow> retry_env" where
  "call_retry_env v = \<lparr>re_fn = (\<lambda>i. case attempt v i of Inl e \<Rightarrow> Some e | Inr _ \<Rightarrow> None), re_ctxErr = an_ctxErr v,
     re_ctxDone = an_ctxDone v, re_jitter = an_jitter v\<rparr>"

definition call_cost :: "anthropic_env \<Rightarrow> int \<Rightarrow> int \<Rightarrow> rat" where
  "call_cost v inTok outTok = (case modelPricing (ant_Model (an_cfg v)) of
       None \<Rightarrow> 0
     | Some (pin, pout) \<Rightarrow> (of_int inTok * pin + of_int outTok * pout) / 1000000)"

definition empty_usage :: "anthropic_env \<Rightarrow> llm_usage" where
  "empty_usage v = \<lparr>u_PromptHash = '''', u_LatencyMs = 0, u_InputTokens = 0, u_OutputTokens = 0, u_EstimatedCostUSD = Fin 0,
                    u_Model = ant_Model (an_cfg v)\<rparr>"

definition capped :: "anthropic_env \<Rightarrow> (int \<times> rat) list \<Rightarrow> bool" where
  "capped v spend \<longleftrightarrow> flt_less (Fin 0) (ant_DailyCapUSD (an_cfg v)) \<and> an_tracksSpend v \<and> \<not> an_spendReadFails v \<and>
     flt_ge (Fin (spend_today (an_now v) spend)) (ant_DailyCapUSD (an_cfg v))"

record call_result =
  cl_text :: string
  cl_usage :: llm_usage
  cl_error :: "error option"
  cl_requests :: nat
  cl_spend :: "(int \<times> rat) list"

definition callMessages :: "anthropic_env \<Rightarrow> string \<Rightarrow> (int \<times> rat) list \<Rightarrow> call_result" where
  "callMessages v promptForHash spend =
     (if ant_APIKey (an_cfg v) = ''''
      then \<lparr>cl_text = '''', cl_usage = empty_usage v, cl_error = Some (ErrOther ''anthropic: api key not configured''), cl_requests = 0, cl_spend = spend\<rparr>
      else if capped v spend
      then \<lparr>cl_text = '''', cl_usage = empty_usage v, cl_error = Some ErrSpendCapReached, cl_requests = 0, cl_spend = spend\<rparr>
      else let run = retry_Do (call_retry_env v) (an_attempts v) (an_base v);
               resp = (if ro_err run = None then (case attempt v (ro_calls run - 1) of Inr r \<Rightarrow> Some r | Inl _ \<Rightarrow> None) else None);
               (inTok, outTok) = (case resp of None \<Rightarrow> (0, 0) | Some r \<Rightarrow> (ar_InputTokens r, ar_OutputTokens r));
               cost = call_cost v inTok outTok;
               usage = \<lparr>u_PromptHash = an_sha v promptForHash, u_LatencyMs = an_latencyMs v, u_InputTokens = inTok, u_OutputTokens = outTok,
                        u_EstimatedCostUSD = Fin cost, u_Model = ant_Model (an_cfg v)\<rparr>
           in case (ro_err run, resp) of
                (None, Some r) \<Rightarrow>
                  \<lparr>cl_text = extractResponseText r, cl_usage = usage, cl_error = None, cl_requests = ro_calls run,
                   cl_spend = (if an_tracksSpend v \<and> 0 < cost \<and> \<not> an_spendAddFails v then spend_add (an_now v) cost spend else spend)\<rparr>
              | (e, _) \<Rightarrow>
                  \<lparr>cl_text = '''', cl_usage = usage, cl_error = Some (ErrOther (case e of None \<Rightarrow> '''' | Some x \<Rightarrow> error_text x)),
                   cl_requests = ro_calls run, cl_spend = spend\<rparr>)"

section \<open>Requests\<close>

definition classify_prompt :: "class_request \<Rightarrow> string" where
  "classify_prompt req =
     ''You classify insurance submission documents. Choose the candidate that best matches the document.'' @ [LF] @
     ''Policy type: '' @ cq_PolicyType req @ [LF] @ ''Filename: '' @ cq_Filename req @ [LF] @ ''Content type: '' @ cq_ContentType req @ [LF] @
     ''Text sample:'' @ [LF] @ llm_truncate (cq_TextSample req) maxTextSampleBytes @ [LF, LF] @ ''Candidates:'' @ [LF] @
     str_join (map (\<lambda>(i, d). ''- '' @ i @ '': '' @ d) (cq_Candidates req)) [LF] @ [LF, LF] @
     ''Return JSON: {'' @ [CHR 0x22] @ ''candidate_id'' @ [CHR 0x22] @ '':'' @ [CHR 0x22] @ ''...'' @ [CHR 0x22] @ '','' @ [CHR 0x22] @ ''confidence'' @ [CHR 0x22] @
     '':0.0-1.0,'' @ [CHR 0x22] @ ''reason'' @ [CHR 0x22] @ '':'' @ [CHR 0x22] @ ''...'' @ [CHR 0x22] @ ''}. '' @
     ''If none fit, set candidate_id to '' @ [CHR 0x22] @ ''unknown'' @ [CHR 0x22] @ ''.''"

definition anthropic_Classify :: "anthropic_env \<Rightarrow> class_request \<Rightarrow> (int \<times> rat) list \<Rightarrow> class_response \<times> error option" where
  "anthropic_Classify v req spend =
     (if cq_Candidates req = []
      then (\<lparr>cr_CandidateID = '''', cr_Confidence = Fin 0, cr_Reason = '''',
             cr_Usage = (empty_usage v)\<lparr>u_Model := ''''\<rparr>\<rparr>, Some (ErrOther ''anthropic: no candidates''))
      else let r = callMessages v (classify_prompt req) spend in
        case cl_error r of
          Some e \<Rightarrow> (\<lparr>cr_CandidateID = '''', cr_Confidence = Fin 0, cr_Reason = '''', cr_Usage = cl_usage r\<rparr>, Some e)
        | None \<Rightarrow> (case an_parseClass v (extractJSON (cl_text r)) of
            ((cand, conf, reason), ok) \<Rightarrow>
              if \<not> ok then (\<lparr>cr_CandidateID = cand, cr_Confidence = conf, cr_Reason = reason, cr_Usage = cl_usage r\<rparr>,
                            Some (ErrOther ''anthropic: parse classify response''))
              else (\<lparr>cr_CandidateID = cand, cr_Confidence = clampConfidence conf, cr_Reason = reason, cr_Usage = cl_usage r\<rparr>, None)))"

definition decodeFieldExtraction :: "anthropic_env \<Rightarrow> string \<Rightarrow> string \<Rightarrow> llm_usage \<Rightarrow> field_response" where
  "decodeFieldExtraction v body fieldType usage =
     (let absent = \<lparr>fr_Value = ANil, fr_Confidence = Fin 0, fr_Reason = '''', fr_Usage = usage\<rparr> in
      if trim_space body = '''' then absent
      else case an_parseField v body of
        None \<Rightarrow> absent
      | Some (val, conf, reason) \<Rightarrow>
          (let coerced = (if fieldType = ''number''
                          then (case val of AString s \<Rightarrow> (case an_parseFloat v (trim_space s) of Some f \<Rightarrow> AFloat64 f | None \<Rightarrow> ANil) | _ \<Rightarrow> val)
                          else val)
           in \<lparr>fr_Value = coerced, fr_Confidence = clampConfidence conf, fr_Reason = reason, fr_Usage = usage\<rparr>))"

definition decodeIdentity :: "anthropic_env \<Rightarrow> string \<Rightarrow> llm_usage \<Rightarrow> identity_response" where
  "decodeIdentity v body usage =
     (let absent = \<lparr>ir_NamedInsured = '''', ir_EffectiveDate = '''', ir_Usage = usage\<rparr> in
      if trim_space body = '''' then absent
      else case an_parseIdentity v body of
        None \<Rightarrow> absent
      | Some (insured, date) \<Rightarrow> \<lparr>ir_NamedInsured = trim_space insured, ir_EffectiveDate = trim_space date, ir_Usage = usage\<rparr>)"

text \<open>\<open>%q\<close> of a field name without characters that need escaping is the name in double quotes.\<close>

definition field_prompt :: "field_request \<Rightarrow> string \<Rightarrow> string" where
  "field_prompt req fieldType =
     ''Extract the field '' @ [CHR 0x22] @ fq_FieldName req @ [CHR 0x22] @ '' ('' @ fieldType @ '') from the following document.'' @ [LF] @
     ''Description: '' @ fq_FieldDescription req @ [LF] @ ''Filename: '' @ fq_Filename req @ [LF] @ ''Text sample:'' @ [LF] @
     llm_truncate (fq_TextSample req) maxTextSampleBytes @ [LF, LF] @
     ''Call the report_field tool with the value. If the field is not present, '' @ ''call the tool with a null value.''"

definition anthropic_ExtractField :: "anthropic_env \<Rightarrow> field_request \<Rightarrow> (int \<times> rat) list \<Rightarrow> field_response \<times> error option" where
  "anthropic_ExtractField v req spend =
     (if fq_FieldName req = ''''
      then (\<lparr>fr_Value = ANil, fr_Confidence = Fin 0, fr_Reason = '''', fr_Usage = (empty_usage v)\<lparr>u_Model := ''''\<rparr>\<rparr>,
            Some (ErrOther ''anthropic: field name required''))
      else let t = to_lower (fq_FieldType req);
               fieldType = (if t \<noteq> ''number'' \<and> t \<noteq> ''string'' then ''string'' else t);
               r = callMessages v (field_prompt req fieldType) spend
           in case cl_error r of
                Some e \<Rightarrow> (\<lparr>fr_Value = ANil, fr_Confidence = Fin 0, fr_Reason = '''', fr_Usage = cl_usage r\<rparr>, Some e)
              | None \<Rightarrow> (decodeFieldExtraction v (cl_text r) fieldType (cl_usage r), None))"

definition identity_prompt :: "string \<Rightarrow> string \<Rightarrow> string" where
  "identity_prompt filename sample =
     ''From this insurance application, extract the named insured (the business or person the '' @
     ''policy covers) and the policy effective date.'' @ [LF] @ ''Filename: '' @ filename @ [LF] @ ''Text sample:'' @ [LF] @
     llm_truncate sample maxTextSampleBytes @ [LF, LF] @
     ''Call the report_identity tool. Leave a field empty if it is not present; give the '' @
     ''effective date as written on the document. Do not guess.''"

definition anthropic_ExtractIdentity :: "anthropic_env \<Rightarrow> string \<times> string \<Rightarrow> (int \<times> rat) list \<Rightarrow> identity_response \<times> error option" where
  "anthropic_ExtractIdentity v req spend =
     (let r = callMessages v (identity_prompt (fst req) (snd req)) spend in
      case cl_error r of
        Some e \<Rightarrow> (\<lparr>ir_NamedInsured = '''', ir_EffectiveDate = '''', ir_Usage = cl_usage r\<rparr>, Some e)
      | None \<Rightarrow> (decodeIdentity v (cl_text r) (cl_usage r), None))"

text \<open>The client the classifier and the service use, at a given state of the spend table.\<close>

definition anthropic_client :: "anthropic_env \<Rightarrow> (int \<times> rat) list \<Rightarrow> llm_client" where
  "anthropic_client v spend =
     \<lparr>llm_Classify = (\<lambda>req. anthropic_Classify v req spend), llm_ExtractField = (\<lambda>req. anthropic_ExtractField v req spend),
      llm_ExtractIdentity = (\<lambda>req. anthropic_ExtractIdentity v req spend)\<rparr>"

section \<open>The spend cap\<close>

text \<open>A call of a day with a working spend table, whose answer costs at most \<open>M\<close>.\<close>

definition day_call :: "int \<Rightarrow> rat \<Rightarrow> rat \<Rightarrow> anthropic_env \<Rightarrow> bool" where
  "day_call d cap M v \<longleftrightarrow> utcDay (an_now v) = d \<and> ant_DailyCapUSD (an_cfg v) = Fin cap \<and> an_tracksSpend v \<and> \<not> an_spendReadFails v \<and>
     (\<forall>i r. attempt v i = Inr r \<longrightarrow> call_cost v (ar_InputTokens r) (ar_OutputTokens r) \<le> M)"

lemma spend_today_day: "utcDay a = utcDay b \<Longrightarrow> spend_today a tbl = spend_today b tbl"
  by (simp add: spend_today_def)

lemma capped_iff:
  assumes "day_call d cap M v" "0 < cap"
  shows "capped v spend \<longleftrightarrow> cap \<le> spend_today (an_now v) spend"
  using assms by (auto simp: day_call_def capped_def)

lemma callMessages_capped: "capped v spend \<Longrightarrow> cl_requests (callMessages v p spend) = 0 \<and> cl_error (callMessages v p spend) \<noteq> None \<and> cl_spend (callMessages v p spend) = spend"
  by (simp add: callMessages_def)

lemma callMessages_spend:
  assumes "day_call d cap M v" and "0 \<le> M"
  shows "spend_today (an_now v) (cl_spend (callMessages v p spend)) \<le> spend_today (an_now v) spend + M"
proof -
  have "cl_spend (callMessages v p spend) = spend \<or>
      (\<exists>r i. attempt v i = Inr r \<and> cl_spend (callMessages v p spend) = spend_add (an_now v) (call_cost v (ar_InputTokens r) (ar_OutputTokens r)) spend)"
    unfolding callMessages_def Let_def by (auto split: option.split sum.split)
  then show ?thesis
  proof (elim disjE exE conjE)
    fix r i
    assume "attempt v i = Inr r" "cl_spend (callMessages v p spend) = spend_add (an_now v) (call_cost v (ar_InputTokens r) (ar_OutputTokens r)) spend"
    then show ?thesis using assms(1) by (auto simp: spend_add_today day_call_def)
  qed (use assms(2) in simp)
qed


definition sample_anthropic :: anthropic_env where
  "sample_anthropic = \<lparr>an_cfg = (ac_Anthropic default_config)\<lparr>ant_APIKey := ''k''\<rparr>, an_attempts = 3, an_base = 1,
     an_http = (\<lambda>_. HttpResponse 200 ''ok''),
     an_decode = (\<lambda>_. Some \<lparr>ar_Content = [\<lparr>cb_Type = ''text'', cb_Text = ''{}'', cb_inputJSON = None\<rparr>], ar_InputTokens = 6000000, ar_OutputTokens = 0, ar_ErrorMessage = None\<rparr>),
     an_ctxErr = (\<lambda>_. None), an_ctxDone = (\<lambda>_. None), an_jitter = (\<lambda>_ d. d), an_sha = (\<lambda>s. s), an_latencyMs = 1, an_now = 0,
     an_tracksSpend = True, an_spendReadFails = False, an_spendAddFails = False, an_parseClass = (\<lambda>_. (('''', Fin 0, ''''), True)),
     an_parseField = (\<lambda>_. None), an_parseIdentity = (\<lambda>_. None), an_parseFloat = (\<lambda>_. None)\<rparr>"

lemma sample_day_call: "day_call (utcDay 0) 10 6 sample_anthropic"
  by (auto simp: day_call_def sample_anthropic_def attempt_def classifyHTTPStatus_def call_cost_def modelPricing_def default_config_def)


section \<open>Answers\<close>

text \<open>Text of balanced braces, with string literals in which braces do not count.\<close>

inductive literal :: "string \<Rightarrow> bool" where
  nil: "literal []"
| plain: "c \<noteq> CHR 0x22 \<Longrightarrow> c \<noteq> CHR 0x5C \<Longrightarrow> literal s \<Longrightarrow> literal (c # s)"
| escape: "literal s \<Longrightarrow> literal (CHR 0x5C # c # s)"

inductive balanced :: "string \<Rightarrow> bool" where
  nil: "balanced []"
| other: "c \<notin> {CHR 0x22, CHR ''{'', CHR ''}''} \<Longrightarrow> balanced s \<Longrightarrow> balanced (c # s)"
| quoted: "literal l \<Longrightarrow> balanced s \<Longrightarrow> balanced ([CHR 0x22] @ l @ [CHR 0x22] @ s)"
| nested: "balanced b \<Longrightarrow> balanced s \<Longrightarrow> balanced ([CHR ''{''] @ b @ [CHR ''}''] @ s)"

lemma scan_literal: "literal l \<Longrightarrow> json_scan d True False (l @ s) = map_option (\<lambda>n. n + length l) (json_scan d True False s)"
  by (induction rule: literal.induct) (auto simp: option.map_comp comp_def option.map_ident)

lemma scan_balanced: "balanced b \<Longrightarrow> 0 < d \<Longrightarrow> json_scan d False False (b @ s) = map_option (\<lambda>n. n + length b) (json_scan d False False s)"
proof (induction arbitrary: d s rule: balanced.induct)
  case (quoted l b)
  then show ?case using scan_literal [OF quoted(1), of d "CHR 0x22 # b @ s"] by (simp add: option.map_comp comp_def ac_simps)
next
  case (nested b c)
  then show ?case by (simp add: option.map_comp comp_def ac_simps)
qed (auto simp: option.map_comp comp_def option.map_ident)

text \<open>
  The first object of an answer is found exactly: whatever text precedes it (without an opening brace) and
  follows it, and whatever braces and escaped quotes its strings contain, \<open>extractJSON\<close> returns the object alone.
\<close>

theorem first_object_extracted:
  assumes "CHR ''{'' \<notin> set prose" and "balanced body"
  shows "extractJSON (prose @ [CHR ''{''] @ body @ [CHR ''}''] @ rest) = [CHR ''{''] @ body @ [CHR ''}'']"
proof -
  have start: "str_index (prose @ CHR ''{'' # t) ''{'' = Some (length prose)" for t
    using assms(1) by (induction prose) (auto simp: has_prefix_def)
  have "json_scan 0 False False (CHR ''{'' # body @ CHR ''}'' # rest) = Some (Suc (Suc (length body)))"
    using scan_balanced [OF assms(2), of 1 "CHR ''}'' # rest"] by simp
  then show ?thesis by (simp add: extractJSON_def start)
qed

theorem first_object_extracted_witness:
  "extractJSON (''Sure: {'' @ [CHR 0x22] @ ''a}b'' @ [CHR 0x22] @ '':{}} done {'') = ''{'' @ [CHR 0x22] @ ''a}b'' @ [CHR 0x22] @ '':{}}''"
proof -
  have lit: "literal ''a}b''" by (intro literal.intros) simp_all
  have "balanced ('':{}'')" using balanced.other [OF _ balanced.nested [OF balanced.nil balanced.nil], of "CHR '':''"] by simp
  from balanced.quoted [OF lit this] first_object_extracted [of "''Sure: ''" "[CHR 0x22] @ ''a}b'' @ [CHR 0x22] @ '':{}''" "'' done {''"]
  show ?thesis by simp
qed

text \<open>Confidences the client reports lie between 0 and 1.\<close>

lemma clamp_unit: "\<exists>q. clampConfidence c = Fin q \<and> 0 \<le> q \<and> q \<le> 1"
  by (cases c) (auto simp: clampConfidence_def is_nan_or_inf_def)

lemma classify_confidence:
  "anthropic_Classify v req spend = (resp, None) \<Longrightarrow> \<exists>q. cr_Confidence resp = Fin q \<and> 0 \<le> q \<and> q \<le> 1"
  using clamp_unit by (auto simp: anthropic_Classify_def Let_def split: if_splits option.splits prod.splits)

lemma extract_confidence: "\<exists>q. fr_Confidence (decodeFieldExtraction v body t u) = Fin q \<and> 0 \<le> q \<and> q \<le> 1"
  using clamp_unit by (auto simp: decodeFieldExtraction_def Let_def split: option.splits prod.splits)

text \<open>
  C33. A classification gets through. When the key is set, the daily cap is not reached, the first attempts fail with errors
  that may be retried (no answer, rate limit, server error) and a later one within the budget is answered with text, then the
  candidate, the reason and the confidence are those of the first JSON object in that text, whatever prose without an opening
  brace precedes it, whatever follows it and whatever braces and escaped quotes its strings contain. The confidence is clamped to the unit
  interval, the usage is that of the answered attempt, and no further request is made.
\<close>

theorem classification_gets_through:
  assumes "cq_Candidates req \<noteq> []" and "ant_APIKey (an_cfg v) \<noteq> ''''" and "\<not> capped v spend"
    and "k < nat (max 1 (an_attempts v))" and "\<forall>j\<le>k. an_ctxErr v j = None"
    and "\<forall>j<k. an_ctxDone v j = None \<and> (\<exists>e. attempt v j = Inl e \<and> \<not> as_permanent e)" and "attempt v k = Inr r"
    and "\<forall>b\<in>set (ar_Content r). cb_Type b \<noteq> ''tool_use''"
    and "concat (map cb_Text (filter (\<lambda>b. cb_Type b = ''text'') (ar_Content r))) = prose @ [CHR ''{''] @ body @ [CHR ''}''] @ rest"
    and "CHR ''{'' \<notin> set prose" and "balanced body" and "an_parseClass v ([CHR ''{''] @ body @ [CHR ''}'']) = ((cand, conf, reason), True)"
  shows "\<exists>usage q. anthropic_Classify v req spend =
      (\<lparr>cr_CandidateID = cand, cr_Confidence = Fin q, cr_Reason = reason, cr_Usage = usage\<rparr>, None) \<and>
    0 \<le> q \<and> q \<le> 1 \<and> (\<forall>c. conf = Fin c \<and> 0 \<le> c \<and> c \<le> 1 \<longrightarrow> q = c) \<and>
    u_InputTokens usage = ar_InputTokens r \<and> u_OutputTokens usage = ar_OutputTokens r \<and>
    cl_requests (callMessages v (classify_prompt req) spend) = Suc k"
proof -
  have pass: "\<forall>j<k. passes (call_retry_env v) j" using assms(5,6) by (force simp: passes_def call_retry_env_def)
  have alive: "re_ctxErr (call_retry_env v) k = None" "re_fn (call_retry_env v) k = None" using assms(5,7) by (simp_all add: call_retry_env_def)
  note run = retry_Do_success [OF assms(4) pass alive, of "an_base v"]
  let ?c = "callMessages v (classify_prompt req) spend"
  have "find (\<lambda>b. cb_Type b = ''tool_use'' \<and> cb_inputJSON b \<noteq> None) (ar_Content r) = None" using assms(8) by (auto simp: find_None_iff)
  then have t: "extractResponseText r = prose @ [CHR ''{''] @ body @ [CHR ''}''] @ rest" using assms(9) by (simp add: extractResponseText_def)
  have call: "cl_error ?c = None" "cl_text ?c = extractResponseText r" "cl_requests ?c = Suc k"
    "u_InputTokens (cl_usage ?c) = ar_InputTokens r" "u_OutputTokens (cl_usage ?c) = ar_OutputTokens r"
    using run assms(2,3,7) by (simp_all add: callMessages_def Let_def)
  have "anthropic_Classify v req spend =
      (\<lparr>cr_CandidateID = cand, cr_Confidence = clampConfidence conf, cr_Reason = reason, cr_Usage = cl_usage ?c\<rparr>, None)"
    using assms(1,12) call(1,2) t first_object_extracted [OF assms(10,11), of rest] by (simp add: anthropic_Classify_def Let_def)
  moreover obtain q where q: "clampConfidence conf = Fin q" "0 \<le> q" "q \<le> 1" using clamp_unit by blast
  moreover have "conf = Fin c \<and> 0 \<le> c \<and> c \<le> 1 \<longrightarrow> q = c" for c
    using q(1) by (auto simp: clampConfidence_def is_nan_or_inf_def split: if_splits)
  ultimately show ?thesis using call by auto
qed

definition chatty_anthropic :: anthropic_env where
  "chatty_anthropic = sample_anthropic\<lparr>an_http := (\<lambda>i. if i = 0 then HttpResponse 503 '''' else HttpResponse 200 ''ok''),
     an_decode := (\<lambda>_. Some \<lparr>ar_Content = [\<lparr>cb_Type = ''text'', cb_Text = ''Sure: {}!'', cb_inputJSON = None\<rparr>],
       ar_InputTokens = 7, ar_OutputTokens = 1, ar_ErrorMessage = None\<rparr>),
     an_parseClass := (\<lambda>s. if s = ''{}'' then ((''loss_runs'', Fin 2, ''''), True) else (('''', Fin 0, ''''), False))\<rparr>"

theorem classification_gets_through_witness:
  "\<exists>usage q. anthropic_Classify chatty_anthropic \<lparr>cq_Filename = ''a.pdf'', cq_ContentType = '''', cq_TextSample = ''losses'',
       cq_Candidates = [(''loss_runs'', ''Loss runs'')], cq_PolicyType = ''cgl''\<rparr> [] =
     (\<lparr>cr_CandidateID = ''loss_runs'', cr_Confidence = Fin q, cr_Reason = '''', cr_Usage = usage\<rparr>, None) \<and> q \<le> 1 \<and> u_InputTokens usage = 7"
proof -
  let ?req = "\<lparr>cq_Filename = ''a.pdf'', cq_ContentType = '''', cq_TextSample = ''losses'', cq_Candidates = [(''loss_runs'', ''Loss runs'')], cq_PolicyType = ''cgl''\<rparr>"
  let ?r = "\<lparr>ar_Content = [\<lparr>cb_Type = ''text'', cb_Text = ''Sure: {}!'', cb_inputJSON = None\<rparr>], ar_InputTokens = 7, ar_OutputTokens = 1, ar_ErrorMessage = None\<rparr>"
  have key: "ant_APIKey (an_cfg chatty_anthropic) \<noteq> ''''" "\<not> capped chatty_anthropic []" "1 < nat (max 1 (an_attempts chatty_anthropic))"
    by (simp_all add: chatty_anthropic_def sample_anthropic_def capped_def default_config_def spend_today_def lookup_by_def)
  have alive: "\<forall>j\<le>1. an_ctxErr chatty_anthropic j = None" by (simp add: chatty_anthropic_def sample_anthropic_def)
  have first: "\<forall>j<1. an_ctxDone chatty_anthropic j = None \<and> (\<exists>e. attempt chatty_anthropic j = Inl e \<and> \<not> as_permanent e)"
    by (simp add: chatty_anthropic_def sample_anthropic_def attempt_def classifyHTTPStatus_def)
  have then_ok: "attempt chatty_anthropic 1 = Inr ?r" by (simp add: chatty_anthropic_def attempt_def classifyHTTPStatus_def)
  have parsed: "an_parseClass chatty_anthropic ([CHR ''{''] @ [] @ [CHR ''}'']) = ((''loss_runs'', Fin 2, ''''), True)"
    by (simp add: chatty_anthropic_def)
  have "\<exists>usage q. anthropic_Classify chatty_anthropic ?req [] =
        (\<lparr>cr_CandidateID = ''loss_runs'', cr_Confidence = Fin q, cr_Reason = '''', cr_Usage = usage\<rparr>, None) \<and> 0 \<le> q \<and> q \<le> 1 \<and>
      (\<forall>c. Fin 2 = Fin c \<and> 0 \<le> c \<and> c \<le> 1 \<longrightarrow> q = c) \<and> u_InputTokens usage = ar_InputTokens ?r \<and> u_OutputTokens usage = ar_OutputTokens ?r \<and>
      cl_requests (callMessages chatty_anthropic (classify_prompt ?req) []) = Suc 1"
    by (rule classification_gets_through [OF _ key alive first then_ok _ _ _ balanced.nil parsed, where prose = "''Sure: ''" and rest = "''!''"]) simp_all
  then show ?thesis by auto
qed

end
