(* ===== verification/Llm_Request.thy ===== *)
theory Llm_Request
  imports Llm_Client
begin

text \<open>
  The requests of \<open>internal/infrastructure/llm/anthropic.go\<close>: the typed body of each call with its tools, the JSON it is
  marshalled to, and the HTTP request. The JSON encoder is that of \<open>encoding/json\<close> on the types in
  use, with its escaping of quotes, control characters, HTML characters, line separators and bytes that are not UTF-8.

  The lemmas show that what is quoted is read back, so the text of a document, which anybody may have written, stays inside
  its JSON string.
\<close>

section \<open>Strings in JSON\<close>

definition json_hex :: "nat \<Rightarrow> char" where
  "json_hex n = ''0123456789abcdef'' ! n"

definition hex_value :: "char \<Rightarrow> nat option" where
  "hex_value c =
     (if 48 \<le> char_code c \<and> char_code c \<le> 57 then Some (char_code c - 48)
      else if 97 \<le> char_code c \<and> char_code c \<le> 102 then Some (char_code c - 87)
      else if 65 \<le> char_code c \<and> char_code c \<le> 70 then Some (char_code c - 55)
      else None)"

definition cont_byte :: "char \<Rightarrow> bool" where
  "cont_byte c \<longleftrightarrow> 128 \<le> char_code c \<and> char_code c \<le> 191"

text \<open>The width of the encoded rune a string that starts with a byte of 128 or more begins with; 0 when it is not UTF-8.\<close>

definition rune_width :: "string \<Rightarrow> nat" where
  "rune_width s = (case s of
       a # b # c # d # _ \<Rightarrow>
         (if 194 \<le> char_code a \<and> char_code a \<le> 223 \<and> cont_byte b then 2
          else if 224 \<le> char_code a \<and> char_code a \<le> 239 \<and> cont_byte b \<and> cont_byte c \<and>
            (char_code a = 224 \<longrightarrow> 160 \<le> char_code b) \<and> (char_code a = 237 \<longrightarrow> char_code b \<le> 159) then 3
          else if 240 \<le> char_code a \<and> char_code a \<le> 244 \<and> cont_byte b \<and> cont_byte c \<and> cont_byte d \<and>
            (char_code a = 240 \<longrightarrow> 144 \<le> char_code b) \<and> (char_code a = 244 \<longrightarrow> char_code b \<le> 143) then 4 else 0)
     | [a, b, c] \<Rightarrow>
         (if 194 \<le> char_code a \<and> char_code a \<le> 223 \<and> cont_byte b then 2
          else if 224 \<le> char_code a \<and> char_code a \<le> 239 \<and> cont_byte b \<and> cont_byte c \<and>
            (char_code a = 224 \<longrightarrow> 160 \<le> char_code b) \<and> (char_code a = 237 \<longrightarrow> char_code b \<le> 159) then 3 else 0)
     | [a, b] \<Rightarrow> (if 194 \<le> char_code a \<and> char_code a \<le> 223 \<and> cont_byte b then 2 else 0)
     | _ \<Rightarrow> 0)"

definition escape_byte :: "char \<Rightarrow> string" where
  "escape_byte c =
     (let n = char_code c in
      if n = 34 \<or> n = 92 then [CHR 0x5C, c]
      else if n = 8 then [CHR 0x5C, CHR ''b'']
      else if n = 12 then [CHR 0x5C, CHR ''f'']
      else if n = 10 then [CHR 0x5C, CHR ''n'']
      else if n = 13 then [CHR 0x5C, CHR ''r'']
      else if n = 9 then [CHR 0x5C, CHR ''t'']
      else if n < 32 \<or> n = 60 \<or> n = 62 \<or> n = 38 then CHR 0x5C # ''u00'' @ [json_hex (n div 16), json_hex (n mod 16)]
      else [c])"

function escape_string :: "string \<Rightarrow> string" where
  "escape_string [] = []"
| "escape_string (c # s) =
     (if char_code c < 128 then escape_byte c @ escape_string s
      else let w = rune_width (c # s) in
        if w = 0 then CHR 0x5C # ''ufffd'' @ escape_string s
        else if take 3 (c # s) = [CHR 0xE2, CHR 0x80, CHR 0xA8] \<or> take 3 (c # s) = [CHR 0xE2, CHR 0x80, CHR 0xA9]
        then CHR 0x5C # ''u202'' @ [json_hex (char_code ((c # s) ! 2) mod 16)] @ escape_string (drop (w - 1) s)
        else take w (c # s) @ escape_string (drop (w - 1) s))"
  by pat_completeness auto
termination by (relation "measure length") auto

definition json_quote :: "string \<Rightarrow> string" where
  "json_quote s = CHR 0x22 # escape_string s @ [CHR 0x22]"

section \<open>Reading a string back\<close>

text \<open>The string of a JSON text after its opening quote, as a reader of JSON decodes it, with what follows it.\<close>

definition utf8_encode :: "nat \<Rightarrow> string" where
  "utf8_encode n =
     (if n < 128 then [char_of n]
      else if n < 2048 then [char_of (192 + n div 64), char_of (128 + n mod 64)]
      else [char_of (224 + n div 4096), char_of (128 + n div 64 mod 64), char_of (128 + n mod 64)])"

definition hex4 :: "char \<Rightarrow> char \<Rightarrow> char \<Rightarrow> char \<Rightarrow> nat option" where
  "hex4 a b c d = (case (hex_value a, hex_value b, hex_value c, hex_value d) of
       (Some w, Some x, Some y, Some z) \<Rightarrow> Some (((w * 16 + x) * 16 + y) * 16 + z)
     | _ \<Rightarrow> None)"

definition simple_escape :: "char \<Rightarrow> char option" where
  "simple_escape e = map_of [(CHR 0x22, CHR 0x22), (CHR 0x5C, CHR 0x5C), (CHR ''/'', CHR ''/''), (CHR ''b'', CHR 0x08), (CHR ''f'', CHR 0x0C),
     (CHR ''n'', CHR 0x0A), (CHR ''r'', CHR 0x0D), (CHR ''t'', CHR 0x09)] e"

function json_unquote :: "string \<Rightarrow> (string \<times> string) option" where
  "json_unquote [] = None"
| "json_unquote (c # s) =
     (if c = CHR 0x22 then Some ([], s)
      else if char_code c < 32 then None
      else if c \<noteq> CHR 0x5C then map_option (apfst (Cons c)) (json_unquote s)
      else case s of
        [] \<Rightarrow> None
      | e # t \<Rightarrow>
          if e = CHR ''u'' then (case t of
              h1 # h2 # h3 # h4 # t' \<Rightarrow>
                (case hex4 h1 h2 h3 h4 of None \<Rightarrow> None | Some n \<Rightarrow> map_option (apfst ((@) (utf8_encode n))) (json_unquote t'))
            | _ \<Rightarrow> None)
          else (case simple_escape e of None \<Rightarrow> None | Some x \<Rightarrow> map_option (apfst (Cons x)) (json_unquote t)))"
  by pat_completeness auto
termination by (relation "measure length") auto

text \<open>The string with every byte that is not UTF-8 replaced by U+FFFD.\<close>

function to_valid :: "string \<Rightarrow> string" where
  "to_valid [] = []"
| "to_valid (c # s) =
     (if char_code c < 128 then c # to_valid s
      else let w = rune_width (c # s) in
        if w = 0 then [CHR 0xEF, CHR 0xBF, CHR 0xBD] @ to_valid s else take w (c # s) @ to_valid (drop (w - 1) s))"
  by pat_completeness auto
termination by (relation "measure length") auto

declare escape_string.simps(2) [simp del] json_unquote.simps(2) [simp del] to_valid.simps(2) [simp del]

lemma hex_value_json_hex: "n < 16 \<Longrightarrow> hex_value (json_hex n) = Some n"
proof -
  have "list_all (\<lambda>n. hex_value (json_hex n) = Some n) [0..<16]" by code_simp
  then show "n < 16 \<Longrightarrow> hex_value (json_hex n) = Some n" by (simp add: list_all_iff)
qed

lemma unquote_plain:
  assumes "list_all (\<lambda>c. 32 \<le> char_code c \<and> c \<noteq> CHR 0x22 \<and> c \<noteq> CHR 0x5C) bs"
  shows "json_unquote (bs @ t) = map_option (apfst ((@) bs)) (json_unquote t)"
  using assms
proof (induction bs)
  case (Cons b bs)
  then have "json_unquote ((b # bs) @ t) = map_option (apfst (Cons b)) (json_unquote (bs @ t))" by (simp add: json_unquote.simps(2))
  then show ?case using Cons by (cases "json_unquote t") auto
qed (simp add: option.map_id0 apfst_def map_prod_def option.map_ident)

lemma char_code_eq: "char_code c = char_code d \<longleftrightarrow> c = d"
  by (simp add: char_code_def)

lemma hex4_byte: "n < 256 \<Longrightarrow> hex4 (CHR ''0'') (CHR ''0'') (json_hex (n div 16)) (json_hex (n mod 16)) = Some n"
proof -
  assume "n < 256"
  then have "hex_value (json_hex (n div 16)) = Some (n div 16)" "hex_value (json_hex (n mod 16)) = Some (n mod 16)"
    by (auto intro: hex_value_json_hex)
  moreover have "hex_value (CHR ''0'') = Some 0" by (simp add: hex_value_def char_code_def)
  ultimately show ?thesis by (simp add: hex4_def)
qed

lemma unquote_hex:
  "hex4 a b c d = Some n \<Longrightarrow>
   json_unquote (CHR 0x5C # CHR ''u'' # a # b # c # d # t) = map_option (apfst ((@) (utf8_encode n))) (json_unquote t)"
  by (subst json_unquote.simps(2)) (simp add: char_code_def)

text \<open>What escapes a byte, and that each escape is read as it.\<close>

lemma escape_byte_cases:
  assumes "char_code c < 128"
  obtains (simple) x where "escape_byte c = [CHR 0x5C, x]" "x \<noteq> CHR ''u''" "simple_escape x = Some c"
  | (hex) "escape_byte c = CHR 0x5C # ''u00'' @ [json_hex (char_code c div 16), json_hex (char_code c mod 16)]"
  | (plain) "escape_byte c = [c]" "32 \<le> char_code c" "c \<noteq> CHR 0x22" "c \<noteq> CHR 0x5C"
proof -
  have codes: "char_code (CHR 0x22) = 34" "char_code (CHR 0x5C) = 92" "char_code (CHR 0x08) = 8" "char_code (CHR 0x0C) = 12"
    "char_code (CHR 0x0A) = 10" "char_code (CHR 0x0D) = 13" "char_code (CHR 0x09) = 9" by (simp_all add: char_code_def)
  show thesis
  proof (cases "c \<in> {CHR 0x22, CHR 0x5C, CHR 0x08, CHR 0x0C, CHR 0x0A, CHR 0x0D, CHR 0x09}")
    case True
    define pairs where "pairs = [(CHR 0x22, CHR 0x22), (CHR 0x5C, CHR 0x5C), (CHR 0x08, CHR ''b''), (CHR 0x0C, CHR ''f''), (CHR 0x0A, CHR ''n''),
      (CHR 0x0D, CHR ''r''), (CHR 0x09, CHR ''t'')]"
    have all: "list_all (\<lambda>(c, x). escape_byte c = [CHR 0x5C, x] \<and> x \<noteq> CHR ''u'' \<and> simple_escape x = Some c) pairs"
      unfolding pairs_def by code_simp
    have "c \<in> fst ` set pairs" using True by (simp add: pairs_def)
    then obtain x where "(c, x) \<in> set pairs" by force
    then have "escape_byte c = [CHR 0x5C, x] \<and> x \<noteq> CHR ''u'' \<and> simple_escape x = Some c"
      using all unfolding list_all_iff by auto
    then show thesis using simple by blast
  next
    case False
    then have n: "char_code c \<noteq> 34" "char_code c \<noteq> 92" "char_code c \<noteq> 8" "char_code c \<noteq> 12" "char_code c \<noteq> 10"
      "char_code c \<noteq> 13" "char_code c \<noteq> 9" unfolding codes [symmetric] char_code_eq by auto
    show thesis
    proof (cases "char_code c < 32 \<or> char_code c = 60 \<or> char_code c = 62 \<or> char_code c = 38")
      case True
      then show thesis using n by (intro hex) (simp add: escape_byte_def Let_def)
    next
      case not_hex: False
      then show thesis using n False by (intro plain) (auto simp: escape_byte_def Let_def)
    qed
  qed
qed

lemma unquote_escape_byte:
  assumes "char_code c < 128"
  shows "json_unquote (escape_byte c @ t) = map_option (apfst (Cons c)) (json_unquote t)"
  using assms
proof (cases rule: escape_byte_cases)
  case (simple x)
  then show ?thesis by (simp add: json_unquote.simps(2) char_code_def)
next
  case hex
  have "utf8_encode (char_code c) = [c]" using assms by (simp add: utf8_encode_def char_code_def)
  then show ?thesis using hex unquote_hex [OF hex4_byte, of "char_code c" t] assms by (cases "json_unquote t") auto
next
  case plain
  then show ?thesis using unquote_plain [of "[c]" t] by (cases "json_unquote t") auto
qed

text \<open>A rune of several bytes is copied, unless it is a line separator.\<close>

lemma rune_bytes:
  assumes "rune_width (c # s) = w" and "w \<noteq> 0"
  shows "2 \<le> w \<and> w \<le> length (c # s) \<and> list_all (\<lambda>b. 128 \<le> char_code b) (take w (c # s))"
  using assms by (auto simp: rune_width_def cont_byte_def numeral_2_eq_2 numeral_3_eq_3 numeral_eq_Suc split: list.splits if_splits)

lemma high_plain: "list_all (\<lambda>b. 128 \<le> char_code b) bs \<Longrightarrow> list_all (\<lambda>c. 32 \<le> char_code c \<and> c \<noteq> CHR 0x22 \<and> c \<noteq> CHR 0x5C) bs"
  by (induction bs) (auto simp: char_code_def)

lemma separator_width: "take 3 (c # s) = [CHR 0xE2, CHR 0x80, CHR 0xA8] \<or> take 3 (c # s) = [CHR 0xE2, CHR 0x80, CHR 0xA9] \<Longrightarrow>
   128 \<le> char_code c \<and> rune_width (c # s) = 3"
proof -
  assume sep: "take 3 (c # s) = [CHR 0xE2, CHR 0x80, CHR 0xA8] \<or> take 3 (c # s) = [CHR 0xE2, CHR 0x80, CHR 0xA9]"
  then obtain x s' where s: "c = CHR 0xE2" "s = CHR 0x80 # x # s'" "x = CHR 0xA8 \<or> x = CHR 0xA9"
    by (cases s; cases "tl s") auto
  then show ?thesis by (cases s') (auto simp: rune_width_def cont_byte_def char_code_def)
qed

lemma unquote_separator:
  assumes "c = CHR 0xE2" and "s = CHR 0x80 # x # r" and "x = CHR 0xA8 \<or> x = CHR 0xA9"
  shows "json_unquote (CHR 0x5C # ''u202'' @ [json_hex (char_code x mod 16)] @ t) = map_option (apfst ((@) [c, CHR 0x80, x])) (json_unquote t)"
proof -
  have "hex4 (CHR ''2'') (CHR ''0'') (CHR ''2'') (json_hex (char_code (CHR 0xA8) mod 16)) = Some 8232"
    "hex4 (CHR ''2'') (CHR ''0'') (CHR ''2'') (json_hex (char_code (CHR 0xA9) mod 16)) = Some 8233" by code_simp+
  moreover have "utf8_encode 8232 = [CHR 0xE2, CHR 0x80, CHR 0xA8]" "utf8_encode 8233 = [CHR 0xE2, CHR 0x80, CHR 0xA9]"
    by (simp_all add: utf8_encode_def char_of_eq_iff take_bit_eq_mod)
  ultimately show ?thesis using assms(1,3) unquote_hex [of "CHR ''2''" "CHR ''0''" "CHR ''2''"] by auto
qed

lemma unquote_invalid: "json_unquote (CHR 0x5C # ''ufffd'' @ t) = map_option (apfst ((@) [CHR 0xEF, CHR 0xBF, CHR 0xBD])) (json_unquote t)"
proof -
  have "hex4 (CHR ''f'') (CHR ''f'') (CHR ''f'') (CHR ''d'') = Some 65533" by (simp add: hex4_def hex_value_def char_code_def)
  moreover have "utf8_encode 65533 = [CHR 0xEF, CHR 0xBF, CHR 0xBD]" by (simp add: utf8_encode_def char_of_eq_iff take_bit_eq_mod)
  ultimately show ?thesis using unquote_hex [of "CHR ''f''" "CHR ''f''" "CHR ''f''" "CHR ''d''" 65533 t] by simp
qed

lemma map_option_apfst: "map_option (apfst f) (map_option (apfst g) x) = map_option (apfst (\<lambda>y. f (g y))) x"
  by (cases x) auto

lemma unquote_escape: "json_unquote (escape_string s @ t) = map_option (apfst ((@) (to_valid s))) (json_unquote t)"
proof (induction s rule: escape_string.induct)
  case 1
  then show ?case by (cases "json_unquote t") auto
next
  case (2 c s)
  let ?w = "rune_width (c # s)"
  consider (ascii) "char_code c < 128" | (bad) "\<not> char_code c < 128" "?w = 0"
    | (sep) "\<not> char_code c < 128" "?w \<noteq> 0" "take 3 (c # s) = [CHR 0xE2, CHR 0x80, CHR 0xA8] \<or> take 3 (c # s) = [CHR 0xE2, CHR 0x80, CHR 0xA9]"
    | (rune) "\<not> char_code c < 128" "?w \<noteq> 0" "\<not> (take 3 (c # s) = [CHR 0xE2, CHR 0x80, CHR 0xA8] \<or> take 3 (c # s) = [CHR 0xE2, CHR 0x80, CHR 0xA9])"
    by blast
  then show ?case
  proof cases
    case ascii
    then show ?thesis using 2(1) unquote_escape_byte [OF ascii] by (simp add: escape_string.simps(2) to_valid.simps(2) map_option_apfst)
  next
    case bad
    then show ?thesis using 2(2) [OF bad(1) refl bad(2)] unquote_invalid
      by (simp add: escape_string.simps(2) to_valid.simps(2) map_option_apfst)
  next
    case sep
    then obtain x r where s: "c = CHR 0xE2" "s = CHR 0x80 # x # r" "x = CHR 0xA8 \<or> x = CHR 0xA9" by (cases s; cases "tl s") auto
    have w: "?w = 3" using separator_width [OF sep(3)] by simp
    have "escape_string (c # s) = CHR 0x5C # ''u202'' @ [json_hex (char_code x mod 16)] @ escape_string r"
      using sep s w by (simp add: escape_string.simps(2))
    moreover have "to_valid (c # s) = [c, CHR 0x80, x] @ to_valid r" using sep(1,2) s w by (simp add: to_valid.simps(2))
    moreover have "json_unquote (escape_string r @ t) = map_option (apfst ((@) (to_valid r))) (json_unquote t)"
      using 2(3) [OF sep(1) refl sep(2,3)] s w by simp
    ultimately show ?thesis using unquote_separator [OF s, of "escape_string r @ t"] by (simp add: map_option_apfst)
  next
    case rune
    note b = rune_bytes [OF refl rune(2)]
    have "escape_string (c # s) = take ?w (c # s) @ escape_string (drop (?w - 1) s)"
      unfolding escape_string.simps(2) Let_def using rune by (simp only: if_False)
    moreover have "to_valid (c # s) = take ?w (c # s) @ to_valid (drop (?w - 1) s)"
      unfolding to_valid.simps(2) Let_def using rune(1,2) by (simp only: if_False)
    moreover have "json_unquote (take ?w (c # s) @ u) = map_option (apfst ((@) (take ?w (c # s)))) (json_unquote u)" for u
      by (rule unquote_plain) (use b high_plain in blast)
    ultimately show ?thesis using 2(4) [OF rune(1) refl rune(2,3)] by (simp add: map_option_apfst)
  qed
qed

section \<open>Requests\<close>

datatype json = JStr string | JInt int | JArr "json list" | JObj "(string \<times> json) list"

text \<open>\<open>json.Marshal\<close>: a struct in the order of its fields; a map with its keys sorted, which is how maps are written below.\<close>

fun json_Marshal :: "json \<Rightarrow> string" where
  "json_Marshal (JStr s) = json_quote s"
| "json_Marshal (JInt n) = int_str n"
| "json_Marshal (JArr js) = ''['' @ str_join (map json_Marshal js) '','' @ '']''"
| "json_Marshal (JObj kvs) = ''{'' @ str_join (map (\<lambda>(k, j). json_quote k @ '':'' @ json_Marshal j) kvs) '','' @ ''}''"

record anthropic_message =
  am_Role :: string
  am_Content :: string

record anthropic_tool =
  at_Name :: string
  at_Description :: string
  at_InputSchema :: json

record anthropic_request =
  aq_Model :: string
  aq_MaxTokens :: int
  aq_Messages :: "anthropic_message list"
  aq_System :: string
  aq_Tools :: "anthropic_tool list"
  aq_ToolChoice :: "(string \<times> string) option"

definition typed :: "string \<Rightarrow> json" where
  "typed t = JObj [(''type'', JStr t)]"

definition field_tool :: "string \<Rightarrow> anthropic_tool" where
  "field_tool fieldType =
     \<lparr>at_Name = ''report_field'', at_Description = ''Report the extracted field value from the document.'',
      at_InputSchema = JObj
        [(''properties'', JObj [(''confidence'', typed ''number''), (''reason'', typed ''string''),
           (''value'', JObj [(''type'', JArr [JStr fieldType, JStr ''null''])])]),
         (''required'', JArr [JStr ''value'']), (''type'', JStr ''object'')]\<rparr>"

definition identity_tool :: anthropic_tool where
  "identity_tool =
     \<lparr>at_Name = ''report_identity'', at_Description = ''Report the named insured and effective date from the application.'',
      at_InputSchema = JObj
        [(''properties'', JObj [(''effective_date'', typed ''string''), (''named_insured'', typed ''string'')]),
         (''required'', JArr [JStr ''named_insured'']), (''type'', JStr ''object'')]\<rparr>"

definition buildFieldExtractionPrompt :: "field_request \<Rightarrow> string \<Rightarrow> string \<times> anthropic_tool" where
  "buildFieldExtractionPrompt req fieldType = (field_prompt req fieldType, field_tool fieldType)"

definition user_request :: "anthropic_config \<Rightarrow> string \<Rightarrow> anthropic_tool list \<Rightarrow> string \<Rightarrow> anthropic_request" where
  "user_request c sys tools prompt =
     \<lparr>aq_Model = ant_Model c, aq_MaxTokens = ant_MaxTokens c, aq_Messages = [\<lparr>am_Role = ''user'', am_Content = prompt\<rparr>], aq_System = sys,
      aq_Tools = tools, aq_ToolChoice = (case tools of [] \<Rightarrow> None | tool # _ \<Rightarrow> Some (''tool'', at_Name tool))\<rparr>"

definition classify_request :: "anthropic_config \<Rightarrow> class_request \<Rightarrow> anthropic_request" where
  "classify_request c req = user_request c ''Respond with JSON only, no prose, no code fences.'' [] (classify_prompt req)"

definition field_request_body :: "anthropic_config \<Rightarrow> field_request \<Rightarrow> string \<Rightarrow> anthropic_request" where
  "field_request_body c req fieldType =
     (let (prompt, tool) = buildFieldExtractionPrompt req fieldType
      in user_request c ''You extract structured fields from insurance documents. Use the report_field tool.'' [tool] prompt)"

definition identity_request_body :: "anthropic_config \<Rightarrow> string \<Rightarrow> string \<Rightarrow> anthropic_request" where
  "identity_request_body c filename sample =
     user_request c ''You extract the account identity from insurance applications. Use the report_identity tool.'' [identity_tool]
       (identity_prompt filename sample)"

text \<open>The fields of a request in the order of the struct; the empty ones marked so are left out.\<close>

definition message_json :: "anthropic_message \<Rightarrow> json" where
  "message_json m = JObj [(''role'', JStr (am_Role m)), (''content'', JStr (am_Content m))]"

definition tool_json :: "anthropic_tool \<Rightarrow> json" where
  "tool_json t = JObj [(''name'', JStr (at_Name t)), (''description'', JStr (at_Description t)), (''input_schema'', at_InputSchema t)]"

definition request_json :: "anthropic_request \<Rightarrow> json" where
  "request_json q = JObj
     ([(''model'', JStr (aq_Model q)), (''max_tokens'', JInt (aq_MaxTokens q)), (''messages'', JArr (map message_json (aq_Messages q)))] @
      (if aq_System q = '''' then [] else [(''system'', JStr (aq_System q))]) @
      (if aq_Tools q = [] then [] else [(''tools'', JArr (map tool_json (aq_Tools q)))]) @
      (case aq_ToolChoice q of
         None \<Rightarrow> []
       | Some (ty, name) \<Rightarrow> [(''tool_choice'', JObj ([(''type'', JStr ty)] @ (if name = '''' then [] else [(''name'', JStr name)])))]))"

record http_post =
  hp_URL :: string
  hp_Headers :: "(string \<times> string) list"
  hp_Body :: string

definition newRequest :: "anthropic_config \<Rightarrow> string \<Rightarrow> http_post" where
  "newRequest c payload =
     \<lparr>hp_URL = ''https://api.anthropic.com/v1/messages'',
      hp_Headers = [(''Content-Type'', ''application/json''), (''x-api-key'', ant_APIKey c), (''anthropic-version'', ''2023-06-01'')],
      hp_Body = payload\<rparr>"

text \<open>\<open>NewAnthropicClient\<close>: the settings of the client, and whether it warns that the model has no price.\<close>

definition newAnthropicClient :: "anthropic_config \<Rightarrow> int \<Rightarrow> duration \<Rightarrow> (duration \<times> int \<times> duration) \<times> bool" where
  "newAnthropicClient c retryAttempts retryBase = ((anthropicTimeout c, retryAttempts, retryBase), modelPricing (ant_Model c) = None)"

lemma marshal_message: "json_Marshal (message_json m) =
   ''{'' @ json_quote ''role'' @ '':'' @ json_quote (am_Role m) @ '','' @ json_quote ''content'' @ '':'' @ json_quote (am_Content m) @ ''}''"
  by (simp add: message_json_def)

text \<open>The payload before and after the JSON string of the prompt.\<close>

definition payload_before :: "anthropic_config \<Rightarrow> string" where
  "payload_before c = ''{'' @ json_quote ''model'' @ '':'' @ json_quote (ant_Model c) @ '','' @ json_quote ''max_tokens'' @ '':'' @ int_str (ant_MaxTokens c) @ '','' @
     json_quote ''messages'' @ '':[{'' @ json_quote ''role'' @ '':'' @ json_quote ''user'' @ '','' @ json_quote ''content'' @ '':''"

lemma payload_shape:
  "\<exists>suffix. \<forall>prompt. json_Marshal (request_json (user_request c sys tools prompt)) = payload_before c @ json_quote prompt @ ''}]'' @ suffix"
proof -
  define tail where "tail = (if sys = '''' then [] else [(''system'', JStr sys)]) @
      (if tools = [] then [] else [(''tools'', JArr (map tool_json tools))]) @
      (case (case tools of [] \<Rightarrow> None | tool # _ \<Rightarrow> Some (''tool'', at_Name tool)) of
         None \<Rightarrow> []
       | Some (ty, name) \<Rightarrow> [(''tool_choice'', JObj ([(''type'', JStr ty)] @ (if name = '''' then [] else [(''name'', JStr name)])))])"
  define pr where "pr = (\<lambda>(k, j). json_quote k @ '':'' @ json_Marshal j)"
  have join: "str_join (a # b # c # xs) sep = a @ sep @ b @ sep @ c @ (if xs = [] then [] else sep @ str_join xs sep)" for a b c xs sep
    by (cases xs) simp_all
  have rj: "request_json (user_request c sys tools prompt) = JObj ((''model'', JStr (ant_Model c)) # (''max_tokens'', JInt (ant_MaxTokens c)) #
      (''messages'', JArr [message_json \<lparr>am_Role = ''user'', am_Content = prompt\<rparr>]) # tail)" for prompt
    unfolding request_json_def user_request_def tail_def by simp
  have "json_Marshal (request_json (user_request c sys tools prompt)) = ''{'' @ str_join (pr (''model'', JStr (ant_Model c)) #
      pr (''max_tokens'', JInt (ant_MaxTokens c)) # pr (''messages'', JArr [message_json \<lparr>am_Role = ''user'', am_Content = prompt\<rparr>]) # map pr tail) '','' @ ''}''" for prompt
    unfolding rj json_Marshal.simps pr_def [symmetric] list.map ..
  then have "json_Marshal (request_json (user_request c sys tools prompt)) =
      payload_before c @ json_quote prompt @ ''}]'' @ (if tail = [] then [] else '','' @ str_join (map pr tail) '','') @ ''}''" for prompt
    unfolding join by (simp add: payload_before_def pr_def marshal_message)
  then show ?thesis by blast
qed

lemma quote_reads: "json_quote s @ rest = CHR 0x22 # (escape_string s @ CHR 0x22 # rest)"
  "json_unquote (escape_string s @ CHR 0x22 # rest) = Some (to_valid s, rest)"
  by (simp_all add: json_quote_def unquote_escape json_unquote.simps(2))

lemma to_valid_ascii: "list_all (\<lambda>c. char_code c < 128) s \<Longrightarrow> to_valid s = s"
  by (induction s) (simp_all add: to_valid.simps(2))

lemma prompt_confined:
  "\<exists>rest. \<forall>prompt. \<exists>body. json_Marshal (request_json (user_request c sys tools prompt)) = payload_before c @ CHR 0x22 # body \<and>
     json_unquote body = Some (to_valid prompt, ''}]'' @ rest)"
proof -
  obtain suffix where "\<forall>prompt. json_Marshal (request_json (user_request c sys tools prompt)) = payload_before c @ json_quote prompt @ ''}]'' @ suffix"
    using payload_shape by blast
  then show ?thesis using quote_reads by metis
qed


end
