(* ===== verification/Service_Invariant.thy ===== *)
theory Service_Invariant
  imports Sweep_Service
begin

text \<open>
  The service as a transition system: what its goroutines do concurrently, as interleaved steps.

  A state is the world together with the deliveries in flight: a reply worker between taking a job and
  finishing it, or the outbox worker between claiming a row and reading it again, or between reading it and recording what
  came of sending it. While a delivery is in flight any other step may happen: an ingest, another worker, the periodic sweeps,
  the hold reconciliation, retention. A sweep may also act on a submission as it was listed, when other
  steps have happened since, and the process may die and start again at any time. The handlers of the model, run
  without interruption, are runs of these steps, so what holds of all interleavings holds of them.

  The invariant: the database is well formed, and a submission is claimed exactly when one queued job
  or one delivery in flight is responsible for it. Hence no two deliveries ever run for the same
  submission at a time, which is what \<open>claimDispatch\<close> is for.
\<close>

section \<open>Steps\<close>

text \<open>The two halves of \<open>redeliverOne\<close>: reading the row under the claim, and sending it and recording the outcome.\<close>

definition redeliver_read :: "env \<Rightarrow> outbox_entry \<Rightarrow> world \<Rightarrow> outbox_entry option" where
  "redeliver_read v listed w =
     (case v_fault v OpGetPending (o_ID listed) of
        Some _ \<Rightarrow> None
      | None \<Rightarrow> (case getPending (o_ID listed) (db_outbox (w_db w)) of Inl _ \<Rightarrow> None | Inr row \<Rightarrow> row))"

definition redeliver_settle :: "env \<Rightarrow> outbox_entry \<Rightarrow> outbox_entry \<Rightarrow> world \<Rightarrow> world" where
  "redeliver_settle v listed row w =
     releaseDispatch (o_SubmissionID listed)
       (case deliver v (o_Reply row) (o_SubmissionID row) w of
          (Some err, w1) \<Rightarrow> attempt_failed v row err w1
        | (None, w1) \<Rightarrow> repo_mark_sent v (o_ID row) (o_UpdatedAt row) w1)"

lemma redeliverOne_halves:
  "redeliverOne v listed w =
     (case redeliver_read v listed w of
        None \<Rightarrow> releaseDispatch (o_SubmissionID listed) w
      | Some row \<Rightarrow> redeliver_settle v listed row w)"
  by (simp add: redeliverOne_def redeliver_read_def redeliver_settle_def Let_def split: option.split sum.split prod.split)

datatype flight = Online reply_job | Swept outbox_entry | Sending outbox_entry outbox_entry

primrec flight_sub :: "flight \<Rightarrow> string" where
  "flight_sub (Online job) = j_SubmissionID job"
| "flight_sub (Swept listed) = o_SubmissionID listed"
| "flight_sub (Sending listed row) = o_SubmissionID listed"

primrec land :: "env \<Rightarrow> flight \<Rightarrow> world \<Rightarrow> world" where
  "land v (Online job) w = dispatchOnline v job w"
| "land v (Swept listed) w = redeliverOne v listed w"
| "land v (Sending listed row) w = redeliver_settle v listed row w"

record service_state =
  sv_world :: world
  sv_flights :: "flight list"

text \<open>The handlers that run to their end without taking or returning a claim of a delivery.\<close>

datatype request = Ingest ingest_request | PeriodicChecks | Digest | ReconcileHold "string list" | PruneRetention retention
  | AuditFileFailed string string string | ListOutbox | Close

fun serve :: "env \<Rightarrow> request \<Rightarrow> world \<Rightarrow> world" where
  "serve v (Ingest req) w = snd (ingestEmail v req w)"
| "serve v PeriodicChecks w = periodic_checks v w"
| "serve v Digest w = snd (sendDigest v w)"
| "serve v (ReconcileHold ids) w = snd (reconcileHold v ids w)"
| "serve v (PruneRetention rt) w = snd (pruneRetention v rt w)"
| "serve v (AuditFileFailed sid folder reason) w = auditFileFailed v sid folder reason w"
| "serve v ListOutbox w = w\<lparr>w_db := (w_db w)\<lparr>db_outbox :=
      snd (listPending (v_now v) (v_now v) (time_add (v_now v) (- outboxRetryAfter)) outboxBatch (db_outbox (w_db w)))\<rparr>\<rparr>"
| "serve v Close w = w\<lparr>w_closed := True\<rparr>"

text \<open>What the memory of the process holds is lost when it dies; the database and what was sent remain.\<close>

definition rebooted :: "world \<Rightarrow> world" where
  "rebooted w = w\<lparr>w_collector := None, w_dispatching := [], w_jobs := [], w_closed := False, w_cappedDay := None\<rparr>"

inductive service_step :: "service_state \<Rightarrow> service_state \<Rightarrow> bool" where
  handle: "service_step \<lparr>sv_world = w, sv_flights = fs\<rparr> \<lparr>sv_world = serve v r w, sv_flights = fs\<rparr>"
| take_job: "w_jobs w = job # rest \<Longrightarrow>
    service_step \<lparr>sv_world = w, sv_flights = fs\<rparr> \<lparr>sv_world = w\<lparr>w_jobs := rest\<rparr>, sv_flights = Online job # fs\<rparr>"
| claim_row: "claimDispatch (o_SubmissionID row) w = (True, w') \<Longrightarrow>
    service_step \<lparr>sv_world = w, sv_flights = fs\<rparr> \<lparr>sv_world = w', sv_flights = Swept row # fs\<rparr>"
| read_row: "redeliver_read v listed w = Some row \<Longrightarrow>
    service_step \<lparr>sv_world = w, sv_flights = fs @ Swept listed # gs\<rparr> \<lparr>sv_world = w, sv_flights = fs @ Sending listed row # gs\<rparr>"
| finish: "service_step \<lparr>sv_world = w, sv_flights = fs @ f # gs\<rparr> \<lparr>sv_world = land v f w, sv_flights = fs @ gs\<rparr>"
| escalate_listed: "s_State sub = StateAwaiting \<Longrightarrow>
    service_step \<lparr>sv_world = w, sv_flights = fs\<rparr> \<lparr>sv_world = snd (escalate v sub reason w), sv_flights = fs\<rparr>"
| close_listed: "s_State sub \<noteq> StateClosed \<Longrightarrow>
    service_step \<lparr>sv_world = w, sv_flights = fs\<rparr> \<lparr>sv_world = closeQuiet v reason sub w, sv_flights = fs\<rparr>"
| restart: "service_step \<lparr>sv_world = w, sv_flights = fs\<rparr> \<lparr>sv_world = rebooted w, sv_flights = []\<rparr>"

inductive_cases service_stepE
  [consumes 1, case_names handle take_job claim_row read_row finish escalate_listed close_listed restart]: "service_step s t"

text \<open>
  The process starts, or starts again after a crash, on any well-formed database, with nothing queued, claimed or in
  flight: what a crash interrupted survives only as rows of the outbox.
\<close>

definition boots :: "service_state \<Rightarrow> bool" where
  "boots s \<longleftrightarrow> db_wf (w_db (sv_world s)) \<and> w_jobs (sv_world s) = [] \<and> w_dispatching (sv_world s) = [] \<and> sv_flights s = []"

definition service_ok :: "service_state \<Rightarrow> bool" where
  "service_ok s \<longleftrightarrow> db_wf (w_db (sv_world s)) \<and> claims_ok (map flight_sub (sv_flights s)) (sv_world s)"

section \<open>Handlers are runs\<close>

text \<open>What the handlers keep: the queue and the claims, while the database only takes statements.\<close>

definition keeps :: "world \<Rightarrow> world \<Rightarrow> bool" where
  "keeps w w' \<longleftrightarrow> db_steps w w' \<and> w_jobs w' = w_jobs w \<and> w_dispatching w' = w_dispatching w"

lemma keeps_refl [simp, intro]: "keeps w w"
  by (simp add: keeps_def)

lemma keeps_trans [trans]: "keeps a b \<Longrightarrow> keeps b c \<Longrightarrow> keeps a c"
  using rtranclp_trans [of db_step "w_db a" "w_db b" "w_db c"] by (simp add: keeps_def)

lemma same_core_keeps: "same_core w w' \<Longrightarrow> keeps w w'"
  by (simp add: same_core_def keeps_def)

lemma untouched_keeps: "untouched w w' \<Longrightarrow> db_steps w w' \<Longrightarrow> keeps w w'"
  by (simp add: untouched_def keeps_def)

lemma repo_try_keeps: "(\<And>d d'. f d = Inr d' \<Longrightarrow> db_step d d') \<Longrightarrow> keeps w (repo_try v p i f w)"
  by (simp add: keeps_def repo_try_steps)

lemma set_on_hold_keeps: "repo_set_on_hold v ids b w = Inr w' \<Longrightarrow> keeps w w'"
  using db_step.hold [of "w_db w" ids b] by (auto simp: repo_set_on_hold_def keeps_def split: option.splits)

lemma reconcileHold_keeps: "keeps w (snd (reconcileHold v mids w))"
proof -
  have audits: "keeps w0 (audit_each v ev ids (audit_each v ev' ids' w0))" for ev ev' ids ids' w0
    by (rule same_core_keeps [OF same_core_trans [OF same_core_audit_each same_core_audit_each]])
  have expire: "keeps w0 (repo_try v OpExpireForSubmissions ''''
      (update_outbox (\<lambda>tbl. Inr (snd (expirePendingForSubmissions now ids reason tbl)))) w0)" for now ids reason w0
    by (rule repo_try_keeps) (auto simp: update_outbox_def intro: db_step.outbox_expire_for)
  note tail = keeps_trans [OF keeps_trans [OF keeps_trans [OF set_on_hold_keeps set_on_hold_keeps] expire] audits]
  show ?thesis
    by (auto simp: reconcileHold_def Let_def split: option.split sum.split intro: tail set_on_hold_keeps)
qed

lemma sendDigest_keeps: "keeps w (snd (sendDigest v w))"
proof -
  have "keeps w (audit v sid ev p (record_sent r w))" for sid ev p r
    by (rule keeps_trans [OF _ same_core_keeps [OF same_core_audit]]) (simp add: keeps_def record_sent_def)
  then show ?thesis by (auto simp: sendDigest_def Let_def split: option.split sum.split)
qed

lemma periodic_checks_keeps:
  assumes "db_wf (w_db w)"
  shows "keeps w (periodic_checks v w)"
proof -
  obtain e w1 where e: "checkEscalations v w = (e, w1)" by (cases "checkEscalations v w")
  obtain e' w2 where c: "checkClosures v w1 = (e', w2)" by (cases "checkClosures v w1")
  have k: "keeps w w1" using checkEscalations_effect [OF e assms] untouched_keeps by blast
  then have "db_wf (w_db w1)" using assms db_steps_wf by (auto simp: keeps_def)
  then have "keeps w1 w2" using checkClosures_closes [OF c] untouched_keeps by (auto simp: closes_def)
  then show ?thesis using k keeps_trans e c by (simp add: periodic_checks_def)
qed

lemma listing_keeps: "keeps w (serve v ListOutbox w)"
  using db_step.outbox_list [of "w_db w" "v_now v" "v_now v" "time_add (v_now v) (- outboxRetryAfter)" outboxBatch]
  by (simp add: keeps_def r_into_rtranclp)

text \<open>Only an ingest queues a job, and it claims the submission with it.\<close>

lemma serve_ok:
  assumes "db_wf (w_db w)" and "claims_ok held w"
  shows "db_wf (w_db (serve v r w)) \<and> claims_ok held (serve v r w)"
proof -
  have kept: ?thesis if "keeps w (serve v r w)"
    using that assms db_steps_wf by (auto simp: keeps_def claims_ok_def)
  show ?thesis
  proof (cases r)
    case (Ingest req)
    have "db_steps w (serve v r w) \<and> claims_ok held (serve v r w)"
      using ingest_effect [OF prod.collapse [symmetric], where v = v and req = req and w = w and held = held] assms(2) Ingest by simp
    then show ?thesis using db_steps_wf assms(1) by blast
  next
    case PeriodicChecks
    then show ?thesis using kept periodic_checks_keeps [OF assms(1)] by simp
  next
    case (PruneRetention rt)
    then show ?thesis using kept pruneRetention_effect [OF prod.collapse [symmetric], where v = v and rt = rt and w = w] by (simp add: keeps_def)
  next
    case (AuditFileFailed sid folder reason)
    then show ?thesis using kept same_core_keeps [OF same_core_audit] by (simp add: auditFileFailed_def)
  next
    case ListOutbox
    then show ?thesis using kept listing_keeps by simp
  qed (use kept sendDigest_keeps reconcileHold_keeps in \<open>simp_all add: keeps_def\<close>)
qed

section \<open>The invariant\<close>

lemma redeliver_settle_frame:
  assumes "w' = redeliver_settle v listed row w"
  shows "w_jobs w' = w_jobs w \<and> w_dispatching w' = filter (\<lambda>x. x \<noteq> o_SubmissionID listed) (w_dispatching w) \<and> db_steps w w'"
proof -
  obtain e w1 where d: "deliver v (o_Reply row) (o_SubmissionID row) w = (e, w1)"
    by (cases "deliver v (o_Reply row) (o_SubmissionID row) w")
  note f = deliver_frame [OF d]
  show ?thesis
  proof (cases e)
    case None
    have "db_steps w (repo_mark_sent v (o_ID row) (o_UpdatedAt row) w1)" using f(6) repo_mark_sent_steps by (rule rtranclp_trans)
    then show ?thesis using assms d None f by (simp add: redeliver_settle_def)
  next
    case (Some err)
    have "db_steps w (attempt_failed v row err w1)" using f(6) attempt_failed_step [of w1 row v err] by (blast intro: rtranclp_trans)
    then show ?thesis using assms d Some f attempt_failed_step [of w1 row v err] by (simp add: redeliver_settle_def)
  qed
qed

lemma listed_keeps:
  "s_State sub = StateAwaiting \<Longrightarrow> keeps w (snd (escalate v sub reason w))"
  "s_State sub \<noteq> StateClosed \<Longrightarrow> keeps w (closeQuiet v reason sub w)"
  using escalate_sweeps [OF prod.collapse [symmetric], where v = v and sub = sub and reason = reason and w = w] closeQuiet_sweeps [of sub w v reason]
  by (auto simp: sweeps_def intro: untouched_keeps)

lemma keeps_ok: "keeps w w' \<Longrightarrow> db_wf (w_db w) \<Longrightarrow> claims_ok held w \<Longrightarrow> db_wf (w_db w') \<and> claims_ok held w'"
  using db_steps_wf by (auto simp: keeps_def claims_ok_def)

lemma land_ok:
  assumes "db_wf (w_db w)" and "claims_ok (flight_sub f # held) w"
  shows "db_wf (w_db (land v f w)) \<and> claims_ok held (land v f w)"
proof (cases f)
  case (Online job)
  have "claims_ok held (dispatchOnline v job w)"
    by (rule claims_release [of "j_SubmissionID job"]) (use assms(2) Online in \<open>simp_all add: dispatchOnline_frame\<close>)
  then show ?thesis using Online db_steps_wf [OF dispatchOnline_frame(5) assms(1)] by simp
next
  case (Swept row)
  note st = redeliverOne_step [OF refl, of v row w]
  have "claims_ok held (redeliverOne v row w)"
    by (rule claims_release [of "o_SubmissionID row"]) (use assms(2) Swept st in simp_all)
  then show ?thesis using Swept st db_steps_wf assms(1) by auto
next
  case (Sending listed row)
  note st = redeliver_settle_frame [OF refl, of v listed row w]
  have "claims_ok held (redeliver_settle v listed row w)"
    by (rule claims_release [of "o_SubmissionID listed"]) (use assms(2) Sending st in simp_all)
  then show ?thesis using Sending st db_steps_wf assms(1) by auto
qed

lemma claims_order: "mset held = mset held' \<Longrightarrow> claims_ok held w = claims_ok held' w"
  by (simp add: claims_ok_def)

lemma service_step_ok:
  assumes "service_step s t" and "service_ok s"
  shows "service_ok t"
  using assms(1)
proof (cases rule: service_stepE)
  case (handle w fs v r)
  then show ?thesis using serve_ok [of w "map flight_sub fs" v r] assms(2) by (simp add: service_ok_def)
next
  case (take_job w job rest fs)
  then show ?thesis using assms(2) by (simp add: service_ok_def claims_ok_def)
next
  case (claim_row row w w' fs)
  then show ?thesis using assms(2) by (auto simp: service_ok_def claims_ok_def claimDispatch_def split: if_splits)
next
  case (finish w fs f gs v)
  have "claims_ok (flight_sub f # map flight_sub (fs @ gs)) w"
    using assms(2) finish claims_order [of "map flight_sub (fs @ f # gs)" "flight_sub f # map flight_sub (fs @ gs)" w]
    by (simp add: service_ok_def)
  then show ?thesis using land_ok [of w f "map flight_sub (fs @ gs)" v] assms(2) finish by (simp add: service_ok_def)
next
  case (escalate_listed sub w fs v reason)
  then show ?thesis using keeps_ok [OF listed_keeps(1)] assms(2) by (auto simp: service_ok_def)
next
  case (close_listed sub w fs v reason)
  then show ?thesis using keeps_ok [OF listed_keeps(2)] assms(2) by (auto simp: service_ok_def)
qed (use assms(2) in \<open>simp_all add: service_ok_def claims_ok_def rebooted_def\<close>)

lemma boots_empty: "boots \<lparr>sv_world = empty_world, sv_flights = []\<rparr>"
  using db_inv.start_good by (simp add: boots_def empty_world_def)

interpretation sv: invariant_system boots service_step service_ok
proof unfold_locales
  show "service_ok s" if "boots s" for s
    using that by (simp add: boots_def service_ok_def claims_ok_def)
qed (rule service_step_ok)

text \<open>Every step is a sequence of statements on the database, so what is stored stays stored.\<close>

lemma serve_steps:
  assumes "db_wf (w_db w)"
  shows "db_steps w (serve v r w)"
proof (cases r)
  case (Ingest req)
  then show ?thesis using ingest_effect [OF prod.collapse [symmetric], where v = v and req = req and w = w] by simp
next
  case (PruneRetention rt)
  then show ?thesis using pruneRetention_effect [OF prod.collapse [symmetric], where v = v and rt = rt and w = w] by simp
next
  case (AuditFileFailed sid folder reason)
  then show ?thesis by (simp add: auditFileFailed_def)
next
  case ListOutbox
  then show ?thesis using listing_keeps [of w v] by (simp add: keeps_def)
qed (use periodic_checks_keeps [OF assms, of v] sendDigest_keeps [of w v] reconcileHold_keeps [of w v] in \<open>simp_all add: keeps_def\<close>)

lemma service_step_db:
  assumes "service_step s t" and "service_ok s"
  shows "db_steps (sv_world s) (sv_world t)"
  using assms(1)
proof (cases rule: service_stepE)
  case (handle w fs v r)
  then show ?thesis using serve_steps assms(2) by (simp add: service_ok_def)
next
  case (claim_row row w w' fs)
  then show ?thesis by (auto simp: claimDispatch_def split: if_splits)
next
  case (finish w fs f gs v)
  then show ?thesis using redeliverOne_step [OF refl, of v _ w] redeliver_settle_frame [OF refl, of v _ _ w]
    by (cases f) (simp_all add: dispatchOnline_frame)
next
  case (escalate_listed sub w fs v reason)
  then show ?thesis using listed_keeps(1) by (simp add: keeps_def)
next
  case (close_listed sub w fs v reason)
  then show ?thesis using listed_keeps(2) by (simp add: keeps_def)
qed (simp_all add: rebooted_def)

lemma service_run_db: "service_step\<^sup>*\<^sup>* s t \<Longrightarrow> service_ok s \<Longrightarrow> db_steps (sv_world s) (sv_world t)"
  by (rule sv.steps_rel [where R = "\<lambda>s t. db_steps (sv_world s) (sv_world t)"])
    (auto intro: rtranclp_trans service_step_db)

section \<open>The handlers run without interruption\<close>

lemma one_handle: "service_step\<^sup>*\<^sup>* \<lparr>sv_world = w, sv_flights = fs\<rparr> \<lparr>sv_world = serve v r w, sv_flights = fs\<rparr>"
  by (rule r_into_rtranclp) (rule service_step.handle)

text \<open>A delivery that is finished right after it was begun.\<close>

lemma begin_and_land:
  assumes "service_step \<lparr>sv_world = w, sv_flights = fs\<rparr> \<lparr>sv_world = w', sv_flights = f # fs\<rparr>"
  shows "service_step\<^sup>*\<^sup>* \<lparr>sv_world = w, sv_flights = fs\<rparr> \<lparr>sv_world = land v f w', sv_flights = fs\<rparr>"
proof -
  have "service_step \<lparr>sv_world = w', sv_flights = f # fs\<rparr> \<lparr>sv_world = land v f w', sv_flights = fs\<rparr>"
    using service_step.finish [of w' "[]" f fs v] by simp
  then show ?thesis using assms by (meson converse_rtranclp_into_rtranclp r_into_rtranclp)
qed

lemma replyWorker_run: "service_step\<^sup>*\<^sup>* \<lparr>sv_world = w, sv_flights = fs\<rparr> \<lparr>sv_world = replyWorker v w, sv_flights = fs\<rparr>"
proof (cases "w_jobs w")
  case (Cons job rest)
  from begin_and_land [OF service_step.take_job [OF Cons], of fs v] show ?thesis using Cons by (simp add: replyWorker_def)
qed (simp add: replyWorker_def)

lemma redeliver_rows_run:
  "service_step\<^sup>*\<^sup>* \<lparr>sv_world = w, sv_flights = fs\<rparr> \<lparr>sv_world = snd (redeliver_rows v blocked live rows w), sv_flights = fs\<rparr>"
proof (induction v blocked live rows w rule: redeliver_rows.induct)
  case (3 v blocked live row rows w)
  obtain c w1 where c: "claimDispatch (o_SubmissionID row) w = (c, w1)" by (cases "claimDispatch (o_SubmissionID row) w")
  show ?case
  proof (cases "o_SubmissionID row \<in> set blocked \<or> \<not> c")
    case True
    have "\<not> c \<Longrightarrow> w1 = w" using c by (auto simp: claimDispatch_def split: if_splits)
    then show ?thesis using True c 3 by (cases "o_SubmissionID row \<in> set blocked") auto
  next
    case False
    then have cl: "claimDispatch (o_SubmissionID row) w = (True, w1)" using c by simp
    have "service_step\<^sup>*\<^sup>* \<lparr>sv_world = w, sv_flights = fs\<rparr> \<lparr>sv_world = redeliverOne v row w1, sv_flights = fs\<rparr>"
      using begin_and_land [OF service_step.claim_row [OF cl], of fs v] by simp
    moreover have "service_step\<^sup>*\<^sup>* \<lparr>sv_world = redeliverOne v row w1, sv_flights = fs\<rparr>
        \<lparr>sv_world = snd (redeliver_rows v blocked live rows (redeliverOne v row w1)), sv_flights = fs\<rparr>"
      using 3(2) [OF _ cl [symmetric]] False cl by simp
    ultimately show ?thesis using False cl by (simp add: rtranclp_trans)
  qed
qed simp_all

lemma redeliverOutbox_run:
  "service_step\<^sup>*\<^sup>* \<lparr>sv_world = w, sv_flights = fs\<rparr> \<lparr>sv_world = snd (redeliverOutbox v live w), sv_flights = fs\<rparr>"
proof (cases "replies_disabled (v_cfg v) \<or> v_fault v OpListPending '''' \<noteq> None")
  case True
  then show ?thesis by (auto simp: redeliverOutbox_def)
next
  case False
  let ?w1 = "serve v ListOutbox w"
  obtain rows tbl where lp: "listPending (v_now v) (v_now v) (time_add (v_now v) (- outboxRetryAfter)) outboxBatch (db_outbox (w_db w)) = (rows, tbl)"
    by (metis surj_pair)
  have run: "snd (redeliverOutbox v live w) = (case blockedSubmissions v rows ?w1 of Inl e \<Rightarrow> ?w1
      | Inr blocked \<Rightarrow> snd (redeliver_rows v blocked live rows ?w1))"
    using False lp by (simp add: redeliverOutbox_def split: sum.split)
  note list = one_handle [of w fs v ListOutbox]
  show ?thesis
  proof (cases "blockedSubmissions v rows ?w1")
    case (Inl e)
    then show ?thesis using list run by simp
  next
    case (Inr blocked)
    then show ?thesis using rtranclp_trans [OF list redeliver_rows_run [of ?w1 fs v blocked live rows]] run by simp
  qed
qed

lemma fold_run:
  assumes "\<And>x w. service_step\<^sup>*\<^sup>* \<lparr>sv_world = w, sv_flights = fs\<rparr> \<lparr>sv_world = f x w, sv_flights = fs\<rparr>"
  shows "service_step\<^sup>*\<^sup>* \<lparr>sv_world = w, sv_flights = fs\<rparr> \<lparr>sv_world = fold f xs w, sv_flights = fs\<rparr>"
proof (induction xs arbitrary: w)
  case (Cons x xs)
  then show ?case using rtranclp_trans [OF assms [of w x]] by simp
qed simp

lemma escalation_tick_run: "service_step\<^sup>*\<^sup>* \<lparr>sv_world = w, sv_flights = fs\<rparr> \<lparr>sv_world = escalation_tick t w, sv_flights = fs\<rparr>"
  using one_handle [of w fs _ PeriodicChecks] one_handle [of w fs _ Digest] by (cases t) (auto simp: escalation_tick_def)

lemma shutdown_run: "service_step\<^sup>*\<^sup>* \<lparr>sv_world = w, sv_flights = fs\<rparr> \<lparr>sv_world = shutdown vs served w, sv_flights = fs\<rparr>"
proof (cases "w_closed w")
  case False
  have "service_step\<^sup>*\<^sup>* \<lparr>sv_world = w\<lparr>w_closed := True\<rparr>, sv_flights = fs\<rparr>
      \<lparr>sv_world = fold (\<lambda>n. replyWorker (vs n)) [0..<served] (w\<lparr>w_closed := True\<rparr>), sv_flights = fs\<rparr>"
    by (rule fold_run) (rule replyWorker_run)
  then show ?thesis using False rtranclp_trans [OF one_handle [of w fs undefined Close]] by (simp add: shutdown_def)
qed (simp add: shutdown_def)

lemma retentionWorker_run:
  "service_step\<^sup>*\<^sup>* \<lparr>sv_world = snd s, sv_flights = fs\<rparr> \<lparr>sv_world = snd (retentionWorker interval rt es s), sv_flights = fs\<rparr>"
proof (cases "interval \<le> 0")
  case False
  have "service_step\<^sup>*\<^sup>* \<lparr>sv_world = snd s, sv_flights = fs\<rparr> \<lparr>sv_world = snd (fold (retention_tick rt) es s), sv_flights = fs\<rparr>"
  proof (induction es arbitrary: s)
    case (Cons v es)
    have "snd (retention_tick rt v s) = serve v (PruneRetention rt) (snd s)" by (simp add: retention_tick_def split: prod.split sum.split)
    then show ?case using rtranclp_trans [OF one_handle [of "snd s" fs v "PruneRetention rt"]] Cons.IH [of "retention_tick rt v s"] by simp
  qed simp
  then show ?thesis using False by (simp add: retentionWorker_def)
qed (simp add: retentionWorker_def)

section \<open>Properties\<close>

text \<open>
  C1. However the workers, the ingest, the sweeps and the deliveries in flight interleave, from any start of the
  process on a well-formed database: the database is well formed, no two deliveries are queued or in flight for the same
  submission, the claimed submissions are exactly those with one, and a stored message stays stored.
\<close>

theorem service_invariant:
  assumes "boots s" and "service_step\<^sup>*\<^sup>* s t" and "service_step\<^sup>*\<^sup>* t u"
  defines "responsible \<equiv> map flight_sub (sv_flights t) @ map j_SubmissionID (w_jobs (sv_world t))"
  shows "db_wf (w_db (sv_world t)) \<and> distinct responsible \<and> set (w_dispatching (sv_world t)) = set responsible \<and>
    set (db_emails (w_db (sv_world t))) \<subseteq> set (db_emails (w_db (sv_world u)))"
proof -
  have ok: "service_ok t" by (rule sv.run_good [OF assms(1,2)])
  then have m: "mset (w_dispatching (sv_world t)) = mset responsible" and d: "distinct (w_dispatching (sv_world t))"
    by (simp_all add: service_ok_def claims_ok_def responsible_def)
  have "set (db_emails (w_db (sv_world t))) \<subseteq> set (db_emails (w_db (sv_world u)))"
    using db_steps_emails [OF service_run_db [OF assms(3) ok]] .
  then show ?thesis using ok d mset_eq_setD [OF m] mset_eq_imp_distinct_iff [OF m] by (simp add: service_ok_def)
qed

text \<open>
  C14. The loops of the program are runs of these steps, whatever is in flight meanwhile: a reply worker, the
  outbox worker from its startup sweep on, the escalation worker, the retention worker, and the shutdown with its draining.
\<close>

theorem workers_are_service_runs:
  "service_step\<^sup>*\<^sup>* \<lparr>sv_world = w, sv_flights = fs\<rparr> \<lparr>sv_world = replyWorker v w, sv_flights = fs\<rparr> \<and>
   service_step\<^sup>*\<^sup>* \<lparr>sv_world = w, sv_flights = fs\<rparr> \<lparr>sv_world = outboxWorker start ticks w, sv_flights = fs\<rparr> \<and>
   service_step\<^sup>*\<^sup>* \<lparr>sv_world = w, sv_flights = fs\<rparr> \<lparr>sv_world = escalationWorker ts w, sv_flights = fs\<rparr> \<and>
   service_step\<^sup>*\<^sup>* \<lparr>sv_world = w, sv_flights = fs\<rparr> \<lparr>sv_world = snd (retentionWorker interval rt es (vac, w)), sv_flights = fs\<rparr> \<and>
   service_step\<^sup>*\<^sup>* \<lparr>sv_world = w, sv_flights = fs\<rparr> \<lparr>sv_world = shutdown vs served w, sv_flights = fs\<rparr>"
proof (intro conjI)
  show "service_step\<^sup>*\<^sup>* \<lparr>sv_world = w, sv_flights = fs\<rparr> \<lparr>sv_world = outboxWorker start ticks w, sv_flights = fs\<rparr>"
    unfolding outboxWorker_def by (rule fold_run) (auto intro: redeliverOutbox_run)
  show "service_step\<^sup>*\<^sup>* \<lparr>sv_world = w, sv_flights = fs\<rparr> \<lparr>sv_world = escalationWorker ts w, sv_flights = fs\<rparr>"
    unfolding escalationWorker_def by (rule fold_run) (rule escalation_tick_run)
  show "service_step\<^sup>*\<^sup>* \<lparr>sv_world = w, sv_flights = fs\<rparr> \<lparr>sv_world = snd (retentionWorker interval rt es (vac, w)), sv_flights = fs\<rparr>"
    by (rule retentionWorker_run [of "(vac, w)", unfolded snd_conv])
qed (rule replyWorker_run shutdown_run)+


text \<open>A run to a state with a delivery in flight: an ingest queues a reply, a worker takes it.\<close>

definition queued_world :: world where
  "queued_world = serve sample_env (Ingest sample_request) empty_world"

lemma queued_world_facts:
  "length (w_jobs queued_world) = 1" "length (db_emails (w_db queued_world)) = 1"
  by code_simp+

theorem service_invariant_witness:
  "\<exists>job e. w_jobs queued_world = [job] \<and> w_dispatching queued_world = [j_SubmissionID job] \<and> db_emails (w_db queued_world) = [e] \<and>
     e \<in> set (db_emails (w_db (dispatchOnline sample_env job (queued_world\<lparr>w_jobs := []\<rparr>))))"
proof -
  obtain job where job: "w_jobs queued_world = [job]" using queued_world_facts(1) by (auto simp: length_Suc_conv)
  obtain e where e: "db_emails (w_db queued_world) = [e]" using queued_world_facts(2) by (auto simp: length_Suc_conv)
  let ?s = "\<lparr>sv_world = empty_world, sv_flights = []\<rparr>"
  let ?t = "\<lparr>sv_world = queued_world\<lparr>w_jobs := []\<rparr>, sv_flights = [Online job]\<rparr>"
  have q: "service_step\<^sup>*\<^sup>* ?s \<lparr>sv_world = queued_world, sv_flights = []\<rparr>" unfolding queued_world_def by (rule one_handle)
  then have t: "service_step\<^sup>*\<^sup>* ?s ?t" by (rule rtranclp.rtrancl_into_rtrancl) (rule service_step.take_job [OF job])
  have u: "service_step\<^sup>*\<^sup>* ?t \<lparr>sv_world = dispatchOnline sample_env job (queued_world\<lparr>w_jobs := []\<rparr>), sv_flights = []\<rparr>"
    using service_step.finish [of "queued_world\<lparr>w_jobs := []\<rparr>" "[]" "Online job" "[]" sample_env] by (simp add: r_into_rtranclp)
  have b: "boots ?s" by (rule boots_empty)
  have "length (w_dispatching queued_world) = 1" by code_simp
  then obtain i where i: "w_dispatching queued_world = [i]" by (auto simp: length_Suc_conv)
  from service_invariant [OF b t u] job e i show ?thesis by simp
qed

end
