(* ===== verification/Service_Races.thy ===== *)
theory Service_Races
  imports Service_Invariant
begin

text \<open>
  What the interleavings of \<open>service_step\<close> mean for replies and states. A delivery reads its row and records the outcome
  in two steps, a sweep acts on what it listed, and the process may die in between.

  The lemmas show that a reply in the outbox survives a crash and goes out with the first sweep after it, and that a
  successful send never hides a reply that superseded it; and they pin down two races the code does not guard
  against: a failing send records its failure on whatever the row holds by then, and an escalation
  overwrites a submission that was completed since it was listed.
\<close>

section \<open>Recording the outcome of a send\<close>

lemma settle_outbox:
  assumes "faultless v" and "db_wf (w_db w)" and "q \<in> set (db_outbox (w_db w))" and "is_pending q" and "o_ID row = ob_id q"
  shows "lookup_by ob_id (ob_id q) (db_outbox (w_db (redeliver_settle v listed row w))) =
    Some (case v_send v (o_Reply row) of
        Inr _ \<Rightarrow> if ob_updated_at q = unix_nano (o_UpdatedAt row)
                 then q\<lparr>ob_status := OutboxSent, ob_updated_at := unix_nano (v_now v)\<rparr> else q
      | Inl err \<Rightarrow> q\<lparr>ob_status := (if o_Attempts row + 1 < outboxMaxAttempts then OutboxPending else OutboxFailed),
                   ob_attempts := o_Attempts row + 1, ob_last_error := error_str err, ob_updated_at := unix_nano (v_now v)\<rparr>)"
proof -
  have wf: "ob.wf (db_outbox (w_db w))" using assms(2) by (simp add: db_wf_def)
  have lk: "lookup_by ob_id (ob_id q) (db_outbox (w_db w)) = Some q"
    by (rule lookup_by_distinct) (use wf assms(3) in \<open>auto simp: ob.wf_def\<close>)
  have nf: "v_fault v x y = None" for x y using assms(1) by (simp add: faultless_def)
  obtain e w1 where d: "deliver v (o_Reply row) (o_SubmissionID row) w = (e, w1)"
    by (cases "deliver v (o_Reply row) (o_SubmissionID row) w")
  note f = deliver_frame [OF d]
  show ?thesis
  proof (cases "v_send v (o_Reply row)")
    case (Inr pid)
    then have "e = None" using f(7) by simp
    then show ?thesis using d Inr lk assms(4,5) f(4)
      by (simp add: redeliver_settle_def repo_mark_sent_def repo_try_def nf update_outbox_def markSent_def lookup_by_update_where)
  next
    case (Inl err)
    then have e: "e = Some err" "w1 = w" using d by (simp_all add: deliver_def)
    note up = retry_update [OF wf assms(3,4)]
    show ?thesis using d e Inl lk assms(5)
      by (simp add: redeliver_settle_def repo_outbox_update_def repo_try_def nf update_outbox_def up lookup_by_update_where
          clearReplyHash_def update_sub_def)
  qed
qed

text \<open>
  A successful send never hides a newer reply. When a delivery that read its row earlier succeeds, and an ingest has
  superseded the text since, so that the row has another version, the row stays pending with the newer
  text; only the version that was read is marked sent.
\<close>

theorem newer_reply_survives_send:
  assumes "faultless v" and "db_wf (w_db w)" and "q \<in> set (db_outbox (w_db w))" and "is_pending q" and "o_ID row = ob_id q"
    and "v_send v (o_Reply row) = Inr pid"
  shows "\<exists>q'. lookup_by ob_id (ob_id q) (db_outbox (w_db (redeliver_settle v listed row w))) = Some q' \<and>
    (if ob_updated_at q = unix_nano (o_UpdatedAt row) then ob_status q' = OutboxSent else q' = q)"
  using settle_outbox [OF assms(1-5)] assms(6) by auto

text \<open>
  A failing send buries a newer reply. When the last attempt of a delivery fails, the row is marked failed whatever
  text it holds by then: a reply that superseded the one that failed is dead-lettered without having been tried.
\<close>

theorem failed_send_buries_newer_reply:
  assumes "faultless v" and "db_wf (w_db w)" and "q \<in> set (db_outbox (w_db w))" and "is_pending q" and "o_ID row = ob_id q"
    and "v_send v (o_Reply row) = Inl err" and "outboxMaxAttempts \<le> o_Attempts row + 1"
  shows "\<exists>q'. lookup_by ob_id (ob_id q) (db_outbox (w_db (redeliver_settle v listed row w))) = Some q' \<and>
    ob_status q' = OutboxFailed \<and> ob_reply_json q' = ob_reply_json q \<and>
    w_sent (redeliver_settle v listed row w) = w_sent w"
proof -
  have "w_sent (redeliver_settle v listed row w) = w_sent w"
    using assms(6,7) by (simp add: redeliver_settle_def deliver_def repo_outbox_update_def)
  then show ?thesis using settle_outbox [OF assms(1-5)] assms(6,7) by auto
qed

theorem failed_send_buries_newer_reply_witness:
  "\<exists>q'. lookup_by ob_id ''a'' (db_outbox (w_db (redeliver_settle (sample_env\<lparr>v_send := (\<lambda>r. Inl (ErrOther ''refused''))\<rparr>)
      (sample_entry ''a'' ''s1'' ''old'') ((sample_entry ''a'' ''s1'' ''old'')\<lparr>o_Attempts := 9\<rparr>) outbox_world))) = Some q' \<and>
     ob_status q' = OutboxFailed \<and> ob_reply_json q' = Some (o_Reply (sample_entry ''a'' ''s1'' ''one''))"
  using failed_send_buries_newer_reply [OF sample_env_faultless(2) [of "\<lambda>r. Inl (ErrOther ''refused'')"] outbox_world_wf sample_out_row_facts(1,2),
      of "(sample_entry ''a'' ''s1'' ''old'')\<lparr>o_Attempts := 9\<rparr>" "ErrOther ''refused''" "sample_entry ''a'' ''s1'' ''old''"]
    sample_out_row_facts(3,4) by (auto simp: sample_entry_def outboxMaxAttempts_def)

section \<open>A sweep with a stale listing\<close>

text \<open>
  An escalation overwrites what happened since the listing. Whatever the row of a listed submission has become, for
  instance complete with nothing missing after an ingest, escalating the listed value makes it escalated again with the missing
  items it had when it was listed.
\<close>

theorem stale_escalation_overwrites:
  assumes "faultless v" and "s_State sub = StateAwaiting" and "brokerActionable (s_MissingItems sub) \<noteq> []"
    and "list_all (\<lambda>m. \<not> is_nan_or_inf (m_Confidence m)) (s_MissingItems sub)" and "s_ID sub \<noteq> ''''"
    and "s_Emails sub = []" and "s_Documents sub = []" and "row_of (s_ID sub) w = Some r"
  shows "\<exists>r'. row_of (s_ID sub) (snd (escalate v sub reason w)) = Some r' \<and> q_state r' = StateEscalated \<and>
    q_missing_items r' = MissingItems (s_MissingItems sub) \<and> q_on_hold r' = q_on_hold r"
proof -
  let ?sub = "sub\<lparr>s_State := StateEscalated, s_UpdatedAt := v_now v, s_LastActionAt := v_now v,
      s_EscalatedAt := Some (v_now v), s_LastEscalatedAt := Some (v_now v)\<rparr>"
  let ?d = "(w_db w)\<lparr>db_submissions := upsert_by q_id merge_sub_row (sub_row_of (v_now v) ?sub) (db_submissions (w_db w))\<rparr>"
  have t: "transitionTo sub StateEscalated (v_now v) = Inr (sub\<lparr>s_State := StateEscalated, s_UpdatedAt := v_now v, s_LastActionAt := v_now v,
      s_EscalatedAt := Some (v_now v)\<rparr>)"
    using assms(2) by (simp add: transitionTo_def)
  have "\<not> list_ex (\<lambda>m. is_nan_or_inf (m_Confidence m)) (s_MissingItems sub)" using assms(4) by (auto simp: list_all_iff list_ex_iff)
  then have "upsert_aggregate (v_now v) ?sub (w_db w) = Inr ?d"
    using assms(6,7) by (simp add: upsert_aggregate_def upsertSubmissionRow_def)
  then have up: "repo_upsert v ?sub w = Inr (w\<lparr>w_db := ?d\<rparr>)"
    using assms(1,5) by (simp add: repo_upsert_def upsertSubmission_def faultless_def)
  have "w_db (snd (escalate v sub reason w)) = ?d"
    using assms(3) t up by (simp add: escalate_def Let_def)
  moreover have "lookup_by q_id (s_ID sub) (db_submissions ?d) = Some (merge_sub_row r (sub_row_of (v_now v) ?sub))"
    using sub_t.lookup_upsert [of "s_ID sub" "sub_row_of (v_now v) ?sub" "db_submissions (w_db w)"] assms(8) by (simp add: sub_row_of_def)
  ultimately show ?thesis by (simp add: merge_sub_row_def sub_row_of_def)
qed

section \<open>Replies survive a crash\<close>

lemma redeliver_rows_keeps_other:
  "redeliver_rows v blocked live rows w = (e, w') \<Longrightarrow> ob_id q \<notin> o_ID ` set rows \<Longrightarrow>
   q \<in> set (db_outbox (w_db w')) \<longleftrightarrow> q \<in> set (db_outbox (w_db w))"
proof (induction rows arbitrary: live w)
  case (Cons row rows)
  show ?case
  proof (cases live)
    case (Suc k)
    show ?thesis
    proof (cases "o_SubmissionID row \<in> set blocked \<or> o_SubmissionID row \<in> set (w_dispatching w)")
      case True
      then show ?thesis using Cons unfolding Suc redeliver_rows_Suc by simp
    next
      case False
      let ?w2 = "redeliverOne v row (w\<lparr>w_dispatching := o_SubmissionID row # w_dispatching w\<rparr>)"
      have "q \<in> set (db_outbox (w_db ?w2)) \<longleftrightarrow> q \<in> set (db_outbox (w_db w))"
        by (rule redeliverOne_claimed(2) [OF refl]) (use Cons.prems(2) False in auto)
      then show ?thesis using Cons False unfolding Suc redeliver_rows_Suc by auto
    qed
  qed (use Cons.prems in simp)
qed simp

lemma redeliver_rows_grows: "redeliver_rows v blocked live rows w = (e, w') \<Longrightarrow> \<exists>sent. w_sent w' = w_sent w @ sent"
proof (induction rows arbitrary: live w)
  case (Cons row rows)
  show ?case
  proof (cases live)
    case (Suc k)
    let ?w1 = "w\<lparr>w_dispatching := o_SubmissionID row # w_dispatching w\<rparr>"
    have "\<exists>sent. w_sent (redeliverOne v row ?w1) = w_sent w @ sent" using redeliverOne_step [OF refl, of v row ?w1] by auto
    then show ?thesis using Cons unfolding Suc redeliver_rows_Suc by (fastforce split: if_splits)
  qed (use Cons.prems in simp)
qed simp

text \<open>The loop reaches a listed row that may be sent.\<close>

lemma redeliver_rows_reaches:
  assumes "redeliver_rows v blocked live rows w = (e, w')" and "distinct (map o_ID rows)" and "length rows \<le> live" and "db_wf (w_db w)"
    and "faultless v" and "q \<in> set (db_outbox (w_db w))" and "is_pending q" and "ob_reply_json q = Some r" and "in_int64 (ob_updated_at q)"
    and "v_send v r = Inr pid" and "row \<in> set rows" and "o_ID row = ob_id q" and "o_SubmissionID row \<notin> set blocked \<union> set (w_dispatching w)"
  shows "r \<in> set (drop (length (w_sent w)) (w_sent w')) \<and>
    q\<lparr>ob_status := OutboxSent, ob_updated_at := unix_nano (v_now v)\<rparr> \<in> set (db_outbox (w_db w'))"
  using assms
proof (induction rows arbitrary: live w)
  case (Cons x rows)
  obtain k where k: "live = Suc k" using Cons.prems(3) by (cases live) auto
  let ?w1 = "w\<lparr>w_dispatching := o_SubmissionID x # w_dispatching w\<rparr>"
  let ?w2 = "redeliverOne v x ?w1"
  have wf1: "db_wf (w_db ?w1)" using Cons.prems(4) by simp
  show ?case
  proof (cases "x = row")
    case True
    have run: "redeliver_rows v blocked k rows ?w2 = (e, w')" using Cons.prems(1,13) True unfolding k redeliver_rows_Suc by simp
    have s: "lookup_by ob_id (ob_id q) (db_outbox (w_db ?w2)) = Some (q\<lparr>ob_status := OutboxSent, ob_updated_at := unix_nano (v_now v)\<rparr>)"
      "w_sent ?w2 = w_sent w @ [r]"
      using redeliverOne_sent [OF Cons.prems(5) wf1, of q r x pid] Cons.prems(6-10,12) True by auto
    have "ob_id q \<notin> o_ID ` set rows" using Cons.prems(2,12) True by (auto simp: image_iff)
    then have "q\<lparr>ob_status := OutboxSent, ob_updated_at := unix_nano (v_now v)\<rparr> \<in> set (db_outbox (w_db w'))"
      using redeliver_rows_keeps_other [OF run] lookup_by_Some [OF s(1)] by simp
    then show ?thesis using redeliver_rows_grows [OF run] s(2) by auto
  next
    case False
    have other: "ob_id q \<noteq> o_ID x" using Cons.prems(2,11,12) False by (auto simp: image_iff)
    have row: "row \<in> set rows" "distinct (map o_ID rows)" "length rows \<le> k" using Cons.prems(2,3,11) False k by auto
    show ?thesis
    proof (cases "o_SubmissionID x \<in> set blocked \<or> o_SubmissionID x \<in> set (w_dispatching w)")
      case True
      then have "redeliver_rows v blocked k rows w = (e, w')" using Cons.prems(1) unfolding k redeliver_rows_Suc by simp
      from Cons.IH [OF this row(2,3) Cons.prems(4-10) row(1) Cons.prems(12,13)] show ?thesis .
    next
      case claimed: False
      note one = redeliverOne_claimed [OF refl, where row = x and w = w and v = v]
      have run: "redeliver_rows v blocked k rows ?w2 = (e, w')" using Cons.prems(1) claimed unfolding k redeliver_rows_Suc by simp
      have "q \<in> set (db_outbox (w_db ?w2))" using one(2) claimed other Cons.prems(6) by blast
      moreover have "o_SubmissionID row \<notin> set blocked \<union> set (w_dispatching ?w2)" using one(1) claimed Cons.prems(13) by simp
      ultimately have "r \<in> set (drop (length (w_sent ?w2)) (w_sent w')) \<and>
          q\<lparr>ob_status := OutboxSent, ob_updated_at := unix_nano (v_now v)\<rparr> \<in> set (db_outbox (w_db w'))"
        using Cons.IH [OF run row(2,3) redeliverOne_wf [OF wf1] Cons.prems(5) _ Cons.prems(7-10) row(1) Cons.prems(12)] by blast
      moreover have "length (w_sent w) \<le> length (w_sent ?w2)" using redeliverOne_step [OF refl, of v x ?w1] by auto
      ultimately show ?thesis using set_drop_subset_set_drop [of "length (w_sent w)" "length (w_sent ?w2)" "w_sent w'"] by blast
    qed
  qed
qed simp

lemma blocked_only_blocked:
  assumes "blockedSubmissions v rows w = Inr blocked" and "i \<in> set blocked"
  shows "\<exists>s\<in>set (db_submissions (w_db w)). q_id s = i \<and> (q_on_hold s \<or> q_delivery_failed s)"
  using assms by (auto simp: blockedSubmissions_def replyBlockedIDs_def Let_def split: if_splits option.splits)

text \<open>
  C7. A reply in the outbox survives a crash. Whatever the service was doing when the process died, the first sweep of the
  outbox worker after the restart sends every reply that is due, within the batch, and whose submission may be sent to, and
  marks its row sent, provided that the mail server accepts and the database works.
\<close>

theorem reply_survives_crash:
  assumes "boots s0" and "service_step\<^sup>*\<^sup>* s0 s" and "faultless v" and "\<not> replies_disabled (v_cfg v)"
    and due: "q \<in> set (due_page (v_now v) (time_add (v_now v) (- outboxRetryAfter)) outboxBatch (db_outbox (w_db (sv_world s))))"
    and "ob_reply_json q = Some r" and "in_int64 (ob_updated_at q)" and "v_send v r = Inr pid"
    and free: "\<forall>x\<in>set (db_submissions (w_db (sv_world s))). q_id x = ob_submission_id q \<longrightarrow> \<not> q_on_hold x \<and> \<not> q_delivery_failed x"
    and live: "length (due_page (v_now v) (time_add (v_now v) (- outboxRetryAfter)) outboxBatch (db_outbox (w_db (sv_world s)))) \<le> live"
  defines "w' \<equiv> outboxWorker (v, live) [] (rebooted (sv_world s))"
  shows "r \<in> set (drop (length (w_sent (sv_world s))) (w_sent w')) \<and>
    q\<lparr>ob_status := OutboxSent, ob_updated_at := unix_nano (v_now v)\<rparr> \<in> set (db_outbox (w_db w'))"
proof -
  let ?cut = "time_add (v_now v) (- outboxRetryAfter)" and ?w = "rebooted (sv_world s)"
  have nf: "v_fault v x y = None" for x y using assms(3) by (simp add: faultless_def)
  have wf: "db_wf (w_db (sv_world s))" using sv.run_good [OF assms(1,2)] by (simp add: service_ok_def)
  have db: "w_db ?w = w_db (sv_world s)" "w_dispatching ?w = []" "w_sent ?w = w_sent (sv_world s)" by (simp_all add: rebooted_def)
  obtain e where run: "redeliverOutbox v live ?w = (e, w')" by (cases "redeliverOutbox v live ?w") (simp add: w'_def outboxWorker_def)
  let ?page = "due_page (v_now v) ?cut outboxBatch (db_outbox (w_db ?w))"
  define rows where "rows = decoded_entries ?page"
  define w1 where "w1 w = w\<lparr>w_db := (w_db w)\<lparr>db_outbox := snd (listPending (v_now v) (v_now v) ?cut outboxBatch (db_outbox (w_db w)))\<rparr>\<rparr>" for w :: world
  obtain blocked where b: "blockedSubmissions v rows (w1 ?w) = Inr blocked"
    by (cases "rows = []") (simp_all add: blockedSubmissions_def Let_def nf)
  have rr: "redeliver_rows v blocked live rows (w1 ?w) = (e, w')"
    using run b assms(4) by (simp add: redeliverOutbox_def nf listPending_def rows_def w1_def Let_def)
  have ids: "distinct (map ob_id (db_outbox (w_db ?w)))" using wf db by (simp add: db_wf_def ob.wf_def)
  have q: "q \<in> set (db_outbox (w_db ?w))" "is_pending q" using in_due_page [OF due] db by (auto simp: outbox_due_def)
  have keep: "q \<in> set (db_outbox (w_db (w1 ?w)))"
    using q(1) assms(6) unfolding w1_def by (simp add: listPending_table [OF ids] image_iff)
  have row: "outbox_entry_of q r \<in> set rows" "o_ID (outbox_entry_of q r) = ob_id q" "o_SubmissionID (outbox_entry_of q r) = ob_submission_id q"
    using due assms(6) db by (auto simp: rows_def in_decoded_entries outbox_entry_of_def)
  have "ob_submission_id q \<notin> set blocked"
    using blocked_only_blocked [OF b] free db by (auto simp: w1_def)
  then have open_: "o_SubmissionID (outbox_entry_of q r) \<notin> set blocked \<union> set (w_dispatching (w1 ?w))" using row db by (simp add: w1_def)
  have wf1: "db_wf (w_db (w1 ?w))" using db_steps_wf wf db listing_keeps [of ?w v] by (simp add: w1_def keeps_def)
  have "distinct (map o_ID rows)" "length rows \<le> live"
    unfolding rows_def using distinct_decoded_entries [OF distinct_due_page [OF ids]] length_decoded_entries [of ?page] live db by auto
  from redeliver_rows_reaches [OF rr this wf1 assms(3) keep q(2) assms(6-8) row(1,2) open_] show ?thesis
    by (simp add: w1_def db)
qed

theorem reply_survives_crash_witness:
  "o_Reply (sample_entry ''a'' ''s1'' ''one'') \<in> set (w_sent (outboxWorker (sample_env, 5) [] (rebooted outbox_world)))"
proof -
  let ?s = "\<lparr>sv_world = outbox_world, sv_flights = []\<rparr>"
  let ?page = "due_page (v_now sample_env) (time_add (v_now sample_env) (- outboxRetryAfter)) outboxBatch (db_outbox (w_db outbox_world))"
  have b: "boots ?s" using outbox_world_wf by (simp add: boots_def outbox_world_def empty_world_def)
  have en: "\<not> replies_disabled (v_cfg sample_env)" by code_simp
  have due: "sample_out_row \<in> set ?page" by code_simp
  have len: "length ?page \<le> 5" by code_simp
  have free: "\<forall>x\<in>set (db_submissions (w_db outbox_world)). q_id x = ob_submission_id sample_out_row \<longrightarrow> \<not> q_on_hold x \<and> \<not> q_delivery_failed x"
    by code_simp
  have send: "v_send sample_env (o_Reply (sample_entry ''a'' ''s1'' ''one'')) = Inr ''<sent@x>''" by (simp add: sample_env_def)
  from reply_survives_crash [OF b rtranclp.rtrancl_refl sample_env_faultless(1) en, of sample_out_row, OF _ sample_out_row_facts(3,5) send]
  show ?thesis using due len free by (simp add: outbox_world_def empty_world_def)
qed

end
