(* ===== verification/Service_Types.thy ===== *)
theory Service_Types
  imports Service_Invariant
begin

text \<open>
  A type invariant of what the service stores: whatever interleaves, every submission is in one of the five states of
  the state machine, and every encoded column decodes. The repository alone does not enforce the former (its statements
  take any value); the handlers do, and this theory shows it handler by handler. What it buys: an ingest never
  fails for an invalid transition, and no queued reply is ever given up for being unreadable.
\<close>

section \<open>Well-typed databases\<close>

definition states_known :: "db \<Rightarrow> bool" where
  "states_known d \<longleftrightarrow> (\<forall>r\<in>set (db_submissions d). known_state (q_state r))"

definition columns_decode :: "db \<Rightarrow> bool" where
  "columns_decode d \<longleftrightarrow> (\<forall>r\<in>set (db_submissions d). \<exists>xs. q_missing_items r = MissingItems xs) \<and>
     (\<forall>q\<in>set (db_outbox d). ob_reply_json q \<noteq> None)"

text \<open>The columns are encoded by the statements themselves, so every statement keeps them decodable.\<close>

lemma upsert_aggregate_subs:
  "upsert_aggregate now s d = Inr d' \<Longrightarrow> db_submissions d' = upsert_by q_id merge_sub_row (sub_row_of now s) (db_submissions d)"
  by (erule upsert_aggregate_parts) (auto simp: upsert_documents_subs upsert_emails_subs dest!: upsertSubmissionRow_Inr)

lemma in_upsert_sub:
  assumes "r \<in> set (upsert_by q_id merge_sub_row (sub_row_of now s) tbl)"
  shows "r \<in> set tbl \<or> q_state r = s_State s \<and> q_missing_items r = MissingItems (s_MissingItems s)"
  using assms by (auto simp: upsert_by_def in_update_where merge_sub_row_def sub_row_of_def split: if_splits)

lemma upsert_aggregate_columns:
  assumes "upsert_aggregate now s d = Inr d'" and "columns_decode d"
  shows "columns_decode d'"
  using assms(2) in_upsert_sub
  unfolding columns_decode_def upsert_aggregate_subs [OF assms(1)] upsert_aggregate_outbox [OF assms(1)] by blast

lemma upsert_aggregate_states:
  assumes "upsert_aggregate now s d = Inr d'" and "states_known d" and "known_state (s_State s)"
  shows "states_known d'"
  using assms(2,3) in_upsert_sub unfolding states_known_def upsert_aggregate_subs [OF assms(1)] by fastforce

lemma insertOutboxRow_columns:
  assumes "insertOutboxRow fk uid now ent tbl = Inr (e, tbl')" and "\<forall>q\<in>set tbl. ob_reply_json q \<noteq> None"
  shows "\<forall>q\<in>set tbl'. ob_reply_json q \<noteq> None"
  using assms
  by (auto simp: insertOutboxRow_def Let_def in_update_where supersede_def outbox_row_of_def split: option.splits if_splits)

lemma update_sub_columns:
  assumes "columns_decode d" and "\<And>r. q_missing_items (f r) = q_missing_items r"
  shows "columns_decode (update_sub p f d)"
  using assms by (auto simp: columns_decode_def update_sub_def in_update_where)

lemma listPending_columns:
  assumes "\<forall>q\<in>set tbl. ob_reply_json q \<noteq> None"
  shows "snd (listPending clock now cutoff limit tbl) = tbl"
proof -
  have "filter (\<lambda>r. ob_reply_json r = None) (due_page now cutoff limit tbl) = []"
    using assms by (auto simp: due_page_def filter_empty_conv dest!: in_order_limit)
  then show ?thesis by (simp add: listPending_def Let_def)
qed

lemma db_step_columns: "db_step d d' \<Longrightarrow> columns_decode d \<Longrightarrow> columns_decode d'"
proof (induction rule: db_step.induct)
  case (upsert now s d d')
  then show ?case by (auto simp: upsertSubmission_def split: if_splits intro: upsert_aggregate_columns)
next
  case (upsert_with_reply uid now s e d e' d')
  then obtain d1 tbl where "upsert_aggregate now s d = Inr d1" "insertOutboxRow (has_submission d1) uid now e (db_outbox d1) = Inr (e', tbl)"
    "d' = d1\<lparr>db_outbox := tbl\<rparr>"
    by (auto simp: upsertSubmissionWithReply_def split: if_splits sum.splits)
  then have "columns_decode d1" and ins: "insertOutboxRow (has_submission d1) uid now e (db_outbox d1) = Inr (e', tbl)"
    and d': "d' = d1\<lparr>db_outbox := tbl\<rparr>"
    using upsert_aggregate_columns upsert_with_reply(2) by blast+
  then show ?case using insertOutboxRow_columns [OF ins] unfolding columns_decode_def d' by simp
next
  case (email e d d')
  then show ?case by (auto simp: upsertEmail_def upsertEmailRow_def columns_decode_def split: if_splits)
next
  case (outbox_enqueue d uid now e e' tbl)
  then show ?case using insertOutboxRow_columns [OF outbox_enqueue(1)] by (simp add: columns_decode_def)
next
  case (outbox_list d clock now cutoff limit)
  then show ?case by (simp add: columns_decode_def listPending_columns)
qed (auto simp: setLastReplyAt_def clearReplyHash_def setOnHold_def intro: update_sub_columns,
    auto simp: columns_decode_def clearExtractedTextForClosed_def Let_def outbox_update_def markSent_def expirePending_def
      expirePendingForSubmissions_def fail_rows_def outbox_prune_def in_update_where split: if_splits)


section \<open>States, handler by handler\<close>

definition keeps_states :: "world \<Rightarrow> world \<Rightarrow> bool" where
  "keeps_states w w' \<longleftrightarrow> (states_known (w_db w) \<longrightarrow> states_known (w_db w'))"

lemma keeps_states_refl [simp, intro]: "keeps_states w w"
  by (simp add: keeps_states_def)

lemma keeps_states_trans [trans]: "keeps_states a b \<Longrightarrow> keeps_states b c \<Longrightarrow> keeps_states a c"
  by (simp add: keeps_states_def)

lemma same_subs_states: "db_submissions (w_db w') = db_submissions (w_db w) \<Longrightarrow> keeps_states w w'"
  by (simp add: keeps_states_def states_known_def)

lemma same_core_states: "same_core w w' \<Longrightarrow> keeps_states w w'"
  by (rule same_subs_states) (simp add: same_core_def)

lemma update_sub_states: "(\<And>r. q_state (f r) = q_state r) \<Longrightarrow> states_known d \<Longrightarrow> states_known (update_sub p f d)"
  by (auto simp: states_known_def update_sub_def in_update_where)

lemma repo_try_states:
  "(\<And>d d'. f d = Inr d' \<Longrightarrow> states_known d \<Longrightarrow> states_known d') \<Longrightarrow> keeps_states w (repo_try v p i f w)"
  by (auto simp: repo_try_def keeps_states_def split: option.splits sum.splits)

lemma repo_outbox_states: "keeps_states w (repo_try v p i (update_outbox f) w)"
  by (rule repo_try_states) (auto simp: update_outbox_def states_known_def map_sum_def split: sum.splits)

lemma repo_upsert_states: "repo_upsert v sub w = Inr w' \<Longrightarrow> known_state (s_State sub) \<Longrightarrow> keeps_states w w'"
  using upsert_aggregate_states by (auto simp: keeps_states_def dest!: repo_upsert_Inr)

text \<open>Deliveries touch the mail, the outbox and the times of replies.\<close>

lemma deliver_states: "deliver v r sid w = (e, w') \<Longrightarrow> keeps_states w w'"
proof (cases "v_send v r")
  case (Inr pid)
  assume d: "deliver v r sid w = (e, w')"
  define w1 where "w1 = repo_try v OpUpsertEmail (r_SubmissionID r) (upsertEmail (outboundEmail (v_sha v) r pid (v_now v))) (record_sent r w)"
  define w2 where "w2 = repo_try v OpSetLastReplyAt sid (\<lambda>d. Inr (setLastReplyAt sid (v_now v) d)) w1"
  have "keeps_states w (record_sent r w)" by (rule same_subs_states) (simp add: record_sent_def)
  also have "keeps_states (record_sent r w) w1"
    unfolding w1_def by (rule repo_try_states) (auto simp: upsertEmail_def states_known_def dest: upsertEmailRow_subs)
  also have "keeps_states w1 w2"
    unfolding w2_def by (rule repo_try_states) (auto simp: setLastReplyAt_def intro: update_sub_states)
  also have "keeps_states w2 w'"
    by (rule same_core_states) (use d Inr in \<open>auto simp: deliver_def Let_def w1_def [symmetric] w2_def [symmetric]\<close>)
  finally show ?thesis .
qed (simp add: deliver_def)

lemma attempt_failed_states: "keeps_states w (attempt_failed v row err w)"
proof -
  have u: "keeps_states w0 (repo_outbox_update v i st n er w0)" for i st n er w0
    unfolding repo_outbox_update_def by (rule repo_outbox_states)
  have c: "keeps_states w0 (repo_try v OpClearReplyHash s (\<lambda>d. Inr (clearReplyHash s d)) w0)" for s w0
    by (rule repo_try_states) (auto simp: clearReplyHash_def intro: update_sub_states)
  note dead = keeps_states_trans [OF keeps_states_trans [OF u c] same_core_states [OF same_core_audit]]
  show ?thesis using u dead by simp
qed

lemma release_states [simp]: "keeps_states w (releaseDispatch i w') = keeps_states w w'"
  by (simp add: keeps_states_def releaseDispatch_def)

lemma redeliver_settle_states: "keeps_states w (redeliver_settle v listed row w)"
proof -
  obtain e w1 where d: "deliver v (o_Reply row) (o_SubmissionID row) w = (e, w1)"
    by (cases "deliver v (o_Reply row) (o_SubmissionID row) w")
  have "keeps_states w1 (repo_mark_sent v i t w1)" for i t unfolding repo_mark_sent_def by (rule repo_outbox_states)
  then show ?thesis using d keeps_states_trans [OF deliver_states [OF d]] attempt_failed_states [where w = w1 and v = v and row = row]
    by (cases e) (auto simp: redeliver_settle_def)
qed

lemma land_states: "keeps_states w (land v f w)"
proof (cases f)
  case (Online job)
  obtain e w1 where d: "deliver v (j_Reply job) (j_SubmissionID job) w = (e, w1)"
    by (cases "deliver v (j_Reply job) (j_SubmissionID job) w")
  have "keeps_states w1 (repo_mark_sent v i t w1)" for i t unfolding repo_mark_sent_def by (rule repo_outbox_states)
  then show ?thesis using d Online keeps_states_trans [OF deliver_states [OF d]] same_core_states [OF same_core_audit, of w1]
    by (cases e) (auto simp: dispatchOnline_def)
qed (auto simp: redeliverOne_halves redeliver_settle_states split: option.split)

text \<open>Sweeps write the two states they are for.\<close>

lemma rows_states:
  assumes "db_wf (w_db w')"
    and "\<And>i r'. row_of i w' = Some r' \<Longrightarrow> row_of i w' = row_of i w \<or> known_state (q_state r')"
  shows "keeps_states w w'"
proof -
  have "known_state (q_state r')" if "states_known (w_db w)" and r': "r' \<in> set (db_submissions (w_db w'))" for r'
  proof -
    have "row_of (q_id r') w' = Some r'" using assms(1) r' by (auto simp: db_wf_def intro: lookup_by_distinct)
    then show ?thesis using assms(2) [of "q_id r'" r'] that(1) lookup_by_Some by (fastforce simp: states_known_def)
  qed
  then show ?thesis by (simp add: keeps_states_def states_known_def)
qed

lemma sweeps_states:
  assumes "sweeps Q S w w'" and "db_wf (w_db w)" and "\<And>s r'. s \<in> S \<Longrightarrow> Q s r' \<Longrightarrow> known_state (q_state r')"
  shows "keeps_states w w'"
proof (rule rows_states)
  show "db_wf (w_db w')" using assms(1,2) db_steps_wf by (auto simp: sweeps_def)
  have "row_of i w' = row_of i w \<or> (\<exists>s\<in>S. s_ID s = i \<and> (\<exists>r'. row_of i w' = Some r' \<and> Q s r'))" for i
    using assms(1) unfolding sweeps_def by blast
  then show "row_of i w' = row_of i w \<or> known_state (q_state r')" if "row_of i w' = Some r'" for i r'
    using that assms(3) by (metis option.inject)
qed

lemma periodic_checks_states:
  assumes "db_wf (w_db w)"
  shows "keeps_states w (periodic_checks v w)"
proof -
  obtain e w1 where e: "checkEscalations v w = (e, w1)" by (cases "checkEscalations v w")
  obtain e' w2 where c: "checkClosures v w1 = (e', w2)" by (cases "checkClosures v w1")
  note eff = checkEscalations_effect [OF e assms]
  have wf1: "db_wf (w_db w1)" using eff assms db_steps_wf by blast
  then have cl: "closes v w1 w2" and wf2: "db_wf (w_db w2)" using checkClosures_closes [OF c] closes_wf by blast+
  have "keeps_states w w1"
  proof (rule rows_states [OF wf1])
    have "escalated_or_same v w w1 i" for i using eff by blast
    then show "row_of i w1 = row_of i w \<or> known_state (q_state r')" if "row_of i w1 = Some r'" for i r'
      using that unfolding escalated_or_same_def known_state_def by (metis insertI1 insertI2 option.inject)
  qed
  also have "keeps_states w1 w2"
  proof (rule rows_states [OF wf2])
    have "row_of i w2 = row_of i w1 \<or> (\<exists>r r'. row_of i w1 = Some r \<and> may_close v r \<and> row_of i w2 = Some r' \<and> q_state r' = StateClosed)" for i
      using cl unfolding closes_def by blast
    then show "row_of i w2 = row_of i w1 \<or> known_state (q_state r')" if "row_of i w2 = Some r'" for i r'
      using that unfolding known_state_def by (metis insertI1 insertI2 option.inject)
  qed
  finally show ?thesis using e c by (simp add: periodic_checks_def)
qed

lemma set_on_hold_states: "repo_set_on_hold v ids b w = Inr w' \<Longrightarrow> keeps_states w w'"
  by (auto simp: repo_set_on_hold_def keeps_states_def setOnHold_def split: option.splits intro!: update_sub_states)

lemma reconcileHold_states: "keeps_states w (snd (reconcileHold v mids w))"
proof -
  have audits: "keeps_states w0 (audit_each v ev ids (audit_each v ev' ids' w0))" for ev ev' ids ids' w0
    by (rule same_core_states [OF same_core_trans [OF same_core_audit_each same_core_audit_each]])
  note tail = keeps_states_trans [OF keeps_states_trans [OF keeps_states_trans [OF set_on_hold_states set_on_hold_states] repo_outbox_states] audits]
  show ?thesis
    by (auto simp: reconcileHold_def Let_def split: option.split sum.split intro: tail set_on_hold_states)
qed

lemma pruneRetention_states: "keeps_states w (snd (pruneRetention v rt w))"
proof -
  obtain res w' where p: "pruneRetention v rt w = (res, w')" by (cases "pruneRetention v rt w")
  then have "db_submissions (w_db w') = db_submissions (w_db w)"
  proof (cases rule: pruneRetention_cases)
    case (pruned n)
    then show ?thesis using prune_settled_keeps [OF pruned(1)] by simp
  qed simp_all
  then show ?thesis using p by (simp add: same_subs_states)
qed

section \<open>Ingest\<close>

text \<open>The submission a message is resolved to, and what assessment makes of it, is in a known state.\<close>

lemma getByID_known_state: "getByID i d = Inr s \<Longrightarrow> states_known d \<Longrightarrow> known_state (s_State s)"
  by (auto simp: getByID_def states_known_def scanSubmission_def split: option.splits dest: lookup_by_Some)

lemma resolved_known:
  assumes "resolveSubmission v req emailID w = (Resolved s, w')" and "states_known (w_db w)"
  shows "known_state (s_State s)"
  using resolveSubmission_step [OF assms(1)] createSubmission_step [OF prod.collapse [symmetric], where v = v and req = req and w = w] getByID_known_state assms(2) by blast

lemma assess_known:
  assumes "assess v sub inbound isNew w = (missing, unknown, sub', w')" and "states_known (w_db w)" and "known_state (s_State sub)"
  shows "known_state (s_State sub')"
proof -
  obtain m1 u1 sub1 w1 where ev: "evaluate v sub inbound w = (m1, u1, sub1, w1)" by (cases "evaluate v sub inbound w")
  obtain sub2 w2 where id: "(if u1 then (sub1, w1) else extractIdentity v sub1 w1) = (sub2, w2)"
    by (cases "if u1 then (sub1, w1) else extractIdentity v sub1 w1")
  obtain m w3 where cm: "contentMatch v sub2 inbound w2 = (m, w3)" by (cases "contentMatch v sub2 inbound w2")
  have "quiet w1 w2 \<and> same_thread sub1 sub2"
    using id extractIdentity_thread [of v sub1 w1 sub2 w2] by (auto split: if_splits)
  then have t: "s_State sub2 = s_State sub" and db: "w_db w2 = w_db w"
    using evaluate_step [OF ev] by (auto simp: same_thread_def quiet_def same_core_def)
  show ?thesis
  proof (cases "isNew \<and> m \<noteq> None")
    case True
    then obtain s where m: "m = Some s" by auto
    then obtain existing cutoff where s: "s = merge_into v sub2 inbound existing"
      and "repo_content_match v (s_NamedInsured sub2) (s_FromAddress sub2) cutoff w2 = Inr existing"
      using contentMatch_step [OF cm] by blast
    then have "\<exists>i. getByID i (w_db w2) = Inr existing"
      by (auto simp: repo_content_match_def findContentMatch_def Let_def split: option.splits if_splits list.splits)
    then have "known_state (s_State s)" using getByID_known_state assms(2) db by (auto simp: s merge_into_thread)
    then show ?thesis using assms(1) ev id cm True m by (auto simp: assess_def)
  next
    case False
    then have "sub' = sub2" using assms(1) ev id cm by (auto simp: assess_def split: if_splits)
    then show ?thesis using t assms(3) by simp
  qed
qed

text \<open>So the transition of an ingest is always allowed; a bounce keeps the state.\<close>

lemma persistBounce_states:
  assumes "persistBounce v sub req w = (r, w')" and "known_state (s_State sub)"
  shows "keeps_states w w'"
  using assms
  by (auto simp: persistBounce_def Let_def split: sum.splits if_splits
      intro: same_core_states keeps_states_trans [OF same_core_states [OF same_core_audit] repo_upsert_states])

lemma assessed_known: "assessed v s \<Longrightarrow> known_state (s_State s)"
  by (simp add: assessed_def known_state_def)

lemma outcome_states:
  assumes "outcome v req emailID w r w'" and "\<not> rq_Bounce req"
  shows "keeps_states w w'"
  using assms(1)
proof cases
  case (silent sub w1 w2 inbound unknown)
  then show ?thesis using assessed_known repo_upsert_states same_core_states keeps_states_trans by meson
next
  case (replied sub w1 inbound unknown reply fp res)
  let ?sub = "sub\<lparr>s_LastReplyHash := fp\<rparr>"
  have "keeps_states w1 w'"
    using replied(12)
  proof (rule persistWithReply_Inr)
    fix d e entry
    assume agg: "upsert_aggregate (v_now v) ?sub (w_db w1) = Inr d" and w': "w_db w' = d\<lparr>db_outbox := db_outbox (w_db w')\<rparr>"
    have "db_submissions (w_db w') = db_submissions d" by (subst w') simp
    then show ?thesis using upsert_aggregate_states [OF agg] assessed_known [OF replied(5)] by (simp add: keeps_states_def states_known_def)
  qed
  then show ?thesis using keeps_states_trans [OF same_core_states [OF replied(6)]] by simp
qed (use assms(2) in \<open>auto intro: same_core_states\<close>)

lemma ingest_body_states:
  assumes "ingest_body v req emailID w = (r, w')"
  shows "keeps_states w w'"
proof (cases "rq_Bounce req")
  case False
  then show ?thesis using outcome_states [OF ingest_body_outcome [OF assms]] by simp
next
  case True
  obtain res w1 where rs: "resolveSubmission v req emailID w = (res, w1)" by (cases "resolveSubmission v req emailID w")
  have q: "same_core w w1" using resolveSubmission_step [OF rs] same_core_quiet by blast
  show ?thesis
  proof (cases res)
    case (Resolved sub0)
    obtain sub1 w2 where rc: "receive v req emailID sub0 w1 = (sub1, w2)" by (cases "receive v req emailID sub0 w1")
    note st = receive_step [OF rc, where fr = False, simplified]
    have p: "persistBounce v sub1 req w2 = (r, w')" using assms rs Resolved rc True by (simp add: ingest_body_def)
    have "keeps_states w2 w'" if "states_known (w_db w)"
      using persistBounce_states [OF p] resolved_known [OF rs [unfolded Resolved] that] st by simp
    moreover have "w_db w2 = w_db w" using q st by (auto simp: same_core_def quiet_def)
    ultimately show ?thesis by (auto simp: keeps_states_def)
  qed (use assms rs q in \<open>auto simp: ingest_body_def intro: same_core_states\<close>)
qed

lemma ingest_states: "keeps_states w (snd (ingestEmail v req w))"
proof -
  let ?w0 = "w\<lparr>w_collector := Some []\<rparr>"
  obtain r w1 where b: "ingest_body v (stamped v req) (message_id v req) ?w0 = (r, w1)"
    by (cases "ingest_body v (stamped v req) (message_id v req) ?w0")
  have "snd (ingestEmail v req w) = flushAudit v w1"
    using b by (simp add: ingestEmail_def ingestEmailInner_def message_id_def stamped_def split: if_splits)
  then have "same_core w1 (snd (ingestEmail v req w))" by auto
  then show ?thesis using ingest_body_states [OF b] same_core_states by (simp add: keeps_states_def)
qed

lemma serve_states:
  assumes "db_wf (w_db w)"
  shows "keeps_states w (serve v r w)"
proof (cases r)
  case (AuditFileFailed sid folder reason)
  then show ?thesis using same_core_states [OF same_core_audit] by (simp add: auditFileFailed_def)
next
  case Digest
  then show ?thesis by (auto simp: sendDigest_def Let_def record_sent_def split: option.split sum.split intro!: same_subs_states)
qed (auto simp: ingest_states reconcileHold_states pruneRetention_states periodic_checks_states assms intro: same_subs_states)

section \<open>The invariant\<close>

definition well_typed :: "db \<Rightarrow> bool" where
  "well_typed d \<longleftrightarrow> states_known d \<and> columns_decode d"

definition typed_boot :: "service_state \<Rightarrow> bool" where
  "typed_boot s \<longleftrightarrow> boots s \<and> well_typed (w_db (sv_world s))"

definition typed_service :: "service_state \<Rightarrow> bool" where
  "typed_service s \<longleftrightarrow> service_ok s \<and> well_typed (w_db (sv_world s))"

lemma service_step_states:
  assumes "service_step s t" and "db_wf (w_db (sv_world s))"
  shows "keeps_states (sv_world s) (sv_world t)"
  using assms(1)
proof (cases rule: service_stepE)
  case (handle w fs v r)
  then show ?thesis using serve_states assms(2) by simp
next
  case (claim_row row w w' fs)
  then show ?thesis by (auto simp: claimDispatch_def split: if_splits intro: same_subs_states)
next
  case (escalate_listed sub w fs v reason)
  have "sweeps (escalated_as v) {sub} w (snd (escalate v sub reason w))"
    by (rule escalate_sweeps [OF prod.collapse [symmetric] escalate_listed(3)])
  then show ?thesis using sweeps_states assms(2) escalate_listed by (fastforce simp: escalated_as_def known_state_def)
next
  case (close_listed sub w fs v reason)
  then show ?thesis using sweeps_states [OF closeQuiet_sweeps] assms(2) by (simp add: known_state_def)
qed (auto simp: land_states rebooted_def intro: same_subs_states)

interpretation ty: invariant_system typed_boot service_step typed_service
proof unfold_locales
  show "typed_service s" if "typed_boot s" for s
    using that sv.start_good by (simp add: typed_boot_def typed_service_def)
next
  fix s t
  assume st: "service_step s t" and ok: "typed_service s"
  have "service_ok t" using sv.step_good [OF st] ok by (simp add: typed_service_def)
  moreover have "states_known (w_db (sv_world t))"
    using service_step_states [OF st] ok by (simp add: typed_service_def service_ok_def well_typed_def keeps_states_def)
  moreover have "columns_decode (w_db (sv_world t))"
  proof (rule rtranclp_induct [OF service_step_db [OF st]])
    show "service_ok s" "columns_decode (w_db (sv_world s))" using ok by (simp_all add: typed_service_def well_typed_def)
  qed (rule db_step_columns)
  ultimately show "typed_service t" by (simp add: typed_service_def well_typed_def)
qed

section \<open>Ingest does not go wrong\<close>

text \<open>The database reports errors of its own, never the domain's refusal of a transition.\<close>

definition sql_faults :: "env \<Rightarrow> bool" where
  "sql_faults v \<longleftrightarrow> (\<forall>p i. v_fault v p i \<noteq> Some ErrInvalidTransition)"

lemma upsert_emails_error: "upsert_emails es d = Inl e \<Longrightarrow> e \<noteq> ErrInvalidTransition"
proof (induction es arbitrary: d)
  case (Cons x es)
  then show ?case by (auto simp: upsertEmailRow_def split: sum.splits error.splits if_splits)
qed simp

lemma upsert_documents_error: "upsert_documents cs d = Inl e \<Longrightarrow> e \<noteq> ErrInvalidTransition"
  by (induction cs arbitrary: d) (auto simp: upsertDocumentRow_def split: sum.splits if_splits)

lemma upsert_aggregate_error: "upsert_aggregate now s d = Inl e \<Longrightarrow> e \<noteq> ErrInvalidTransition"
  by (auto simp: upsert_aggregate_def upsertSubmissionRow_def split: sum.splits if_splits
      dest: upsert_emails_error upsert_documents_error)

lemma repo_upsert_error: "repo_upsert v sub w = Inl e \<Longrightarrow> sql_faults v \<Longrightarrow> e \<noteq> ErrInvalidTransition"
  by (auto simp: repo_upsert_def upsertSubmission_def sql_faults_def split: option.splits sum.splits if_splits dest: upsert_aggregate_error)

lemma repo_upsert_with_reply_error:
  "repo_upsert_with_reply v sub entry w = Inl e \<Longrightarrow> sql_faults v \<Longrightarrow> e \<noteq> ErrInvalidTransition"
  by (auto simp: repo_upsert_with_reply_def upsertSubmissionWithReply_def insertOutboxRow_def Let_def sql_faults_def
      split: option.splits sum.splits if_splits dest: upsert_aggregate_error)

lemma persistWithReply_error:
  "persistWithReply v sub reply res w = (Inl e, w') \<Longrightarrow> sql_faults v \<Longrightarrow> e \<noteq> ErrInvalidTransition"
  by (auto simp: persistWithReply_def Let_def split: sum.splits prod.splits dest: repo_upsert_with_reply_error)

lemma reply_or_not_error:
  "reply_or_not v req inbound missing unknown sub w = (Inl e, w') \<Longrightarrow> sql_faults v \<Longrightarrow> e \<noteq> ErrInvalidTransition"
  by (auto simp: reply_or_not_def Let_def persistSuppressed_def persistNoReply_def
      split: sum.splits prod.splits if_splits option.splits dest: repo_upsert_error persistWithReply_error)

lemma resolve_error:
  "resolveSubmission v req emailID w = (Unresolved e, w') \<Longrightarrow> sql_faults v \<Longrightarrow> e \<noteq> ErrInvalidTransition"
  by (auto simp: resolveSubmission_def Let_def duplicate_of_def repo_find_reference_def repo_find_deterministic_def
      findByEmailReference_def findByDeterministicID_def getByID_def pickMostRecentlyUpdated_def map_sum_def sql_faults_def
      split: sum.splits prod.splits error.splits option.splits if_splits list.splits)

lemma ingest_body_error:
  assumes "ingest_body v req emailID w = (Inl e, w')" and "states_known (w_db w)" and "sql_faults v"
  shows "e \<noteq> ErrInvalidTransition"
proof -
  obtain res w1 where rs: "resolveSubmission v req emailID w = (res, w1)" by (cases "resolveSubmission v req emailID w")
  show ?thesis
  proof (cases res)
    case (Resolved sub0)
    obtain sub1 w2 where rc: "receive v req emailID sub0 w1 = (sub1, w2)" by (cases "receive v req emailID sub0 w1")
    note st = receive_step [OF rc, where fr = False, simplified]
    have db: "w_db w2 = w_db w" using resolveSubmission_step [OF rs] st by (auto simp: same_core_def quiet_def)
    let ?as = "assess v sub1 (inboundEmail req emailID (s_ID sub0)) (s_Emails sub0 = []) w2"
    obtain missing unknown sub2 w3 where as: "?as = (missing, unknown, sub2, w3)" by (cases ?as)
    obtain sub3 w4 where fl: "flag_review v missing sub2 w3 = (sub3, w4)" by (cases "flag_review v missing sub2 w3")
    have "known_state (s_State sub1)" using st resolved_known [OF rs [unfolded Resolved] assms(2)] by simp
    then have known: "known_state (s_State sub3)"
      using assess_known [OF as] assms(2) db flag_review_step [OF fl] by (simp add: same_thread_def)
    have "\<exists>sub4. transitionTo sub3 (if missing = [] then StateComplete else StateAwaiting) (v_now v) = Inr sub4"
      by (rule transitionTo_ingestable [OF known]) simp
    then obtain sub4 where "transitionTo sub3 (if missing = [] then StateComplete else StateAwaiting) (v_now v) = Inr sub4" ..
    then obtain w5 where tr: "transitionState v sub3 missing w4 = (Inr sub4, w5)" by (simp add: transitionState_def)
    show ?thesis
    proof (cases "rq_Bounce req")
      case True
      then show ?thesis using assms rs Resolved rc
        by (auto simp: ingest_body_def persistBounce_def Let_def split: sum.splits if_splits dest: repo_upsert_error)
    next
      case False
      then show ?thesis using assms rs Resolved rc as fl tr by (auto simp: ingest_body_def dest: reply_or_not_error)
    qed
  qed (use assms rs resolve_error [of v req emailID w] in \<open>auto simp: ingest_body_def\<close>)
qed

lemma ingest_error:
  assumes "states_known (w_db w)" and "sql_faults v"
  shows "fst (ingestEmail v req w) \<noteq> Inl ErrInvalidTransition"
proof -
  let ?w0 = "w\<lparr>w_collector := Some []\<rparr>"
  obtain r w1 where b: "ingest_body v (stamped v req) (message_id v req) ?w0 = (r, w1)"
    by (cases "ingest_body v (stamped v req) (message_id v req) ?w0")
  have "fst (ingestEmail v req w) = r"
    using b by (simp add: ingestEmail_def ingestEmailInner_def message_id_def stamped_def split: if_splits)
  then show ?thesis using ingest_body_error [of v _ _ ?w0 _ w1] b assms by (cases r) auto
qed

text \<open>
  C2. What the service stores is well typed, however its steps interleave, from any start on a well-typed database: every
  submission is in one of the five known states, every column that is stored encoded decodes. So, while
  the database reports no transition error of its own, no ingest is ever refused as an invalid transition, and
  listing the outbox gives up no reply.
\<close>

theorem service_stays_typed:
  assumes "typed_boot s" and "service_step\<^sup>*\<^sup>* s t" and "sql_faults v"
  shows "(\<forall>r\<in>set (db_submissions (w_db (sv_world t))). known_state (q_state r) \<and> (\<exists>xs. q_missing_items r = MissingItems xs)) \<and>
    (\<forall>q\<in>set (db_outbox (w_db (sv_world t))). \<exists>r. ob_reply_json q = Some r) \<and>
    fst (ingestEmail v req (sv_world t)) \<noteq> Inl ErrInvalidTransition \<and> serve v ListOutbox (sv_world t) = sv_world t"
proof -
  have ty: "well_typed (w_db (sv_world t))" using ty.run_good [OF assms(1,2)] by (simp add: typed_service_def)
  then have "fst (ingestEmail v req (sv_world t)) \<noteq> Inl ErrInvalidTransition" by (simp add: ingest_error assms(3) well_typed_def)
  then show ?thesis using ty by (simp add: well_typed_def states_known_def columns_decode_def listPending_columns)
qed

theorem service_stays_typed_witness:
  "w_jobs queued_world \<noteq> [] \<and> list_all (known_state \<circ> q_state) (db_submissions (w_db queued_world)) \<and>
   fst (ingestEmail sample_env (sample_request\<lparr>rq_BodyText := ''more''\<rparr>) queued_world) \<noteq> Inl ErrInvalidTransition"
proof -
  let ?s = "\<lparr>sv_world = empty_world, sv_flights = []\<rparr>"
  have b: "typed_boot ?s" using boots_empty
    by (simp add: typed_boot_def well_typed_def states_known_def columns_decode_def empty_world_def empty_db_def)
  have run: "service_step\<^sup>*\<^sup>* ?s \<lparr>sv_world = queued_world, sv_flights = []\<rparr>" unfolding queued_world_def by (rule one_handle)
  have "sql_faults sample_env" by (simp add: sql_faults_def sample_env_def)
  from service_stays_typed [OF b run this, of "sample_request\<lparr>rq_BodyText := ''more''\<rparr>"] queued_world_facts(1)
  show ?thesis by (auto simp: list_all_iff)
qed

end
