(* ===== verification/Eml_Model.thy ===== *)
theory Eml_Model
  imports Triage_Prelude
begin

text \<open>
  \<open>pkg/emlparse\<close>: from an RFC 822 message to the payload the pipeline consumes. What the standard library's
  readers yield is the input: a message is its header lookup, its raw body and the parts of its
  multipart stream up to the first error, each part with its own header, raw body and nested parts.
  Media types, encoded words, addresses, quoted-printable and HTML entities are decoded by parameters
  (\<open>eml_env\<close>); base64, the character sets and UTF-8 are defined here. Strings are valid UTF-8 where the
  source iterates over runes.

  The lemmas show that base64 and the transcoding lose nothing, what the walk over the parts collects and how
  it is bounded, and when a message is a bounce.
\<close>

section \<open>Base64\<close>

definition b64_alphabet :: string where
  "b64_alphabet = ''ABCDEFGHIJKLMNOPQRSTUVWXYZabcdefghijklmnopqrstuvwxyz0123456789+/''"

definition b64_char :: "nat \<Rightarrow> char" where
  "b64_char i = b64_alphabet ! (i mod 64)"

fun index_in :: "'a \<Rightarrow> 'a list \<Rightarrow> nat option" where
  "index_in x [] = None"
| "index_in x (y # ys) = (if x = y then Some 0 else map_option Suc (index_in x ys))"

definition b64_val :: "char \<Rightarrow> nat option" where
  "b64_val ch = index_in ch b64_alphabet"

text \<open>The four digits of three bytes; a missing byte counts as zero.\<close>

definition digit0 :: "char \<Rightarrow> nat" where "digit0 a = char_code a div 4"
definition digit1 :: "char \<Rightarrow> char \<Rightarrow> nat" where "digit1 a b = char_code a mod 4 * 16 + char_code b div 16"
definition digit2 :: "char \<Rightarrow> char \<Rightarrow> nat" where "digit2 b c = char_code b mod 16 * 4 + char_code c div 64"
definition digit3 :: "char \<Rightarrow> nat" where "digit3 c = char_code c mod 64"

fun b64_encode :: "string \<Rightarrow> string" where
  "b64_encode [] = []"
| "b64_encode [a] = [b64_char (digit0 a), b64_char (digit1 a NUL), CHR ''='', CHR ''='']"
| "b64_encode [a, b] = [b64_char (digit0 a), b64_char (digit1 a b), b64_char (digit2 b NUL), CHR ''='']"
| "b64_encode (a # b # c # s) = [b64_char (digit0 a), b64_char (digit1 a b), b64_char (digit2 b c), b64_char (digit3 c)] @ b64_encode s"

text \<open>Decoding by groups of four; padding is only accepted in the last group, and the bits it leaves over are ignored.\<close>

definition byte :: "nat \<Rightarrow> char" where "byte n = char_of (n mod 256)"

fun b64_groups :: "string \<Rightarrow> string option" where
  "b64_groups [] = Some []"
| "b64_groups [a] = None"
| "b64_groups [a, b] = None"
| "b64_groups [a, b, c] = None"
| "b64_groups (a # b # c # d # s) =
     (case (b64_val a, b64_val b) of
        (Some i, Some j) \<Rightarrow>
          if c = CHR ''='' then (if d = CHR ''='' \<and> s = [] then Some [byte (i * 4 + j div 16)] else None)
          else (case b64_val c of
            None \<Rightarrow> None
          | Some k \<Rightarrow>
              if d = CHR ''='' then (if s = [] then Some [byte (i * 4 + j div 16), byte (j * 16 + k div 4)] else None)
              else (case b64_val d of
                None \<Rightarrow> None
              | Some l \<Rightarrow> map_option (\<lambda>t. [byte (i * 4 + j div 16), byte (j * 16 + k div 4), byte (k * 64 + l)] @ t) (b64_groups s)))
      | _ \<Rightarrow> None)"

definition b64_decode :: "string \<Rightarrow> string option" where
  "b64_decode s = b64_groups (filter (\<lambda>c. char_code c \<noteq> 10 \<and> char_code c \<noteq> 13) s)"

lemma char_code_less: "char_code c < 256"
  unfolding char_code_def by (rule nat_of_char_less_256)

lemma byte_char_code [simp]: "byte (char_code c) = c"
  using char_code_less [of c] by (simp add: byte_def char_code_def)

lemma byte_eq: "n mod 256 = char_code c \<Longrightarrow> byte n = c"
  by (simp add: byte_def char_code_def)

lemma b64_char_mod: "b64_char i = b64_char (i mod 64)"
  by (simp add: b64_char_def)

lemma b64_val_char: "b64_val (b64_char i) = Some (i mod 64)"
proof -
  have "\<forall>i\<in>set [0..<64]. b64_val (b64_char i) = Some i" by code_simp
  then show ?thesis by (subst b64_char_mod) simp
qed

lemma b64_char_plain: "b64_char i \<noteq> CHR ''=''" "char_code (b64_char i) \<noteq> 10" "char_code (b64_char i) \<noteq> 13"
proof -
  have "\<forall>i\<in>set [0..<64]. b64_char i \<noteq> CHR ''='' \<and> char_code (b64_char i) \<noteq> 10 \<and> char_code (b64_char i) \<noteq> 13" by code_simp
  then have "b64_char (i mod 64) \<noteq> CHR ''='' \<and> char_code (b64_char (i mod 64)) \<noteq> 10 \<and> char_code (b64_char (i mod 64)) \<noteq> 13" by simp
  then show "b64_char i \<noteq> CHR ''=''" "char_code (b64_char i) \<noteq> 10" "char_code (b64_char i) \<noteq> 13"
    unfolding b64_char_mod [symmetric] by simp_all
qed

lemmas b64_digit = b64_val_char b64_char_plain

lemma b64_encode_chars: "c \<in> set (b64_encode s) \<Longrightarrow> c = CHR ''='' \<or> (\<exists>i. c = b64_char i)"
  by (induction s rule: b64_encode.induct) (auto simp only: b64_encode.simps Let_def set_append list.set)

lemma b64_encode_plain:
  assumes "c \<in> set (b64_encode s)"
  shows "char_code c \<noteq> 10 \<and> char_code c \<noteq> 13"
proof -
  consider (pad) "c = CHR ''=''" | (digit) i where "c = b64_char i" using b64_encode_chars [OF assms] by blast
  then show ?thesis
  proof cases
    case pad
    then show ?thesis by (simp add: char_code_def)
  next
    case digit
    then show ?thesis using b64_char_plain(2,3) [of i] by (simp only:) blast
  qed
qed

lemma digits_less: "digit0 a < 64" "digit1 a b < 64" "digit2 b c < 64" "digit3 c < 64"
  using char_code_less [of a] char_code_less [of b] char_code_less [of c]
  by (simp_all add: digit0_def digit1_def digit2_def digit3_def)

lemma digits_bytes:
  "byte (digit0 a * 4 + digit1 a b div 16) = a" "byte (digit1 a b * 16 + digit2 b c div 4) = b" "byte (digit2 b c * 64 + digit3 c) = c"
proof -
  note less = char_code_less [of a] char_code_less [of b] char_code_less [of c]
  have "char_code b div 16 < 16" "char_code c div 64 < 4" using less by simp_all
  then have "digit1 a b div 16 = char_code a mod 4" "digit2 b c div 4 = char_code b mod 16" by (simp_all add: digit1_def digit2_def)
  then have "digit0 a * 4 + digit1 a b div 16 = char_code a"
    and "digit1 a b * 16 + digit2 b c div 4 = 256 * (char_code a mod 4) + char_code b"
    and "digit2 b c * 64 + digit3 c = 256 * (char_code b mod 16) + char_code c"
    by (simp_all add: digit0_def digit1_def digit2_def digit3_def algebra_simps)
  then show "byte (digit0 a * 4 + digit1 a b div 16) = a" "byte (digit1 a b * 16 + digit2 b c div 4) = b" "byte (digit2 b c * 64 + digit3 c) = c"
    using less by (simp_all add: byte_eq)
qed

lemma b64_groups_encode: "b64_groups (b64_encode s) = Some s"
  by (induction s rule: b64_encode.induct) (simp_all add: b64_digit digits_less digits_bytes)

lemma b64_round_trip: "b64_decode (b64_encode s) = Some s"
proof -
  have "filter (\<lambda>c. char_code c \<noteq> 10 \<and> char_code c \<noteq> 13) (b64_encode s) = b64_encode s"
    using b64_encode_plain by (simp add: filter_id_conv)
  then show ?thesis by (simp add: b64_decode_def b64_groups_encode)
qed

section \<open>Character sets\<close>

text \<open>The UTF-8 encoding of a code point, as \<open>strings.Builder.WriteRune\<close> writes it.\<close>

definition utf8 :: "nat \<Rightarrow> string" where
  "utf8 r =
     (if r < 128 then [byte r]
      else if r < 2048 then [byte (192 + r div 64), byte (128 + r mod 64)]
      else if r < 65536 then [byte (224 + r div 4096), byte (128 + r div 64 mod 64), byte (128 + r mod 64)]
      else [byte (240 + r div 262144), byte (128 + r div 4096 mod 64), byte (128 + r div 64 mod 64), byte (128 + r mod 64)])"

definition decodeLatin1 :: "string \<Rightarrow> string" where
  "decodeLatin1 b = concat (map (\<lambda>c. utf8 (char_code c)) b)"

text \<open>The block 0x80 to 0x9F of Windows-1252; 0 where the code page has no character.\<close>

definition cp1252High :: "nat list" where
  "cp1252High = [0x20AC, 0, 0x201A, 0x0192, 0x201E, 0x2026, 0x2020, 0x2021, 0x02C6, 0x2030, 0x0160, 0x2039, 0x0152, 0, 0x017D, 0,
                 0, 0x2018, 0x2019, 0x201C, 0x201D, 0x2022, 0x2013, 0x2014, 0x02DC, 0x2122, 0x0161, 0x203A, 0x0153, 0, 0x017E, 0x0178]"

definition cp1252_rune :: "char \<Rightarrow> nat" where
  "cp1252_rune c =
     (let n = char_code c in
      if 128 \<le> n \<and> n \<le> 159 \<and> cp1252High ! (n - 128) \<noteq> 0 then cp1252High ! (n - 128) else n)"

definition decodeWindows1252 :: "string \<Rightarrow> string" where
  "decodeWindows1252 b = concat (map (\<lambda>c. utf8 (cp1252_rune c)) b)"

definition toUTF8 :: "string \<Rightarrow> string \<Rightarrow> string" where
  "toUTF8 b charset =
     (let cs = to_lower (trim_space charset) in
      if cs \<in> {''iso-8859-1'', ''iso8859-1'', ''latin-1'', ''latin1''} then decodeLatin1 b
      else if cs \<in> {''windows-1252'', ''cp1252''} then decodeWindows1252 b
      else b)"

section \<open>Messages\<close>

record eml_env =
  ee_parseMedia :: "string \<Rightarrow> string \<times> (string \<Rightarrow> string) \<times> bool"
  ee_wordDecode :: "string \<Rightarrow> string option"
  ee_parseAddress :: "string \<Rightarrow> (string \<times> string) option"
  ee_quotedPrintable :: "string \<Rightarrow> string option"
  ee_htmlUnescape :: "string \<Rightarrow> string"
  ee_nowRFC1123Z :: string

text \<open>A part as the multipart reader yields it: header, file name, what reading its body gives, and the
  parts of its own stream up to the first error.\<close>

datatype mime_part = MimePart (mp_header: "string \<Rightarrow> string") (mp_fileName: string) (mp_raw: "string option") (mp_parts: "mime_part list")

record mime_message =
  mm_header :: "string \<Rightarrow> string"
  mm_raw :: "string option"
  mm_parts :: "mime_part list"

record address =
  ad_Email :: string
  ad_Name :: string

record raw_attachment =
  ra_Name :: string
  ra_Content :: string
  ra_ContentType :: string

record payload =
  p_MessageID :: string
  p_From :: string
  p_FromFull :: address
  p_ReplyTo :: string
  p_ReplyToFull :: address
  p_To :: string
  p_ToFull :: "address list"
  p_Subject :: string
  p_TextBody :: string
  p_Date :: string
  p_Headers :: "(string \<times> string) list"
  p_Attachments :: "raw_attachment list"
  p_Bounce :: bool
  p_BouncePermanent :: bool
  p_BouncedMessageID :: string

record bounce_report =
  br_deliveryStatus :: string
  br_originalMessageID :: string

definition maxMultipartDepth :: nat where "maxMultipartDepth = 32"
definition maxAttachments :: nat where "maxAttachments = 100"

section \<open>Text helpers\<close>

definition stripControl :: "string \<Rightarrow> string" where
  "stripControl s = filter (\<lambda>c. char_code c = 9 \<or> \<not> is_control c) s"

definition decodeHeader :: "eml_env \<Rightarrow> string \<Rightarrow> string" where
  "decodeHeader v s = stripControl (case ee_wordDecode v s of None \<Rightarrow> s | Some got \<Rightarrow> got)"

definition splitAddress :: "eml_env \<Rightarrow> string \<Rightarrow> address" where
  "splitAddress v s =
     (if s = '''' then \<lparr>ad_Email = '''', ad_Name = ''''\<rparr>
      else case ee_parseAddress v s of
        None \<Rightarrow> \<lparr>ad_Email = s, ad_Name = ''''\<rparr>
      | Some (addr, name) \<Rightarrow> \<lparr>ad_Email = addr, ad_Name = name\<rparr>)"

definition firstNonEmpty :: "string list \<Rightarrow> string" where
  "firstNonEmpty vals = (case filter (\<lambda>x. x \<noteq> '''') vals of [] \<Rightarrow> '''' | x # _ \<Rightarrow> x)"

definition stripASCIISpace :: "string \<Rightarrow> string" where
  "stripASCIISpace s = filter (\<lambda>c. char_code c \<notin> {32, 9, 13, 10}) s"

fun strip_tags :: "bool \<Rightarrow> string \<Rightarrow> string" where
  "strip_tags inTag [] = []"
| "strip_tags inTag (c # s) =
     (if c = CHR ''<'' then strip_tags True s
      else if c = CHR ''>'' then strip_tags False s
      else if \<not> inTag then c # strip_tags inTag s
      else strip_tags inTag s)"

definition stripHTML :: "eml_env \<Rightarrow> string \<Rightarrow> string" where
  "stripHTML v s = trim_space (ee_htmlUnescape v (strip_tags False s))"

definition decodeBody :: "eml_env \<Rightarrow> string option \<Rightarrow> string \<Rightarrow> string option" where
  "decodeBody v raw encoding = (case raw of
       None \<Rightarrow> None
     | Some r \<Rightarrow>
         (let enc = to_lower (trim_space encoding) in
          if enc = ''base64'' then (case b64_decode (stripASCIISpace r) of Some dec \<Rightarrow> Some dec | None \<Rightarrow> Some r)
          else if enc = ''quoted-printable'' then (case ee_quotedPrintable v r of Some dec \<Rightarrow> Some dec | None \<Rightarrow> Some r)
          else Some r))"

section \<open>Bounces\<close>

fun original_id_lines :: "string list \<Rightarrow> string" where
  "original_id_lines [] = ''''"
| "original_id_lines (l # ls) =
     (let line = trim_space l in
      if line = '''' then ''''
      else if \<not> has_prefix (to_lower line) ''message-id:'' then original_id_lines ls
      else trim_by (\<lambda>c. c = CHR ''<'' \<or> c = CHR ''>'') (trim_space (drop (length ''message-id:'') line)))"

definition originalMessageID :: "string \<Rightarrow> string" where
  "originalMessageID body = original_id_lines (split_on LF body)"

definition isDaemonAddress :: "string \<Rightarrow> bool" where
  "isDaemonAddress email =
     (let local_part = (case str_index email ''@'' of None \<Rightarrow> email | Some i \<Rightarrow> if i > 0 then take i email else email)
      in to_lower (trim_space local_part) \<in> {''mailer-daemon'', ''postmaster''})"

fun dsn_lines :: "string list \<Rightarrow> bool" where
  "dsn_lines [] = True"
| "dsn_lines (l # ls) =
     (let line = trim_space l in
      if \<not> has_prefix (to_lower line) ''status:'' then dsn_lines ls
      else \<not> has_prefix (trim_space (drop (length ''status:'') line)) ''4.'')"

definition dsnPermanent :: "string \<Rightarrow> bool" where
  "dsnPermanent deliveryStatus = dsn_lines (split_on LF deliveryStatus)"

definition detectBounce :: "string \<Rightarrow> (string \<Rightarrow> string) \<Rightarrow> string \<Rightarrow> string \<Rightarrow> string \<Rightarrow> bool \<times> bool" where
  "detectBounce mediaType ctParams fromEmail returnPath deliveryStatus =
     (let report = (mediaType = ''multipart/report'' \<and> to_lower (ctParams ''report-type'') = ''delivery-status'');
          nullReturn = (trim_space returnPath = ''<>'');
          bounce = (report \<or> isDaemonAddress fromEmail \<or> (nullReturn \<and> deliveryStatus \<noteq> ''''))
      in if \<not> bounce then (False, False) else (True, dsnPermanent deliveryStatus))"

definition isOriginalMessagePart :: "string \<Rightarrow> bool" where
  "isOriginalMessagePart partType \<longleftrightarrow> partType = ''message/rfc822'' \<or> partType = ''text/rfc822-headers''"

section \<open>The walk over the parts\<close>

record walk_state =
  k_text :: string
  k_html :: string
  k_atts :: "raw_attachment list"
  k_report :: bounce_report

text \<open>A part that is not multipart: a report field, an attachment, or the body while its slot is open.\<close>

definition leaf_part :: "eml_env \<Rightarrow> string \<Rightarrow> (string \<Rightarrow> string) \<Rightarrow> string \<Rightarrow> string \<Rightarrow> string \<Rightarrow> walk_state \<Rightarrow> walk_state" where
  "leaf_part v partType partParams disp fileName body k =
     (if partType = ''message/delivery-status'' \<and> br_deliveryStatus (k_report k) = ''''
      then k\<lparr>k_report := (k_report k)\<lparr>br_deliveryStatus := body\<rparr>\<rparr>
      else if isOriginalMessagePart partType \<and> br_originalMessageID (k_report k) = ''''
      then k\<lparr>k_report := (k_report k)\<lparr>br_originalMessageID := originalMessageID body\<rparr>\<rparr>
      else
        (let bodyText = (k_text k = '''' \<and> has_prefix partType ''text/plain'');
             bodyHTML = (k_html k = '''' \<and> has_prefix partType ''text/html'')
         in if disp = ''attachment'' \<or> (partParams ''name'' \<noteq> '''' \<and> \<not> bodyText \<and> \<not> bodyHTML)
            then (if length (k_atts k) \<ge> maxAttachments then k
                  else k\<lparr>k_atts := k_atts k @
                     [\<lparr>ra_Name = decodeHeader v (firstNonEmpty [partParams ''name'', fileName, ''attachment.bin'']),
                       ra_Content = b64_encode body, ra_ContentType = partType\<rparr>]\<rparr>)
            else if bodyText then k\<lparr>k_text := toUTF8 body (partParams ''charset'')\<rparr>
            else if bodyHTML then k\<lparr>k_html := toUTF8 body (partParams ''charset'')\<rparr>
            else k))"

fun walk_part :: "eml_env \<Rightarrow> nat \<Rightarrow> mime_part \<Rightarrow> walk_state \<Rightarrow> walk_state"
and walk_stream :: "eml_env \<Rightarrow> nat \<Rightarrow> mime_part list \<Rightarrow> walk_state \<Rightarrow> walk_state" where
  "walk_part v depth (MimePart hdr fileName raw parts) k =
     (let (ptype, partParams, _) = ee_parseMedia v (hdr ''Content-Type'');
          partType = (if ptype = '''' then ''text/plain'' else ptype);
          disp = fst (ee_parseMedia v (hdr ''Content-Disposition''))
      in if has_prefix partType ''multipart/''
         then (if Suc depth > maxMultipartDepth then k else walk_stream v (Suc depth) parts k)
         else case decodeBody v raw (hdr ''Content-Transfer-Encoding'') of
                None \<Rightarrow> k
              | Some body \<Rightarrow> leaf_part v partType partParams disp fileName body k)"
| "walk_stream v depth [] k = k"
| "walk_stream v depth (p # ps) k = walk_stream v depth ps (walk_part v depth p k)"

definition empty_walk :: walk_state where
  "empty_walk = \<lparr>k_text = '''', k_html = '''', k_atts = [], k_report = \<lparr>br_deliveryStatus = '''', br_originalMessageID = ''''\<rparr>\<rparr>"

definition parseBody :: "eml_env \<Rightarrow> mime_message \<Rightarrow> (string \<times> raw_attachment list \<times> bounce_report) option" where
  "parseBody v msg =
     (let (mediaType, params, ok) = ee_parseMedia v (mm_header msg ''Content-Type'') in
      if \<not> ok \<or> \<not> has_prefix mediaType ''multipart/'' \<or> params ''boundary'' = ''''
      then (case decodeBody v (mm_raw msg) (mm_header msg ''Content-Transfer-Encoding'') of
              None \<Rightarrow> None
            | Some body \<Rightarrow>
                (let t = toUTF8 body (params ''charset'')
                 in Some (if has_prefix mediaType ''text/html'' then stripHTML v t else t, [], k_report empty_walk)))
      else let k = walk_stream v 0 (mm_parts msg) empty_walk
           in Some (if k_text k = '''' \<and> k_html k \<noteq> '''' then stripHTML v (k_html k) else k_text k, k_atts k, k_report k))"

definition autoResponseHeaders :: "string list" where
  "autoResponseHeaders = [''Auto-Submitted'', ''Precedence'', ''List-Id'', ''List-Unsubscribe'', ''X-Auto-Response-Suppress'', ''Return-Path'']"

definition trim_angles :: "string \<Rightarrow> string" where
  "trim_angles s = trim_by (\<lambda>c. c = CHR ''<'' \<or> c = CHR ''>'') s"

text \<open>\<open>None\<close> for input \<open>mail.ReadMessage\<close> rejects.\<close>

definition fromReader :: "eml_env \<Rightarrow> mime_message option \<Rightarrow> string + payload" where
  "fromReader v input = (case input of
       None \<Rightarrow> Inl ''parse eml''
     | Some msg \<Rightarrow> (case parseBody v msg of
         None \<Rightarrow> Inl ''read body''
       | Some (t, atts, report) \<Rightarrow>
           (let hdr = mm_header msg;
                sender = splitAddress v (hdr ''From'');
                replyTo = splitAddress v (hdr ''Reply-To'');
                to = splitAddress v (hdr ''To'');
                (topType, ctParams, _) = ee_parseMedia v (hdr ''Content-Type'');
                (bounce, permanent) = detectBounce topType ctParams (ad_Email sender) (hdr ''Return-Path'') (br_deliveryStatus report)
            in Inr \<lparr>p_MessageID = trim_angles (hdr ''Message-ID''), p_From = ad_Email sender, p_FromFull = sender,
                    p_ReplyTo = ad_Email replyTo, p_ReplyToFull = replyTo, p_To = ad_Email to, p_ToFull = [to],
                    p_Subject = decodeHeader v (hdr ''Subject''), p_TextBody = t,
                    p_Date = (if hdr ''Date'' = '''' then ee_nowRFC1123Z v else hdr ''Date''),
                    p_Headers = [(''In-Reply-To'', trim_angles (hdr ''In-Reply-To'')), (''References'', hdr ''References'')] @
                      map (\<lambda>n. (n, stripControl (trim_space (hdr n)))) (filter (\<lambda>n. trim_space (hdr n) \<noteq> '''') autoResponseHeaders),
                    p_Attachments = atts, p_Bounce = bounce, p_BouncePermanent = permanent,
                    p_BouncedMessageID = (if bounce then br_originalMessageID report else '''')\<rparr>)))"

section \<open>What the walk collects\<close>

text \<open>Later parts only extend what earlier parts left: attachments are appended up to the limit, each the
  encoding of a body, and a body or report field that is filled stays.\<close>

definition extends :: "walk_state \<Rightarrow> walk_state \<Rightarrow> bool" where
  "extends k k' \<longleftrightarrow>
     (\<exists>new. k_atts k' = k_atts k @ new \<and> (\<forall>a\<in>set new. \<exists>body. b64_decode (ra_Content a) = Some body)) \<and>
     (length (k_atts k) \<le> maxAttachments \<longrightarrow> length (k_atts k') \<le> maxAttachments) \<and>
     (k_text k \<noteq> '''' \<longrightarrow> k_text k' = k_text k) \<and> (k_html k \<noteq> '''' \<longrightarrow> k_html k' = k_html k) \<and>
     (br_deliveryStatus (k_report k) \<noteq> '''' \<longrightarrow> br_deliveryStatus (k_report k') = br_deliveryStatus (k_report k)) \<and>
     (br_originalMessageID (k_report k) \<noteq> '''' \<longrightarrow> br_originalMessageID (k_report k') = br_originalMessageID (k_report k))"

lemma extends_refl [simp, intro]: "extends k k"
  by (auto simp: extends_def)

lemma extends_trans [trans]: "extends a b \<Longrightarrow> extends b c \<Longrightarrow> extends a c"
proof -
  assume ab: "extends a b" and bc: "extends b c"
  obtain n m where n: "k_atts b = k_atts a @ n" "\<forall>x\<in>set n. \<exists>body. b64_decode (ra_Content x) = Some body"
    and m: "k_atts c = k_atts b @ m" "\<forall>x\<in>set m. \<exists>body. b64_decode (ra_Content x) = Some body"
    using ab bc unfolding extends_def by meson
  have "k_atts c = k_atts a @ (n @ m) \<and> (\<forall>x\<in>set (n @ m). \<exists>body. b64_decode (ra_Content x) = Some body)"
    using n m by (simp add: ball_Un)
  then have "\<exists>new. k_atts c = k_atts a @ new \<and> (\<forall>x\<in>set new. \<exists>body. b64_decode (ra_Content x) = Some body)" by blast
  moreover have "length (k_atts a) \<le> maxAttachments \<longrightarrow> length (k_atts c) \<le> maxAttachments" using ab bc by (simp add: extends_def)
  ultimately show ?thesis using ab bc by (simp add: extends_def)
qed

lemma leaf_part_extends: "extends k (leaf_part v pt pp disp fn body k)"
  by (auto simp: leaf_part_def extends_def Let_def b64_round_trip)

lemma walk_extends: "extends k (walk_part v d p k)" "extends k (walk_stream v d ps k)"
proof (induction v d p k and v d ps k rule: walk_part_walk_stream.induct)
  case (1 v depth hdr fileName raw parts k)
  then show ?case by (auto simp: Let_def leaf_part_extends split: prod.splits option.splits)
next
  case (3 v depth p ps k)
  then show ?case using extends_trans by simp
qed simp

text \<open>Everything nested deeper than the limit is ignored: the walk is that of the tree cut off there.\<close>

fun cut_off :: "nat \<Rightarrow> mime_part \<Rightarrow> mime_part" where
  "cut_off 0 (MimePart hdr fn raw parts) = MimePart hdr fn raw []"
| "cut_off (Suc n) (MimePart hdr fn raw parts) = MimePart hdr fn raw (map (cut_off n) parts)"

lemma walk_cut_off:
  "d \<le> maxMultipartDepth \<Longrightarrow> walk_part v d (cut_off (maxMultipartDepth - d) p) k = walk_part v d p k"
  "d \<le> maxMultipartDepth \<Longrightarrow> walk_stream v d (map (cut_off (maxMultipartDepth - d)) ps) k = walk_stream v d ps k"
proof (induction v d p k and v d ps k rule: walk_part_walk_stream.induct)
  case (1 v depth hdr fileName raw parts k)
  show ?case
  proof (cases "maxMultipartDepth - depth")
    case 0
    then show ?thesis by (simp add: Let_def split: prod.split)
  next
    case (Suc n)
    then have n: "n = maxMultipartDepth - Suc depth" "Suc depth \<le> maxMultipartDepth" by simp_all
    obtain pt pp b where t: "ee_parseMedia v (hdr ''Content-Type'') = (pt, pp, b)" by (cases "ee_parseMedia v (hdr ''Content-Type'')")
    have "walk_stream v (Suc depth) (map (cut_off n) parts) k = walk_stream v (Suc depth) parts k"
      if "has_prefix (if pt = '''' then ''text/plain'' else pt) ''multipart/''"
      using "1.IH" [OF refl t [symmetric] refl refl refl that] n by simp
    then show ?thesis using Suc t by (auto simp: Let_def)
  qed
qed simp_all

text \<open>
  C34. Parsing a message is bounded whatever it contains: at most 100 attachments are kept, parts nested more
  than 32 levels deep are not looked at, and every attachment kept decodes again.
\<close>

theorem parse_is_bounded:
  assumes "fromReader v (Some msg) = Inr p"
  shows "length (p_Attachments p) \<le> 100 \<and> (\<forall>a\<in>set (p_Attachments p). \<exists>body. b64_decode (ra_Content a) = Some body) \<and>
    fromReader v (Some (msg\<lparr>mm_parts := map (cut_off 32) (mm_parts msg)\<rparr>)) = Inr p"
proof -
  have same: "parseBody v (msg\<lparr>mm_parts := map (cut_off 32) (mm_parts msg)\<rparr>) = parseBody v msg"
    using walk_cut_off(2) [of 0 v "mm_parts msg" empty_walk] by (simp add: parseBody_def Let_def maxMultipartDepth_def split: prod.split)
  obtain t atts rep where b: "parseBody v msg = Some (t, atts, rep)" and a: "p_Attachments p = atts"
    using assms by (auto simp: fromReader_def Let_def split: option.splits prod.splits)
  have "length atts \<le> maxAttachments \<and> (\<forall>a\<in>set atts. \<exists>body. b64_decode (ra_Content a) = Some body)"
    using b walk_extends(2) [of empty_walk v 0 "mm_parts msg"]
    by (auto simp: parseBody_def Let_def extends_def empty_walk_def split: prod.splits option.splits if_splits)
  moreover have "fromReader v (Some (msg\<lparr>mm_parts := map (cut_off 32) (mm_parts msg)\<rparr>)) = Inr p"
  proof -
    have hdr: "mm_header (msg\<lparr>mm_parts := x\<rparr>) = mm_header msg" for x by simp
    show ?thesis using assms unfolding fromReader_def option.case same hdr .
  qed
  ultimately show ?thesis using a by (simp add: maxAttachments_def)
qed

text \<open>Media types of the examples: the type is the header itself, a multipart one with a boundary and a name.\<close>

definition sample_eml_env :: eml_env where
  "sample_eml_env = \<lparr>ee_parseMedia = (\<lambda>s. (s, \<lambda>k. if k = ''boundary'' then ''b'' else if k = ''name'' then ''loss runs.pdf'' else '''', True)),
     ee_wordDecode = Some, ee_parseAddress = (\<lambda>a. Some (a, '''')), ee_quotedPrintable = Some, ee_htmlUnescape = (\<lambda>s. s),
     ee_nowRFC1123Z = ''now''\<rparr>"

definition pdf_part :: mime_part where
  "pdf_part = MimePart (\<lambda>k. if k = ''Content-Type'' then ''application/pdf'' else '''') '''' (Some ''%PDF'') []"

definition sample_message :: mime_message where
  "sample_message = \<lparr>mm_header = (\<lambda>k. if k = ''Content-Type'' then ''multipart/mixed'' else if k = ''From'' then ''broker@x'' else ''''),
     mm_raw = None, mm_parts = [MimePart (\<lambda>k. if k = ''Content-Type'' then ''multipart/mixed'' else '''') '''' None [pdf_part]]\<rparr>"

theorem parse_is_bounded_witness:
  "\<exists>p. fromReader sample_eml_env (Some sample_message) = Inr p \<and> length (p_Attachments p) = 1 \<and>
     (\<forall>a\<in>set (p_Attachments p). b64_decode (ra_Content a) \<noteq> None)"
proof -
  have "case fromReader sample_eml_env (Some sample_message) of Inr p \<Rightarrow> length (p_Attachments p) = 1 | Inl _ \<Rightarrow> False" by code_simp
  then obtain p where p: "fromReader sample_eml_env (Some sample_message) = Inr p" "length (p_Attachments p) = 1"
    by (auto split: sum.splits)
  show ?thesis using parse_is_bounded [OF p(1)] p by force
qed

section \<open>Transcoding\<close>

text \<open>A UTF-8 decoder for code points below 65536, the inverse of \<^const>\<open>utf8\<close>.\<close>

fun utf8_runes :: "string \<Rightarrow> nat list option" where
  "utf8_runes [] = Some []"
| "utf8_runes (c # s) =
     (let n = char_code c in
      if n < 128 then map_option (Cons n) (utf8_runes s)
      else if 192 \<le> n \<and> n < 224 then
        (case s of [] \<Rightarrow> None | d # s' \<Rightarrow> map_option (Cons ((n - 192) * 64 + (char_code d - 128))) (utf8_runes s'))
      else if 224 \<le> n \<and> n < 240 then
        (case s of [] \<Rightarrow> None | d # s' \<Rightarrow> (case s' of [] \<Rightarrow> None
          | e # s'' \<Rightarrow> map_option (Cons ((n - 224) * 4096 + (char_code d - 128) * 64 + (char_code e - 128))) (utf8_runes s'')))
      else None)"

lemma char_code_byte: "n < 256 \<Longrightarrow> char_code (byte n) = n"
  by (simp add: byte_def char_code_def)

lemma utf8_runes_utf8:
  assumes "r < 65536"
  shows "utf8_runes (utf8 r @ s) = map_option (Cons r) (utf8_runes s)"
proof -
  consider "r < 128" | "128 \<le> r" "r < 2048" | "2048 \<le> r" "r < 65536" using assms by linarith
  then show ?thesis
  proof cases
    case 2
    then have "192 + r div 64 < 224" "128 + r mod 64 < 256" by simp_all
    then show ?thesis using 2 by (simp add: utf8_def char_code_byte Let_def)
  next
    case 3
    then have "224 + r div 4096 < 240" "128 + r div 64 mod 64 < 256" "128 + r mod 64 < 256" by simp_all
    moreover have "r div 4096 * 4096 + r div 64 mod 64 * 64 + r mod 64 = r"
      using mod_mult2_eq [of r 64 64] div_mult_mod_eq [of r 4096] by (simp add: algebra_simps)
    ultimately show ?thesis using 3 by (simp add: utf8_def char_code_byte Let_def)
  qed (simp add: utf8_def char_code_byte)
qed

lemma utf8_runes_concat:
  "(\<And>x. x \<in> set xs \<Longrightarrow> f x < 65536) \<Longrightarrow> utf8_runes (concat (map (\<lambda>x. utf8 (f x)) xs)) = Some (map f xs)"
  by (induction xs) (simp_all add: utf8_runes_utf8)

lemma cp1252_rune_less: "cp1252_rune c < 65536"
proof -
  have all: "\<forall>x\<in>set cp1252High. x < 65536" and len: "length cp1252High = 32" by (simp_all add: cp1252High_def)
  have "cp1252High ! (char_code c - 128) < 65536" if "char_code c \<le> 159"
  proof -
    have "cp1252High ! (char_code c - 128) \<in> set cp1252High" by (rule nth_mem) (use that len in linarith)
    then show ?thesis using all by blast
  qed
  then show ?thesis using char_code_less [of c] unfolding cp1252_rune_def Let_def by (cases "char_code c \<le> 159") auto
qed

text \<open>
  Transcoding loses nothing: a body in Latin-1 becomes the UTF-8 text of exactly its characters, one in
  Windows-1252 that of the characters its code page names, whatever the bytes.
\<close>

theorem transcoding_lossless:
  "utf8_runes (toUTF8 b ''ISO-8859-1'') = Some (map char_code b) \<and>
   utf8_runes (toUTF8 b '' windows-1252'') = Some (map cp1252_rune b)"
proof -
  have "char_code c < 65536" for c using char_code_less [of c] by simp
  moreover have "toUTF8 b ''ISO-8859-1'' = decodeLatin1 b" "toUTF8 b '' windows-1252'' = decodeWindows1252 b"
  proof -
    have n: "to_lower (trim_space ''ISO-8859-1'') = ''iso-8859-1''" "to_lower (trim_space '' windows-1252'') = ''windows-1252''" by code_simp+
    show "toUTF8 b ''ISO-8859-1'' = decodeLatin1 b" "toUTF8 b '' windows-1252'' = decodeWindows1252 b"
      unfolding toUTF8_def Let_def n by simp_all
  qed
  ultimately show ?thesis by (simp add: decodeLatin1_def decodeWindows1252_def utf8_runes_concat cp1252_rune_less)
qed

end
