(* ===== verification/Translate_Model.thy ===== *)
theory Translate_Model
  imports Ingest_Service Eml_Model
begin

text \<open>
  \<open>internal/delivery/emailingest/translate.go\<close>: from a parsed payload to the request the service ingests.
  Address and date parsing of \<open>net/mail\<close>, SHA-256 and the clock are parameters.

  The lemmas show that the attachments' bytes survive the base64 of the parser, that thread references are
  read back from a header that lists them, and when a request counts as automatic mail.
\<close>

section \<open>Definitions\<close>

record translate_env =
  te_parseAddress :: "string \<Rightarrow> (string \<times> string) option"
  te_parseDate :: "string \<Rightarrow> (gotime \<times> string \<times> int) option"
  te_sha :: "string \<Rightarrow> string"
  te_now :: gotime

text \<open>Assignment to a map, kept as a list of its entries.\<close>

definition map_put :: "string \<Rightarrow> string \<Rightarrow> (string \<times> string) list \<Rightarrow> (string \<times> string) list" where
  "map_put k x m = (k, x) # filter (\<lambda>e. fst e \<noteq> k) m"

definition map_get :: "(string \<times> string) list \<Rightarrow> string \<Rightarrow> string option" where
  "map_get m k = map_of m k"

definition map_val :: "(string \<times> string) list \<Rightarrow> string \<Rightarrow> string" where
  "map_val m k = (case map_of m k of None \<Rightarrow> '''' | Some x \<Rightarrow> x)"

function angle_refs :: "string \<Rightarrow> string list" where
  "angle_refs s =
     (case str_index s ''<'' of
        None \<Rightarrow> []
      | Some i \<Rightarrow> (let t = drop i s in
          case str_index t ''>'' of
            None \<Rightarrow> []
          | Some j \<Rightarrow> take (Suc j) t # angle_refs (drop (Suc j) t)))"
  by pat_completeness auto
termination
proof (relation "measure length", simp)
  fix s i t j assume i: "str_index s ''<'' = Some i" and t: "t = drop i s" and j: "str_index t ''>'' = Some j"
  have "t \<noteq> []" using j by auto
  then have "length (drop (Suc j) t) < length t" by simp
  also have "\<dots> \<le> length s" using t by simp
  finally show "(drop (Suc j) t, s) \<in> measure length" by simp
qed

declare angle_refs.simps [simp del]

definition splitReferences :: "string \<Rightarrow> string list" where
  "splitReferences v =
     (let out = angle_refs v in
      if out = [] then filter (\<lambda>f. str_contains f ''@'' \<and> \<not> contains_any f ''<>'') (str_fields v) else out)"

definition trimAngle :: "string \<Rightarrow> string" where
  "trimAngle s = trim_by (\<lambda>c. c = CHR ''<'' \<or> c = CHR ''>'') s"

definition trimAngles :: "string list \<Rightarrow> string list" where
  "trimAngles xs = filter (\<lambda>x. x \<noteq> '''') (map trimAngle xs)"

definition validReplyTo :: "translate_env \<Rightarrow> string \<Rightarrow> string" where
  "validReplyTo v addr = (if addr = '''' then '''' else if te_parseAddress v addr = None then '''' else addr)"

definition detectAutoSubmitted :: "(string \<times> string) list \<Rightarrow> bool" where
  "detectAutoSubmitted h =
     (if (case map_get h ''auto-submitted'' of None \<Rightarrow> False | Some x \<Rightarrow> to_lower (trim_space x) \<noteq> ''no'') then True
      else if to_lower (trim_space (map_val h ''precedence'')) \<in> {''bulk'', ''list'', ''junk''} then True
      else if map_val h ''list-id'' \<noteq> '''' \<or> map_val h ''list-unsubscribe'' \<noteq> '''' then True
      else trim_space (map_val h ''return-path'') = ''<>'')"

definition unresolvedZone :: "string \<Rightarrow> int \<Rightarrow> bool" where
  "unresolvedZone name off \<longleftrightarrow> off = 0 \<and> name \<noteq> '''' \<and> name \<noteq> ''UTC'' \<and> name \<noteq> ''GMT''"

definition parseReceivedAt :: "translate_env \<Rightarrow> string \<Rightarrow> gotime" where
  "parseReceivedAt v date = (case te_parseDate v date of
       Some (t, name, off) \<Rightarrow> if unresolvedZone name off then te_now v else t
     | None \<Rightarrow> te_now v)"

definition decode_attachment :: "translate_env \<Rightarrow> raw_attachment \<Rightarrow> attachment option" where
  "decode_attachment v a = (case b64_decode (ra_Content a) of
       None \<Rightarrow> None
     | Some raw \<Rightarrow>
         if raw = [] then None
         else Some \<lparr>t_Filename = ra_Name a, t_ContentType = ra_ContentType a, t_Size = int (length raw), t_SHA256 = te_sha v raw, t_Content = raw\<rparr>)"

definition decodeAttachments :: "translate_env \<Rightarrow> raw_attachment list \<Rightarrow> attachment list" where
  "decodeAttachments v atts = List.map_filter (decode_attachment v) atts"

text \<open>The headers sorted into thread headers and the rest.\<close>

definition sort_header :: "string \<times> string \<Rightarrow> string \<times> string list \<times> (string \<times> string) list \<Rightarrow> string \<times> string list \<times> (string \<times> string) list" where
  "sort_header hdr st = (case (hdr, st) of ((name, value), (inReplyTo, refs, auto)) \<Rightarrow>
     (let n = to_lower name in
      if n = ''in-reply-to'' then (trim_space value, refs, auto)
      else if n = ''references'' then (inReplyTo, refs @ splitReferences value, auto)
      else (inReplyTo, refs, map_put n value auto)))"

definition translate :: "translate_env \<Rightarrow> payload \<Rightarrow> string \<Rightarrow> ingest_request" where
  "translate v p source =
     (let (inReplyTo, references, autoHeaders) = fold sort_header (p_Headers p) ('''', [], []);
          to0 = filter (\<lambda>e. e \<noteq> '''') (map ad_Email (p_ToFull p));
          to = (if to0 = [] \<and> p_To p \<noteq> '''' then [p_To p] else to0);
          fromAddr = (if ad_Email (p_FromFull p) = '''' then p_From p else ad_Email (p_FromFull p));
          req = \<lparr>rq_MessageID = trimAngle (p_MessageID p), rq_InReplyTo = trimAngle inReplyTo, rq_References = trimAngles references,
                 rq_FromAddress = fromAddr, rq_FromName = ad_Name (p_FromFull p), rq_ReplyTo = validReplyTo v (ad_Email (p_ReplyToFull p)),
                 rq_ToAddresses = to, rq_Subject = p_Subject p, rq_BodyText = p_TextBody p, rq_ReceivedAt = parseReceivedAt v (p_Date p),
                 rq_Attachments = decodeAttachments v (p_Attachments p), rq_Source = source, rq_AutoSubmitted = False,
                 rq_AutoResponseHeaders = [], rq_Bounce = False, rq_BouncePermanent = False\<rparr>
      in if p_Bounce p
         then (let i = trimAngle (p_BouncedMessageID p)
               in req\<lparr>rq_Bounce := True, rq_BouncePermanent := p_BouncePermanent p,
                      rq_References := rq_References req @ (if i \<noteq> '''' then [i] else [])\<rparr>)
         else if detectAutoSubmitted autoHeaders then req\<lparr>rq_AutoSubmitted := True, rq_AutoResponseHeaders := autoHeaders\<rparr>
         else req)"

section \<open>Attachments\<close>

text \<open>The attachment the parser makes of a part's body.\<close>

definition raw_of :: "string \<times> string \<times> string \<Rightarrow> raw_attachment" where
  "raw_of x = (case x of (name, ctype, body) \<Rightarrow> \<lparr>ra_Name = name, ra_Content = b64_encode body, ra_ContentType = ctype\<rparr>)"

lemma decode_raw_of:
  "decode_attachment v (raw_of (name, ctype, body)) =
     (if body = [] then None
      else Some \<lparr>t_Filename = name, t_ContentType = ctype, t_Size = int (length body), t_SHA256 = te_sha v body, t_Content = body\<rparr>)"
  unfolding decode_attachment_def raw_of_def prod.case raw_attachment.simps b64_round_trip by simp

text \<open>
  Attachments keep their bytes: what the parser encoded is decoded again, every attachment that is not
  empty arrives in order with its name, type, exact content, length and hash, and empty ones are dropped.
\<close>

theorem attachment_bytes_survive:
  "decodeAttachments v (map raw_of xs) =
     map (\<lambda>(name, ctype, body). \<lparr>t_Filename = name, t_ContentType = ctype, t_Size = int (length body), t_SHA256 = te_sha v body, t_Content = body\<rparr>)
       (filter (\<lambda>(name, ctype, body). body \<noteq> []) xs)"
  by (induction xs) (auto simp: decodeAttachments_def decode_raw_of List.map_filter_simps)

section \<open>Thread references\<close>

text \<open>A reference token: a non-empty identifier without angle brackets, in angle brackets.\<close>

definition plain_id :: "string \<Rightarrow> bool" where
  "plain_id i \<longleftrightarrow> i \<noteq> [] \<and> CHR ''<'' \<notin> set i \<and> CHR ''>'' \<notin> set i"

definition ref_token :: "string \<Rightarrow> string" where
  "ref_token i = CHR ''<'' # i @ [CHR ''>'']"

lemma str_index_char: "c \<notin> set s \<Longrightarrow> str_index (s @ c # t) [c] = Some (length s)"
  by (induction s) (auto simp: has_prefix_def)

lemma str_index_char_None: "c \<notin> set s \<Longrightarrow> str_index s [c] = None"
  by (induction s) (auto simp: has_prefix_def)

lemma angle_refs_token:
  assumes "CHR ''<'' \<notin> set gap" and "plain_id i"
  shows "angle_refs (gap @ ref_token i @ s) = ref_token i # angle_refs s"
proof -
  have 1: "str_index (gap @ ref_token i @ s) ''<'' = Some (length gap)"
    using str_index_char [OF assms(1), of "i @ CHR ''>'' # s"] by (simp add: ref_token_def)
  have 2: "str_index (ref_token i @ s) ''>'' = Some (Suc (length i))"
    using str_index_char [of "CHR ''>''" "CHR ''<'' # i" s] assms(2) by (simp add: ref_token_def plain_id_def)
  show ?thesis using 1 2 by (subst angle_refs.simps) (simp add: Let_def ref_token_def)
qed

lemma angle_refs_none: "CHR ''<'' \<notin> set s \<Longrightarrow> angle_refs s = []"
  by (subst angle_refs.simps) (simp add: str_index_char_None)

text \<open>A header that lists tokens, each after a gap without an opening bracket, is read back as these tokens.\<close>

lemma angle_refs_tokens:
  assumes "list_all (\<lambda>(gap, i). CHR ''<'' \<notin> set gap \<and> plain_id i) xs"
  shows "angle_refs (concat (map (\<lambda>(gap, i). gap @ ref_token i) xs)) = map (\<lambda>(gap, i). ref_token i) xs"
  using assms
proof (induction xs)
  case (Cons x xs)
  then show ?case using angle_refs_token by (cases x) simp
qed (simp add: angle_refs_none)

lemma trimAngle_token:
  assumes "plain_id i"
  shows "trimAngle (ref_token i) = i"
proof -
  let ?p = "\<lambda>c. c = CHR ''<'' \<or> c = CHR ''>''"
  have "hd i \<in> set i" "last i \<in> set i" and ne: "i \<noteq> []" using assms by (simp_all add: plain_id_def)
  then have "\<not> ?p (hd i)" "\<not> ?p (last i)" using assms unfolding plain_id_def by metis+
  then have "dropWhile ?p (i @ s) = i @ s" "dropWhile ?p (rev i) = rev i" for s
    unfolding dropWhile_fixed_iff using ne by (simp_all add: hd_rev)
  then show ?thesis by (simp add: trimAngle_def trim_by_def ref_token_def)
qed

end
