(* ===== verification/Smtp_Model.thy ===== *)
theory Smtp_Model
  imports Translate_Model Retry_Model Config_Model
begin

text \<open>
  \<open>internal/infrastructure/email\<close>: the message a reply becomes on the wire, and the SMTP exchange with its
  retries. Encoded words (\<open>mime.QEncoding\<close>), SHA-256, the date and the server's answers to each step of the
  exchange are parameters; text is valid UTF-8 where runes are counted.

  The lemmas show that a reply's text cannot add header lines, that the references a reply carries are the ones
  the inbound side reads back, and that mail and credentials only cross an encrypted connection.
\<close>

section \<open>Header values\<close>

abbreviation CR :: char where "CR \<equiv> CHR 0x0D"
abbreviation CRLF :: string where "CRLF \<equiv> [CR, LF]"

definition maxRefs :: nat where "maxRefs = 50"
definition maxSubjectRunes :: nat where "maxSubjectRunes = 512"
definition headerFoldOctets :: nat where "headerFoldOctets = 900"
definition maxMsgIDLen :: nat where "maxMsgIDLen = 256"

definition stripCRLF :: "string \<Rightarrow> string" where
  "stripCRLF s = filter (\<lambda>c. c \<noteq> CR \<and> c \<noteq> LF) s"

definition sanitizeMsgID :: "string \<Rightarrow> string" where
  "sanitizeMsgID s = filter (\<lambda>c. c \<notin> {CR, LF, CHR 0x09, CHR '' '', CHR ''<'', CHR ''>''}) (trim_space s)"

definition usable_ids :: "string list \<Rightarrow> string list" where
  "usable_ids refs = filter (\<lambda>i. i \<noteq> '''' \<and> length i \<le> maxMsgIDLen) (map sanitizeMsgID refs)"

text \<open>The tokens after the first, folded when the line would grow past the limit.\<close>

fun fold_tokens :: "nat \<Rightarrow> string list \<Rightarrow> string" where
  "fold_tokens lineLen [] = ''''"
| "fold_tokens lineLen (t # ts) =
     (if lineLen + 1 + length t > headerFoldOctets then CRLF @ '' '' @ t @ fold_tokens (1 + length t) ts
      else '' '' @ t @ fold_tokens (lineLen + 1 + length t) ts)"

definition buildRefs :: "string list \<Rightarrow> string" where
  "buildRefs references =
     (let recent = drop (length references - maxRefs) references in
      case map ref_token (usable_ids recent) of
        [] \<Rightarrow> ''''
      | t # ts \<Rightarrow> t @ fold_tokens (length ''References: '' + length t) ts)"

fun take_runes :: "nat \<Rightarrow> string \<Rightarrow> string" where
  "take_runes n [] = []"
| "take_runes n (c # s) = (if \<not> rune_start c then c # take_runes n s else case n of 0 \<Rightarrow> [] | Suc m \<Rightarrow> c # take_runes m s)"

definition truncateRunes :: "string \<Rightarrow> nat \<Rightarrow> string" where
  "truncateRunes s mx =
     (if length s \<le> mx then s else if length (filter rune_start s) \<le> mx then s else take_runes mx s)"

definition domainOf :: "string \<Rightarrow> string" where
  "domainOf addr = (case str_index (rev addr) ''@'' of
       None \<Rightarrow> ''localhost''
     | Some k \<Rightarrow> if 0 < k then drop (length addr - k) addr else ''localhost'')"

definition isLocalhost :: "string \<Rightarrow> bool" where
  "isLocalhost host \<longleftrightarrow> to_lower host \<in> {''localhost'', ''127.0.0.1'', ''::1''}"

section \<open>The message\<close>

record smtp_env =
  se_sha :: "string \<Rightarrow> string"
  se_qEncode :: "string \<Rightarrow> string"
  se_date :: string

definition replyMessageID :: "smtp_env \<Rightarrow> reply \<Rightarrow> string" where
  "replyMessageID v r = take 32 (se_sha v (r_SubmissionID r @ [NUL] @ r_ToAddress r @ [NUL] @ r_Subject r @ [NUL] @ r_BodyText r))"

definition message_id_of :: "smtp_env \<Rightarrow> smtp_config \<Rightarrow> reply \<Rightarrow> string" where
  "message_id_of v c r = replyMessageID v r @ ''@'' @ domainOf (smtp_FromAddress c)"

definition header_fields :: "smtp_env \<Rightarrow> smtp_config \<Rightarrow> reply \<Rightarrow> string \<Rightarrow> (string \<times> string) list" where
  "header_fields v c r msgID =
     (let fromAddr = stripCRLF (smtp_FromAddress c);
          sender = (if smtp_FromName c \<noteq> '''' then se_qEncode v (smtp_FromName c) @ '' <'' @ fromAddr @ ''>'' else fromAddr);
          irt = sanitizeMsgID (r_InReplyTo r);
          refs = buildRefs (r_References r)
      in [(''From'', sender), (''To'', stripCRLF (r_ToAddress r)),
          (''Subject'', se_qEncode v (truncateRunes (r_Subject r) maxSubjectRunes)), (''Date'', se_date v),
          (''Message-ID'', ''<'' @ msgID @ ''>'')] @
         (if irt \<noteq> '''' \<and> length irt \<le> maxMsgIDLen then [(''In-Reply-To'', ''<'' @ irt @ ''>'')] else []) @
         (if refs \<noteq> '''' then [(''References'', refs)] else []) @
         [(''Auto-Submitted'', ''auto-generated''), (''MIME-Version'', ''1.0''), (''Content-Type'', ''text/plain; charset=utf-8'')])"

definition header_line :: "string \<times> string \<Rightarrow> string" where
  "header_line f = fst f @ '': '' @ snd f"

text \<open>\<open>strings.ReplaceAll\<close> for the two line endings.\<close>

fun crlf_to_lf :: "string \<Rightarrow> string" where
  "crlf_to_lf (c # d # s) = (if c = CR \<and> d = LF then LF # crlf_to_lf s else c # crlf_to_lf (d # s))"
| "crlf_to_lf s = s"

definition lf_to_crlf :: "string \<Rightarrow> string" where
  "lf_to_crlf s = concat (map (\<lambda>c. if c = LF then CRLF else [c]) s)"

definition buildMessage :: "smtp_env \<Rightarrow> smtp_config \<Rightarrow> reply \<Rightarrow> string \<Rightarrow> string" where
  "buildMessage v c r msgID =
     concat (map (\<lambda>f. header_line f @ CRLF) (header_fields v c r msgID)) @ CRLF @ lf_to_crlf (crlf_to_lf (r_BodyText r))"

section \<open>The exchange\<close>

text \<open>What the server and the network answer: an SMTP status, or a transport error.\<close>

datatype smtp_failure = Status int string | Transport string

record exchange =
  x_dial :: "string option"
  x_client :: "string option"
  x_offersSTARTTLS :: bool
  x_startTLS :: "string option"
  x_mech :: "go_error option"
  x_auth :: "string option"
  x_mail :: "smtp_failure option"
  x_rcpt :: "smtp_failure option"
  x_data :: "smtp_failure option"
  x_write :: "string option"
  x_close :: "smtp_failure option"

definition classifySMTP :: "smtp_failure \<Rightarrow> go_error" where
  "classifySMTP f = (case f of
       Status code msg \<Rightarrow> if code \<ge> 500 \<and> code < 600 then Permanent (Some (Plain msg)) else Plain msg
     | Transport msg \<Rightarrow> Plain msg)"

text \<open>Start of XOAUTH2: the token is refused on a connection that is neither encrypted nor local.\<close>

definition xoauth2_Start :: "string \<Rightarrow> bool \<Rightarrow> go_error option" where
  "xoauth2_Start host tls =
     (if \<not> tls \<and> \<not> isLocalhost host then Some (Permanent (Some (Plain ''smtp: XOAUTH2 requires a TLS connection''))) else None)"

text \<open>The connection: whether it is encrypted, or why there is none.\<close>

definition negotiate_tls :: "smtp_config \<Rightarrow> exchange \<Rightarrow> go_error + bool" where
  "negotiate_tls c x =
     (if smtp_Port c = ''465'' then Inr True
      else if x_offersSTARTTLS x then (case x_startTLS x of Some e \<Rightarrow> Inl (Plain e) | None \<Rightarrow> Inr True)
      else if \<not> isLocalhost (smtp_Host c)
      then Inl (Permanent (Some (Plain ''smtp: host does not offer STARTTLS; refusing to send over plaintext'')))
      else Inr False)"

text \<open>\<open>dialSMTP\<close> with the credentials: \<open>oauth\<close> says that a token mechanism is configured.\<close>

definition authenticates :: "bool \<Rightarrow> smtp_config \<Rightarrow> bool" where
  "authenticates oauth c \<longleftrightarrow> oauth \<or> smtp_Username c \<noteq> ''''"

definition dialSMTP :: "bool \<Rightarrow> smtp_config \<Rightarrow> exchange \<Rightarrow> go_error + bool" where
  "dialSMTP oauth c x =
     (case x_dial x of
        Some e \<Rightarrow> Inl (Plain e)
      | None \<Rightarrow> (case x_client x of
          Some e \<Rightarrow> Inl (Plain e)
        | None \<Rightarrow> (case negotiate_tls c x of
            Inl e \<Rightarrow> Inl e
          | Inr tls \<Rightarrow>
              (case (if oauth then x_mech x else None) of
                 Some e \<Rightarrow> Inl e
               | None \<Rightarrow>
                   if \<not> authenticates oauth c then Inr tls
                   else case (if oauth then xoauth2_Start (smtp_Host c) tls else None) of
                     Some e \<Rightarrow> Inl (Permanent (Some e))
                   | None \<Rightarrow> (case x_auth x of Some e \<Rightarrow> Inl (Permanent (Some (Plain e))) | None \<Rightarrow> Inr tls)))))"

definition realSMTPSend :: "bool \<Rightarrow> smtp_config \<Rightarrow> exchange \<Rightarrow> go_error option" where
  "realSMTPSend oauth c x =
     (case dialSMTP oauth c x of
        Inl e \<Rightarrow> Some e
      | Inr _ \<Rightarrow> (case x_mail x of
          Some f \<Rightarrow> Some (classifySMTP f)
        | None \<Rightarrow> (case x_rcpt x of
            Some f \<Rightarrow> Some (classifySMTP f)
          | None \<Rightarrow> (case x_data x of
              Some f \<Rightarrow> Some (classifySMTP f)
            | None \<Rightarrow> (case x_write x of
                Some e \<Rightarrow> Some (Plain e)
              | None \<Rightarrow> map_option classifySMTP (x_close x))))))"

text \<open>Sending with retries: attempt \<open>i\<close> meets the exchange \<open>xs i\<close>.\<close>

record send_env =
  sn_smtp :: smtp_env
  sn_exchange :: "nat \<Rightarrow> exchange"
  sn_ctxErr :: "nat \<Rightarrow> go_error option"
  sn_ctxDone :: "nat \<Rightarrow> go_error option"
  sn_jitter :: "nat \<Rightarrow> duration \<Rightarrow> duration"

definition send_retry_env :: "send_env \<Rightarrow> bool \<Rightarrow> smtp_config \<Rightarrow> retry_env" where
  "send_retry_env s oauth c =
     \<lparr>re_fn = (\<lambda>i. realSMTPSend oauth c (sn_exchange s i)), re_ctxErr = sn_ctxErr s, re_ctxDone = sn_ctxDone s, re_jitter = sn_jitter s\<rparr>"

definition sendThreadedReply :: "send_env \<Rightarrow> bool \<Rightarrow> smtp_config \<Rightarrow> retry_config \<Rightarrow> reply \<Rightarrow> (go_error + string) \<times> nat" where
  "sendThreadedReply s oauth c rc r =
     (if smtp_Host c = '''' then (Inl (Plain ''smtp: host not configured''), 0)
      else if smtp_FromAddress c = '''' then (Inl (Plain ''smtp: from address not configured''), 0)
      else if r_ToAddress r = '''' then (Inl (Plain ''smtp: empty recipient''), 0)
      else let run = retry_Do (send_retry_env s oauth c) (rty_Attempts rc) (baseDelay rc)
           in (case ro_err run of Some e \<Rightarrow> Inl e | None \<Rightarrow> Inr (message_id_of (sn_smtp s) c r), ro_calls run))"

section \<open>References come back\<close>

lemma sanitized_plain: "i \<in> set (usable_ids refs) \<Longrightarrow> plain_id i \<and> CR \<notin> set i \<and> LF \<notin> set i \<and> length i \<le> 256"
  by (auto simp: usable_ids_def sanitizeMsgID_def plain_id_def maxMsgIDLen_def)

lemma fold_tokens_gaps:
  "\<exists>gs. length gs = length ids \<and> set gs \<subseteq> {'' '', CRLF @ '' ''} \<and>
     fold_tokens n (map ref_token ids) = concat (map (\<lambda>(g, i). g @ ref_token i) (zip gs ids))"
proof (induction ids arbitrary: n)
  case (Cons i ids)
  let ?g = "if n + 1 + length (ref_token i) > headerFoldOctets then CRLF @ '' '' else '' ''"
  let ?m = "if n + 1 + length (ref_token i) > headerFoldOctets then 1 + length (ref_token i) else n + 1 + length (ref_token i)"
  obtain gs where "length gs = length ids" "set gs \<subseteq> {'' '', CRLF @ '' ''}"
    "fold_tokens ?m (map ref_token ids) = concat (map (\<lambda>(g, i). g @ ref_token i) (zip gs ids))" using Cons.IH by blast
  then show ?case by (intro exI [of _ "?g # gs"]) auto
qed simp

lemma buildRefs_tokens:
  "\<exists>xs. buildRefs refs = concat (map (\<lambda>(g, i). g @ ref_token i) xs) \<and>
     map snd xs = usable_ids (drop (length refs - maxRefs) refs) \<and> (\<forall>x\<in>set xs. CHR ''<'' \<notin> set (fst x))"
proof (cases "usable_ids (drop (length refs - maxRefs) refs)")
  case Nil
  then show ?thesis by (intro exI [of _ "[]"]) (simp add: buildRefs_def Let_def)
next
  case (Cons i ids)
  obtain gs where g: "length gs = length ids" "set gs \<subseteq> {'' '', CRLF @ '' ''}"
    "fold_tokens (length ''References: '' + length (ref_token i)) (map ref_token ids) = concat (map (\<lambda>(g, i). g @ ref_token i) (zip gs ids))"
    using fold_tokens_gaps by blast
  have "CHR ''<'' \<notin> set (fst x)" if "x \<in> set (zip gs ids)" for x
  proof -
    obtain a b where "x = (a, b)" by (cases x)
    then have "fst x \<in> set gs" using that set_zip_leftD [of a b gs ids] by simp
    then show ?thesis using g(2) by auto
  qed
  then show ?thesis using Cons g by (intro exI [of _ "('''', i) # zip gs ids"]) (simp add: buildRefs_def Let_def)
qed

text \<open>
  The references of a reply survive the wire: what the inbound side reads out of the folded References header
  is exactly the most recent fifty usable message ids of the reply, sanitized and in order, so answers to a
  reply thread to the submission that sent it.
\<close>

theorem references_round_trip:
  "trimAngles (splitReferences (buildRefs refs)) = usable_ids (drop (length refs - 50) refs)"
proof -
  obtain xs where xs: "buildRefs refs = concat (map (\<lambda>(g, i). g @ ref_token i) xs)"
    "map snd xs = usable_ids (drop (length refs - maxRefs) refs)" "\<forall>x\<in>set xs. CHR ''<'' \<notin> set (fst x)"
    using buildRefs_tokens by blast
  have plain: "plain_id (snd x)" if "x \<in> set xs" for x using sanitized_plain [of "snd x"] that xs(2) by (metis image_eqI set_map)
  then have "angle_refs (buildRefs refs) = map (\<lambda>(g, i). ref_token i) xs"
    unfolding xs(1) by (intro angle_refs_tokens) (use xs(3) in \<open>auto simp: list_all_iff\<close>)
  then have a: "angle_refs (buildRefs refs) = map (ref_token \<circ> snd) xs" by (simp add: comp_def case_prod_beta)
  have "trimAngles (map (ref_token \<circ> snd) xs) = map snd xs"
  proof -
    have "map trimAngle (map (ref_token \<circ> snd) xs) = map snd xs" using plain by (simp add: trimAngle_token)
    moreover have "\<forall>i\<in>set (map snd xs). i \<noteq> ''''" using plain by (auto simp: plain_id_def)
    ultimately show ?thesis by (simp add: trimAngles_def filter_id_conv)
  qed
  moreover have "splitReferences (buildRefs refs) = map (ref_token \<circ> snd) xs"
  proof (cases "xs = []")
    case True
    then show ?thesis using a xs(1) by (simp add: splitReferences_def str_fields_def)
  qed (simp add: splitReferences_def a)
  ultimately show ?thesis using xs(2) by (simp add: maxRefs_def)
qed

section \<open>Header lines\<close>

definition clean :: "string \<Rightarrow> bool" where
  "clean s \<longleftrightarrow> CR \<notin> set s \<and> LF \<notin> set s"

text \<open>The lines of a message as a receiver splits them, and its header: the lines before the first empty one.\<close>

fun split_crlf :: "string \<Rightarrow> string list" where
  "split_crlf [] = [[]]"
| "split_crlf [c] = [[c]]"
| "split_crlf (c # d # s) = (if c = CR \<and> d = LF then [] # split_crlf s
     else (case split_crlf (d # s) of [] \<Rightarrow> [[c]] | l # ls \<Rightarrow> (c # l) # ls))"

definition header_block :: "string \<Rightarrow> string list" where
  "header_block msg = takeWhile (\<lambda>l. l \<noteq> []) (split_crlf msg)"

definition field_name :: "string \<Rightarrow> string" where
  "field_name l = takeWhile (\<lambda>c. c \<noteq> CHR '':'') l"

lemma split_crlf_nonempty [simp]: "split_crlf s \<noteq> []"
  by (induction s rule: split_crlf.induct) (auto split: list.split)

lemma split_crlf_append: "a = [] \<or> last a \<noteq> CR \<Longrightarrow> split_crlf (a @ CR # LF # b) = split_crlf a @ split_crlf b"
proof (induction a rule: split_crlf.induct)
  case (3 c d s)
  show ?case
  proof (cases "c = CR \<and> d = LF")
    case True
    then show ?thesis using 3 by (cases s) auto
  next
    case False
    then show ?thesis using 3 by (auto split: list.split)
  qed
qed auto

lemma split_crlf_no_cr: "CR \<notin> set a \<Longrightarrow> split_crlf a = [a]"
  by (induction a rule: split_crlf.induct) auto

text \<open>The lines of a folded value.\<close>

fun fold_lines :: "string \<Rightarrow> string list \<Rightarrow> string list" where
  "fold_lines cur [] = [cur]"
| "fold_lines cur (t # ts) =
     (if length cur + 1 + length t > headerFoldOctets then cur # fold_lines ('' '' @ t) ts else fold_lines (cur @ '' '' @ t) ts)"

lemma split_fold_tokens:
  assumes "CR \<notin> set cur" and "\<forall>t\<in>set ts. CR \<notin> set t" and "cur \<noteq> []"
  shows "split_crlf (cur @ fold_tokens (length cur) ts) = fold_lines cur ts"
  using assms
proof (induction ts arbitrary: cur)
  case (Cons t ts)
  show ?case
  proof (cases "length cur + 1 + length t > headerFoldOctets")
    case True
    have "split_crlf (cur @ CR # LF # ('' '' @ t) @ fold_tokens (length ('' '' @ t)) ts) =
        split_crlf cur @ split_crlf (('' '' @ t) @ fold_tokens (length ('' '' @ t)) ts)"
      by (rule split_crlf_append) (use Cons.prems in \<open>metis last_in_set\<close>)
    also have "split_crlf (('' '' @ t) @ fold_tokens (length ('' '' @ t)) ts) = fold_lines ('' '' @ t) ts"
      using Cons.prems by (intro Cons.IH) auto
    finally show ?thesis using True Cons.prems by (simp add: split_crlf_no_cr)
  next
    case False
    have "split_crlf ((cur @ '' '' @ t) @ fold_tokens (length (cur @ '' '' @ t)) ts) = fold_lines (cur @ '' '' @ t) ts"
      using Cons.prems by (intro Cons.IH) auto
    then show ?thesis using False by simp
  qed
qed (simp add: split_crlf_no_cr)

lemma fold_lines_shape:
  assumes "clean cur" "length cur \<le> 900" "\<forall>t\<in>set ts. clean t \<and> length t \<le> 258" "cur \<noteq> []"
  shows "(\<exists>l ls. fold_lines cur ts = l # ls \<and> take (length cur) l = cur \<and> (\<forall>x\<in>set ls. \<exists>y. x = CHR '' '' # y)) \<and>
    (\<forall>x\<in>set (fold_lines cur ts). clean x \<and> length x \<le> 900)"
  using assms
proof (induction ts arbitrary: cur)
  case (Cons t ts)
  show ?case
  proof (cases "length cur + 1 + length t > headerFoldOctets")
    case True
    have "clean ('' '' @ t)" "length ('' '' @ t) \<le> 900" "'' '' @ t \<noteq> []" using Cons.prems by (auto simp: clean_def)
    then obtain l ls where l: "fold_lines ('' '' @ t) ts = l # ls" "take (length ('' '' @ t)) l = '' '' @ t" "\<forall>x\<in>set ls. \<exists>y. x = CHR '' '' # y"
      and all: "\<forall>x\<in>set (fold_lines ('' '' @ t) ts). clean x \<and> length x \<le> 900"
      using Cons.IH [of "'' '' @ t"] Cons.prems by auto
    have "\<exists>y. l = CHR '' '' # y" using l(2) by (cases l) auto
    then show ?thesis using True l all Cons.prems by auto
  next
    case False
    let ?c = "cur @ '' '' @ t"
    have "clean ?c" "length ?c \<le> 900" "?c \<noteq> []" using Cons.prems False by (auto simp: clean_def headerFoldOctets_def)
    then obtain l ls where l: "fold_lines ?c ts = l # ls" "take (length ?c) l = ?c" "\<forall>x\<in>set ls. \<exists>y. x = CHR '' '' # y"
      and all: "\<forall>x\<in>set (fold_lines ?c ts). clean x \<and> length x \<le> 900"
      using Cons.IH [of ?c] Cons.prems by auto
    have "take (length cur) l = cur" using l(2) by (metis append_eq_conv_conj take_add length_append take_take min.absorb1 le_add1 append_take_drop_id)
    then show ?thesis using False l all by auto
  qed
qed simp

text \<open>The lines of a field whose value is either clean or the folded references.\<close>

lemma clean_simps [simp]:
  "clean []" "clean (a @ b) \<longleftrightarrow> clean a \<and> clean b" "clean (c # s) \<longleftrightarrow> c \<noteq> CR \<and> c \<noteq> LF \<and> clean s"
  by (auto simp: clean_def)

lemma clean_filter: "clean s \<Longrightarrow> clean (filter p s)"
  by (auto simp: clean_def)

lemma clean_strip [simp]: "clean (stripCRLF s)" "clean (sanitizeMsgID s)"
  by (auto simp: clean_def stripCRLF_def sanitizeMsgID_def)

lemma clean_drop: "clean s \<Longrightarrow> clean (drop n s)" "clean s \<Longrightarrow> clean (take n s)"
  by (auto simp: clean_def dest: in_set_dropD in_set_takeD)

lemma clean_split: "clean s \<Longrightarrow> split_crlf s = [s]"
  by (simp add: clean_def split_crlf_no_cr)

lemma clean_domainOf: "clean s \<Longrightarrow> clean (domainOf s)"
  by (auto simp: domainOf_def clean_drop split: option.split)

lemma refs_lines:
  assumes "buildRefs refs \<noteq> ''''"
  shows "\<exists>l ls. split_crlf (''References: '' @ buildRefs refs) = l # ls \<and> take 12 l = ''References: '' \<and>
      (\<forall>x\<in>set ls. \<exists>y. x = CHR '' '' # y) \<and> (\<forall>x\<in>set (l # ls). clean x \<and> length x \<le> 900)"
    and "last (''References: '' @ buildRefs refs) \<noteq> CR"
proof -
  let ?ids = "usable_ids (drop (length refs - maxRefs) refs)"
  obtain i ids where ids: "?ids = i # ids" using assms by (cases ?ids) (auto simp: buildRefs_def Let_def)
  have all: "clean (ref_token j) \<and> length (ref_token j) \<le> 258" if "j \<in> set ?ids" for j
    using sanitized_plain [OF that] by (auto simp: ref_token_def clean_def)
  let ?cur = "''References: '' @ ref_token i"
  have b: "''References: '' @ buildRefs refs = ?cur @ fold_tokens (length ?cur) (map ref_token ids)"
    by (simp add: buildRefs_def Let_def ids)
  have cur: "clean ?cur" "length ?cur \<le> 900" "?cur \<noteq> []" using all [of i] ids by simp_all
  have ts: "\<forall>t\<in>set (map ref_token ids). clean t \<and> length t \<le> 258" using all ids by simp
  have split: "split_crlf (''References: '' @ buildRefs refs) = fold_lines ?cur (map ref_token ids)"
    unfolding b by (rule split_fold_tokens) (use cur ts in \<open>auto simp: clean_def\<close>)
  obtain l ls where l: "fold_lines ?cur (map ref_token ids) = l # ls" "take (length ?cur) l = ?cur" "\<forall>x\<in>set ls. \<exists>y. x = CHR '' '' # y"
    "\<forall>x\<in>set (l # ls). clean x \<and> length x \<le> 900"
    using fold_lines_shape [OF cur(1,2) ts cur(3)] by auto
  have "take 12 l = take 12 (take (length ?cur) l)" by (simp add: min_def)
  then have "take 12 l = ''References: ''" unfolding l(2) by simp
  then show "\<exists>l ls. split_crlf (''References: '' @ buildRefs refs) = l # ls \<and> take 12 l = ''References: '' \<and>
      (\<forall>x\<in>set ls. \<exists>y. x = CHR '' '' # y) \<and> (\<forall>x\<in>set (l # ls). clean x \<and> length x \<le> 900)"
    unfolding split using l(1,3,4) by (intro exI conjI) assumption+
  obtain gs where g: "fold_tokens (length ?cur) (map ref_token ids) = concat (map (\<lambda>(g, i). g @ ref_token i) (zip gs ids))"
    using fold_tokens_gaps by blast
  have "last (?cur @ concat (map (\<lambda>(g, i). g @ ref_token i) xs)) = CHR ''>''" for xs
    by (induction xs rule: rev_induct) (auto simp: ref_token_def split: prod.split)
  then show "last (''References: '' @ buildRefs refs) \<noteq> CR" unfolding b g by simp
qed

text \<open>A field whose lines a receiver reads back: the first starts with its name, the others are continuations.\<close>

definition field_ok :: "string \<times> string \<Rightarrow> bool" where
  "field_ok f \<longleftrightarrow> last (header_line f) \<noteq> CR \<and>
     (\<exists>l ls. split_crlf (header_line f) = l # ls \<and> field_name l = fst f \<and> hd l \<noteq> CHR '' '' \<and> l \<noteq> [] \<and>
       (\<forall>x\<in>set ls. \<exists>y. x = CHR '' '' # y) \<and> (\<forall>x\<in>set (l # ls). clean x \<and> (ls \<noteq> [] \<longrightarrow> length x \<le> 900)))"

lemma field_name_append: "CHR '':'' \<notin> set n \<Longrightarrow> field_name (n @ CHR '':'' # s) = n"
  by (induction n) (auto simp: field_name_def)

lemma clean_field_ok:
  assumes "clean n" "clean x" "CHR '':'' \<notin> set n" "n \<noteq> []" "hd n \<noteq> CHR '' ''"
  shows "field_ok (n, x)"
proof -
  have "clean (header_line (n, x))" using assms by (simp add: header_line_def)
  moreover have "header_line (n, x) \<noteq> []" "last (header_line (n, x)) \<in> set (header_line (n, x))" by (simp_all add: header_line_def)
  ultimately have "last (header_line (n, x)) \<noteq> CR" "split_crlf (header_line (n, x)) = [header_line (n, x)]"
    by (metis clean_def, metis clean_split)
  then show ?thesis using assms \<open>clean (header_line (n, x))\<close> field_name_append [OF assms(3), of "CHR '' '' # x"]
    by (auto simp: field_ok_def header_line_def)
qed

lemma refs_field_ok: "buildRefs refs \<noteq> '''' \<Longrightarrow> field_ok (''References'', buildRefs refs)"
proof -
  assume ne: "buildRefs refs \<noteq> ''''"
  obtain l ls where l: "split_crlf (''References: '' @ buildRefs refs) = l # ls" "take 12 l = ''References: ''"
    "\<forall>x\<in>set ls. \<exists>y. x = CHR '' '' # y" "\<forall>x\<in>set (l # ls). clean x \<and> length x \<le> 900" using refs_lines(1) [OF ne] by blast
  obtain m where m: "l = ''References: '' @ m" using l(2) by (metis append_take_drop_id)
  have "field_name l = ''References''" unfolding m using field_name_append [of "''References''" "CHR '' '' # m"] by simp
  moreover have "hd l = CHR ''R''" "l \<noteq> []" by (simp_all add: m)
  ultimately show ?thesis using l refs_lines(2) [OF ne] by (auto simp: field_ok_def header_line_def)
qed

lemma split_fields:
  assumes "\<forall>f\<in>set fs. field_ok f"
  shows "split_crlf (concat (map (\<lambda>f. header_line f @ CRLF) fs) @ CRLF @ body) =
    concat (map (\<lambda>f. split_crlf (header_line f)) fs) @ [] # split_crlf body"
  using assms
proof (induction fs)
  case Nil
  then show ?case by simp
next
  case (Cons f fs)
  have "last (header_line f) \<noteq> CR" using Cons.prems by (simp add: field_ok_def)
  then show ?case using split_crlf_append [of "header_line f" "concat (map (\<lambda>f. header_line f @ CRLF) fs) @ CRLF @ body"] Cons by simp
qed

lemma field_block:
  assumes "field_ok f"
  shows "map field_name (filter (\<lambda>l. hd l \<noteq> CHR '' '') (split_crlf (header_line f))) = [fst f]"
    and "\<forall>l\<in>set (split_crlf (header_line f)). l \<noteq> [] \<and> clean l"
proof -
  obtain l ls where l: "split_crlf (header_line f) = l # ls" "field_name l = fst f" "hd l \<noteq> CHR '' ''" "l \<noteq> []"
    "\<forall>x\<in>set ls. \<exists>y. x = CHR '' '' # y" "\<forall>x\<in>set (l # ls). clean x" using assms by (auto simp: field_ok_def)
  have "filter (\<lambda>l. hd l \<noteq> CHR '' '') ls = []" using l(5) by (fastforce simp: filter_empty_conv)
  then show "map field_name (filter (\<lambda>l. hd l \<noteq> CHR '' '') (split_crlf (header_line f))) = [fst f]" using l by simp
  show "\<forall>l\<in>set (split_crlf (header_line f)). l \<noteq> [] \<and> clean l" using l by auto
qed

lemma fields_block_names:
  "\<forall>f\<in>set fs. field_ok f \<Longrightarrow>
     map field_name (filter (\<lambda>l. hd l \<noteq> CHR '' '') (concat (map (\<lambda>f. split_crlf (header_line f)) fs))) = map fst fs"
  by (induction fs) (simp_all add: field_block(1))

lemma fields_block_clean: "\<forall>f\<in>set fs. field_ok f \<Longrightarrow> \<forall>l\<in>set (concat (map (\<lambda>f. split_crlf (header_line f)) fs)). l \<noteq> [] \<and> clean l"
  using field_block(2) by auto

lemma header_fields_ok:
  assumes "\<And>s. clean (se_qEncode v s)" "clean (se_date v)" "\<And>s. clean (se_sha v s)" "clean (smtp_FromAddress c)"
  shows "\<forall>f\<in>set (header_fields v c r (message_id_of v c r)). field_ok f"
proof -
  have id: "clean (message_id_of v c r)"
    using assms(3,4) by (simp add: message_id_of_def replyMessageID_def clean_drop clean_domainOf)
  have pos: "field_ok (''From'', x)" "field_ok (''To'', x)" "field_ok (''Subject'', x)" "field_ok (''Date'', x)" "field_ok (''Message-ID'', x)"
    "field_ok (''In-Reply-To'', x)" "field_ok (''Auto-Submitted'', x)" "field_ok (''MIME-Version'', x)" "field_ok (''Content-Type'', x)"
    if "clean x" for x using that by (auto intro!: clean_field_ok)
  show ?thesis
    unfolding header_fields_def Let_def
    by (auto simp: assms id intro!: pos refs_field_ok)
qed

text \<open>
  C28. A reply cannot forge headers. Whatever its subject, recipient, thread ids and text contain, the header of the
  message on the wire consists of exactly the fields the sender writes, in their order: every line before the
  first empty one is one of them or a continuation, and none contains a bare line break. The parameters'
  part is that encoded words, hashes and the date are single lines, and so is the configured sender address.
\<close>

theorem no_header_injection:
  assumes "\<And>s. clean (se_qEncode v s)" and "clean (se_date v)" and "\<And>s. clean (se_sha v s)" and "clean (smtp_FromAddress c)"
  shows "map field_name (filter (\<lambda>l. hd l \<noteq> CHR '' '') (header_block (buildMessage v c r (message_id_of v c r)))) =
      [''From'', ''To'', ''Subject'', ''Date'', ''Message-ID''] @
      (if sanitizeMsgID (r_InReplyTo r) \<noteq> '''' \<and> length (sanitizeMsgID (r_InReplyTo r)) \<le> 256 then [''In-Reply-To''] else []) @
      (if buildRefs (r_References r) \<noteq> '''' then [''References''] else []) @ [''Auto-Submitted'', ''MIME-Version'', ''Content-Type''] \<and>
    (\<forall>l\<in>set (header_block (buildMessage v c r (message_id_of v c r))). clean l)"
proof -
  let ?fs = "header_fields v c r (message_id_of v c r)"
  note ok = header_fields_ok [of v c r, OF assms]
  let ?ls = "concat (map (\<lambda>f. split_crlf (header_line f)) ?fs)"
  have "header_block (buildMessage v c r (message_id_of v c r)) = takeWhile (\<lambda>l. l \<noteq> []) (?ls @ [] # split_crlf (lf_to_crlf (crlf_to_lf (r_BodyText r))))"
    unfolding header_block_def buildMessage_def split_fields [OF ok] ..
  also have "\<dots> = ?ls" using fields_block_clean [OF ok] by (subst takeWhile_append2) auto
  finally have b: "header_block (buildMessage v c r (message_id_of v c r)) = ?ls" .
  have "map fst ?fs = [''From'', ''To'', ''Subject'', ''Date'', ''Message-ID''] @
      (if sanitizeMsgID (r_InReplyTo r) \<noteq> '''' \<and> length (sanitizeMsgID (r_InReplyTo r)) \<le> 256 then [''In-Reply-To''] else []) @
      (if buildRefs (r_References r) \<noteq> '''' then [''References''] else []) @ [''Auto-Submitted'', ''MIME-Version'', ''Content-Type'']"
    by (simp add: header_fields_def Let_def maxMsgIDLen_def)
  then show ?thesis unfolding b fields_block_names [OF ok] using fields_block_clean [OF ok] by blast
qed

definition plain_smtp_env :: smtp_env where
  "plain_smtp_env = \<lparr>se_sha = (\<lambda>s. ''ab''), se_qEncode = stripCRLF, se_date = ''Mon, 02 Jan 2006 15:04:05 +0000''\<rparr>"

definition sample_smtp :: smtp_config where
  "sample_smtp = \<lparr>smtp_Host = ''mx'', smtp_Port = ''587'', smtp_Username = ''u'', smtp_Password = ''p'', smtp_FromAddress = ''agency@x'', smtp_FromName = ''Triage''\<rparr>"

definition crafted_reply :: reply where
  "crafted_reply = \<lparr>r_SubmissionID = ''s1'', r_ToAddress = ''broker@x'' @ CRLF @ ''Bcc: all@x'', r_Subject = ''Re: loss runs'' @ CRLF @ ''X-Evil: 1'',
     r_BodyText = ''hello'', r_InReplyTo = ''m1@x'' @ CRLF @ ''X-Evil: 2'', r_References = [''a@x'', CRLF @ ''b@x'']\<rparr>"

theorem no_header_injection_witness:
  "map field_name (filter (\<lambda>l. hd l \<noteq> CHR '' '')
     (header_block (buildMessage plain_smtp_env sample_smtp crafted_reply (message_id_of plain_smtp_env sample_smtp crafted_reply)))) =
   [''From'', ''To'', ''Subject'', ''Date'', ''Message-ID'', ''In-Reply-To'', ''References'', ''Auto-Submitted'', ''MIME-Version'', ''Content-Type'']"
proof -
  have irt: "sanitizeMsgID (r_InReplyTo crafted_reply) \<noteq> '''' \<and> length (sanitizeMsgID (r_InReplyTo crafted_reply)) \<le> 256"
    and refs: "buildRefs (r_References crafted_reply) \<noteq> ''''" by code_simp+
  have "clean (se_qEncode plain_smtp_env s)" "clean (se_sha plain_smtp_env s)" for s by (simp_all add: plain_smtp_env_def)
  moreover have "clean (se_date plain_smtp_env)" "clean (smtp_FromAddress sample_smtp)" by (simp_all add: plain_smtp_env_def sample_smtp_def)
  ultimately show ?thesis using no_header_injection [of plain_smtp_env sample_smtp crafted_reply] irt refs by simp
qed

section \<open>What a successful send means\<close>

text \<open>An exchange that carried the message: it was accepted at every step, over an encrypted or a local connection.\<close>

definition carried :: "smtp_config \<Rightarrow> exchange \<Rightarrow> bool" where
  "carried c x \<longleftrightarrow> x_dial x = None \<and> x_mail x = None \<and> x_rcpt x = None \<and> x_data x = None \<and> x_write x = None \<and> x_close x = None \<and>
     (smtp_Port c = ''465'' \<or> (x_offersSTARTTLS x \<and> x_startTLS x = None) \<or> (\<not> x_offersSTARTTLS x \<and> isLocalhost (smtp_Host c)))"

lemma realSMTPSend_carried: "realSMTPSend oauth c x = None \<Longrightarrow> carried c x"
  by (auto simp: realSMTPSend_def dialSMTP_def negotiate_tls_def carried_def split: option.splits sum.splits if_splits)

text \<open>A refusal with a permanent status, or a server that offers no encryption, is not retried.\<close>

lemma permanent_answers:
  "dialSMTP oauth c x = Inr tls \<Longrightarrow> x_mail x = Some (Status code m) \<Longrightarrow> 500 \<le> code \<Longrightarrow> code < 600 \<Longrightarrow>
     \<exists>e. realSMTPSend oauth c x = Some e \<and> as_permanent e"
  "x_dial x = None \<Longrightarrow> x_client x = None \<Longrightarrow> smtp_Port c \<noteq> ''465'' \<Longrightarrow> \<not> x_offersSTARTTLS x \<Longrightarrow> \<not> isLocalhost (smtp_Host c) \<Longrightarrow>
     \<exists>e. realSMTPSend oauth c x = Some e \<and> as_permanent e"
  by (auto simp: realSMTPSend_def classifySMTP_def dialSMTP_def negotiate_tls_def)

lemma retry_permanent_first:
  assumes "re_ctxErr v 0 = None" and "re_fn v 0 = Some e" and "as_permanent e"
  shows "ro_calls (retry_Do v attempts base) = 1 \<and> ro_err (retry_Do v attempts base) = Some (Wrapped ''retry permanent'' e)"
proof -
  obtain m where "retry_attempts attempts = Suc m" by (cases "retry_attempts attempts") (auto simp: retry_attempts_def split: if_splits)
  then show ?thesis using assms by (simp add: retry_Do_def retry_loop.simps(2))
qed

text \<open>
  C29. A reply that is reported sent was accepted by the server in one of the allowed attempts, over a connection
  that was encrypted (implicit TLS or STARTTLS) unless the server is the local host; and a server that
  offers no encryption, or refuses the sender with a permanent status, is tried exactly once.
\<close>

theorem sent_only_encrypted:
  "(fst (sendThreadedReply s oauth c rc r) = Inr mid \<longrightarrow>
      mid = message_id_of (sn_smtp s) c r \<and> (\<exists>k<nat (max 1 (rty_Attempts rc)). carried c (sn_exchange s k))) \<and>
   (smtp_Host c \<noteq> '''' \<and> smtp_FromAddress c \<noteq> '''' \<and> r_ToAddress r \<noteq> '''' \<and> sn_ctxErr s 0 = None \<and>
    ((x_dial (sn_exchange s 0) = None \<and> x_client (sn_exchange s 0) = None \<and> smtp_Port c \<noteq> ''465'' \<and>
      \<not> x_offersSTARTTLS (sn_exchange s 0) \<and> \<not> isLocalhost (smtp_Host c)) \<or>
     (\<exists>tls code m. dialSMTP oauth c (sn_exchange s 0) = Inr tls \<and> x_mail (sn_exchange s 0) = Some (Status code m) \<and> 500 \<le> code \<and> code < 600)) \<longrightarrow>
      snd (sendThreadedReply s oauth c rc r) = 1 \<and> isl (fst (sendThreadedReply s oauth c rc r)))"
proof (intro conjI impI)
  let ?v = "send_retry_env s oauth c"
  let ?run = "retry_Do ?v (rty_Attempts rc) (baseDelay rc)"
  assume sent: "fst (sendThreadedReply s oauth c rc r) = Inr mid"
  then have ok: "ro_err ?run = None" and "mid = message_id_of (sn_smtp s) c r"
    by (auto simp: sendThreadedReply_def Let_def split: if_splits option.splits)
  then show "mid = message_id_of (sn_smtp s) c r" by simp
  have n: "retry_attempts (rty_Attempts rc) = nat (max 1 (rty_Attempts rc))" by (auto simp: retry_attempts_def max_def)
  from ok obtain k where "k < nat (max 1 (rty_Attempts rc))" "re_fn ?v k = None"
    unfolding retry_Do_def n retry_loop_success by auto
  then show "\<exists>k<nat (max 1 (rty_Attempts rc)). carried c (sn_exchange s k)"
    using realSMTPSend_carried by (auto simp: send_retry_env_def)
next
  let ?v = "send_retry_env s oauth c"
  assume refused: "smtp_Host c \<noteq> '''' \<and> smtp_FromAddress c \<noteq> '''' \<and> r_ToAddress r \<noteq> '''' \<and> sn_ctxErr s 0 = None \<and>
    ((x_dial (sn_exchange s 0) = None \<and> x_client (sn_exchange s 0) = None \<and> smtp_Port c \<noteq> ''465'' \<and>
      \<not> x_offersSTARTTLS (sn_exchange s 0) \<and> \<not> isLocalhost (smtp_Host c)) \<or>
     (\<exists>tls code m. dialSMTP oauth c (sn_exchange s 0) = Inr tls \<and> x_mail (sn_exchange s 0) = Some (Status code m) \<and> 500 \<le> code \<and> code < 600))"
  then obtain e where "realSMTPSend oauth c (sn_exchange s 0) = Some e" "as_permanent e" using permanent_answers by metis
  then have "ro_calls (retry_Do ?v (rty_Attempts rc) (baseDelay rc)) = 1 \<and>
      ro_err (retry_Do ?v (rty_Attempts rc) (baseDelay rc)) = Some (Wrapped ''retry permanent'' e)"
    using refused by (intro retry_permanent_first) (simp_all add: send_retry_env_def)
  then show "snd (sendThreadedReply s oauth c rc r) = 1" "isl (fst (sendThreadedReply s oauth c rc r))"
    using refused by (simp_all add: sendThreadedReply_def Let_def)
qed

definition accepting :: exchange where
  "accepting = \<lparr>x_dial = None, x_client = None, x_offersSTARTTLS = True, x_startTLS = None, x_mech = None, x_auth = None, x_mail = None,
     x_rcpt = None, x_data = None, x_write = None, x_close = None\<rparr>"

definition sample_send :: "exchange \<Rightarrow> send_env" where
  "sample_send x = \<lparr>sn_smtp = plain_smtp_env, sn_exchange = (\<lambda>_. x), sn_ctxErr = (\<lambda>_. None), sn_ctxDone = (\<lambda>_. None), sn_jitter = (\<lambda>_ d. d)\<rparr>"

theorem sent_only_encrypted_witness:
  "fst (sendThreadedReply (sample_send accepting) False sample_smtp (ac_Retry default_config) crafted_reply) = Inr ''ab@x'' \<and>
   carried sample_smtp accepting \<and>
   snd (sendThreadedReply (sample_send (accepting\<lparr>x_offersSTARTTLS := False\<rparr>)) False sample_smtp (ac_Retry default_config) crafted_reply) = 1"
proof -
  have sent: "fst (sendThreadedReply (sample_send accepting) False sample_smtp (ac_Retry default_config) crafted_reply) = Inr ''ab@x''" by code_simp
  have "\<not> isLocalhost (smtp_Host sample_smtp)" "smtp_Port sample_smtp \<noteq> ''465''" by code_simp+
  then show ?thesis
    using sent sent_only_encrypted [of "sample_send accepting" False sample_smtp "ac_Retry default_config" crafted_reply "''ab@x''"]
      sent_only_encrypted [of "sample_send (accepting\<lparr>x_offersSTARTTLS := False\<rparr>)" False sample_smtp "ac_Retry default_config" crafted_reply]
    by (auto simp: sample_send_def accepting_def sample_smtp_def crafted_reply_def)
qed

end
