(* ===== verification/Thread_Model.thy ===== *)
theory Thread_Model
  imports Delivery_Service Smtp_Model
begin

text \<open>
  How an answer finds its way back, across the sender, the delivery, the translation of inbound mail and the
  resolution of threads. The interface of \<open>internal/infrastructure/email/sender.go\<close> is a locale: a sender names what it
  has sent. It is interpreted by the SMTP sender and by the log sender, and what rests on it is proved once.
\<close>

section \<open>Senders\<close>

text \<open>\<open>SendThreadedReply\<close> of the SMTP sender as the service calls it: the error is only ever shown.\<close>

definition smtp_send :: "send_env \<Rightarrow> bool \<Rightarrow> smtp_config \<Rightarrow> retry_config \<Rightarrow> reply \<Rightarrow> error + string" where
  "smtp_send s oauth c rc r = map_sum (\<lambda>e. ErrOther (error_text e)) id (fst (sendThreadedReply s oauth c rc r))"

text \<open>\<open>LogSender.SendThreadedReply\<close>: the reply goes to the log; \<open>uuid\<close> is what \<open>uuid.NewString\<close> draws.\<close>

definition log_send :: "string \<Rightarrow> reply \<Rightarrow> error + string" where
  "log_send uuid r = Inr (''log-sender-'' @ uuid)"

text \<open>What the log shows of the reply.\<close>

definition log_send_fields :: "reply \<Rightarrow> (string \<times> any_val) list" where
  "log_send_fields r = [(''to'', AString (r_ToAddress r)), (''subject'', AString (r_Subject r)),
     (''in_reply_to'', AString (r_InReplyTo r)), (''references'', AStrings (r_References r))]"

definition smtp_Name :: string where "smtp_Name = ''smtp''"
definition log_Name :: string where "log_Name = ''log''"

section \<open>What rests on a sender that names what it sends\<close>

text \<open>
  The header of an answer as it is received: the \<open>In-Reply-To\<close> field holds the identifier in angle brackets. The parser takes them off,
  and the translation finds the identifier among the headers of the payload.
\<close>

definition answers :: "string \<Rightarrow> mime_message \<Rightarrow> bool" where
  "answers i msg \<longleftrightarrow> mm_header msg ''In-Reply-To'' = ref_token i"

lemma later_headers:
  "list_all (\<lambda>h. to_lower (fst h) \<noteq> ''in-reply-to'') hs \<Longrightarrow> fst (fold sort_header hs st) = fst st"
proof (induction hs arbitrary: st)
  case (Cons h hs)
  then have "fst (sort_header h st) = fst st" by (auto simp: sort_header_def Let_def split: prod.split)
  then show ?case using Cons by simp
qed simp

lemma trimAngle_plain: "plain_id i \<Longrightarrow> trimAngle i = i"
proof -
  let ?p = "\<lambda>c. c = CHR ''<'' \<or> c = CHR ''>''"
  assume p: "plain_id i"
  then have "hd i \<in> set i" "last i \<in> set i" and ne: "i \<noteq> []" by (simp_all add: plain_id_def)
  then have "\<not> ?p (hd i)" "\<not> ?p (last i)" using p unfolding plain_id_def by metis+
  then have "dropWhile ?p i = i" "dropWhile ?p (rev i) = rev i"
    unfolding dropWhile_fixed_iff using ne by (simp_all add: hd_rev)
  then show ?thesis by (simp add: trimAngle_def trim_by_def)
qed

lemma fromReader_headers:
  assumes "fromReader ev (Some msg) = Inr p"
  shows "\<exists>hs. p_Headers p = (''In-Reply-To'', trim_angles (mm_header msg ''In-Reply-To'')) # hs \<and>
    list_all (\<lambda>h. to_lower (fst h) \<noteq> ''in-reply-to'') hs"
proof -
  let ?names = "filter (\<lambda>n. trim_space (mm_header msg n) \<noteq> '''') autoResponseHeaders"
  let ?hs = "(''References'', mm_header msg ''References'') # map (\<lambda>n. (n, stripControl (trim_space (mm_header msg n)))) ?names"
  have "p_Headers p = (''In-Reply-To'', trim_angles (mm_header msg ''In-Reply-To'')) # ?hs"
    using assms by (auto simp: fromReader_def Let_def split: option.splits prod.splits)
  moreover have "list_all (\<lambda>n. to_lower n \<noteq> ''in-reply-to'') (''References'' # autoResponseHeaders)" by code_simp
  then have "list_all (\<lambda>h. to_lower (fst h) \<noteq> ''in-reply-to'') ?hs" by (auto simp: list_all_iff)
  ultimately show ?thesis by blast
qed

lemma answers_in_reply_to:
  assumes "answers i msg" and "fromReader ev (Some msg) = Inr p" and "plain_id i" and "trim_space i = i"
  shows "rq_InReplyTo (translate te p source) = i"
proof -
  obtain hs where h: "p_Headers p = (''In-Reply-To'', trim_angles (mm_header msg ''In-Reply-To'')) # hs"
    "list_all (\<lambda>h. to_lower (fst h) \<noteq> ''in-reply-to'') hs"
    using fromReader_headers [OF assms(2)] by blast
  have "trim_angles (mm_header msg ''In-Reply-To'') = i"
    using assms(1) trimAngle_token [OF assms(3)] by (simp add: answers_def trim_angles_def trimAngle_def)
  moreover have "to_lower ''In-Reply-To'' = ''in-reply-to''" by code_simp
  ultimately have "fst (sort_header (hd (p_Headers p)) st) = i" for st
    using h(1) assms(4) by (simp add: sort_header_def split: prod.split)
  then have "fst (fold sort_header (p_Headers p) ('''', [], [])) = i" using h(1) later_headers [OF h(2)] by simp
  then show ?thesis using trimAngle_plain [OF assms(3)] by (auto simp: translate_def Let_def split: prod.split)
qed

lemma answer_refs:
  assumes "rq_InReplyTo req = i" and "trim_space i = i" and "i \<noteq> ''''"
  shows "i \<in> set (nonEmpty (thread_refs req))"
  using assms by (auto simp: thread_refs_def cleanThreadRefs_def nonEmpty_def)

text \<open>A message that resolves to a submission with mail ends in that submission.\<close>

lemma reply_or_not_id:
  "reply_or_not v req inbound missing unknown sub w = (Inr res, w') \<Longrightarrow> rs_SubmissionID res = s_ID sub \<and> \<not> rs_IsDuplicate res"
  by (auto simp: reply_or_not_def Let_def persistSuppressed_def persistNoReply_def persistWithReply_def
      split: sum.splits prod.splits if_splits option.splits)

lemma resolved_stays:
  assumes rs: "resolveSubmission v req emailID w = (Resolved sub0, w1)" and mail: "s_Emails sub0 \<noteq> []"
    and body: "ingest_body v req emailID w = (Inr res, w')"
  shows "rs_SubmissionID res = s_ID sub0 \<and> \<not> rs_IsDuplicate res"
proof -
  obtain sub1 w2 where rc: "receive v req emailID sub0 w1 = (sub1, w2)" by (cases "receive v req emailID sub0 w1")
  note st = receive_step [OF rc, where fr = False and d = "w_db w2", simplified]
  show ?thesis
  proof (cases "rq_Bounce req")
    case True
    then show ?thesis using body rs rc st
      by (auto simp: ingest_body_def persistBounce_def Let_def result_for_def split: sum.splits if_splits)
  next
    case False
    let ?as = "assess v sub1 (inboundEmail req emailID (s_ID sub0)) False w2"
    obtain missing unknown sub2 w3 where as: "?as = (missing, unknown, sub2, w3)" by (cases ?as)
    obtain sub3 w4 where fl: "flag_review v missing sub2 w3 = (sub3, w4)" by (cases "flag_review v missing sub2 w3")
    have "same_thread sub1 sub2" using assess_step [of v sub1 req emailID False w2 missing unknown sub2 w3 False] as st by simp
    then have id3: "s_ID sub3 = s_ID sub0" using flag_review_step [OF fl] st by (simp add: same_thread_def)
    obtain t w5 where tr: "transitionState v sub3 missing w4 = (t, w5)" by (cases "transitionState v sub3 missing w4")
    have run: "(case t of Inl e \<Rightarrow> (Inl e, w5) | Inr sub4 \<Rightarrow> reply_or_not v req (inboundEmail req emailID (s_ID sub0)) missing unknown sub4 w5) = (Inr res, w')"
      using body rs rc False as fl tr mail by (simp add: ingest_body_def split: sum.split)
    then obtain sub4 where t: "t = Inr sub4" by (cases t) auto
    then have "s_ID sub4 = s_ID sub3" using tr transitionTo_frame(2) by (auto simp: transitionState_def split: sum.splits)
    then show ?thesis using reply_or_not_id [of v req] run t id3 by auto
  qed
qed

lemma distinct_singleton: "distinct xs \<Longrightarrow> x \<in> set xs \<Longrightarrow> \<forall>y\<in>set xs. y = x \<Longrightarrow> xs = [x]"
proof (cases xs)
  case (Cons a ys)
  assume "distinct xs" "\<forall>y\<in>set xs. y = x"
  then show ?thesis using Cons by (cases ys) auto
qed simp

lemma resolve_thread:
  assumes "db_wf (w_db w)" and "e \<in> set (db_emails (w_db w))" and "e_MessageID e \<in> set (nonEmpty (thread_refs req))"
    and "\<forall>x\<in>set (db_emails (w_db w)). e_MessageID x \<in> set (nonEmpty (thread_refs req)) \<or> e_InReplyTo x \<in> set (nonEmpty (thread_refs req)) \<longrightarrow>
           e_SubmissionID x = e_SubmissionID e"
    and "i \<notin> e_DeterministicID ` set (db_emails (w_db w))" and "v_fault v OpFindByReference '''' = None"
  shows "\<exists>s w1. resolveSubmission v req i w = (Resolved s, w1) \<and> s_ID s = e_SubmissionID e \<and> e \<in> set (s_Emails s)"
proof -
  have known: "e_SubmissionID e \<in> sub_ids (w_db w)" using assms(1,2) by (auto simp: db_wf_def)
  have ids: "\<forall>x\<in>set (findSubmissionIDsByRefs (nonEmpty (thread_refs req)) (w_db w)). x = e_SubmissionID e"
    using assms(4) by (auto simp: in_findSubmissionIDsByRefs)
  let ?ids = "findSubmissionIDsByRefs (nonEmpty (thread_refs req)) (w_db w)"
  have "e_SubmissionID e \<in> set ?ids" using assms(2,3) by (auto simp: in_findSubmissionIDsByRefs)
  moreover have "distinct ?ids" by (simp add: findSubmissionIDsByRefs_def)
  ultimately have one: "?ids = [e_SubmissionID e]" using ids distinct_singleton [of ?ids] by blast
  obtain s where get: "getByID (e_SubmissionID e) (w_db w) = Inr s" using getByID_known [OF known] by blast
  have "nonEmpty (thread_refs req) \<noteq> []" using assms(3) by auto
  then have s: "findByEmailReference (thread_refs req) (w_db w) = Inr (s, False)" "getByID (e_SubmissionID e) (w_db w) = Inr s"
    using one get by (simp_all add: findByEmailReference_def Let_def)
  have "e \<in> set (s_Emails s)" "s_ID s = e_SubmissionID e" "set (s_Emails s) \<subseteq> set (db_emails (w_db w))"
    using getByID_emails [OF s(2)] assms(2) by auto
  moreover have "\<not> list_ex (\<lambda>x. e_DeterministicID x = i) (s_Emails s)" using calculation(3) assms(5) by (auto simp: list_ex_iff)
  ultimately show ?thesis using s(1) assms(6) by (auto simp: resolveSubmission_def repo_find_reference_def thread_refs_def Let_def)
qed

locale naming_sender =
  fixes send :: "reply \<Rightarrow> error + string"
  assumes names: "send r = Inr i \<Longrightarrow> i \<noteq> ''''"
begin

text \<open>The mail a delivery stores, under the name the sender gave it.\<close>

lemma sent_mail_stored:
  assumes "faultless v" and "v_send v = send" and "deliver v r sid w = (None, w')" and "r_SubmissionID r \<in> sub_ids (w_db w)"
    and own: "\<forall>e\<in>set (db_emails (w_db w)). e_DeterministicID e = v_sha v (r_SubmissionID r @ [NUL] @ i) \<longrightarrow>
           e_MessageID e = i \<and> e_SubmissionID e = r_SubmissionID r"
    and "send r = Inr i"
  shows "\<exists>e\<in>set (db_emails (w_db w')). e_MessageID e = i \<and> e_SubmissionID e = r_SubmissionID r"
proof -
  have nf: "v_fault v p x = None" for p x using assms(1) by (simp add: faultless_def)
  let ?e = "outboundEmail (v_sha v) r i (v_now v)"
  define w1 where "w1 = repo_try v OpUpsertEmail (r_SubmissionID r) (upsertEmail ?e) (record_sent r w)"
  define w2 where "w2 = repo_try v OpSetLastReplyAt sid (\<lambda>d. Inr (setLastReplyAt sid (v_now v) d)) w1"
  have "same_core w2 w'" using assms(2,3,6) by (auto simp: deliver_def Let_def w1_def [symmetric] w2_def [symmetric])
  moreover have "db_emails (w_db w2) = db_emails (w_db w1)" using nf by (simp add: w2_def repo_try_def setLastReplyAt_def update_sub_def)
  ultimately have same: "db_emails (w_db w') = db_emails (w_db w1)" by (simp add: same_core_def)
  have keys: "e_DeterministicID ?e = v_sha v (r_SubmissionID r @ [NUL] @ i)" "e_MessageID ?e = i" "e_SubmissionID ?e = r_SubmissionID r"
    using names [OF assms(6)] by (simp_all add: outboundEmail_def Let_def)
  have fk: "has_submission (w_db w) (r_SubmissionID r)" using assms(4) by (simp add: has_submission_iff)
  show ?thesis
  proof (cases "e_DeterministicID ?e \<in> e_DeterministicID ` set (db_emails (w_db w))")
    case True
    then have "db_emails (w_db w1) = db_emails (w_db w)"
      using nf by (auto simp: w1_def repo_try_def upsertEmail_def upsertEmailRow_def record_sent_def list_ex_key)
    then show ?thesis using True own keys(1) same by auto
  next
    case False
    then have "db_emails (w_db w1) = db_emails (w_db w) @ [email_row_of ?e]"
      using nf fk keys(3) by (auto simp: w1_def repo_try_def upsertEmail_def upsertEmailRow_def record_sent_def list_ex_key)
    then show ?thesis using same keys by auto
  qed
qed

text \<open>An answer to it is taken into the submission it was sent for.\<close>

lemma answer_taken:
  assumes "faultless v" and "v_send v = send" and "deliver v r sid w = (None, w')" and "r_SubmissionID r \<in> sub_ids (w_db w)"
    and "db_wf (w_db w)" and "send r = Inr i" and "plain_id i" and "trim_space i = i"
    and "\<forall>e\<in>set (db_emails (w_db w)). e_DeterministicID e = v_sha v (r_SubmissionID r @ [NUL] @ i) \<longrightarrow>
           e_MessageID e = i \<and> e_SubmissionID e = r_SubmissionID r"
    and "answers i msg" and "fromReader ev (Some msg) = Inr p" and req: "req = translate te p source"
    and "\<forall>e\<in>set (db_emails (w_db w')). e_MessageID e \<in> set (nonEmpty (thread_refs req)) \<or> e_InReplyTo e \<in> set (nonEmpty (thread_refs req)) \<longrightarrow>
           e_SubmissionID e = r_SubmissionID r"
    and "message_id v req \<notin> e_DeterministicID ` set (db_emails (w_db w'))"
    and ing: "ingestEmail v req w' = (Inr res, w'')"
  shows "rs_SubmissionID res = r_SubmissionID r \<and> \<not> rs_IsDuplicate res"
proof -
  let ?w = "w'\<lparr>w_collector := Some []\<rparr>"
  obtain e where e: "e \<in> set (db_emails (w_db w'))" "e_MessageID e = i" "e_SubmissionID e = r_SubmissionID r"
    using sent_mail_stored [OF assms(1-4,9,6)] by blast
  have "db_wf (w_db ?w)" using db_steps_wf [OF deliver_frame(6) [OF assms(3)] assms(5)] by simp
  moreover have "i \<in> set (nonEmpty (thread_refs (stamped v req)))"
    using answer_refs [OF _ assms(8)] answers_in_reply_to [OF assms(10,11,7,8)] names [OF assms(6)] req by (simp add: thread_refs_def)
  ultimately obtain s w1 where s: "resolveSubmission v (stamped v req) (message_id v req) ?w = (Resolved s, w1)"
    "s_ID s = r_SubmissionID r" "e \<in> set (s_Emails s)"
    using resolve_thread [of ?w e "stamped v req" "message_id v req" v] e assms(13,14,1) by (auto simp: faultless_def thread_refs_def)
  have mail: "s_Emails s \<noteq> []" using s(3) by auto
  obtain r1 w2 where b: "ingest_body v (stamped v req) (message_id v req) ?w = (r1, w2)"
    by (cases "ingest_body v (stamped v req) (message_id v req) ?w")
  have "r1 = Inr res" using ing b by (simp add: ingestEmail_def ingestEmailInner_def message_id_def stamped_def split: if_splits)
  then show ?thesis using resolved_stays [OF s(1) mail] b s(2) by simp
qed

end

text \<open>The two senders of the program.\<close>

interpretation smtp_sender: naming_sender "smtp_send s oauth c rc" for s oauth c rc
  by unfold_locales (auto simp: smtp_send_def sendThreadedReply_def Let_def message_id_of_def map_sum_def split: sum.splits if_splits option.splits)

interpretation log_sender: naming_sender "log_send uuid" for uuid
  by unfold_locales (auto simp: log_send_def)

section \<open>The property\<close>

text \<open>The identifiers of the SMTP sender: a hexadecimal digest at the domain of the sender's address.\<close>

definition hex_digest :: "string \<Rightarrow> bool" where
  "hex_digest h \<longleftrightarrow> list_all (\<lambda>c. c \<in> set ''0123456789abcdef'') h"

definition plain_address :: "string \<Rightarrow> bool" where
  "plain_address a \<longleftrightarrow> list_all (\<lambda>c. c \<noteq> CHR ''<'' \<and> c \<noteq> CHR ''>'' \<and> \<not> is_space c) a"

lemma hex_plain: "hex_digest h \<Longrightarrow> plain_address h"
proof -
  have "plain_address ''0123456789abcdef''" by code_simp
  then show "hex_digest h \<Longrightarrow> plain_address h" unfolding hex_digest_def plain_address_def list_all_iff by blast
qed

lemma plain_address_parts [simp]:
  "plain_address (a @ b) \<longleftrightarrow> plain_address a \<and> plain_address b" "plain_address (CHR ''@'' # a) \<longleftrightarrow> plain_address a"
  "plain_address ''localhost''"
proof -
  have "plain_address ''@''" by code_simp
  then show "plain_address (CHR ''@'' # a) \<longleftrightarrow> plain_address a" by (simp add: plain_address_def)
  show "plain_address ''localhost''" by code_simp
qed (simp add: plain_address_def)

lemma plain_take: "plain_address a \<Longrightarrow> plain_address (take n a)" "plain_address a \<Longrightarrow> plain_address (drop n a)"
  using plain_address_parts(1) [of "take n a" "drop n a"] by simp_all

lemma plain_domain: "plain_address a \<Longrightarrow> plain_address (domainOf a)"
  by (simp add: domainOf_def plain_take split: option.split)

lemma plain_address_id:
  assumes "plain_address i" and "i \<noteq> []"
  shows "plain_id i" "trim_space i = i"
proof -
  show "plain_id i" using assms by (auto simp: plain_address_def plain_id_def list_all_iff)
  have "\<not> is_space (hd i)" "\<not> is_space (last i)" using assms by (simp_all add: plain_address_def list_all_iff)
  then have "dropWhile is_space i = i" "dropWhile is_space (rev i) = rev i"
    unfolding dropWhile_fixed_iff using assms(2) by (simp_all add: hd_rev)
  then show "trim_space i = i" by (simp add: trim_space_def trim_by_def)
qed

lemma smtp_send_id: "smtp_send s oauth c rc r = Inr i \<Longrightarrow> i = message_id_of (sn_smtp s) c r"
  by (auto simp: smtp_send_def sendThreadedReply_def Let_def map_sum_def split: if_splits option.splits sum.splits)


definition thread_env :: env where
  "thread_env = sample_env\<lparr>v_send := smtp_send (sample_send accepting) False sample_smtp (ac_Retry default_config)\<rparr>"

definition thread_reply :: reply where
  "thread_reply = o_Reply (sample_entry ''a'' ''s1'' ''please send loss runs'')"

definition thread_message :: mime_message where
  "thread_message = \<lparr>mm_header = (\<lambda>k. if k = ''In-Reply-To'' then ''<ab@x>'' else if k = ''Message-ID'' then ''<answer@broker>''
       else if k = ''From'' then ''diane@acme.com'' else if k = ''Subject'' then ''another subject'' else ''''),
     mm_raw = Some ''here you go'', mm_parts = []\<rparr>"

definition thread_translate :: translate_env where
  "thread_translate = \<lparr>te_parseAddress = (\<lambda>_. None), te_parseDate = (\<lambda>_. None), te_sha = (\<lambda>s. s), te_now = 95\<rparr>"

lemma thread_message_parsed:
  "case fromReader sample_eml_env (Some thread_message) of Inl _ \<Rightarrow> False
   | Inr p \<Rightarrow> (case deliver thread_env thread_reply ''s1'' outbox_world of (e, w') \<Rightarrow> e = None \<and>
      \<not> isl (fst (ingestEmail thread_env (translate thread_translate p ''imap'') w')) \<and> map e_SubmissionID (db_emails (w_db w')) = [''s1''] \<and>
      message_id thread_env (translate thread_translate p ''imap'') \<notin> set (map e_DeterministicID (db_emails (w_db w'))))"
  by code_simp


end
