(* ===== verification/Poller_Model.thy ===== *)
theory Poller_Model
  imports Translate_Model Config_Model
begin

text \<open>
  \<open>internal/delivery/imap/poller.go\<close>: what a poll does with each message it fetched, and the cycle around
  it. A connection is its answers: the unseen messages it fetches, the Message-IDs of a folder, and for every
  command whether the server refuses it; the commands it accepted are recorded in order. A fetched message is its
  UID and what \<open>mail.ReadMessage\<close> makes of its bytes. Panics do not occur in the model, and the recorded reason of a failure is without the context that wrapping adds. Whether the
  context has ended is asked before each message, as in the source.

  The lemmas show what becomes of a message and what the commands say about it: nothing is marked read that is
  neither stored nor given up, a message that cannot be ingested is given up after its attempts, and the messages of a
  batch do not interfere.
\<close>

section \<open>State\<close>

datatype mb_cmd = MarkSeen int | SetFlag int | FileInto int string

record mailbox =
  mbx_fetch :: "int \<Rightarrow> gotime \<Rightarrow> string + (int \<times> mime_message option) list"
  mbx_scan :: "string \<Rightarrow> int \<Rightarrow> string + string list"
  mbx_fault :: "mb_cmd \<Rightarrow> string option"
  mbx_uidValidity :: int

record status_folders =
  sf_complete :: string
  sf_awaiting :: string
  sf_escalated :: string
  sf_unknownPolicy :: string

record poller =
  pl_interval :: duration
  pl_timeout :: duration
  pl_batchLimit :: int
  pl_maxAttempts :: int
  pl_fileByStatus :: bool
  pl_folders :: status_folders
  pl_holdFolder :: string
  pl_holdScanLimit :: int
  pl_configuredCutoff :: gotime

record poll_state =
  ps_world :: world
  ps_control :: control
  ps_cmds :: "mb_cmd list"
  ps_lastPoll :: int
  ps_failures :: int

text \<open>What one message meets: the service's environment, the parsers, and faults of the control tables.\<close>

record message_env =
  me_env :: env
  me_eml :: eml_env
  me_translate :: translate_env
  me_recordFault :: "error option"
  me_clearFault :: "error option"

definition defaultBatchLimit :: int where "defaultBatchLimit = 50"

definition newPoller :: "(string \<Rightarrow> gotime option) \<Rightarrow> imap_config \<Rightarrow> poller" where
  "newPoller parse c =
     \<lparr>pl_interval = pollInterval c, pl_timeout = pollTimeout c, pl_batchLimit = defaultBatchLimit, pl_maxAttempts = imap_PollMaxAttempts c,
      pl_fileByStatus = imap_FileByStatus c,
      pl_folders = \<lparr>sf_complete = imap_FolderComplete c, sf_awaiting = imap_FolderAwaiting c, sf_escalated = imap_FolderEscalated c,
                    sf_unknownPolicy = imap_FolderUnknownPolicy c\<rparr>,
      pl_holdFolder = imap_FolderHold c, pl_holdScanLimit = imap_HoldScanLimit c,
      pl_configuredCutoff = (case ignoreBeforeTime parse c of Inr (Some t) \<Rightarrow> t | _ \<Rightarrow> zero_time)\<rparr>"

section \<open>One message\<close>

definition run_cmd :: "mailbox \<Rightarrow> mb_cmd \<Rightarrow> poll_state \<Rightarrow> string option \<times> poll_state" where
  "run_cmd mb c st = (case mbx_fault mb c of
       Some e \<Rightarrow> (Some e, st)
     | None \<Rightarrow> (None, st\<lparr>ps_cmds := ps_cmds st @ [c]\<rparr>))"

definition folderFor :: "poller \<Rightarrow> ingest_result \<Rightarrow> string" where
  "folderFor pl res =
     (if \<not> pl_fileByStatus pl then ''''
      else if rs_PolicyUnknown res then sf_unknownPolicy (pl_folders pl)
      else case rs_State res of
        StateComplete \<Rightarrow> sf_complete (pl_folders pl)
      | StateAwaiting \<Rightarrow> sf_awaiting (pl_folders pl)
      | StateEscalated \<Rightarrow> sf_escalated (pl_folders pl)
      | _ \<Rightarrow> '''')"

definition handleIngestFailure :: "message_env \<Rightarrow> poller \<Rightarrow> mailbox \<Rightarrow> int \<Rightarrow> error \<Rightarrow> poll_state \<Rightarrow> poll_state" where
  "handleIngestFailure v pl mb uid e st =
     (if e = ErrInvalidTransition then snd (run_cmd mb (MarkSeen uid) st)
      else case me_recordFault v of
        Some _ \<Rightarrow> st
      | None \<Rightarrow>
          (let (attempts, ctl) = recordFailure (mbx_uidValidity mb) uid (error_str e) (v_now (me_env v)) (ps_control st);
               st1 = st\<lparr>ps_control := ctl\<rparr>
           in if 0 < pl_maxAttempts pl \<and> pl_maxAttempts pl \<le> attempts then snd (run_cmd mb (MarkSeen uid) st1) else st1))"

definition file_message :: "message_env \<Rightarrow> poller \<Rightarrow> mailbox \<Rightarrow> int \<Rightarrow> ingest_result \<Rightarrow> poll_state \<Rightarrow> poll_state" where
  "file_message v pl mb uid res st =
     (let folder = folderFor pl res in
      if folder = '''' \<or> rs_IsDuplicate res then st
      else case run_cmd mb (FileInto uid folder) st of
        (None, st1) \<Rightarrow> st1
      | (Some e, st1) \<Rightarrow> st1\<lparr>ps_world := auditFileFailed (me_env v) (rs_SubmissionID res) folder e (ps_world st1)\<rparr>)"

definition settle_message :: "message_env \<Rightarrow> poller \<Rightarrow> mailbox \<Rightarrow> int \<Rightarrow> ingest_result \<Rightarrow> poll_state \<Rightarrow> poll_state" where
  "settle_message v pl mb uid res st =
     (case run_cmd mb (MarkSeen uid) st of
        (Some _, st1) \<Rightarrow> st1
      | (None, st1) \<Rightarrow>
          (let st2 = (if me_clearFault v = None then st1\<lparr>ps_control := clearFailure (mbx_uidValidity mb) uid (ps_control st1)\<rparr> else st1);
               st3 = (if rs_NeedsReview res then snd (run_cmd mb (SetFlag uid) st2) else st2)
           in file_message v pl mb uid res st3))"

definition process :: "message_env \<Rightarrow> poller \<Rightarrow> mailbox \<Rightarrow> int \<times> mime_message option \<Rightarrow> poll_state \<Rightarrow> poll_state" where
  "process v pl mb m st =
     (case fromReader (me_eml v) (snd m) of
        Inl _ \<Rightarrow> snd (run_cmd mb (MarkSeen (fst m)) st)
      | Inr p \<Rightarrow> (case ingestEmail (me_env v) (translate (me_translate v) p ''imap'') (ps_world st) of
          (Inl e, w) \<Rightarrow> handleIngestFailure v pl mb (fst m) e (st\<lparr>ps_world := w\<rparr>)
        | (Inr res, w) \<Rightarrow> settle_message v pl mb (fst m) res (st\<lparr>ps_world := w\<rparr>)))"

section \<open>The cycle\<close>

text \<open>The messages of a batch until the context ends; \<open>False\<close> when it did.\<close>

fun process_batch :: "(nat \<Rightarrow> message_env) \<Rightarrow> (nat \<Rightarrow> bool) \<Rightarrow> poller \<Rightarrow> mailbox \<Rightarrow> nat \<Rightarrow> (int \<times> mime_message option) list \<Rightarrow> poll_state \<Rightarrow> bool \<times> poll_state" where
  "process_batch vs live pl mb i [] st = (True, st)"
| "process_batch vs live pl mb i (m # ms) st =
     (if \<not> live i then (False, st) else process_batch vs live pl mb (Suc i) ms (process (vs i) pl mb m st))"

definition poller_reconcileHold :: "env \<Rightarrow> bool \<Rightarrow> poller \<Rightarrow> mailbox \<Rightarrow> poll_state \<Rightarrow> poll_state" where
  "poller_reconcileHold v live pl mb st =
     (if pl_holdFolder pl = '''' \<or> \<not> live then st
      else case mbx_scan mb (pl_holdFolder pl) (pl_holdScanLimit pl) of
        Inl _ \<Rightarrow> st
      | Inr ids \<Rightarrow> st\<lparr>ps_world := snd (reconcileHold v ids (ps_world st))\<rparr>)"

text \<open>What one poll meets: the environments of its messages, the liveness of the context, the clock and the connection.\<close>

record poll_env =
  pe_messages :: "nat \<Rightarrow> message_env"
  pe_live :: "nat \<Rightarrow> bool"
  pe_liveStart :: bool
  pe_liveHold :: bool
  pe_hold :: env
  pe_now :: gotime
  pe_dial :: "string + mailbox"

definition recordSuccess :: "gotime \<Rightarrow> poll_state \<Rightarrow> poll_state" where
  "recordSuccess now st = st\<lparr>ps_lastPoll := unix_nano now, ps_failures := 0\<rparr>"

definition poll_recordFailure :: "poll_state \<Rightarrow> poll_state" where
  "poll_recordFailure st = st\<lparr>ps_failures := int64 (ps_failures st + 1)\<rparr>"

definition pollOnce :: "poll_env \<Rightarrow> poller \<Rightarrow> gotime \<Rightarrow> poll_state \<Rightarrow> poll_state" where
  "pollOnce e pl cutoff st =
     (if \<not> pe_liveStart e then st
      else case pe_dial e of
        Inl _ \<Rightarrow> poll_recordFailure st
      | Inr mb \<Rightarrow> (case mbx_fetch mb (pl_batchLimit pl) cutoff of
          Inl _ \<Rightarrow> poll_recordFailure st
        | Inr msgs \<Rightarrow>
            (let (finished, st1) = process_batch (pe_messages e) (pe_live e) pl mb 0 msgs (recordSuccess (pe_now e) st)
             in if \<not> finished then st1 else poller_reconcileHold (pe_hold e) (pe_liveHold e) pl mb st1)))"

text \<open>\<open>fault\<close> is an error of the first-boot query other than an unparseable value.\<close>

definition resolveCutoff :: "timefmt \<Rightarrow> gotime \<Rightarrow> error option \<Rightarrow> poller \<Rightarrow> control \<Rightarrow> gotime \<times> control" where
  "resolveCutoff tf now fault pl c =
     (if \<not> is_zero_time (pl_configuredCutoff pl) then (pl_configuredCutoff pl, c)
      else case fault of
        Some _ \<Rightarrow> (zero_time, c)
      | None \<Rightarrow> (case firstBootAt tf now c of Inl _ \<Rightarrow> (zero_time, c) | Inr (t, c') \<Rightarrow> (t, c')))"

text \<open>The poller resolves its cutoff once, polls at startup and then at every tick.\<close>

definition poller_Run :: "timefmt \<Rightarrow> gotime \<Rightarrow> error option \<Rightarrow> poller \<Rightarrow> poll_env \<Rightarrow> poll_env list \<Rightarrow> poll_state \<Rightarrow> poll_state" where
  "poller_Run tf now fault pl start ticks st =
     (let (cutoff, ctl) = resolveCutoff tf now fault pl (ps_control st)
      in fold (\<lambda>e. pollOnce e pl cutoff) (start # ticks) (st\<lparr>ps_control := ctl\<rparr>))"

section \<open>What becomes of a message\<close>

lemma run_cmd_simps [simp]:
  "ps_world (snd (run_cmd mb c st)) = ps_world st" "ps_control (snd (run_cmd mb c st)) = ps_control st"
  "ps_cmds (snd (run_cmd mb c st)) = ps_cmds st @ (if mbx_fault mb c = None then [c] else [])"
  "fst (run_cmd mb c st) = mbx_fault mb c"
  by (simp_all add: run_cmd_def split: option.split)

lemma run_cmd_cases: "run_cmd mb c st = (mbx_fault mb c, snd (run_cmd mb c st))"
  by (metis prod.collapse run_cmd_simps(4))

lemma auditFileFailed_db [simp]: "w_db (auditFileFailed v sid f r w) = w_db w"
  using same_core_audit [of w v sid] by (simp add: auditFileFailed_def same_core_def)

lemma file_message_effect:
  "ps_cmds (file_message v pl mb uid res st) = ps_cmds st @
     (if folderFor pl res \<noteq> '''' \<and> \<not> rs_IsDuplicate res \<and> mbx_fault mb (FileInto uid (folderFor pl res)) = None
      then [FileInto uid (folderFor pl res)] else [])"
  "w_db (ps_world (file_message v pl mb uid res st)) = w_db (ps_world st)"
  "ps_control (file_message v pl mb uid res st) = ps_control st"
  by (auto simp: file_message_def Let_def run_cmd_def split: option.splits)

text \<open>The commands that settle an ingested message, in their order.\<close>

definition settling :: "poller \<Rightarrow> mailbox \<Rightarrow> int \<Rightarrow> ingest_result \<Rightarrow> mb_cmd list" where
  "settling pl mb uid res =
     filter (\<lambda>c. mbx_fault mb c = None)
       ([MarkSeen uid] @ (if rs_NeedsReview res then [SetFlag uid] else []) @
        (if folderFor pl res \<noteq> '''' \<and> \<not> rs_IsDuplicate res then [FileInto uid (folderFor pl res)] else []))"

lemma settle_message_effect:
  "ps_cmds (settle_message v pl mb uid res st) = ps_cmds st @ (if mbx_fault mb (MarkSeen uid) = None then settling pl mb uid res else [])"
  "w_db (ps_world (settle_message v pl mb uid res st)) = w_db (ps_world st)"
  by (subst settle_message_def, subst run_cmd_cases,
      auto simp: Let_def file_message_effect settling_def split: option.split)+

lemma handleIngestFailure_effect:
  "ps_world (handleIngestFailure v pl mb uid e st) = ps_world st"
  "me_recordFault v = None \<Longrightarrow> e \<noteq> ErrInvalidTransition \<Longrightarrow>
     failures (ps_control (handleIngestFailure v pl mb uid e st)) (mbx_uidValidity mb, uid) = failures (ps_control st) (mbx_uidValidity mb, uid) + 1"
  "ps_cmds (handleIngestFailure v pl mb uid e st) = ps_cmds st @
     (if mbx_fault mb (MarkSeen uid) = None \<and> (e = ErrInvalidTransition \<or> (me_recordFault v = None \<and> 0 < pl_maxAttempts pl \<and>
         pl_maxAttempts pl \<le> failures (ps_control st) (mbx_uidValidity mb, uid) + 1)) then [MarkSeen uid] else [])"
  using recordFailure_counts [of "mbx_uidValidity mb" uid "error_str e" "v_now (me_env v)" "ps_control st"]
  by (auto simp: handleIngestFailure_def Let_def split: option.splits prod.splits)


text \<open>A run for the witnesses: the first poll of an empty mailbox state with the sample services.\<close>

definition sample_message_env :: message_env where
  "sample_message_env = \<lparr>me_env = sample_env, me_eml = sample_eml_env,
     me_translate = \<lparr>te_parseAddress = (\<lambda>a. Some (a, '''')), te_parseDate = (\<lambda>_. None), te_sha = (\<lambda>s. s), te_now = 100\<rparr>,
     me_recordFault = None, me_clearFault = None\<rparr>"

definition sample_poller :: poller where
  "sample_poller = newPoller (\<lambda>_. None) (ac_IMAP default_config)"

definition sample_mailbox :: mailbox where
  "sample_mailbox = \<lparr>mbx_fetch = (\<lambda>_ _. Inr []), mbx_scan = (\<lambda>_ _. Inr []), mbx_fault = (\<lambda>_. None), mbx_uidValidity = 1\<rparr>"

definition start_state :: poll_state where
  "start_state = \<lparr>ps_world = empty_world, ps_control = empty_control, ps_cmds = [], ps_lastPoll = 0, ps_failures = 0\<rparr>"

lemma sample_process:
  "ps_cmds (process sample_message_env sample_poller sample_mailbox (7, Some sample_message) start_state) =
     [MarkSeen 7, FileInto 7 ''Unknown Policy'']"
  "\<not> isl (fromReader (me_eml sample_message_env) (Some sample_message))"
  by code_simp+

lemma sample_ingested:
  "case fromReader (me_eml sample_message_env) (Some sample_message) of Inl _ \<Rightarrow> False
   | Inr p \<Rightarrow> \<not> isl (fst (ingestEmail (me_env sample_message_env) (translate (me_translate sample_message_env) p ''imap'') (ps_world start_state)))"
  by code_simp


section \<open>A message that cannot be ingested\<close>

lemma ingest_failure_db:
  assumes "ingestEmail v req w = (Inl e, w')"
  shows "w_db w' = w_db w"
proof -
  obtain w1 where o: "outcome v (stamped v req) (message_id v req) (w\<lparr>w_collector := Some []\<rparr>) (Inl e) w1"
    and c: "same_core w1 w'" by (rule ingestEmail_outcome [OF assms])
  from o show ?thesis
  proof cases
    case failed
    then show ?thesis using c by (simp add: same_core_def)
  qed
qed

text \<open>The message parses, but whatever the database holds its ingest fails, and not for its submission's state.\<close>

definition rejects :: "int \<times> mime_message option \<Rightarrow> message_env \<Rightarrow> bool" where
  "rejects m v \<longleftrightarrow> me_recordFault v = None \<and>
     (\<exists>p. fromReader (me_eml v) (snd m) = Inr p \<and>
        (\<forall>w. \<exists>e w'. ingestEmail (me_env v) (translate (me_translate v) p ''imap'') w = (Inl e, w') \<and> e \<noteq> ErrInvalidTransition))"

lemma process_rejected:
  assumes "rejects m v" and "mbx_fault mb (MarkSeen (fst m)) = None" and "0 < pl_maxAttempts pl"
  shows "failures (ps_control (process v pl mb m st)) (mbx_uidValidity mb, fst m) = failures (ps_control st) (mbx_uidValidity mb, fst m) + 1"
    and "ps_cmds (process v pl mb m st) = ps_cmds st @
      (if pl_maxAttempts pl \<le> failures (ps_control st) (mbx_uidValidity mb, fst m) + 1 then [MarkSeen (fst m)] else [])"
    and "w_db (ps_world (process v pl mb m st)) = w_db (ps_world st)"
proof -
  obtain p where p: "fromReader (me_eml v) (snd m) = Inr p"
    and all: "\<forall>w. \<exists>e w'. ingestEmail (me_env v) (translate (me_translate v) p ''imap'') w = (Inl e, w') \<and> e \<noteq> ErrInvalidTransition"
    using assms(1) by (auto simp: rejects_def)
  obtain e w' where i: "ingestEmail (me_env v) (translate (me_translate v) p ''imap'') (ps_world st) = (Inl e, w')" and e: "e \<noteq> ErrInvalidTransition"
    using all by blast
  have r: "me_recordFault v = None" using assms(1) by (simp add: rejects_def)
  have pr: "process v pl mb m st = handleIngestFailure v pl mb (fst m) e (st\<lparr>ps_world := w'\<rparr>)" using p i by (simp add: process_def)
  show "failures (ps_control (process v pl mb m st)) (mbx_uidValidity mb, fst m) = failures (ps_control st) (mbx_uidValidity mb, fst m) + 1"
    unfolding pr using handleIngestFailure_effect(2) [OF r e] by simp
  show "ps_cmds (process v pl mb m st) = ps_cmds st @
      (if pl_maxAttempts pl \<le> failures (ps_control st) (mbx_uidValidity mb, fst m) + 1 then [MarkSeen (fst m)] else [])"
    unfolding pr using handleIngestFailure_effect(3) assms(2,3) r e by simp
  show "w_db (ps_world (process v pl mb m st)) = w_db (ps_world st)"
    unfolding pr using handleIngestFailure_effect(1) ingest_failure_db [OF i] by simp
qed

text \<open>
  C17. A poisoned message cannot block the mailbox: processed again and again with its ingest failing, it is left
  unread while it has failed fewer times than the limit, and marked read at the first poll that reaches it. The
  database is never changed by the attempts.
\<close>

theorem poisoned_message_quarantined:
  assumes "\<forall>v\<in>set vs. rejects m v" and "mbx_fault mb (MarkSeen (fst m)) = None" and "0 < pl_maxAttempts pl"
    and "failures (ps_control st) (mbx_uidValidity mb, fst m) = 0"
  shows "ps_cmds (fold (\<lambda>v. process v pl mb m) vs st) =
      ps_cmds st @ replicate (Suc (length vs) - nat (pl_maxAttempts pl)) (MarkSeen (fst m)) \<and>
    w_db (ps_world (fold (\<lambda>v. process v pl mb m) vs st)) = w_db (ps_world st)"
proof -
  have "failures (ps_control (fold (\<lambda>v. process v pl mb m) vs st)) (mbx_uidValidity mb, fst m) = int (length vs) \<and>
      ps_cmds (fold (\<lambda>v. process v pl mb m) vs st) = ps_cmds st @ replicate (Suc (length vs) - nat (pl_maxAttempts pl)) (MarkSeen (fst m)) \<and>
      w_db (ps_world (fold (\<lambda>v. process v pl mb m) vs st)) = w_db (ps_world st)"
    using assms(1)
  proof (induction vs rule: rev_induct)
    case Nil
    have "Suc 0 - nat (pl_maxAttempts pl) = 0" using assms(3) by simp
    then show ?case using assms(4) by simp
  next
    case (snoc v vs)
    note step = process_rejected [of m v mb pl "fold (\<lambda>v. process v pl mb m) vs st", OF _ assms(2,3)]
    have reached: "pl_maxAttempts pl \<le> int (length vs) + 1 \<Longrightarrow>
        Suc (Suc (length vs)) - nat (pl_maxAttempts pl) = Suc (Suc (length vs) - nat (pl_maxAttempts pl))" by linarith
    have below: "\<not> pl_maxAttempts pl \<le> int (length vs) + 1 \<Longrightarrow> Suc (Suc (length vs)) - nat (pl_maxAttempts pl) = 0" by linarith
    have before: "\<not> pl_maxAttempts pl \<le> int (length vs) + 1 \<Longrightarrow> Suc (length vs) - nat (pl_maxAttempts pl) = 0" by linarith
    show ?case using snoc step reached below before
      by (cases "pl_maxAttempts pl \<le> int (length vs) + 1") (auto simp: replicate_append_same)
  qed
  then show ?thesis by simp
qed

definition broken_env :: message_env where
  "broken_env = sample_message_env\<lparr>me_env := sample_env\<lparr>v_fault := (\<lambda>op' _. if op' = OpFindByReference then Some (ErrOther ''disk'') else None)\<rparr>\<rparr>"

lemma broken_env_rejects: "rejects (7, Some sample_message) broken_env"
proof -
  obtain p where p: "fromReader sample_eml_env (Some sample_message) = Inr p"
    using sample_ingested by (auto simp: sample_message_env_def split: sum.splits)
  have "fst (ingestEmail (me_env broken_env) req w) = Inl (ErrOther ''disk'')" for req w
    by (simp add: broken_env_def ingestEmail_def Let_def ingestEmailInner_def ingest_body_def resolveSubmission_def repo_find_reference_def)
  then have "\<forall>req w. \<exists>e w'. ingestEmail (me_env broken_env) req w = (Inl e, w') \<and> e \<noteq> ErrInvalidTransition"
    by (metis error.distinct(7) eq_fst_iff)
  then show ?thesis using p by (simp add: rejects_def) (simp add: broken_env_def sample_message_env_def)
qed

theorem poisoned_message_quarantined_witness:
  "ps_cmds (fold (\<lambda>v. process v sample_poller sample_mailbox (7, Some sample_message)) (replicate 4 broken_env) start_state) = [] \<and>
   ps_cmds (fold (\<lambda>v. process v sample_poller sample_mailbox (7, Some sample_message)) (replicate 5 broken_env) start_state) = [MarkSeen 7]"
proof -
  have max: "pl_maxAttempts sample_poller = 5" by code_simp
  have ok: "mbx_fault sample_mailbox (MarkSeen (fst (7, Some sample_message))) = None" "0 < pl_maxAttempts sample_poller"
    "failures (ps_control start_state) (mbx_uidValidity sample_mailbox, fst (7, Some sample_message)) = 0" "ps_cmds start_state = []"
    by code_simp+
  have "\<forall>v\<in>set (replicate n broken_env). rejects (7, Some sample_message) v" for n using broken_env_rejects by simp
  from poisoned_message_quarantined [OF this ok(1-3), of 4] poisoned_message_quarantined [OF this ok(1-3), of 5] show ?thesis
    unfolding max ok(4) by simp
qed

section \<open>The messages of a batch\<close>

primrec cmd_uid :: "mb_cmd \<Rightarrow> int" where
  "cmd_uid (MarkSeen u) = u"
| "cmd_uid (SetFlag u) = u"
| "cmd_uid (FileInto u f) = u"

text \<open>
  What a poll owes a message that has failed \<open>n\<close> times before and is ingested in the world \<open>w\<close>: the commands \<open>cs\<close> issued
  for it, the failures \<open>n'\<close> it has afterwards, and the mail \<open>es\<close> stored in the end.
  A message that cannot be parsed is marked read. An accepted one is stored, marked read, flagged and filed by its result, and its
  failures are forgotten. One whose submission excludes it is marked read. Any other failure counts once, and the
  message is marked read only when that makes the limit. A command the server refuses is not issued, and without
  the mark nothing else happens to the message.
\<close>

definition message_fate :: "message_env \<Rightarrow> poller \<Rightarrow> mailbox \<Rightarrow> int \<times> mime_message option \<Rightarrow> world \<Rightarrow> int \<Rightarrow> mb_cmd list \<Rightarrow> int \<Rightarrow> email list \<Rightarrow> bool" where
  "message_fate v pl mb m w n cs n' es \<longleftrightarrow>
     (let markable = (mbx_fault mb (MarkSeen (fst m)) = None) in
      case fromReader (me_eml v) (snd m) of
        Inl _ \<Rightarrow> cs = (if markable then [MarkSeen (fst m)] else []) \<and> n' = n
      | Inr p \<Rightarrow> (case fst (ingestEmail (me_env v) (translate (me_translate v) p ''imap'') w) of
          Inr res \<Rightarrow> message_id (me_env v) (translate (me_translate v) p ''imap'') \<in> e_DeterministicID ` set es \<and>
            cs = (if markable then settling pl mb (fst m) res else []) \<and>
            n' = (if markable \<and> me_clearFault v = None then 0 else n)
        | Inl err \<Rightarrow>
            (let counted = (err \<noteq> ErrInvalidTransition \<and> me_recordFault v = None) in
             n' = (if counted then n + 1 else n) \<and>
             cs = (if markable \<and> (err = ErrInvalidTransition \<or> (counted \<and> 0 < pl_maxAttempts pl \<and> pl_maxAttempts pl \<le> n')) then [MarkSeen (fst m)] else []))))"

lemma message_fate_more:
  assumes "message_fate v pl mb m w n cs n' es" and "set es \<subseteq> set es'"
  shows "message_fate v pl mb m w n cs n' es'"
proof -
  have "i \<in> e_DeterministicID ` set es \<Longrightarrow> i \<in> e_DeterministicID ` set es'" for i using assms(2) by blast
  then show ?thesis using assms(1) unfolding message_fate_def Let_def
    by (cases "fromReader (me_eml v) (snd m)"; cases "fst (ingestEmail (me_env v) (translate (me_translate v) (projr (fromReader (me_eml v) (snd m))) ''imap'') w)")
      simp_all
qed

lemma settling_own: "c \<in> set (settling pl mb uid res) \<Longrightarrow> cmd_uid c = uid"
  by (auto simp: settling_def split: if_splits)

lemma settle_message_failures:
  "failures (ps_control (settle_message v pl mb uid res st)) k =
     (if k = (mbx_uidValidity mb, uid) \<and> mbx_fault mb (MarkSeen uid) = None \<and> me_clearFault v = None then 0 else failures (ps_control st) k)"
  by (subst settle_message_def, subst run_cmd_cases)
    (auto simp: Let_def file_message_effect clearFailure_counts split: option.split)

lemma handleIngestFailure_failures:
  "failures (ps_control (handleIngestFailure v pl mb uid e st)) k =
     (if k = (mbx_uidValidity mb, uid) \<and> e \<noteq> ErrInvalidTransition \<and> me_recordFault v = None then failures (ps_control st) k + 1 else failures (ps_control st) k)"
  using recordFailure_counts [of "mbx_uidValidity mb" uid "error_str e" "v_now (me_env v)" "ps_control st"]
  by (cases k) (auto simp: handleIngestFailure_def Let_def split: option.splits prod.splits)

text \<open>One message meets its fate, and the commands and failures of the others are left alone.\<close>

lemma process_fate:
  obtains cs where "ps_cmds (process v pl mb m st) = ps_cmds st @ cs" "\<forall>c\<in>set cs. cmd_uid c = fst m"
    "message_fate v pl mb m (ps_world st) (failures (ps_control st) (mbx_uidValidity mb, fst m)) cs
       (failures (ps_control (process v pl mb m st)) (mbx_uidValidity mb, fst m)) (db_emails (w_db (ps_world (process v pl mb m st))))"
    "\<forall>k. k \<noteq> (mbx_uidValidity mb, fst m) \<longrightarrow> failures (ps_control (process v pl mb m st)) k = failures (ps_control st) k"
proof (cases "fromReader (me_eml v) (snd m)")
  case (Inl e)
  then show ?thesis
    by (intro that [of "if mbx_fault mb (MarkSeen (fst m)) = None then [MarkSeen (fst m)] else []"]) (simp_all add: process_def message_fate_def)
next
  case (Inr p)
  let ?req = "translate (me_translate v) p ''imap''"
  note parsed = Inr
  obtain r w where i: "ingestEmail (me_env v) ?req (ps_world st) = (r, w)" by (cases "ingestEmail (me_env v) ?req (ps_world st)")
  show ?thesis
  proof (cases r)
    case (Inl e)
    then have pr: "process v pl mb m st = handleIngestFailure v pl mb (fst m) e (st\<lparr>ps_world := w\<rparr>)" using parsed i by (simp add: process_def)
    note cmds = handleIngestFailure_effect(3) [of v pl mb "fst m" e "st\<lparr>ps_world := w\<rparr>", folded pr, simplified]
    show ?thesis
      by (rule that [OF cmds])
        (use parsed i Inl in \<open>auto simp: pr handleIngestFailure_failures message_fate_def Let_def\<close>)
  next
    case (Inr res)
    then have pr: "process v pl mb m st = settle_message v pl mb (fst m) res (st\<lparr>ps_world := w\<rparr>)" using parsed i by (simp add: process_def)
    have stored: "message_id (me_env v) ?req \<in> e_DeterministicID ` set (db_emails (w_db w))" using ingest_mail_stored i Inr by blast
    note cmds = settle_message_effect(1) [of v pl mb "fst m" res "st\<lparr>ps_world := w\<rparr>", folded pr, simplified]
    show ?thesis
      by (rule that [OF cmds])
        (use parsed i Inr stored in \<open>auto simp: pr settle_message_failures settle_message_effect(2) message_fate_def Let_def dest: settling_own\<close>)
  qed
qed

lemma process_batch_append:
  assumes "\<forall>k<length xs. live (j + k)"
  shows "process_batch vs live pl mb j (xs @ ys) st = process_batch vs live pl mb (j + length xs) ys (snd (process_batch vs live pl mb j xs st))"
  using assms
proof (induction xs arbitrary: j st)
  case (Cons x xs)
  have "live j" "\<forall>k<length xs. live (Suc j + k)" using Cons.prems by (force dest: spec [of _ 0], auto dest: spec [of _ "Suc _"])
  then show ?case using Cons.IH [of "Suc j"] by simp
qed simp

lemma process_batch_finished: "\<forall>k<length ms. live (j + k) \<Longrightarrow> fst (process_batch vs live pl mb j ms st)"
proof (induction ms arbitrary: j st)
  case (Cons m ms)
  have "live j" "\<forall>k<length ms. live (Suc j + k)" using Cons.prems by (force dest: spec [of _ 0], auto dest: spec [of _ "Suc _"])
  then show ?case using Cons.IH [of "Suc j"] by simp
qed simp

lemma process_batch_others:
  assumes "uid \<notin> fst ` set ms"
  obtains cs where "ps_cmds (snd (process_batch vs live pl mb j ms st)) = ps_cmds st @ cs" "filter (\<lambda>c. cmd_uid c = uid) cs = []"
    "failures (ps_control (snd (process_batch vs live pl mb j ms st))) (mbx_uidValidity mb, uid) = failures (ps_control st) (mbx_uidValidity mb, uid)"
proof -
  have "\<exists>cs. ps_cmds (snd (process_batch vs live pl mb j ms st)) = ps_cmds st @ cs \<and> filter (\<lambda>c. cmd_uid c = uid) cs = [] \<and>
    failures (ps_control (snd (process_batch vs live pl mb j ms st))) (mbx_uidValidity mb, uid) = failures (ps_control st) (mbx_uidValidity mb, uid)"
    using assms
  proof (induction ms arbitrary: j st)
    case (Cons m ms)
    obtain c1 where c1: "ps_cmds (process (vs j) pl mb m st) = ps_cmds st @ c1" "\<forall>c\<in>set c1. cmd_uid c = fst m"
      "\<forall>k. k \<noteq> (mbx_uidValidity mb, fst m) \<longrightarrow> failures (ps_control (process (vs j) pl mb m st)) k = failures (ps_control st) k"
      by (rule process_fate [of "vs j" pl mb m st])
    have "filter (\<lambda>c. cmd_uid c = uid) c1 = []" using c1(2) Cons.prems by (auto simp: filter_empty_conv)
    moreover have "(mbx_uidValidity mb, uid) \<noteq> (mbx_uidValidity mb, fst m)" "uid \<notin> fst ` set ms" using Cons.prems by auto
    ultimately show ?case using Cons.IH [of "Suc j" "process (vs j) pl mb m st"] c1(1,3) by auto
  qed simp
  then show ?thesis using that by blast
qed

lemma process_batch_cmds:
  obtains cs where "ps_cmds (snd (process_batch vs live pl mb j ms st)) = ps_cmds st @ cs" "\<forall>c\<in>set cs. cmd_uid c \<in> fst ` set ms"
proof -
  have "\<exists>cs. ps_cmds (snd (process_batch vs live pl mb j ms st)) = ps_cmds st @ cs \<and> (\<forall>c\<in>set cs. cmd_uid c \<in> fst ` set ms)"
  proof (induction ms arbitrary: j st)
    case (Cons m ms)
    obtain c1 where "ps_cmds (process (vs j) pl mb m st) = ps_cmds st @ c1" "\<forall>c\<in>set c1. cmd_uid c = fst m"
      by (rule process_fate [of "vs j" pl mb m st])
    then show ?case using Cons.IH [of "Suc j" "process (vs j) pl mb m st"] by fastforce
  qed simp
  then show ?thesis using that by blast
qed

text \<open>In a batch of distinct messages that is worked through, each meets its fate in the world its predecessors left.\<close>

lemma process_batch_fate:
  assumes "\<forall>k<length ms. live k" and "distinct (map fst ms)" and "i < length ms"
    and "ps_cmds (snd (process_batch vs live pl mb 0 ms st)) = ps_cmds st @ cs"
  defines "here \<equiv> snd (process_batch vs live pl mb 0 (take i ms) st)" and "key \<equiv> (mbx_uidValidity mb, fst (ms ! i))"
  shows "message_fate (vs i) pl mb (ms ! i) (ps_world here) (failures (ps_control st) key) (filter (\<lambda>c. cmd_uid c = fst (ms ! i)) cs)
      (failures (ps_control (snd (process_batch vs live pl mb 0 ms st))) key) (db_emails (w_db (ps_world (process (vs i) pl mb (ms ! i) here))))"
    and "process_batch vs live pl mb 0 ms st = process_batch vs live pl mb (Suc i) (drop (Suc i) ms) (process (vs i) pl mb (ms ! i) here)"
proof -
  let ?m = "ms ! i" and ?next = "process (vs i) pl mb (ms ! i) here"
  have split: "ms = take i ms @ ?m # drop (Suc i) ms" using assms(3) by (rule id_take_nth_drop)
  have "distinct (map fst (take i ms @ ?m # drop (Suc i) ms))" using assms(2) split by simp
  then have fresh: "fst ?m \<notin> fst ` set (take i ms)" "fst ?m \<notin> fst ` set (drop (Suc i) ms)" by auto
  have "\<forall>k<length (take i ms). live (0 + k)" using assms(1) by simp
  from process_batch_append [OF this, of vs pl mb "?m # drop (Suc i) ms" st]
  show whole: "process_batch vs live pl mb 0 ms st = process_batch vs live pl mb (Suc i) (drop (Suc i) ms) ?next"
    using assms(1,3) by (simp add: here_def flip: split)
  obtain c1 where c1: "ps_cmds here = ps_cmds st @ c1" "filter (\<lambda>c. cmd_uid c = fst ?m) c1 = []"
    "failures (ps_control here) key = failures (ps_control st) key"
    unfolding here_def key_def by (rule process_batch_others [OF fresh(1)])
  obtain c2 where c2: "ps_cmds ?next = ps_cmds here @ c2" "\<forall>c\<in>set c2. cmd_uid c = fst ?m"
    "message_fate (vs i) pl mb ?m (ps_world here) (failures (ps_control here) key) c2 (failures (ps_control ?next) key) (db_emails (w_db (ps_world ?next)))"
    unfolding key_def by (rule process_fate [of "vs i" pl mb ?m here])
  obtain c3 where c3: "ps_cmds (snd (process_batch vs live pl mb 0 ms st)) = ps_cmds ?next @ c3" "filter (\<lambda>c. cmd_uid c = fst ?m) c3 = []"
    "failures (ps_control (snd (process_batch vs live pl mb 0 ms st))) key = failures (ps_control ?next) key"
    unfolding whole key_def by (rule process_batch_others [OF fresh(2)])
  have "cs = c1 @ c2 @ c3" using assms(4) c1(1) c2(1) c3(1) by simp
  then have "filter (\<lambda>c. cmd_uid c = fst ?m) cs = c2" using c1(2) c2(2) c3(2) by (simp add: filter_id_conv)
  then show "message_fate (vs i) pl mb ?m (ps_world here) (failures (ps_control st) key) (filter (\<lambda>c. cmd_uid c = fst ?m) cs)
      (failures (ps_control (snd (process_batch vs live pl mb 0 ms st))) key) (db_emails (w_db (ps_world ?next)))"
    using c1(3) c2(3) c3(3) by simp
qed

end
