(* ===== verification/Platform_Model.thy ===== *)
theory Platform_Model
  imports Poller_Model Smtp_Model
begin

text \<open>
  The service's surroundings: the health endpoint and the HTTP middleware (\<open>internal/delivery/http\<close>), and the token
  source of the mail protocols (\<open>internal/infrastructure/oauth/oauth.go\<close>, \<open>internal/delivery/imap/auth.go\<close>,
  \<open>authFailureAuditor\<close> of \<open>internal/app/build.go\<close>). The oauth2 library's answer to a token request, the
  database ping and the formatting of a time are parameters.

  The lemmas say when the service reports itself healthy, what a panicking handler answers, and which
  token failures end a send at once.
\<close>

section \<open>Health\<close>

record health_handler =
  hh_ping :: "string option"
  hh_poll :: "poll_state option"
  hh_staleAfter :: duration

definition lastSuccessfulPoll :: "poll_state \<Rightarrow> gotime" where
  "lastSuccessfulPoll st = ps_lastPoll st"

definition reportPoll :: "(gotime \<Rightarrow> string) \<Rightarrow> gotime \<Rightarrow> health_handler \<Rightarrow> (string \<times> string) list \<times> int \<Rightarrow> (string \<times> string) list \<times> int" where
  "reportPoll fmt now h r = (case hh_poll h of
       None \<Rightarrow> (map_put ''imap'' ''not_configured'' (fst r), snd r)
     | Some st \<Rightarrow>
         (let last_poll = lastSuccessfulPoll st; body = map_put ''last_poll_at'' (fmt last_poll) (fst r) in
          if hh_staleAfter h < time_sub now last_poll then (map_put ''imap'' ''stale'' body, 503)
          else (map_put ''imap'' ''ok'' body, snd r)))"

definition health_Handle :: "(gotime \<Rightarrow> string) \<Rightarrow> gotime \<Rightarrow> health_handler \<Rightarrow> (string \<times> string) list \<times> int" where
  "health_Handle fmt now h =
     (let body = [(''status'', ''ok''), (''db'', ''ok'')];
          (body1, status1) = (case hh_ping h of None \<Rightarrow> (body, 200) | Some _ \<Rightarrow> (map_put ''db'' ''down'' body, 503));
          (body2, status2) = reportPoll fmt now h (body1, status1)
      in (if status2 \<noteq> 200 then map_put ''status'' ''degraded'' body2 else body2, status2))"

section \<open>Middleware\<close>

datatype resp_event = WriteHeader int | WriteBody string

datatype handler_end = Returned | Panicked | Aborted

record recorder =
  rr_status :: int
  rr_wroteHeader :: bool
  rr_out :: "resp_event list"

fun record_event :: "resp_event \<Rightarrow> recorder \<Rightarrow> recorder" where
  "record_event (WriteHeader s) r = r\<lparr>rr_status := s, rr_wroteHeader := True, rr_out := rr_out r @ [WriteHeader s]\<rparr>"
| "record_event (WriteBody b) r = r\<lparr>rr_wroteHeader := True, rr_out := rr_out r @ [WriteBody b]\<rparr>"

text \<open>A handler is what it writes and how it ends; a panic with \<open>ErrAbortHandler\<close> is passed on.\<close>

type_synonym http_handler = "resp_event list \<times> handler_end"

definition withRecovery :: "http_handler \<Rightarrow> recorder \<Rightarrow> handler_end \<times> recorder" where
  "withRecovery h r =
     (let r1 = fold record_event (fst h) r in
      case snd h of
        Panicked \<Rightarrow> (Returned, if rr_wroteHeader r1 then r1 else record_event (WriteHeader 500) r1)
      | e \<Rightarrow> (e, r1))"

text \<open>The request id is the client's when it is a UUID, else a fresh one; it is echoed and the status is logged.\<close>

definition withRequestID :: "(string \<Rightarrow> bool) \<Rightarrow> string \<Rightarrow> string \<Rightarrow> http_handler \<Rightarrow> string \<times> handler_end \<times> recorder" where
  "withRequestID parses fresh rid h =
     (if parses rid then rid else fresh, withRecovery h \<lparr>rr_status = 200, rr_wroteHeader = False, rr_out = []\<rparr>)"

definition health_response :: "(gotime \<Rightarrow> string) \<Rightarrow> ((string \<times> string) list \<Rightarrow> string) \<Rightarrow> gotime \<Rightarrow> health_handler \<Rightarrow> http_handler" where
  "health_response fmt json now h =
     (let (body, status) = health_Handle fmt now h in ([WriteHeader status, WriteBody (json body)], Returned))"

section \<open>Tokens\<close>

text \<open>The library's error: a retrieve error with its code, the status of the response if there was one, and its text.\<close>

datatype token_failure = RetrieveError string "int option" string | OtherFailure string

definition oauth_classify :: "token_failure \<Rightarrow> string \<times> bool" where
  "oauth_classify e = (case e of
       OtherFailure _ \<Rightarrow> (''transient'', False)
     | RetrieveError code status _ \<Rightarrow>
         if code \<in> {''invalid_grant'', ''invalid_client'', ''unauthorized_client'', ''invalid_scope''} then (code, True)
         else if status = Some 400 then (if code \<noteq> '''' then code else ''invalid_request'', True)
         else if code \<noteq> '''' then (code, False)
         else (''transient'', False))"

primrec failure_text :: "token_failure \<Rightarrow> string" where
  "failure_text (RetrieveError code status m) = m"
| "failure_text (OtherFailure m) = m"

text \<open>The second result is the call of \<open>onFail\<close>, with the provider and the class.\<close>

definition reuse_Token :: "string \<Rightarrow> token_failure + string \<Rightarrow> (go_error + string) \<times> (string \<times> string) option" where
  "reuse_Token provider res = (case res of
       Inr tok \<Rightarrow> (Inr tok, None)
     | Inl e \<Rightarrow>
         (let err = Wrapped (''oauth '' @ provider) (Plain (failure_text e)) in
          if snd (oauth_classify e) then (Inl (Permanent (Some err)), Some (provider, fst (oauth_classify e)))
          else (Inl err, None)))"

record token_source =
  ts_provider :: string
  ts_clientID :: string
  ts_clientSecret :: string
  ts_tokenURL :: string
  ts_scope :: string
  ts_refreshToken :: "string option"

definition newTokenSource :: "oauth_config \<Rightarrow> string + token_source" where
  "newTokenSource c =
     (if to_lower (oauth_Provider c) = ''microsoft''
      then Inr \<lparr>ts_provider = ''microsoft'', ts_clientID = oauth_ClientID c, ts_clientSecret = oauth_ClientSecret c,
             ts_tokenURL = ''https://login.microsoftonline.com/'' @ oauth_TenantID c @ ''/oauth2/v2.0/token'',
             ts_scope = ''https://outlook.office365.com/.default'', ts_refreshToken = None\<rparr>
      else if to_lower (oauth_Provider c) = ''google''
      then Inr \<lparr>ts_provider = ''google'', ts_clientID = oauth_ClientID c, ts_clientSecret = oauth_ClientSecret c,
             ts_tokenURL = ''https://oauth2.googleapis.com/token'', ts_scope = ''https://mail.google.com/'',
             ts_refreshToken = Some (oauth_RefreshToken c)\<rparr>
      else Inl ''oauth: unknown provider'')"

definition xoauth2Payload :: "string \<Rightarrow> string \<Rightarrow> string" where
  "xoauth2Payload user token = ''user='' @ user @ [CHR 0x01] @ ''auth=Bearer '' @ token @ [CHR 0x01, CHR 0x01]"

text \<open>A permanent failure is audited; a failing audit is only logged.\<close>

definition authFailureAuditor :: "env \<Rightarrow> string \<times> string \<Rightarrow> world \<Rightarrow> world" where
  "authFailureAuditor v f w =
     (case repo_audit_append v \<lparr>a_ID = '''', a_SubmissionID = '''', a_EventType = EventAuthFailed,
          a_Payload = [(''provider'', AString (fst f)), (''class'', AString (snd f))], a_RequestID = '''', a_CreatedAt = zero_time\<rparr> w of
        Inl _ \<Rightarrow> w
      | Inr w1 \<Rightarrow> w1)"

text \<open>The two login mechanisms ask the source for a token first; the IMAP one then answers with the payload.\<close>

definition smtp_XOAUTH2Auth :: "string \<Rightarrow> token_failure + string \<Rightarrow> go_error option" where
  "smtp_XOAUTH2Auth provider res = (case fst (reuse_Token provider res) of Inl e \<Rightarrow> Some e | Inr _ \<Rightarrow> None)"

definition imap_XOAUTH2Auth :: "string \<Rightarrow> string \<Rightarrow> (string \<Rightarrow> string option) \<Rightarrow> token_failure + string \<Rightarrow> go_error option" where
  "imap_XOAUTH2Auth provider user server res = (case fst (reuse_Token provider res) of
       Inl e \<Rightarrow> Some e
     | Inr token \<Rightarrow> map_option Plain (server (xoauth2Payload user token)))"

section \<open>When the service is healthy\<close>

lemma map_val_put [simp]: "map_val (map_put k' x m) k = (if k = k' then x else map_val m k)"
proof -
  have "map_of (filter (\<lambda>e. fst e \<noteq> k') m) k = map_of m k" if "k \<noteq> k'" using that by (induction m) auto
  then show ?thesis by (simp add: map_put_def map_val_def)
qed

definition poll_fresh :: "gotime \<Rightarrow> health_handler \<Rightarrow> bool" where
  "poll_fresh now h \<longleftrightarrow> (case hh_poll h of None \<Rightarrow> True | Some st \<Rightarrow> time_sub now (ps_lastPoll st) \<le> hh_staleAfter h)"

lemma health_status:
  "snd (health_Handle fmt now h) = (if hh_ping h = None \<and> poll_fresh now h then 200 else 503)"
  by (auto simp: health_Handle_def reportPoll_def poll_fresh_def lastSuccessfulPoll_def Let_def split: option.split)

lemma health_body:
  "map_val (fst (health_Handle fmt now h)) ''status'' = (if hh_ping h = None \<and> poll_fresh now h then ''ok'' else ''degraded'')"
  "map_val (fst (health_Handle fmt now h)) ''db'' = (if hh_ping h = None then ''ok'' else ''down'')"
  "map_val (fst (health_Handle fmt now h)) ''imap'' = (if hh_poll h = None then ''not_configured'' else if poll_fresh now h then ''ok'' else ''stale'')"
  by (auto simp: health_Handle_def reportPoll_def poll_fresh_def lastSuccessfulPoll_def Let_def map_val_def [of "[_, _]"] split: option.split)

text \<open>A poll moves the time of the last success exactly when the fetch succeeds.\<close>

lemma process_lastPoll: "ps_lastPoll (process v pl mb m st) = ps_lastPoll st"
  by (auto simp: process_def handleIngestFailure_def settle_message_def file_message_def run_cmd_def Let_def
      split: sum.split prod.split option.split)

lemma process_batch_lastPoll: "ps_lastPoll (snd (process_batch vs live pl mb i ms st)) = ps_lastPoll st"
  by (induction ms arbitrary: i st) (simp_all add: process_lastPoll)

definition reaches :: "poller \<Rightarrow> gotime \<Rightarrow> poll_env \<Rightarrow> bool" where
  "reaches pl cutoff e \<longleftrightarrow> pe_liveStart e \<and> (case pe_dial e of Inl _ \<Rightarrow> False | Inr mb \<Rightarrow> \<not> isl (mbx_fetch mb (pl_batchLimit pl) cutoff))"

lemma pollOnce_lastPoll:
  "ps_lastPoll (pollOnce e pl cutoff st) = (if reaches pl cutoff e then unix_nano (pe_now e) else ps_lastPoll st)"
proof (cases "reaches pl cutoff e")
  case False
  then show ?thesis by (auto simp: reaches_def pollOnce_def poll_recordFailure_def split: sum.splits)
next
  case True
  then obtain mb msgs where mb: "pe_liveStart e" "pe_dial e = Inr mb" "mbx_fetch mb (pl_batchLimit pl) cutoff = Inr msgs"
    by (auto simp: reaches_def isl_def split: sum.splits) (metis sum.exhaust)
  obtain b st1 where b: "process_batch (pe_messages e) (pe_live e) pl mb 0 msgs (recordSuccess (pe_now e) st) = (b, st1)" by (metis surj_pair)
  have "ps_lastPoll st1 = unix_nano (pe_now e)"
    using process_batch_lastPoll [of "pe_messages e" "pe_live e" pl mb 0 msgs "recordSuccess (pe_now e) st"] b by (simp add: recordSuccess_def)
  then show ?thesis using True mb b by (auto simp: pollOnce_def poller_reconcileHold_def split: sum.split)
qed

lemma fold_poll_lastPoll:
  "\<forall>f\<in>set fs. \<not> reaches pl cutoff f \<Longrightarrow> ps_lastPoll (fold (\<lambda>e. pollOnce e pl cutoff) fs st) = ps_lastPoll st"
  by (induction fs arbitrary: st) (simp_all add: pollOnce_lastPoll)

text \<open>
  C40. The health endpoint tells the truth about polling: with the poller's state after any history whose last poll that
  reached the mailbox was \<open>e\<close>, it answers 200 exactly when the database answers and that poll is no older than the
  configured age, else 503; failed polls never refresh it, and the report names what is wrong.
\<close>

theorem health_tracks_polling:
  assumes "reaches pl cutoff e" and "\<forall>f\<in>set fs. \<not> reaches pl cutoff f" and "in_int64 (pe_now e)"
    and "hh_poll h = Some (fold (\<lambda>e. pollOnce e pl cutoff) (es @ e # fs) st)"
  shows "(snd (health_Handle fmt now h) = 200 \<longleftrightarrow> hh_ping h = None \<and> time_sub now (pe_now e) \<le> hh_staleAfter h) \<and>
    snd (health_Handle fmt now h) \<in> {200, 503} \<and>
    (map_val (fst (health_Handle fmt now h)) ''status'' = ''ok'' \<longleftrightarrow> snd (health_Handle fmt now h) = 200) \<and>
    map_val (fst (health_Handle fmt now h)) ''db'' = (if hh_ping h = None then ''ok'' else ''down'') \<and>
    map_val (fst (health_Handle fmt now h)) ''imap'' = (if time_sub now (pe_now e) \<le> hh_staleAfter h then ''ok'' else ''stale'')"
proof -
  have "ps_lastPoll (fold (\<lambda>e. pollOnce e pl cutoff) (es @ e # fs) st) = pe_now e"
    using assms(1,3) fold_poll_lastPoll [OF assms(2)] by (simp add: pollOnce_lastPoll unix_nano_def)
  then have f: "poll_fresh now h \<longleftrightarrow> time_sub now (pe_now e) \<le> hh_staleAfter h" using assms(4) by (simp add: poll_fresh_def)
  show ?thesis unfolding health_status health_body f using assms(4) by simp
qed

definition sample_poll_env :: poll_env where
  "sample_poll_env = \<lparr>pe_messages = (\<lambda>_. sample_message_env), pe_live = (\<lambda>_. True), pe_liveStart = True, pe_liveHold = True,
     pe_hold = sample_env, pe_now = 50, pe_dial = Inr sample_mailbox\<rparr>"

theorem health_tracks_polling_witness:
  "snd (health_Handle (\<lambda>_. ''t'') 70 \<lparr>hh_ping = None, hh_poll = Some (pollOnce sample_poll_env sample_poller 0 start_state), hh_staleAfter = 30\<rparr>) = 200 \<and>
   snd (health_Handle (\<lambda>_. ''t'') 90 \<lparr>hh_ping = None, hh_poll = Some (pollOnce sample_poll_env sample_poller 0 start_state), hh_staleAfter = 30\<rparr>) \<noteq> 200"
proof -
  have r: "reaches sample_poller 0 sample_poll_env" by (simp add: reaches_def sample_poll_env_def sample_mailbox_def)
  have n: "pe_now sample_poll_env = 50" by (simp add: sample_poll_env_def)
  have i: "in_int64 (pe_now sample_poll_env)" by (simp add: n in_int64_def)
  have "hh_poll \<lparr>hh_ping = None, hh_poll = Some (pollOnce sample_poll_env sample_poller 0 start_state), hh_staleAfter = 30\<rparr> =
      Some (fold (\<lambda>e. pollOnce e sample_poller 0) ([] @ sample_poll_env # []) start_state)" by simp
  from health_tracks_polling [OF r _ i this, of "\<lambda>_. ''t''" 70] health_tracks_polling [OF r _ i this, of "\<lambda>_. ''t''" 90]
  show ?thesis by (simp add: n time_sub_def)
qed

section \<open>Panics and tokens\<close>

lemma wrote_events: "rr_wroteHeader (fold record_event evs r) \<longleftrightarrow> rr_wroteHeader r \<or> evs \<noteq> []"
proof (induction evs arbitrary: r)
  case (Cons x evs)
  then show ?case by (cases x) simp_all
qed simp

lemma out_events: "rr_out (fold record_event evs r) = rr_out r @ evs"
proof (induction evs arbitrary: r)
  case (Cons x evs)
  then show ?case by (cases x) simp_all
qed simp

text \<open>A panicking handler that has written nothing is answered with 500; what was written is never amended.\<close>

lemma panic_answered:
  "withRequestID parses fresh rid h =
     (if parses rid then rid else fresh, if snd h = Panicked then Returned else snd h,
      snd (snd (withRequestID parses fresh rid h)))"
  "rr_out (snd (snd (withRequestID parses fresh rid h))) = (if snd h = Panicked \<and> fst h = [] then [WriteHeader 500] else fst h)"
  by (cases "snd h"; simp add: withRequestID_def withRecovery_def Let_def wrote_events out_events)+

text \<open>
  A dead credential is not hammered: when the token request of the first attempt fails with a revoked or refused
  grant, the reply is given up after that one attempt with an error, and the failure is audited with its provider
  and class but without the token; any other token failure is one the retry loop may repeat, and is not audited.
\<close>

theorem dead_token_not_retried:
  assumes "smtp_Host c \<noteq> ''''" and "smtp_FromAddress c \<noteq> ''''" and "r_ToAddress r \<noteq> ''''" and "sn_ctxErr s 0 = None"
    and "x_dial (sn_exchange s 0) = None" and "x_client (sn_exchange s 0) = None" and "negotiate_tls c (sn_exchange s 0) = Inr tls"
    and "x_mech (sn_exchange s 0) = smtp_XOAUTH2Auth provider (Inl f)"
  shows "(snd (oauth_classify f) \<longrightarrow> snd (sendThreadedReply s True c rc r) = 1 \<and> isl (fst (sendThreadedReply s True c rc r)) \<and>
      snd (reuse_Token provider (Inl f)) = Some (provider, fst (oauth_classify f))) \<and>
    (\<not> snd (oauth_classify f) \<longrightarrow> snd (reuse_Token provider (Inl f)) = None \<and>
      (\<exists>e. realSMTPSend True c (sn_exchange s 0) = Some e \<and> \<not> as_permanent e))"
proof -
  let ?e = "Wrapped (''oauth '' @ provider) (Plain (failure_text f))"
  have fn: "realSMTPSend True c (sn_exchange s 0) = Some (if snd (oauth_classify f) then Permanent (Some ?e) else ?e)"
    using assms(5-8) by (simp add: realSMTPSend_def dialSMTP_def smtp_XOAUTH2Auth_def reuse_Token_def Let_def)
  show ?thesis
  proof (cases "snd (oauth_classify f)")
    case True
    then have "re_fn (send_retry_env s True c) 0 = Some (Permanent (Some ?e))" using fn by (simp add: send_retry_env_def)
    from retry_permanent_first [OF _ this, of "rty_Attempts rc" "baseDelay rc"] show ?thesis
      using assms(1-4) True by (simp add: sendThreadedReply_def Let_def send_retry_env_def reuse_Token_def)
  next
    case False
    then show ?thesis using fn by (simp add: reuse_Token_def Let_def)
  qed
qed

theorem dead_token_not_retried_witness:
  "snd (sendThreadedReply (sample_send (accepting\<lparr>x_mech := smtp_XOAUTH2Auth ''google'' (Inl (RetrieveError ''invalid_grant'' (Some 400) ''revoked''))\<rparr>))
     True sample_smtp (ac_Retry default_config) crafted_reply) = 1 \<and>
   snd (reuse_Token ''google'' (Inl (RetrieveError ''invalid_grant'' (Some 400) ''revoked''))) = Some (''google'', ''invalid_grant'')"
proof -
  let ?f = "RetrieveError ''invalid_grant'' (Some 400) ''revoked''"
  let ?x = "accepting\<lparr>x_mech := smtp_XOAUTH2Auth ''google'' (Inl ?f)\<rparr>"
  have c: "smtp_Host sample_smtp \<noteq> ''''" "smtp_FromAddress sample_smtp \<noteq> ''''" "r_ToAddress crafted_reply \<noteq> ''''" "smtp_Port sample_smtp \<noteq> ''465''"
    by code_simp+
  have x: "sn_ctxErr (sample_send ?x) 0 = None" "x_dial (sn_exchange (sample_send ?x) 0) = None" "x_client (sn_exchange (sample_send ?x) 0) = None"
    "negotiate_tls sample_smtp (sn_exchange (sample_send ?x) 0) = Inr True"
    "x_mech (sn_exchange (sample_send ?x) 0) = smtp_XOAUTH2Auth ''google'' (Inl ?f)"
    using c(4) by (simp_all add: sample_send_def accepting_def negotiate_tls_def)
  have "oauth_classify ?f = (''invalid_grant'', True)" by (simp add: oauth_classify_def)
  then show ?thesis using dead_token_not_retried [OF c(1-3) x] by simp
qed

end
