(* ===== verification/Imap_Client.thy ===== *)
theory Imap_Client
  imports Poller_Model
begin

text \<open>
  \<open>internal/delivery/imap/client.go\<close>: the decisions the mailbox adapter makes on top of the IMAP library. The server
  is its answers to each command (\<open>imap_server\<close>); connecting is in
  \<open>App_Model\<close>, the commands on the wire and closing in \<open>Imap_Session\<close>. Filing runs against a server that accepts or refuses its \<open>n\<close>-th command,
  and keeps the log of the commands with their answers.

  The lemmas show that a batch is bounded in bytes without starving, and that filing never removes a message that
  was not copied.
\<close>

section \<open>Fetching\<close>

record imap_server =
  is_search :: "gotime option \<Rightarrow> string + int list"
  is_sizes :: "int list \<Rightarrow> string + (int \<times> int) list"
  is_bodies :: "int list \<Rightarrow> string + (int \<times> mime_message option option) list"
  is_select :: "string \<Rightarrow> nat \<Rightarrow> int option"
  is_envelopes :: "string \<Rightarrow> int \<Rightarrow> string + string option list"

definition maxProbeWindow :: nat where "maxProbeWindow = 500"
definition maxBatchBytes :: int where "maxBatchBytes = 64 * 2 ^ 20"

text \<open>The kept and the over-cap UIDs of a size probe, with the bytes kept so far.\<close>

fun cap_loop :: "int \<Rightarrow> (int \<times> int) list \<Rightarrow> int list \<Rightarrow> int \<Rightarrow> int list \<Rightarrow> int list \<times> int list" where
  "cap_loop maxBytes [] keep batchBytes over = (keep, over)"
| "cap_loop maxBytes ((uid, sz) # sizes) keep batchBytes over =
     (if sz > maxBytes then cap_loop maxBytes sizes keep batchBytes (over @ [uid])
      else if keep \<noteq> [] \<and> int64 (batchBytes + sz) > maxBatchBytes then (keep, over)
      else cap_loop maxBytes sizes (keep @ [uid]) (int64 (batchBytes + sz)) over)"

text \<open>The UIDs within the cap, and the ones marked read for being over it.\<close>

definition underCap :: "imap_server \<Rightarrow> int \<Rightarrow> int list \<Rightarrow> int list \<times> int list" where
  "underCap sv maxBytes uids =
     (if maxBytes \<le> 0 then (uids, [])
      else case is_sizes sv uids of
        Inl _ \<Rightarrow> (uids, [])
      | Inr sizes \<Rightarrow> cap_loop maxBytes sizes [] 0 [])"

definition fetchUnseen :: "imap_server \<Rightarrow> int \<Rightarrow> int \<Rightarrow> gotime \<Rightarrow> (string + (int \<times> mime_message option) list) \<times> int list" where
  "fetchUnseen sv maxBytes limit since =
     (case is_search sv (if is_zero_time since then None else Some since) of
        Inl e \<Rightarrow> (Inl (''imap search: '' @ e), [])
      | Inr found \<Rightarrow>
          if found = [] then (Inr [], [])
          else let (keep, over) = underCap sv maxBytes (take maxProbeWindow found) in
            if keep = [] then (Inr [], over)
            else let uids = (if 0 < limit \<and> limit < int (length keep) then take (nat limit) keep else keep) in
              case is_bodies sv uids of
                Inl e \<Rightarrow> (Inl (''imap fetch: '' @ e), over)
              | Inr msgs \<Rightarrow> (Inr (List.map_filter (\<lambda>(uid, raw). map_option (Pair uid) raw) msgs), over))"

definition folderPath :: "string \<Rightarrow> string \<Rightarrow> string \<Rightarrow> string" where
  "folderPath prefix delim leaf = (if prefix = '''' then leaf else prefix @ delim @ leaf)"

text \<open>A missing folder is created and selected again; \<open>is_select sv path n\<close> is the answer to the \<open>n\<close>-th select.\<close>

definition scanFolder :: "imap_server \<Rightarrow> string \<Rightarrow> int \<Rightarrow> string + string list" where
  "scanFolder sv path limit =
     (case (case is_select sv path 0 of Some n \<Rightarrow> Some n | None \<Rightarrow> is_select sv path 1) of
        None \<Rightarrow> Inr []
      | Some messages \<Rightarrow>
          if messages = 0 then Inr []
          else let n = (if 0 < limit \<and> limit < messages then limit else messages) in
            case is_envelopes sv path n of
              Inl e \<Rightarrow> Inl (''imap fetch hold envelopes: '' @ e)
            | Inr envs \<Rightarrow> Inr (filter (\<lambda>i. i \<noteq> '''') (map trimAngle (List.map_filter (\<lambda>e. e) envs))))"

section \<open>Filing\<close>

datatype file_op = FMove int string | FCopy int string | FCreate string | FMarkDeleted int | FExpunge int

type_synonym file_log = "(file_op \<times> bool) list"

definition do_op :: "(nat \<Rightarrow> bool) \<Rightarrow> file_op \<Rightarrow> file_log \<Rightarrow> bool \<times> file_log" where
  "do_op answers f l = (answers (length l), l @ [(f, answers (length l))])"

definition withCreate :: "(nat \<Rightarrow> bool) \<Rightarrow> string \<Rightarrow> file_op \<Rightarrow> file_log \<Rightarrow> bool \<times> file_log" where
  "withCreate answers folder f l =
     (case do_op answers f l of
        (True, l1) \<Rightarrow> (True, l1)
      | (False, l1) \<Rightarrow> do_op answers f (snd (do_op answers (FCreate folder) l1)))"

definition fileByLadder :: "(nat \<Rightarrow> bool) \<Rightarrow> bool \<Rightarrow> bool \<Rightarrow> int \<Rightarrow> string \<Rightarrow> file_log \<Rightarrow> bool \<times> file_log" where
  "fileByLadder answers capMove capUIDPlus uid folder l =
     (if capMove then withCreate answers folder (FMove uid folder) l
      else if capUIDPlus then
        (case withCreate answers folder (FCopy uid folder) l of
           (False, l1) \<Rightarrow> (False, l1)
         | (True, l1) \<Rightarrow> (case do_op answers (FMarkDeleted uid) l1 of
             (False, l2) \<Rightarrow> (False, l2)
           | (True, l2) \<Rightarrow> do_op answers (FExpunge uid) l2))
      else withCreate answers folder (FCopy uid folder) l)"

section \<open>A batch is bounded and makes progress\<close>

definition batch_size :: "(int \<Rightarrow> int) \<Rightarrow> int list \<Rightarrow> int" where
  "batch_size szof uids = sum_list (map szof uids)"

lemma cap_loop_bounds:
  assumes "cap_loop mx sizes keep b over = (keep', over')" and "\<forall>(u, s)\<in>set sizes. s = szof u \<and> 0 \<le> s"
    and "b = batch_size szof keep" "b \<le> maxBatchBytes \<or> length keep \<le> 1" "\<forall>u\<in>set keep. szof u \<le> mx" "mx \<le> 2 ^ 61" "0 \<le> b" "b \<le> 2 ^ 62"
  shows "(batch_size szof keep' \<le> maxBatchBytes \<or> length keep' \<le> 1) \<and> (\<forall>u\<in>set keep'. szof u \<le> mx) \<and>
    (\<exists>new. keep' = keep @ new \<and> set new \<subseteq> fst ` set sizes) \<and> (keep = [] \<and> (\<exists>(u, s)\<in>set sizes. s \<le> mx) \<longrightarrow> keep' \<noteq> []) \<and>
    (\<exists>extra. over' = over @ extra \<and> (\<forall>u\<in>set extra. \<exists>s. (u, s) \<in> set sizes \<and> mx < s))"
  using assms
proof (induction mx sizes keep b over rule: cap_loop.induct)
  case (2 mx u s sizes keep b over)
  have s: "s = szof u" "0 \<le> s" and rest: "\<forall>(u, s)\<in>set sizes. s = szof u \<and> 0 \<le> s" using "2.prems"(2) by auto
  consider (over) "s > mx" | (full) "\<not> s > mx" "keep \<noteq> []" "int64 (b + s) > maxBatchBytes"
    | (kept) "\<not> s > mx" "\<not> (keep \<noteq> [] \<and> int64 (b + s) > maxBatchBytes)" by blast
  then show ?case
  proof cases
    case over
    then show ?thesis using "2.IH"(1) [OF over _ rest "2.prems"(3-8)] "2.prems"(1) by (fastforce intro: rev_image_eqI)
  next
    case full
    then show ?thesis using "2.prems" by auto
  next
    case kept
    have "in_int64 (b + s)" using "2.prems"(6,7,8) kept(1) s(2) by (simp add: in_int64_def)
    then have wrap: "int64 (b + s) = b + s" by simp
    have sum: "b + s = batch_size szof (keep @ [u])" using "2.prems"(3) s(1) by (simp add: batch_size_def)
    have bound: "b + s \<le> maxBatchBytes \<or> length (keep @ [u]) \<le> 1" using kept(2) wrap by auto
    have small: "b + s \<le> 2 ^ 62"
    proof (cases "keep = []")
      case True
      then show ?thesis using "2.prems"(3,6) kept(1) by (simp add: batch_size_def)
    next
      case False
      then show ?thesis using kept(2) wrap by (simp add: maxBatchBytes_def)
    qed
    have run: "cap_loop mx sizes (keep @ [u]) (b + s) over = (keep', over')" using "2.prems"(1) kept wrap by (auto split: if_splits)
    have "(batch_size szof keep' \<le> maxBatchBytes \<or> length keep' \<le> 1) \<and> (\<forall>u\<in>set keep'. szof u \<le> mx) \<and>
      (\<exists>new. keep' = (keep @ [u]) @ new \<and> set new \<subseteq> fst ` set sizes) \<and>
      (\<exists>extra. over' = over @ extra \<and> (\<forall>u\<in>set extra. \<exists>s. (u, s) \<in> set sizes \<and> mx < s))"
      using "2.IH"(2) [OF kept(1)] kept(2) run rest sum bound "2.prems"(5,6,7) s small wrap kept(1) by auto
    then show ?thesis by fastforce
  qed
qed simp

lemma cap_loop_part: "cap_loop mx sizes keep b over = (keep', over') \<Longrightarrow> mset keep' \<subseteq># mset keep + mset (map fst sizes)"
proof (induction mx sizes keep b over rule: cap_loop.induct)
  case (2 mx u sz sizes keep b over)
  have "mset keep' \<subseteq># mset keep + mset (map fst sizes) \<or> mset keep' \<subseteq># mset (keep @ [u]) + mset (map fst sizes)"
    using "2.IH" "2.prems" by (auto split: if_splits)
  then show ?case by (auto intro: subset_mset.order_trans)
qed simp

text \<open>
  What the protocol promises of the answers: the sizes are those of messages asked for, each at most once, and so are the bodies.
\<close>

definition honest :: "imap_server \<Rightarrow> (int \<Rightarrow> int) \<Rightarrow> bool" where
  "honest sv szof \<longleftrightarrow>
     (\<forall>uids sizes. is_sizes sv uids = Inr sizes \<longrightarrow> (\<forall>(u, s)\<in>set sizes. s = szof u \<and> 0 \<le> s) \<and> mset (map fst sizes) \<subseteq># mset uids) \<and>
     (\<forall>uids ms. is_bodies sv uids = Inr ms \<longrightarrow> mset (map fst ms) \<subseteq># mset uids)"

lemma underCap_part:
  assumes "honest sv szof" and "underCap sv mx uids = (keep, over)"
  shows "mset keep \<subseteq># mset uids"
proof (cases "0 < mx \<and> (\<exists>sizes. is_sizes sv uids = Inr sizes)")
  case True
  then obtain sizes where sz: "is_sizes sv uids = Inr sizes" by blast
  then have "cap_loop mx sizes [] 0 [] = (keep, over)" using True assms(2) by (simp add: underCap_def)
  then have "mset keep \<subseteq># mset (map fst sizes)" using cap_loop_part by fastforce
  then show ?thesis using assms(1) sz unfolding honest_def by (blast intro: subset_mset.order_trans)
qed (use assms(2) in \<open>auto simp: underCap_def split: if_splits sum.splits\<close>)

lemma underCap_bounds:
  assumes "honest sv szof" and "is_sizes sv uids = Inr sizes" and "0 < mx" "mx \<le> 2 ^ 61" and "underCap sv mx uids = (keep, over)"
  shows "(batch_size szof keep \<le> 64 * 2 ^ 20 \<or> length keep \<le> 1) \<and> (\<forall>u\<in>set keep. 0 \<le> szof u \<and> szof u \<le> mx \<and> u \<in> fst ` set sizes) \<and>
    ((\<exists>(u, s)\<in>set sizes. s \<le> mx) \<longrightarrow> keep \<noteq> []) \<and> (\<forall>u\<in>set over. mx < szof u)"
proof -
  have run: "cap_loop mx sizes [] 0 [] = (keep, over)" using assms(2,3,5) by (simp add: underCap_def)
  have sz: "\<forall>(u, s)\<in>set sizes. s = szof u \<and> 0 \<le> s" using assms(1,2) by (simp add: honest_def)
  have b0: "(0::int) = batch_size szof []" "(0::int) \<le> maxBatchBytes \<or> length ([]::int list) \<le> 1" "\<forall>u\<in>set []. szof u \<le> mx"
    "(0::int) \<le> 0" "(0::int) \<le> 2 ^ 62" by (simp_all add: batch_size_def)
  note b = cap_loop_bounds [OF run sz b0(1-3) assms(4) b0(4,5)]
  then have "\<forall>u\<in>set over. \<exists>s. (u, s) \<in> set sizes \<and> mx < s" by auto
  then have "\<forall>u\<in>set over. mx < szof u" using sz by fastforce
  moreover have "\<forall>u\<in>fst ` set sizes. 0 \<le> szof u" using sz by fastforce
  ultimately show ?thesis using b by (auto simp: maxBatchBytes_def)
qed

lemma batch_size_mono:
  assumes "mset xs \<subseteq># mset ys" and "\<forall>u\<in>set ys. 0 \<le> szof u"
  shows "batch_size szof xs \<le> batch_size szof ys"
proof -
  have sum: "batch_size szof zs = sum_mset (image_mset szof (mset zs))" for zs
    unfolding batch_size_def by (metis mset_map sum_mset_sum_list)
  obtain C where C: "mset ys = mset xs + C" using assms(1) by (auto simp: mset_subset_eq_exists_conv)
  have "\<forall>u\<in>#C. 0 \<le> szof u" using assms(2) C by (metis set_mset_mset union_iff)
  then have "0 \<le> sum_mset (image_mset szof C)" by (induction C) auto
  then show ?thesis unfolding sum C by simp
qed

text \<open>What a poll asks for and what it gets.\<close>

lemma fetchUnseen_asks:
  assumes "fetchUnseen sv mx limit since = (Inr msgs, over)" and "honest sv szof"
    and "is_search sv (if is_zero_time since then None else Some since) = Inr found" and "underCap sv mx (take maxProbeWindow found) = (keep, kover)"
  shows "mset (map fst msgs) \<subseteq># mset keep \<and> (0 < limit \<longrightarrow> int (length msgs) \<le> limit) \<and> set over \<subseteq> set kover \<and>
    (found \<noteq> [] \<and> keep \<noteq> [] \<longrightarrow> (\<exists>uids ms. uids \<noteq> [] \<and> set uids \<subseteq> set keep \<and> is_bodies sv uids = Inr ms \<and>
       msgs = List.map_filter (\<lambda>(uid, raw). map_option (Pair uid) raw) ms))"
proof (cases "found = [] \<or> keep = []")
  case True
  then show ?thesis using assms by (auto simp: fetchUnseen_def split: if_splits)
next
  case False
  define uids where "uids = (if 0 < limit \<and> limit < int (length keep) then take (nat limit) keep else keep)"
  obtain ms where ms: "is_bodies sv uids = Inr ms" "msgs = List.map_filter (\<lambda>(uid, raw). map_option (Pair uid) raw) ms" "over = kover"
    using assms(1,3,4) False by (auto simp: fetchUnseen_def uids_def [symmetric] Let_def split: sum.splits)
  have "mset (map fst (List.map_filter (\<lambda>(uid, raw). map_option (Pair uid) raw) xs)) \<subseteq># mset (map fst xs)"
    for xs :: "(int \<times> mime_message option option) list"
    by (induction xs) (auto simp: map_filter_simps split: option.split intro: subset_mset.order_trans)
  then have got: "mset (map fst msgs) \<subseteq># mset uids" using ms assms(2) unfolding honest_def by (blast intro: subset_mset.order_trans)
  have "mset (take n keep) \<subseteq># mset keep" for n using mset_subset_eq_add_left [of "mset (take n keep)" "mset (drop n keep)"] by (simp flip: mset_append)
  then have part: "mset uids \<subseteq># mset keep" by (simp add: uids_def)
  have "length msgs \<le> length uids" using size_mset_mono [OF got] by simp
  then have "0 < limit \<longrightarrow> int (length msgs) \<le> limit" by (auto simp: uids_def split: if_splits)
  moreover have "uids \<noteq> []" using False by (auto simp: uids_def)
  moreover have "set uids \<subseteq> set keep" by (auto simp: uids_def dest: in_set_takeD)
  ultimately show ?thesis using got part ms by (blast intro: subset_mset.order_trans)
qed


definition two_messages :: imap_server where
  "two_messages = \<lparr>is_search = (\<lambda>_. Inr [1, 2]), is_sizes = (\<lambda>uids. if uids = [1, 2] then Inr [(1, 900), (2, 40)] else Inl ''''),
     is_bodies = (\<lambda>uids. if uids = [2] then Inr [(2, Some None)] else Inl ''''), is_select = (\<lambda>_ _. None), is_envelopes = (\<lambda>_ _. Inr [])\<rparr>"

lemma two_messages_honest: "honest two_messages (\<lambda>u. if u = 1 then 900 else 40)"
  by (simp add: honest_def two_messages_def)


section \<open>Filing never loses a message\<close>

text \<open>
  Filing a message never loses it, whatever the server answers: a message is marked deleted or expunged only
  after the server confirmed its copy, only that message is ever named, success means that the
  server confirmed a move or a copy into the folder, and at most five commands are sent.
\<close>

theorem filing_never_loses:
  "\<exists>new. snd (fileByLadder answers capMove capUIDPlus uid folder l) = l @ new \<and> length new \<le> 5 \<and>
     (\<forall>i<length new. fst (new ! i) \<in> {FMarkDeleted uid, FExpunge uid} \<longrightarrow> (\<exists>j<i. new ! j = (FCopy uid folder, True))) \<and>
     (\<forall>op'\<in>fst ` set new. op' \<in> {FMove uid folder, FCopy uid folder, FCreate folder, FMarkDeleted uid, FExpunge uid}) \<and>
     (fst (fileByLadder answers capMove capUIDPlus uid folder l) \<longrightarrow> (FMove uid folder, True) \<in> set new \<or> (FCopy uid folder, True) \<in> set new)"
proof -
  have wc: "\<exists>ok pre. withCreate answers folder f l = (ok, l @ pre) \<and>
      (pre = [(f, True)] \<and> ok \<or> pre = [(f, False), (FCreate folder, True), (f, ok)] \<or> pre = [(f, False), (FCreate folder, False), (f, ok)])" for f
    by (auto simp: withCreate_def do_op_def split: bool.split)
  show ?thesis
  proof (cases "\<not> capMove \<and> capUIDPlus")
    case False
    define f where "f = (if capMove then FMove uid folder else FCopy uid folder)"
    have "fileByLadder answers capMove capUIDPlus uid folder l = withCreate answers folder f l" using False by (auto simp: fileByLadder_def f_def)
    then obtain ok pre where run: "fileByLadder answers capMove capUIDPlus uid folder l = (ok, l @ pre)"
      and pre: "pre = [(f, True)] \<and> ok \<or> pre = [(f, False), (FCreate folder, True), (f, ok)] \<or> pre = [(f, False), (FCreate folder, False), (f, ok)]"
      using wc [of f] by auto
    have "f = FMove uid folder \<or> f = FCopy uid folder" by (simp add: f_def)
    then show ?thesis unfolding run using pre by (intro exI [of _ pre]) (auto simp: nth_Cons' less_Suc_eq)
  next
    case True
    obtain ok pre where w: "withCreate answers folder (FCopy uid folder) l = (ok, l @ pre)"
      and pre: "pre = [(FCopy uid folder, True)] \<and> ok \<or> pre = [(FCopy uid folder, False), (FCreate folder, True), (FCopy uid folder, ok)] \<or>
        pre = [(FCopy uid folder, False), (FCreate folder, False), (FCopy uid folder, ok)]" using wc by blast
    have "\<exists>post. fileByLadder answers capMove capUIDPlus uid folder l = (snd (last (pre @ post)), l @ pre @ post) \<and>
        (post = [] \<and> \<not> ok \<or> ok \<and> (post = [(FMarkDeleted uid, False)] \<or> (\<exists>b. post = [(FMarkDeleted uid, True), (FExpunge uid, b)])))"
      using True w pre by (auto simp: fileByLadder_def do_op_def split: bool.split)
    then obtain post where run: "fileByLadder answers capMove capUIDPlus uid folder l = (snd (last (pre @ post)), l @ pre @ post)"
      and post: "post = [] \<and> \<not> ok \<or> ok \<and> (post = [(FMarkDeleted uid, False)] \<or> (\<exists>b. post = [(FMarkDeleted uid, True), (FExpunge uid, b)]))" by blast
    show ?thesis
      by (rule exI [of _ "pre @ post"]) (use run pre post in \<open>auto simp: nth_Cons' less_Suc_eq\<close>)
  qed
qed

theorem filing_never_loses_witness:
  "fileByLadder (\<lambda>n. n \<noteq> 0) False True 7 ''Triage/Escalated'' [] =
     (True, [(FCopy 7 ''Triage/Escalated'', False), (FCreate ''Triage/Escalated'', True), (FCopy 7 ''Triage/Escalated'', True),
             (FMarkDeleted 7, True), (FExpunge 7, True)]) \<and>
   (\<exists>j<3. snd (fileByLadder (\<lambda>n. n \<noteq> 0) False True 7 ''Triage/Escalated'' []) ! j = (FCopy 7 ''Triage/Escalated'', True))"
proof -
  have run: "fileByLadder (\<lambda>n. n \<noteq> 0) False True 7 ''Triage/Escalated'' [] =
     (True, [(FCopy 7 ''Triage/Escalated'', False), (FCreate ''Triage/Escalated'', True), (FCopy 7 ''Triage/Escalated'', True),
             (FMarkDeleted 7, True), (FExpunge 7, True)])" by (simp add: fileByLadder_def withCreate_def do_op_def)
  from filing_never_loses [of "\<lambda>n. n \<noteq> 0" False True 7 "''Triage/Escalated''" "[]"] run show ?thesis by force
qed

end
