(* ===== verification/Extractor_Model.thy ===== *)
theory Extractor_Model
  imports Service_World
begin

text \<open>
  The text extractors of \<open>internal/infrastructure/extractor\<close> and the table of them in \<open>buildExtractors\<close>
  (\<open>internal/app/build.go\<close>). The readers of the file formats are libraries; what they yield for some bytes is the
  record \<open>readers\<close>: the rows of a CSV or spreadsheet, the pages of a PDF, the entries of a zip archive, the
  tokens of an XML text. An extractor returns \<^const>\<open>None\<close> where the code returns an error.

  The lemmas relate every capped loop to the list of lines it keeps, and bound what is extracted.
\<close>

section \<open>What the libraries yield\<close>

datatype pdf_page = NullPage | BrokenPage | PageText string

datatype xml_token = XStart string | XEnd string | XChars string | XOther

datatype zip_body = OpenError | ReadError | Inflated string

record zip_entry =
  z_Name :: string
  z_UncompressedSize64 :: nat
  z_body :: zip_body

text \<open>
  A failed read of a row is \<^const>\<open>None\<close>, as is a sheet whose rows cannot be opened; the flag of the XML tokens
  says that the text ends properly.
\<close>

record readers =
  rd_csv :: "string \<Rightarrow> string list option list"
  rd_zip :: "string \<Rightarrow> zip_entry list option"
  rd_xml :: "string \<Rightarrow> xml_token list \<times> bool"
  rd_pdf :: "string \<Rightarrow> (int \<times> (nat \<Rightarrow> pdf_page)) option"
  rd_xlsx :: "string \<Rightarrow> string list option list option list option"

section \<open>CSV and spreadsheets\<close>

definition maxCSVRows :: nat where "maxCSVRows = 100000"
definition maxCSVScan :: nat where "maxCSVScan = 500000"
definition maxXLSXRows :: nat where "maxXLSXRows = 100000"

definition row_line :: "string list \<Rightarrow> string" where
  "row_line row = trim_space (str_join row [CHR 0x09])"

fun csv_loop :: "nat \<Rightarrow> nat \<Rightarrow> string \<Rightarrow> string list option list \<Rightarrow> string option" where
  "csv_loop emitted scanned out [] = Some out"
| "csv_loop emitted scanned out (r # rs) =
     (if emitted < maxCSVRows \<and> scanned < maxCSVScan
      then case r of
        None \<Rightarrow> None
      | Some row \<Rightarrow>
          (let line = row_line row in
           if line = '''' then csv_loop emitted (Suc scanned) out rs
           else csv_loop (Suc emitted) (Suc scanned) (out @ line @ [CHR 0x0A]) rs)
      else Some out)"

definition csv_Extract :: "readers \<Rightarrow> string \<Rightarrow> string option" where
  "csv_Extract rd data = (if data = '''' then Some '''' else csv_loop 0 0 '''' (rd_csv rd data))"

fun xlsx_rows :: "nat \<Rightarrow> string \<Rightarrow> string list option list \<Rightarrow> nat \<times> string" where
  "xlsx_rows emitted out [] = (emitted, out)"
| "xlsx_rows emitted out (r # rs) =
     (if maxXLSXRows \<le> emitted then (emitted, out)
      else case r of
        None \<Rightarrow> xlsx_rows emitted out rs
      | Some cols \<Rightarrow>
          (let line = row_line cols in
           if line = '''' then xlsx_rows emitted out rs
           else xlsx_rows (Suc emitted) (out @ line @ [CHR 0x0A]) rs))"

fun xlsx_sheets :: "nat \<Rightarrow> string \<Rightarrow> string list option list option list \<Rightarrow> string" where
  "xlsx_sheets emitted out [] = out"
| "xlsx_sheets emitted out (s # ss) =
     (if maxXLSXRows \<le> emitted then out
      else case s of
        None \<Rightarrow> xlsx_sheets emitted out ss
      | Some rows \<Rightarrow> (let (emitted', out') = xlsx_rows emitted out rows in xlsx_sheets emitted' out' ss))"

definition xlsx_Extract :: "readers \<Rightarrow> string \<Rightarrow> string option" where
  "xlsx_Extract rd data = (if data = '''' then Some ''''
     else case rd_xlsx rd data of None \<Rightarrow> None | Some sheets \<Rightarrow> Some (xlsx_sheets 0 '''' sheets))"

section \<open>PDF\<close>

definition maxPDFPages :: nat where "maxPDFPages = 2000"
definition maxPDFTextBytes :: nat where "maxPDFTextBytes = 8 * 2 ^ 20"

text \<open>The loop over the pages \<open>i\<close> to the last one, of which \<open>n\<close> are left.\<close>

fun pdf_loop :: "(nat \<Rightarrow> pdf_page) \<Rightarrow> nat \<Rightarrow> nat \<Rightarrow> string \<Rightarrow> string" where
  "pdf_loop page 0 i buf = buf"
| "pdf_loop page (Suc n) i buf =
     (if maxPDFTextBytes \<le> length buf then buf
      else case page i of
        NullPage \<Rightarrow> pdf_loop page n (Suc i) buf
      | BrokenPage \<Rightarrow> pdf_loop page n (Suc i) buf
      | PageText texts \<Rightarrow>
          (let remaining = maxPDFTextBytes - length buf;
               buf1 = buf @ (if remaining < length texts then truncateBytes texts remaining else texts)
           in if maxPDFTextBytes \<le> length buf1 then buf1 else pdf_loop page n (Suc i) (buf1 @ [CHR 0x0A])))"

definition pdf_Extract :: "readers \<Rightarrow> string \<Rightarrow> string option" where
  "pdf_Extract rd data =
     (if data = '''' then Some ''''
      else if \<not> has_prefix data ''%PDF'' then None
      else case rd_pdf rd data of
        None \<Rightarrow> None
      | Some (numPage, page) \<Rightarrow> Some (pdf_loop page (min (nat numPage) maxPDFPages) 1 ''''))"

section \<open>DOCX\<close>

definition maxDocxPartBytes :: nat where "maxDocxPartBytes = 50 * 2 ^ 20"

fun walk_docx :: "bool \<Rightarrow> xml_token list \<Rightarrow> string" where
  "walk_docx capture [] = ''''"
| "walk_docx capture (XStart n # ts) =
     (if n = ''p'' then [CHR 0x0A] else '''') @ walk_docx (capture \<or> n = ''t'') ts"
| "walk_docx capture (XEnd n # ts) = walk_docx (capture \<and> n \<noteq> ''t'') ts"
| "walk_docx capture (XChars s # ts) = (if capture then s else '''') @ walk_docx capture ts"
| "walk_docx capture (XOther # ts) = walk_docx capture ts"

definition walkDocxText :: "readers \<Rightarrow> string \<Rightarrow> string option" where
  "walkDocxText rd b = (case rd_xml rd b of (ts, ended) \<Rightarrow> if ended then Some (walk_docx False ts) else None)"

text \<open>Only the first entry named \<open>word/document.xml\<close> counts; at most one byte more than the cap is inflated.\<close>

definition docx_Extract :: "readers \<Rightarrow> string \<Rightarrow> string option" where
  "docx_Extract rd data =
     (if data = '''' then Some ''''
      else case rd_zip rd data of
        None \<Rightarrow> None
      | Some entries \<Rightarrow> (case find (\<lambda>f. z_Name f = ''word/document.xml'') entries of
          None \<Rightarrow> Some ''''
        | Some f \<Rightarrow>
            if maxDocxPartBytes < z_UncompressedSize64 f then None
            else case z_body f of
              OpenError \<Rightarrow> None
            | ReadError \<Rightarrow> None
            | Inflated s \<Rightarrow>
                (let body = take (maxDocxPartBytes + 1) s
                 in if maxDocxPartBytes < length body then None else walkDocxText rd body)))"

section \<open>The table of extractors\<close>

definition buildExtractors :: "readers \<Rightarrow> string \<Rightarrow> (string \<Rightarrow> string option) option" where
  "buildExtractors rd ct =
     (if ct \<in> {''application/pdf'', ''application/x-pdf''} then Some (pdf_Extract rd)
      else if ct = ''application/vnd.openxmlformats-officedocument.wordprocessingml.document'' then Some (docx_Extract rd)
      else if ct = ''application/vnd.openxmlformats-officedocument.spreadsheetml.sheet'' then Some (xlsx_Extract rd)
      else if ct \<in> {''text/csv'', ''application/csv''} then Some (csv_Extract rd)
      else None)"

section \<open>The contract of an extractor\<close>

text \<open>
  What the service relies on: nothing is extracted from nothing, and a text is one the extractor's limit allows,
  also where a failure counts as no text.
\<close>

locale limited_extractor =
  fixes ext :: "string \<Rightarrow> string option" and allowed_text :: "string \<Rightarrow> bool"
  assumes empty_input: "ext '''' = Some ''''"
    and within_limit: "ext data = Some t \<Longrightarrow> allowed_text t"
begin

lemma empty_within: "allowed_text ''''"
  using within_limit [OF empty_input] .

lemma text_within: "allowed_text (case ext data of None \<Rightarrow> '''' | Some t \<Rightarrow> t)"
  using within_limit empty_within by (auto split: option.split)

end

text \<open>Lines, each closed by a newline.\<close>

definition lines_text :: "string list \<Rightarrow> string" where
  "lines_text ls = concat (map (\<lambda>l. l @ [CHR 0x0A]) ls)"

lemma lines_text_simps [simp]: "lines_text [] = ''''" "lines_text (l # ls) = l @ CHR 0x0A # lines_text ls"
  by (simp_all add: lines_text_def)

definition kept_lines :: "string list list \<Rightarrow> string list" where
  "kept_lines rows = filter (\<lambda>l. l \<noteq> '''') (map row_line rows)"

definition few_lines :: "nat \<Rightarrow> string \<Rightarrow> bool" where
  "few_lines n t \<longleftrightarrow> (\<exists>ls. t = lines_text ls \<and> length ls \<le> n \<and> '''' \<notin> set ls)"

lemma csv_loop_lines:
  assumes "csv_loop emitted scanned out rs = Some t" and "emitted \<le> maxCSVRows"
  shows "\<exists>ls. t = out @ lines_text ls \<and> emitted + length ls \<le> maxCSVRows \<and> '''' \<notin> set ls"
  using assms
proof (induction emitted scanned out rs rule: csv_loop.induct)
  case (1 emitted scanned out)
  then show ?case by (intro exI [of _ "[]"]) simp
next
  case (2 emitted scanned out r rs)
  show ?case
  proof (cases "emitted < maxCSVRows \<and> scanned < maxCSVScan")
    case False
    then show ?thesis using 2(3,4) by (intro exI [of _ "[]"]) (auto split: if_splits)
  next
    case True
    then obtain row where row: "r = Some row" using 2(3) by (cases r) auto
    show ?thesis
    proof (cases "row_line row = ''''")
      case True
      then show ?thesis using 2 row \<open>_ \<and> _\<close> by simp
    next
      case False
      have "csv_loop (Suc emitted) (Suc scanned) (out @ row_line row @ [CHR 0x0A]) rs = Some t" using 2(3) row False \<open>_ \<and> _\<close> by simp
      then obtain ls where "t = (out @ row_line row @ [CHR 0x0A]) @ lines_text ls" "Suc emitted + length ls \<le> maxCSVRows" "'''' \<notin> set ls"
        using 2(2) [OF \<open>_ \<and> _\<close> row refl False] \<open>_ \<and> _\<close> by auto
      then show ?thesis using False by (intro exI [of _ "row_line row # ls"]) auto
    qed
  qed
qed

lemma csv_loop_complete:
  assumes "emitted \<le> maxCSVRows" and "scanned + length rows \<le> maxCSVScan"
  shows "csv_loop emitted scanned out (map Some rows) = Some (out @ lines_text (take (maxCSVRows - emitted) (kept_lines rows)))"
  using assms
proof (induction rows arbitrary: emitted scanned out)
  case (Cons row rows)
  show ?case
  proof (cases "emitted < maxCSVRows")
    case True
    then have "maxCSVRows - emitted = Suc (maxCSVRows - Suc emitted)" by simp
    then show ?thesis using Cons.IH [of emitted "Suc scanned"] Cons.IH [of "Suc emitted" "Suc scanned"] Cons.prems True
      by (simp add: Let_def kept_lines_def)
  qed (use Cons.prems in simp)
qed (simp add: kept_lines_def)

lemma csv_within: "csv_Extract rd data = Some t \<Longrightarrow> few_lines maxCSVRows t"
proof -
  assume e: "csv_Extract rd data = Some t"
  show ?thesis
  proof (cases "data = ''''")
    case True
    then show ?thesis using e unfolding few_lines_def by (intro exI [of _ "[]"]) (simp add: csv_Extract_def)
  next
    case False
    then show ?thesis using e csv_loop_lines [of 0 0 "''''" "rd_csv rd data" t] by (auto simp: csv_Extract_def few_lines_def)
  qed
qed

definition read_rows :: "string list option list \<Rightarrow> string list list" where
  "read_rows rs = map the (filter (\<lambda>r. r \<noteq> None) rs)"

lemma read_rows_simps [simp]: "read_rows [] = []" "read_rows (None # rs) = read_rows rs" "read_rows (Some row # rs) = row # read_rows rs"
  by (simp_all add: read_rows_def)

lemma xlsx_rows_lines:
  assumes "emitted \<le> maxXLSXRows"
  shows "xlsx_rows emitted out rs =
    (let ls = take (maxXLSXRows - emitted) (kept_lines (read_rows rs)) in (emitted + length ls, out @ lines_text ls))"
  using assms
proof (induction rs arbitrary: emitted out)
  case (Cons r rs)
  show ?case
  proof (cases "emitted < maxXLSXRows \<and> r \<noteq> None")
    case True
    then obtain cols where r: "r = Some cols" by auto
    have "maxXLSXRows - emitted = Suc (maxXLSXRows - Suc emitted)" using True by linarith
    then show ?thesis using Cons.IH [of emitted out] Cons.IH [of "Suc emitted" "out @ row_line cols @ [CHR 0x0A]"] True r
      by (simp add: Let_def kept_lines_def)
  next
    case False
    then show ?thesis using Cons by (cases "emitted < maxXLSXRows") (auto simp: Let_def)
  qed
qed (simp add: kept_lines_def)

definition sheet_rows :: "string list option list option list \<Rightarrow> string list list" where
  "sheet_rows sheets = concat (map (\<lambda>s. case s of None \<Rightarrow> [] | Some rs \<Rightarrow> read_rows rs) sheets)"

lemma kept_lines_append: "kept_lines (xs @ ys) = kept_lines xs @ kept_lines ys"
  by (simp add: kept_lines_def)

lemma lines_text_append: "lines_text (xs @ ys) = lines_text xs @ lines_text ys"
  by (simp add: lines_text_def)

lemma xlsx_sheets_lines:
  assumes "emitted \<le> maxXLSXRows"
  shows "xlsx_sheets emitted out sheets = out @ lines_text (take (maxXLSXRows - emitted) (kept_lines (sheet_rows sheets)))"
  using assms
proof (induction sheets arbitrary: emitted out)
  case (Cons s ss)
  show ?case
  proof (cases "maxXLSXRows \<le> emitted \<or> s = None")
    case True
    then show ?thesis using Cons by (auto simp: sheet_rows_def)
  next
    case False
    then obtain rs where s: "s = Some rs" by auto
    let ?k = "kept_lines (read_rows rs)"
    let ?ls = "take (maxXLSXRows - emitted) ?k"
    have e: "emitted + length ?ls \<le> maxXLSXRows" using Cons.prems by simp
    have rest: "take (maxXLSXRows - emitted) (?k @ kept_lines (sheet_rows ss)) =
        ?ls @ take (maxXLSXRows - (emitted + length ?ls)) (kept_lines (sheet_rows ss))"
      by (simp add: min_def)
    have "xlsx_sheets emitted out (s # ss) = xlsx_sheets (emitted + length ?ls) (out @ lines_text ?ls) ss"
      using False s xlsx_rows_lines [OF Cons.prems, of out rs] by (simp add: Let_def)
    also have "\<dots> = out @ lines_text (take (maxXLSXRows - emitted) (?k @ kept_lines (sheet_rows ss)))"
      unfolding Cons.IH [OF e] rest lines_text_append by simp
    finally show ?thesis using s by (simp add: sheet_rows_def kept_lines_append)
  qed
qed (simp add: sheet_rows_def kept_lines_def)

lemma few_kept: "few_lines n (lines_text (take n (kept_lines rows)))"
  unfolding few_lines_def by (rule exI [of _ "take n (kept_lines rows)"]) (auto simp: kept_lines_def dest: in_set_takeD)

lemma xlsx_within: "xlsx_Extract rd data = Some t \<Longrightarrow> few_lines maxXLSXRows t"
  using few_kept [of maxXLSXRows "[]"] few_kept [of maxXLSXRows]
  by (auto simp: xlsx_Extract_def xlsx_sheets_lines kept_lines_def split: if_splits option.splits)

lemma pdf_loop_within: "length buf \<le> maxPDFTextBytes \<Longrightarrow> length (pdf_loop page n i buf) \<le> maxPDFTextBytes"
proof (induction page n i buf rule: pdf_loop.induct)
  case (2 page n i buf)
  show ?case
  proof (cases "maxPDFTextBytes \<le> length buf")
    case False
    show ?thesis
    proof (cases "page i")
      case (PageText texts)
      define buf1 where "buf1 = buf @ (if maxPDFTextBytes - length buf < length texts then truncateBytes texts (maxPDFTextBytes - length buf) else texts)"
      have "length buf1 \<le> maxPDFTextBytes"
        using length_truncateBytes [of texts "maxPDFTextBytes - length buf"] 2(4) by (auto simp: buf1_def)
      moreover have "pdf_loop page (Suc n) i buf =
          (if maxPDFTextBytes \<le> length buf1 then buf1 else pdf_loop page n (Suc i) (buf1 @ [CHR 0x0A]))"
        using False PageText by (simp only: pdf_loop.simps Let_def buf1_def if_False pdf_page.case)
      ultimately show ?thesis using 2(3) [OF False PageText refl buf1_def] by simp
    qed (use 2 False in auto)
  qed (use 2(4) in simp)
qed simp

lemma pdf_within: "pdf_Extract rd data = Some t \<Longrightarrow> length t \<le> maxPDFTextBytes"
  using pdf_loop_within [of "''''"] by (auto simp: pdf_Extract_def split: if_splits option.splits prod.splits)

interpretation csv: limited_extractor "csv_Extract rd" "few_lines maxCSVRows" for rd
  by unfold_locales (simp add: csv_Extract_def, rule csv_within)

interpretation xlsx: limited_extractor "xlsx_Extract rd" "few_lines maxXLSXRows" for rd
  by unfold_locales (simp add: xlsx_Extract_def, rule xlsx_within)

interpretation pdf: limited_extractor "pdf_Extract rd" "\<lambda>t. length t \<le> maxPDFTextBytes" for rd
  by unfold_locales (simp add: pdf_Extract_def, rule pdf_within)

section \<open>What is kept below the limits\<close>

definition page_texts :: "(nat \<Rightarrow> pdf_page) \<Rightarrow> nat \<Rightarrow> nat \<Rightarrow> string list" where
  "page_texts page i n = concat (map (\<lambda>k. case page k of PageText t \<Rightarrow> [t] | _ \<Rightarrow> []) [i..<i + n])"

lemma page_texts_0 [simp]: "page_texts page i 0 = []"
  by (simp add: page_texts_def)

lemma page_texts_Suc: "page_texts page i (Suc n) = (case page i of PageText t \<Rightarrow> [t] | _ \<Rightarrow> []) @ page_texts page (Suc i) n"
proof -
  have "[i..<i + Suc n] = i # [Suc i..<Suc i + n]" by (simp add: upt_conv_Cons del: upt_Suc)
  then show ?thesis by (simp only: page_texts_def list.map concat.simps)
qed

lemma pdf_loop_complete:
  "length buf + length (lines_text (page_texts page i n)) \<le> maxPDFTextBytes \<Longrightarrow> pdf_loop page n i buf = buf @ lines_text (page_texts page i n)"
proof (induction n arbitrary: i buf)
  case (Suc n)
  show ?case
  proof (cases "maxPDFTextBytes \<le> length buf")
    case True
    then have "lines_text (page_texts page i (Suc n)) = []" using Suc.prems by (metis add_le_same_cancel1 le_antisym le_zero_eq length_0_conv le_add1 order_trans)
    then show ?thesis using True by simp
  next
    case False
    then show ?thesis using Suc.IH [of buf "Suc i"] Suc.IH [of "buf @ t @ [CHR 0x0A]" "Suc i" for t] Suc.prems
      by (cases "page i") (auto simp: page_texts_Suc Let_def)
  qed
qed simp

text \<open>The tokens of a document with one run per paragraph.\<close>

definition docx_tokens :: "string list \<Rightarrow> xml_token list" where
  "docx_tokens ps = XStart ''body'' # concat (map (\<lambda>p. [XStart ''p'', XStart ''r'', XStart ''t'', XChars p, XEnd ''t'', XEnd ''r'', XEnd ''p'']) ps) @ [XEnd ''body'']"

lemma walk_docx_paragraphs: "walk_docx False (docx_tokens ps) = concat (map (\<lambda>p. CHR 0x0A # p) ps)"
proof -
  have "walk_docx False (concat (map (\<lambda>p. [XStart ''p'', XStart ''r'', XStart ''t'', XChars p, XEnd ''t'', XEnd ''r'', XEnd ''p'']) ps) @ [XEnd ''body'']) =
      concat (map (\<lambda>p. CHR 0x0A # p) ps)"
    by (induction ps) simp_all
  then show ?thesis by (simp add: docx_tokens_def)
qed

text \<open>
  Extraction is limited and otherwise exact. A CSV file whose rows can all be read, at most 500,000 of them, and
  every spreadsheet become the first 100,000 of their non-blank rows, tab-joined, one per line; no PDF yields
  more than 8 MiB, and one whose pages fit yields all its text; a document part over 50 MiB is refused, and
  one within yields its runs, a line per paragraph, later parts of the same name being ignored.
\<close>

theorem extraction_limited:
  assumes "data \<noteq> ''''"
  shows "(rd_csv rd data = map Some rows \<and> length rows \<le> 500000 \<longrightarrow>
            csv_Extract rd data = Some (lines_text (take 100000 (kept_lines rows)))) \<and>
    (rd_xlsx rd data = Some sheets \<longrightarrow> xlsx_Extract rd data = Some (lines_text (take 100000 (kept_lines (sheet_rows sheets))))) \<and>
    (pdf_Extract rd data = Some t \<longrightarrow> length t \<le> 8 * 2 ^ 20) \<and>
    (has_prefix data ''%PDF'' \<and> rd_pdf rd data = Some (int n, page) \<and> n \<le> 2000 \<and> length (lines_text (page_texts page 1 n)) \<le> 8 * 2 ^ 20 \<longrightarrow>
       pdf_Extract rd data = Some (lines_text (page_texts page 1 n))) \<and>
    (rd_zip rd data = Some (pre @ f # post) \<and> z_Name f = ''word/document.xml'' \<and> z_Name f \<notin> z_Name ` set pre \<longrightarrow>
       (50 * 2 ^ 20 < z_UncompressedSize64 f \<longrightarrow> docx_Extract rd data = None) \<and>
       (\<forall>s. z_body f = Inflated s \<and> 50 * 2 ^ 20 < length s \<longrightarrow> docx_Extract rd data = None) \<and>
       (\<forall>s ps. z_UncompressedSize64 f \<le> 50 * 2 ^ 20 \<and> z_body f = Inflated s \<and> length s \<le> 50 * 2 ^ 20 \<and> rd_xml rd s = (docx_tokens ps, True) \<longrightarrow>
          docx_Extract rd data = Some (concat (map (\<lambda>p. CHR 0x0A # p) ps))))"
proof -
  have first: "find (\<lambda>f. z_Name f = ''word/document.xml'') (pre @ f # post) = Some f"
    if "z_Name f = ''word/document.xml''" "z_Name f \<notin> z_Name ` set pre"
  proof -
    have "find (\<lambda>f. z_Name f = ''word/document.xml'') pre = None" using that by (auto simp: find_None image_iff)
    then show ?thesis using that by (simp add: find_append)
  qed
  have "rd_csv rd data = map Some rows \<and> length rows \<le> 500000 \<longrightarrow> csv_Extract rd data = Some (lines_text (take 100000 (kept_lines rows)))"
    using assms csv_loop_complete [of 0 0 rows "''''"] by (simp add: csv_Extract_def maxCSVRows_def maxCSVScan_def)
  moreover have "rd_xlsx rd data = Some sheets \<longrightarrow> xlsx_Extract rd data = Some (lines_text (take 100000 (kept_lines (sheet_rows sheets))))"
    using assms by (simp add: xlsx_Extract_def xlsx_sheets_lines maxXLSXRows_def)
  moreover have "pdf_Extract rd data = Some t \<longrightarrow> length t \<le> 8 * 2 ^ 20" using pdf.within_limit by (simp add: maxPDFTextBytes_def)
  moreover have "has_prefix data ''%PDF'' \<and> rd_pdf rd data = Some (int n, page) \<and> n \<le> 2000 \<and> length (lines_text (page_texts page 1 n)) \<le> 8 * 2 ^ 20 \<longrightarrow>
       pdf_Extract rd data = Some (lines_text (page_texts page 1 n))"
    using assms pdf_loop_complete [of "''''" page 1 n] by (auto simp: pdf_Extract_def maxPDFPages_def maxPDFTextBytes_def min_def)
  moreover have "rd_zip rd data = Some (pre @ f # post) \<and> z_Name f = ''word/document.xml'' \<and> z_Name f \<notin> z_Name ` set pre \<longrightarrow>
       (50 * 2 ^ 20 < z_UncompressedSize64 f \<longrightarrow> docx_Extract rd data = None) \<and>
       (\<forall>s. z_body f = Inflated s \<and> 50 * 2 ^ 20 < length s \<longrightarrow> docx_Extract rd data = None) \<and>
       (\<forall>s ps. z_UncompressedSize64 f \<le> 50 * 2 ^ 20 \<and> z_body f = Inflated s \<and> length s \<le> 50 * 2 ^ 20 \<and> rd_xml rd s = (docx_tokens ps, True) \<longrightarrow>
          docx_Extract rd data = Some (concat (map (\<lambda>p. CHR 0x0A # p) ps)))"
    using assms first by (auto simp: docx_Extract_def maxDocxPartBytes_def walkDocxText_def walk_docx_paragraphs Let_def split: zip_body.split)
  ultimately show ?thesis by blast
qed

definition sample_readers :: readers where
  "sample_readers = \<lparr>rd_csv = (\<lambda>_. [Some [''a'', ''b''], Some ['''', ''''], Some [''c'']]), rd_zip = (\<lambda>_. None), rd_xml = (\<lambda>_. ([], True)),
     rd_pdf = (\<lambda>_. Some (1, \<lambda>_. PageText ''page'')), rd_xlsx = (\<lambda>_. None)\<rparr>"

theorem extraction_limited_witness:
  "csv_Extract sample_readers ''x'' = Some (lines_text [''a'' @ [CHR 0x09] @ ''b'', ''c'']) \<and>
   pdf_Extract sample_readers ''%PDF-1.4'' = Some (lines_text [''page''])"
proof
  have k: "kept_lines [[''a'', ''b''], ['''', ''''], [''c'']] = [''a'' @ [CHR 0x09] @ ''b'', ''c'']" by code_simp
  have "rd_csv sample_readers ''x'' = map Some [[''a'', ''b''], ['''', ''''], [''c'']]" by (simp add: sample_readers_def)
  then show "csv_Extract sample_readers ''x'' = Some (lines_text [''a'' @ [CHR 0x09] @ ''b'', ''c''])"
    using extraction_limited [of "''x''" sample_readers "[[''a'', ''b''], ['''', ''''], [''c'']]"] k by simp
  have p: "page_texts (\<lambda>_. PageText ''page'') 1 1 = [''page'']" by (simp add: page_texts_def)
  have "rd_pdf sample_readers ''%PDF-1.4'' = Some (int 1, \<lambda>_. PageText ''page'')" by (simp add: sample_readers_def)
  moreover have "has_prefix ''%PDF-1.4'' ''%PDF''" by code_simp
  ultimately show "pdf_Extract sample_readers ''%PDF-1.4'' = Some (lines_text [''page''])"
    using extraction_limited [of "''%PDF-1.4''" sample_readers _ _ _ 1 "\<lambda>_. PageText ''page''"] p by simp
qed

end
