(* ===== verification/Migration_Model.thy ===== *)
theory Migration_Model
  imports Triage_Prelude
begin

text \<open>
  Schema migrations (\<open>internal/database/sqlite.go\<close>): \<open>Migrate\<close> applies the pending SQL files of a directory in
  lexical order, each in a transaction that also records its version. SQLite is a parameter: \<open>mg_exec\<close> is the effect
  of a script on the data, and \<open>mg_fault\<close> says which statement of which version fails. The data have any type.

  The lemmas show that the recorded versions are always the first ones of the directory and the data the
  result of exactly those scripts, whatever failed in between.
\<close>

section \<open>State and environment\<close>

record 'd schema =
  sc_data :: 'd
  sc_versions :: "string list"

record dir_entry =
  de_Name :: string
  de_IsDir :: bool

datatype mig_op = CreateTable | ReadDir | CheckVersion | ReadScript | BeginTx | RecordVersion | CommitTx

record 'd migrate_env =
  mg_exec :: "string \<Rightarrow> 'd \<Rightarrow> string + 'd"
  mg_script :: "string \<Rightarrow> string"
  mg_fault :: "mig_op \<Rightarrow> string \<Rightarrow> string option"

section \<open>Applying migrations\<close>

definition trim_suffix :: "string \<Rightarrow> string \<Rightarrow> string" where
  "trim_suffix s suf = (if length suf \<le> length s \<and> drop (length s - length suf) s = suf then take (length s - length suf) s else s)"

definition has_suffix :: "string \<Rightarrow> string \<Rightarrow> bool" where
  "has_suffix s suf \<longleftrightarrow> length suf \<le> length s \<and> drop (length s - length suf) s = suf"

definition version_of :: "string \<Rightarrow> string" where "version_of name = trim_suffix name ''.sql''"

text \<open>The transaction: the script and the version row are committed together or not at all.\<close>

definition applyMigration :: "'d migrate_env \<Rightarrow> string \<Rightarrow> string \<Rightarrow> 'd schema \<Rightarrow> string option \<times> 'd schema" where
  "applyMigration v version body st =
     (case mg_fault v BeginTx version of
        Some e \<Rightarrow> (Some e, st)
      | None \<Rightarrow> (case mg_exec v body (sc_data st) of
          Inl e \<Rightarrow> (Some e, st)
        | Inr d \<Rightarrow>
            if version \<in> set (sc_versions st) then (Some ''UNIQUE constraint failed'', st)
            else case mg_fault v RecordVersion version of
              Some e \<Rightarrow> (Some e, st)
            | None \<Rightarrow> (case mg_fault v CommitTx version of
                Some e \<Rightarrow> (Some e, st)
              | None \<Rightarrow> (None, \<lparr>sc_data = d, sc_versions = sc_versions st @ [version]\<rparr>))))"

fun migrate_files :: "'d migrate_env \<Rightarrow> string list \<Rightarrow> 'd schema \<Rightarrow> string option \<times> 'd schema" where
  "migrate_files v [] st = (None, st)"
| "migrate_files v (name # names) st =
     (let version = version_of name in
      case mg_fault v CheckVersion version of
        Some e \<Rightarrow> (Some e, st)
      | None \<Rightarrow>
          if version \<in> set (sc_versions st) then migrate_files v names st
          else case mg_fault v ReadScript version of
            Some e \<Rightarrow> (Some e, st)
          | None \<Rightarrow> (case applyMigration v version (mg_script v name) st of
              (Some e, st1) \<Rightarrow> (Some e, st1)
            | (None, st1) \<Rightarrow> migrate_files v names st1))"

definition migration_files :: "dir_entry list \<Rightarrow> string list" where
  "migration_files entries = sort (map de_Name (filter (\<lambda>e. \<not> de_IsDir e \<and> has_suffix (de_Name e) ''.sql'') entries))"

definition migrate :: "'d migrate_env \<Rightarrow> dir_entry list \<Rightarrow> 'd schema \<Rightarrow> string option \<times> 'd schema" where
  "migrate v entries st =
     (case mg_fault v CreateTable '''' of
        Some e \<Rightarrow> (Some e, st)
      | None \<Rightarrow> (case mg_fault v ReadDir '''' of
          Some e \<Rightarrow> (Some e, st)
        | None \<Rightarrow> migrate_files v (migration_files entries) st))"

section \<open>Exactly once and in order\<close>

fun run_scripts :: "(string \<Rightarrow> 'd \<Rightarrow> string + 'd) \<Rightarrow> string list \<Rightarrow> 'd \<Rightarrow> string + 'd" where
  "run_scripts ex [] d = Inr d"
| "run_scripts ex (s # ss) d = (case ex s d of Inl e \<Rightarrow> Inl e | Inr d' \<Rightarrow> run_scripts ex ss d')"

lemma run_scripts_snoc:
  "run_scripts ex ss d = Inr d' \<Longrightarrow> run_scripts ex (ss @ [s]) d = ex s d'"
  by (induction ss arbitrary: d) (auto split: sum.splits)

text \<open>The state after the first \<open>k\<close> files of a directory.\<close>

definition migrated :: "(string \<Rightarrow> 'd \<Rightarrow> string + 'd) \<Rightarrow> (string \<Rightarrow> string) \<Rightarrow> string list \<Rightarrow> 'd \<Rightarrow> nat \<Rightarrow> 'd schema \<Rightarrow> bool" where
  "migrated ex script files d0 k st \<longleftrightarrow> k \<le> length files \<and> sc_versions st = map version_of (take k files) \<and>
     run_scripts ex (map script (take k files)) d0 = Inr (sc_data st)"

lemma trim_suffix_append: "has_suffix s suf \<Longrightarrow> trim_suffix s suf @ suf = s"
  by (simp add: has_suffix_def trim_suffix_def) (metis append_take_drop_id)

lemma version_of_inj:
  assumes "has_suffix a ''.sql''" and "has_suffix b ''.sql''" and "version_of a = version_of b"
  shows "a = b"
proof -
  have "a = version_of a @ ''.sql''" unfolding version_of_def by (rule trim_suffix_append [OF assms(1), symmetric])
  also have "\<dots> = version_of b @ ''.sql''" by (simp only: assms(3))
  also have "\<dots> = b" unfolding version_of_def by (rule trim_suffix_append [OF assms(2)])
  finally show ?thesis .
qed

lemma applyMigration_step:
  assumes "migrated (mg_exec v) (mg_script v) files d0 k st" and "k < length files"
    and "applyMigration v (version_of (files ! k)) (mg_script v (files ! k)) st = (e, st')"
  shows "if e = None then migrated (mg_exec v) (mg_script v) files d0 (Suc k) st' else st' = st"
proof (cases e)
  case None
  then obtain d where d: "mg_exec v (mg_script v (files ! k)) (sc_data st) = Inr d"
    and st': "st' = \<lparr>sc_data = d, sc_versions = sc_versions st @ [version_of (files ! k)]\<rparr>"
    using assms(3) by (auto simp: applyMigration_def split: option.splits sum.splits if_splits)
  have t: "take (Suc k) files = take k files @ [files ! k]" by (rule take_Suc_conv_app_nth) (rule assms(2))
  show ?thesis using assms(1,2) None d run_scripts_snoc [of "mg_exec v" "map (mg_script v) (take k files)" d0 "sc_data st"]
    by (simp add: migrated_def t st')
next
  case (Some x)
  then show ?thesis using assms(3) by (auto simp: applyMigration_def split: option.splits sum.splits if_splits)
qed

lemma migrated_applied:
  assumes "migrated ex script files d0 k st" and "inj_on version_of (set files)" and "distinct files" and "n < length files"
  shows "version_of (files ! n) \<in> set (sc_versions st) \<longleftrightarrow> n < k"
proof -
  have "version_of (files ! n) \<in> version_of ` set (take k files) \<longleftrightarrow> files ! n \<in> set (take k files)"
    using assms(2,4) by (meson imageI inj_on_image_mem_iff nth_mem set_take_subset)
  also have "\<dots> \<longleftrightarrow> n < k" using assms(3,4) by (auto simp: in_set_conv_nth nth_eq_iff_index_eq)
  finally show ?thesis using assms(1) by (simp add: migrated_def)
qed

text \<open>A file is skipped when its version is recorded, a failing check or read ends the run, and else it is applied.\<close>

lemma migrate_files_Cons:
  assumes "migrate_files v (name # names) st = (e, st')"
  obtains (stuck) "e \<noteq> None" "st' = st"
  | (skipped) "version_of name \<in> set (sc_versions st)" "migrate_files v names st = (e, st')"
  | (failed) "version_of name \<notin> set (sc_versions st)" "e \<noteq> None" "applyMigration v (version_of name) (mg_script v name) st = (e, st')"
  | (applied) st1 where "version_of name \<notin> set (sc_versions st)" "applyMigration v (version_of name) (mg_script v name) st = (None, st1)"
      "migrate_files v names st1 = (e, st')"
proof -
  let ?r = "migrate_files v (name # names) st" and ?a = "applyMigration v (version_of name) (mg_script v name) st"
  have "fst ?r \<noteq> None \<and> snd ?r = st \<or> version_of name \<in> set (sc_versions st) \<and> ?r = migrate_files v names st \<or>
    version_of name \<notin> set (sc_versions st) \<and> fst ?a \<noteq> None \<and> ?r = ?a \<or>
    version_of name \<notin> set (sc_versions st) \<and> fst ?a = None \<and> ?r = migrate_files v names (snd ?a)"
    by (auto simp: Let_def split: option.split prod.split)
  then show thesis unfolding assms using stuck skipped failed applied by (metis fst_conv prod.collapse snd_conv)
qed

lemma migrate_files_migrated:
  assumes "migrated (mg_exec v) (mg_script v) files d0 k st" and "inj_on version_of (set files)" and "distinct files" and "n \<le> length files"
    and "migrate_files v (drop n files) st = (e, st')" and "n \<le> k"
  shows "\<exists>k'\<ge>k. migrated (mg_exec v) (mg_script v) files d0 k' st' \<and> (e = None \<longrightarrow> k' = length files)"
  using assms(1,4,5,6)
proof (induction "length files - n" arbitrary: n k st)
  case 0
  then show ?case by (intro exI [of _ k]) (auto simp: migrated_def)
next
  case (Suc m)
  then have n: "n < length files" and m: "m = length files - Suc n" by simp_all
  have "migrate_files v (files ! n # drop (Suc n) files) st = (e, st')" using Suc.prems(3) by (simp add: Cons_nth_drop_Suc [OF n])
  note applied = migrated_applied [OF Suc.prems(1) assms(2,3) n]
  from \<open>migrate_files v (_ # _) st = _\<close> show ?case
  proof (cases rule: migrate_files_Cons)
    case stuck
    then show ?thesis using Suc.prems(1) by blast
  next
    case skipped
    then show ?thesis using Suc.hyps(1) [OF m Suc.prems(1)] n applied by simp
  next
    case failed
    then have "n = k" using applied Suc.prems(4) by simp
    then show ?thesis using applyMigration_step [OF Suc.prems(1), of e st'] failed n Suc.prems(1) by (cases e) auto
  next
    case (applied st1)
    then have "n = k" using migrated_applied [OF Suc.prems(1) assms(2,3) n] Suc.prems(4) by simp
    then show ?thesis using applyMigration_step [OF Suc.prems(1), of None st1] applied(2,3) n Suc.hyps(1) [OF m, of "Suc k" st1]
      by (auto dest: Suc_leD)
  qed
qed

lemma migration_files_ok:
  assumes "distinct (map de_Name entries)"
  shows "distinct (migration_files entries) \<and> inj_on version_of (set (migration_files entries))"
proof -
  have "has_suffix n ''.sql''" if "n \<in> set (migration_files entries)" for n using that by (auto simp: migration_files_def)
  then have "inj_on version_of (set (migration_files entries))" by (auto intro!: inj_onI version_of_inj)
  then show ?thesis using assms by (simp add: migration_files_def distinct_map_filter)
qed

lemma migrate_migrated:
  assumes "distinct (map de_Name entries)" and "migrated (mg_exec v) (mg_script v) (migration_files entries) d0 k st"
    and "migrate v entries st = (e, st')"
  shows "\<exists>k'\<ge>k. migrated (mg_exec v) (mg_script v) (migration_files entries) d0 k' st' \<and> (e = None \<longrightarrow> k' = length (migration_files entries))"
proof (cases "mg_fault v CreateTable '''' \<noteq> None \<or> mg_fault v ReadDir '''' \<noteq> None")
  case True
  then have "fst (migrate v entries st) \<noteq> None \<and> snd (migrate v entries st) = st" by (auto simp: migrate_def split: option.split)
  then show ?thesis using assms(2,3) by auto
next
  case False
  then have "migrate_files v (drop 0 (migration_files entries)) st = (e, st')" using assms(3) by (simp add: migrate_def)
  then show ?thesis using migrate_files_migrated [OF assms(2)] migration_files_ok [OF assms(1)] by blast
qed

lemma migrate_complete:
  assumes "migrated ex script (migration_files entries) d0 (length (migration_files entries)) st"
  shows "snd (migrate v entries st) = st"
proof -
  have "snd (migrate_files v names st) = st" if "\<forall>n\<in>set names. version_of n \<in> set (sc_versions st)" for names
    using that by (induction names) (auto simp: Let_def split: option.split)
  then show ?thesis using assms by (auto simp: migrate_def migrated_def split: option.split)
qed

section \<open>Property\<close>

text \<open>
  C39. Migrations run exactly once and in lexical order. However many times the program starts and whatever fails
  during each start, the recorded versions are the first files of the directory in order and the data are the
  result of running exactly their scripts, each once. A start without an error leaves all of them applied, and
  no later start changes anything.
\<close>

theorem migrations_once_in_order:
  assumes "distinct (map de_Name entries)" and "\<forall>v\<in>set vs. mg_exec v = ex \<and> mg_script v = script"
    and "st = fold (\<lambda>v st. snd (migrate v entries st)) vs \<lparr>sc_data = d0, sc_versions = []\<rparr>"
  shows "(\<exists>k\<le>length (migration_files entries). sc_versions st = map version_of (take k (migration_files entries)) \<and>
      run_scripts ex (map script (take k (migration_files entries))) d0 = Inr (sc_data st)) \<and>
    (\<forall>v v'. mg_exec v = ex \<and> mg_script v = script \<and> fst (migrate v entries st) = None \<longrightarrow>
       sc_versions (snd (migrate v entries st)) = map version_of (migration_files entries) \<and>
       run_scripts ex (map script (migration_files entries)) d0 = Inr (sc_data (snd (migrate v entries st))) \<and>
       snd (migrate v' entries (snd (migrate v entries st))) = snd (migrate v entries st))"
proof -
  let ?files = "migration_files entries"
  let ?run = "\<lambda>vs. fold (\<lambda>v st. snd (migrate v entries st)) vs \<lparr>sc_data = d0, sc_versions = []\<rparr>"
  have "\<exists>k. migrated ex script ?files d0 k (?run vs)"
    using assms(2)
  proof (induction vs rule: rev_induct)
    case Nil
    show ?case by (intro exI [of _ 0]) (simp add: migrated_def)
  next
    case (snoc v vs)
    have v: "mg_exec v = ex" "mg_script v = script" and "\<forall>v\<in>set vs. mg_exec v = ex \<and> mg_script v = script" using snoc.prems by simp_all
    then obtain k where k: "migrated (mg_exec v) (mg_script v) ?files d0 k (?run vs)" using snoc.IH unfolding v by blast
    have "?run (vs @ [v]) = snd (migrate v entries (?run vs))" by simp
    then show ?case using migrate_migrated [OF assms(1) k prod.collapse [symmetric]] unfolding v by auto
  qed
  then have "\<exists>k. migrated ex script ?files d0 k st" unfolding assms(3) .
  then obtain k where k: "migrated ex script ?files d0 k st" ..
  have full: "migrated ex script ?files d0 (length ?files) (snd (migrate v entries st))"
    if "mg_exec v = ex" "mg_script v = script" "fst (migrate v entries st) = None" for v
    using migrate_migrated [OF assms(1), of v d0 k st, OF _ prod.collapse [symmetric]] k that by auto
  show ?thesis
  proof (intro conjI allI impI)
    show "\<exists>k\<le>length ?files. sc_versions st = map version_of (take k ?files) \<and> run_scripts ex (map script (take k ?files)) d0 = Inr (sc_data st)"
      using k unfolding migrated_def by blast
  next
    fix v v'
    assume "mg_exec v = ex \<and> mg_script v = script \<and> fst (migrate v entries st) = None"
    then have f: "migrated ex script ?files d0 (length ?files) (snd (migrate v entries st))" using full by blast
    then show "sc_versions (snd (migrate v entries st)) = map version_of ?files"
      and "run_scripts ex (map script ?files) d0 = Inr (sc_data (snd (migrate v entries st)))" by (simp_all add: migrated_def)
    show "snd (migrate v' entries (snd (migrate v entries st))) = snd (migrate v entries st)" by (rule migrate_complete [OF f])
  qed
qed

text \<open>Two scripts that record themselves in the data; the first start fails at the second one.\<close>

definition sample_migrate :: "(mig_op \<Rightarrow> string \<Rightarrow> string option) \<Rightarrow> string list migrate_env" where
  "sample_migrate f = \<lparr>mg_exec = (\<lambda>s d. Inr (d @ [s])), mg_script = (\<lambda>n. n), mg_fault = f\<rparr>"

definition sample_dir :: "dir_entry list" where
  "sample_dir = [\<lparr>de_Name = ''0002_b.sql'', de_IsDir = False\<rparr>, \<lparr>de_Name = ''README'', de_IsDir = False\<rparr>, \<lparr>de_Name = ''0001_a.sql'', de_IsDir = False\<rparr>]"

theorem migrations_once_in_order_witness:
  "sc_data (snd (migrate (sample_migrate (\<lambda>_ _. None)) sample_dir
     (snd (migrate (sample_migrate (\<lambda>p n. if p = CommitTx \<and> n = ''0002_b'' then Some ''disk'' else None)) sample_dir \<lparr>sc_data = [], sc_versions = []\<rparr>)))) =
   [''0001_a.sql'', ''0002_b.sql'']"
proof -
  let ?bad = "sample_migrate (\<lambda>p n. if p = CommitTx \<and> n = ''0002_b'' then Some ''disk'' else None)"
  let ?good = "sample_migrate (\<lambda>_ _. None)"
  let ?s0 = "\<lparr>sc_data = [], sc_versions = []\<rparr> :: string list schema"
  have d: "distinct (map de_Name sample_dir)" by code_simp
  have files: "migration_files sample_dir = [''0001_a.sql'', ''0002_b.sql'']" by code_simp
  have ok: "fst (migrate ?good sample_dir (snd (migrate ?bad sample_dir ?s0))) = None" by code_simp
  have "run_scripts (\<lambda>s d. Inr (d @ [s])) (map (\<lambda>n. n) (migration_files sample_dir)) [] =
      Inr (sc_data (snd (migrate ?good sample_dir (snd (migrate ?bad sample_dir ?s0)))))"
    using migrations_once_in_order [OF d, of "[?bad]" "\<lambda>s d. Inr (d @ [s])" "\<lambda>n. n" "snd (migrate ?bad sample_dir ?s0)" "[]"] ok
    by (simp add: sample_migrate_def)
  then show ?thesis by (simp add: files)
qed

end
