(* ===== verification/App_Model.thy ===== *)
theory App_Model
  imports Platform_Model Imap_Client Extractor_Model Migration_Model
begin

text \<open>
  How the program is put together (\<open>internal/app/build.go\<close>, \<open>internal/app/app.go\<close>), the connection factory of the
  IMAP client (\<open>dialIMAP\<close> in \<open>internal/delivery/imap/client.go\<close>) and the panic guard of the workers
  (\<open>recoverCheck\<close> in \<open>internal/service/escalation.go\<close>). Opening the database, loading the checklists and the answers of the
  server are parameters; what is modelled is the order of the steps, which failure ends the start, and that
  whatever was acquired before is released.
\<close>

section \<open>Connecting to the mailbox\<close>

datatype conn_event = Connected | Disconnected

record dial_env =
  di_connect :: "string option"
  di_auth :: "string option"
  di_select :: "string + int"
  di_list :: "string + nat list"

text \<open>
  The refresh of the capabilities has no field: its failure is only logged. The hierarchy delimiter is that of the
  first listed mailbox that has one.
\<close>

definition discoverDelim :: "string + nat list \<Rightarrow> string" where
  "discoverDelim answer = (case answer of
       Inl _ \<Rightarrow> ''/''
     | Inr ds \<Rightarrow> (case find (\<lambda>d. d \<noteq> 0) ds of None \<Rightarrow> ''/'' | Some d \<Rightarrow> utf8 d))"

record imap_mailbox =
  im_maxBytes :: int
  im_folderPrefix :: string
  im_uidValidity :: int
  im_delim :: string

definition dialIMAP :: "imap_config \<Rightarrow> dial_env \<Rightarrow> (string + imap_mailbox) \<times> conn_event list" where
  "dialIMAP c v =
     (case di_connect v of
        Some e \<Rightarrow> (Inl (''imap dial: '' @ e), [])
      | None \<Rightarrow> (case di_auth v of
          Some e \<Rightarrow> (Inl (''imap auth: '' @ e), [Connected, Disconnected])
        | None \<Rightarrow> (case di_select v of
            Inl e \<Rightarrow> (Inl (''imap select '' @ [CHR 0x22] @ imap_Mailbox c @ [CHR 0x22] @ '': '' @ e), [Connected, Disconnected])
          | Inr uv \<Rightarrow>
              (Inr \<lparr>im_maxBytes = maxMessageBytes c, im_folderPrefix = imap_FolderPrefix c, im_uidValidity = uv,
                 im_delim = discoverDelim (di_list v)\<rparr>, [Connected]))))"

section \<open>Building the application\<close>

datatype db_event = DBOpened | DBClosed

record build_env =
  be_open :: "string option"
  be_migrate :: "string option"
  be_walk :: "walk_entry list"
  be_parse :: "string \<Rightarrow> gotime option"

definition openDB :: "build_env \<Rightarrow> string option \<times> db_event list" where
  "openDB v = (case be_open v of
       Some e \<Rightarrow> (Some e, [])
     | None \<Rightarrow> (case be_migrate v of Some e \<Rightarrow> (Some e, [DBOpened, DBClosed]) | None \<Rightarrow> (None, [DBOpened])))"

record built_app =
  ba_config :: app_config
  ba_store :: store
  ba_llm :: bool
  ba_tokens :: "token_source option"
  ba_sender :: sender_kind
  ba_poller :: "poller option"

text \<open>After the database, every failure closes it again. The model client exists exactly when a key is set.\<close>

definition build_app :: "build_env \<Rightarrow> app_config \<Rightarrow> (string + built_app) \<times> db_event list" where
  "build_app v c0 =
     (let c = resolveDeprecatedConfig c0 in
      case openDB v of
        (Some e, evs) \<Rightarrow> (Inl e, evs)
      | (None, evs) \<Rightarrow>
          (case store_reload (be_walk v) [] of
             (Some e, _) \<Rightarrow> (Inl (''load checklists: '' @ error_str e), evs @ [DBClosed])
           | (None, st) \<Rightarrow>
               (case (if oAuthEnabled (ac_Mail c) then map_sum id Some (newTokenSource (mail_OAuth (ac_Mail c))) else Inr None) of
                  Inl e \<Rightarrow> (Inl e, evs @ [DBClosed])
                | Inr tokens \<Rightarrow>
                    (case chooseSender c of
                       Inl e \<Rightarrow> (Inl e, evs @ [DBClosed])
                     | Inr sender \<Rightarrow>
                         (Inr \<lparr>ba_config = c, ba_store = st, ba_llm = (ant_APIKey (ac_Anthropic c) \<noteq> ''''), ba_tokens = tokens, ba_sender = sender,
                            ba_poller = (if imapConfigured c then Some (newPoller (be_parse v) (ac_IMAP c)) else None)\<rparr>, evs)))))"

datatype startup_gap = NoDigestRecipient | NoChecklists | NoModelKey | LogOnlySender | RepliesOff | NoDigest | NoRetention | NoSizeCap

definition anyChecklistDigestRecipient :: "store \<Rightarrow> bool" where
  "anyChecklistDigestRecipient st \<longleftrightarrow> list_ex (\<lambda>c. ep_DigestRecipient (c_Escalation c) \<noteq> '''') (store_all st)"

definition warnStartupGaps :: "app_config \<Rightarrow> store \<Rightarrow> sender_kind \<Rightarrow> startup_gap list" where
  "warnStartupGaps c st sender =
     (if dig_Recipient (ac_Digest c) = '''' \<and> \<not> anyChecklistDigestRecipient st then [NoDigestRecipient] else []) @
     (if store_all st = [] then [NoChecklists] else []) @
     (if ant_APIKey (ac_Anthropic c) = '''' then [NoModelKey] else []) @
     (if sender = LogSender then [LogOnlySender] else []) @
     (if rep_RepliesEnabled (ac_Reply c) = Some False then [RepliesOff] else []) @
     (if dig_IntervalHours (ac_Digest c) \<le> 0 then [NoDigest] else []) @
     (if ret_IntervalHours (ac_Retention c) \<le> 0 then [NoRetention] else []) @
     (if imap_MaxMessageMB (ac_IMAP c) = 0 then [NoSizeCap] else [])"

text \<open>
  The exit of the process: an error of the configuration, the logger or the build, none after migrating only, and else
  the listen error the HTTP server left behind, if any.
\<close>

definition app_Run :: "build_env \<Rightarrow> string + app_config \<Rightarrow> string option \<Rightarrow> bool \<Rightarrow> string option \<Rightarrow> string option \<times> db_event list" where
  "app_Run v parsed logErr migrateOnly listenErr =
     (case config_load (be_parse v) parsed of
        Inl e \<Rightarrow> (Some (''load config: '' @ e), [])
      | Inr c \<Rightarrow> (case logErr of
          Some e \<Rightarrow> (Some (''setup logger: '' @ e), [])
        | None \<Rightarrow> (case build_app v c of
            (Inl e, evs) \<Rightarrow> (Some e, evs)
          | (Inr b, evs) \<Rightarrow>
              (if migrateOnly then None else map_option (\<lambda>e. ''http server failed: '' @ e) listenErr, evs @ [DBClosed]))))"

section \<open>The panic guard\<close>

text \<open>A check body ends with the world it left and whether it panicked; a panic is audited and goes no further.\<close>

definition recoverCheck :: "env \<Rightarrow> string \<Rightarrow> (world \<Rightarrow> bool \<times> world) \<Rightarrow> world \<Rightarrow> world" where
  "recoverCheck v name body w =
     (let (panicked, w1) = body w
      in if panicked then audit v '''' EventWorkerPanic [(''check'', AString name)] w1 else w1)"

lemma recoverCheck_core: "same_core (snd (body w)) (recoverCheck v name body w)"
  by (auto simp: recoverCheck_def Let_def split: prod.split)

section \<open>Properties\<close>

lemma dialIMAP_releases:
  "(case fst (dialIMAP c v) of
      Inl _ \<Rightarrow> count_list (snd (dialIMAP c v)) Connected = count_list (snd (dialIMAP c v)) Disconnected
    | Inr _ \<Rightarrow> snd (dialIMAP c v) = [Connected])"
  by (simp add: dialIMAP_def split: option.split sum.split)

text \<open>The configuration the service runs with, in the environment of its handlers.\<close>

definition runs_with :: "env \<Rightarrow> built_app \<Rightarrow> bool" where
  "runs_with v b \<longleftrightarrow> v_cfg v = service_config (ba_config b) \<and> v_store v = ba_store b"

lemma firstDigestRecipient_none:
  "firstDigestRecipient v = '''' \<longleftrightarrow> cfg_DigestRecipient (v_cfg v) = '''' \<and> \<not> anyChecklistDigestRecipient (v_store v)"
  by (auto simp: firstDigestRecipient_def anyChecklistDigestRecipient_def list_ex_iff find_None split: option.split dest: find_Some_mem)

lemma openDB_cases:
  "(\<exists>e. openDB v = (Some e, []) \<and> be_open v = Some e) \<or>
   (\<exists>e. openDB v = (Some e, [DBOpened, DBClosed]) \<and> be_open v = None \<and> be_migrate v = Some e) \<or>
   (openDB v = (None, [DBOpened]) \<and> be_open v = None \<and> be_migrate v = None)"
  by (simp add: openDB_def split: option.split)

lemma build_app_events:
  "case build_app v c of
     (Inl _, evs) \<Rightarrow> evs = [] \<or> evs = [DBOpened, DBClosed]
   | (Inr _, evs) \<Rightarrow> evs = [DBOpened]"
  using openDB_cases [of v] by (auto simp: build_app_def Let_def split: prod.split option.split sum.split)

lemma map_sum_Inr: "map_sum id f x = Inr y \<longleftrightarrow> (\<exists>z. x = Inr z \<and> y = f z)"
  by (cases x) auto

lemma build_app_Inr:
  "build_app v c = (Inr b, evs) \<Longrightarrow>
     ba_config b = resolveDeprecatedConfig c \<and> chooseSender (ba_config b) = Inr (ba_sender b) \<and>
     store_reload (be_walk v) [] = (None, ba_store b) \<and>
     (ba_poller b \<noteq> None \<longleftrightarrow> imapConfigured (ba_config b)) \<and>
     (ba_tokens b \<noteq> None \<longleftrightarrow> oAuthEnabled (ac_Mail (ba_config b)))"
  by (auto simp: build_app_def Let_def map_sum_Inr split: prod.splits option.splits sum.splits if_splits)

lemma resolveDeprecatedConfig_keeps:
  "ac_Mail (resolveDeprecatedConfig c) = ac_Mail c"
  "ac_OutboundProvider (resolveDeprecatedConfig c) = ac_OutboundProvider c"
  "imapConfigured (resolveDeprecatedConfig c) = imapConfigured c"
  by (simp_all add: resolveDeprecatedConfig_def Let_def imapConfigured_def imap_configured_def)

text \<open>
  Whatever fails during the start, the database the application opened is not left open: when the build fails the
  database was either never opened or is closed again, when it succeeds exactly one is open, and the process always ends
  with as many closings as openings.
\<close>

theorem startup_releases_database:
  shows "case build_app v c of
           (Inl _, evs) \<Rightarrow> count_list evs DBOpened = count_list evs DBClosed
         | (Inr _, evs) \<Rightarrow> evs = [DBOpened]"
    and "count_list (snd (app_Run v parsed logErr migrateOnly listenErr)) DBOpened =
           count_list (snd (app_Run v parsed logErr migrateOnly listenErr)) DBClosed"
proof -
  have a: "case build_app v c of
           (Inl _, evs) \<Rightarrow> count_list evs DBOpened = count_list evs DBClosed
         | (Inr _, evs) \<Rightarrow> evs = [DBOpened]" for c
    using build_app_events [of v c] by (auto split: prod.splits sum.splits)
  then show "case build_app v c of
           (Inl _, evs) \<Rightarrow> count_list evs DBOpened = count_list evs DBClosed
         | (Inr _, evs) \<Rightarrow> evs = [DBOpened]" .
  show "count_list (snd (app_Run v parsed logErr migrateOnly listenErr)) DBOpened =
           count_list (snd (app_Run v parsed logErr migrateOnly listenErr)) DBClosed"
  proof (cases "config_load (be_parse v) parsed")
    case (Inr c)
    then show ?thesis using a [of c] by (auto simp: app_Run_def split: option.split prod.splits sum.splits)
  qed (simp add: app_Run_def)
qed

text \<open>
  The warnings of the start tell the truth about the running service. Of a service that runs with the
  built configuration and checklists: the warning that no status mail will reach anyone is given exactly when the digest has
  no recipient, the warning about the kill switch exactly when replies are switched off, the
  warning about logged mail exactly when the configured provider is \<open>log\<close>, the warning about missing
  checklists exactly when no policy type is known, and there is a poller exactly when IMAP is configured.
\<close>

theorem startup_warnings_truthful:
  assumes "build_app e c = (Inr b, evs)" and "runs_with v b"
  shows "(NoDigestRecipient \<in> set (warnStartupGaps (ba_config b) (ba_store b) (ba_sender b)) \<longleftrightarrow> firstDigestRecipient v = '''') \<and>
    (RepliesOff \<in> set (warnStartupGaps (ba_config b) (ba_store b) (ba_sender b)) \<longleftrightarrow> replies_disabled (v_cfg v)) \<and>
    (LogOnlySender \<in> set (warnStartupGaps (ba_config b) (ba_store b) (ba_sender b)) \<longleftrightarrow> equal_fold (ac_OutboundProvider c) ''log'') \<and>
    (NoChecklists \<in> set (warnStartupGaps (ba_config b) (ba_store b) (ba_sender b)) \<longleftrightarrow> store_all (v_store v) = []) \<and>
    (ba_poller b = None \<longleftrightarrow> \<not> imapConfigured c)"
proof (intro conjI)
  note b = build_app_Inr [OF assms(1)]
  show "NoDigestRecipient \<in> set (warnStartupGaps (ba_config b) (ba_store b) (ba_sender b)) \<longleftrightarrow> firstDigestRecipient v = ''''"
    using assms(2) by (auto simp: warnStartupGaps_def runs_with_def firstDigestRecipient_none service_config_def)
  show "RepliesOff \<in> set (warnStartupGaps (ba_config b) (ba_store b) (ba_sender b)) \<longleftrightarrow> replies_disabled (v_cfg v)"
    using assms(2) by (auto simp: warnStartupGaps_def runs_with_def replies_disabled_def service_config_def)
  have "ba_sender b = LogSender \<longleftrightarrow> equal_fold (ac_OutboundProvider c) ''log''"
    using b chooseSender_log [of "ba_config b"] by (auto simp: resolveDeprecatedConfig_keeps)
  then show "LogOnlySender \<in> set (warnStartupGaps (ba_config b) (ba_store b) (ba_sender b)) \<longleftrightarrow> equal_fold (ac_OutboundProvider c) ''log''"
    by (auto simp: warnStartupGaps_def)
  show "NoChecklists \<in> set (warnStartupGaps (ba_config b) (ba_store b) (ba_sender b)) \<longleftrightarrow> store_all (v_store v) = []"
    using assms(2) by (auto simp: warnStartupGaps_def runs_with_def)
  show "ba_poller b = None \<longleftrightarrow> \<not> imapConfigured c"
    using b by (auto simp: resolveDeprecatedConfig_keeps)
qed

text \<open>A local run: no checklists, mail to the log.\<close>

definition sample_build :: build_env where
  "sample_build = \<lparr>be_open = None, be_migrate = None, be_walk = [], be_parse = (\<lambda>_. None)\<rparr>"

definition local_config :: app_config where
  "local_config = default_config\<lparr>ac_OutboundProvider := ''LOG''\<rparr>"

lemma local_config_start:
  "resolveDeprecatedConfig local_config = local_config" "chooseSender local_config = Inr LogSender"
  "\<not> oAuthEnabled (ac_Mail local_config)" "\<not> imapConfigured local_config"
  "equal_fold (ac_OutboundProvider local_config) ''log''" "\<not> replies_disabled (service_config local_config)"
proof -
  show c: "equal_fold (ac_OutboundProvider local_config) ''log''"
    by (simp add: local_config_def equal_fold_def to_lower_def to_lower_char_def char_code_def) code_simp
  then show "chooseSender local_config = Inr LogSender" by (simp only: chooseSender_log)
  show o: "\<not> oAuthEnabled (ac_Mail local_config)" by code_simp
  show "\<not> imapConfigured local_config" using o by (simp add: imapConfigured_def imap_configured_def local_config_def default_config_def)
  show "resolveDeprecatedConfig local_config = local_config"
    by (simp add: resolveDeprecatedConfig_def Let_def) (simp add: local_config_def default_config_def)
  show "\<not> replies_disabled (service_config local_config)"
    by (simp add: replies_disabled_def service_config_def local_config_def default_config_def)
qed

theorem startup_warnings_truthful_witness:
  "\<exists>b. build_app sample_build local_config = (Inr b, [DBOpened]) \<and>
     {NoDigestRecipient, LogOnlySender, NoChecklists} \<subseteq> set (warnStartupGaps (ba_config b) (ba_store b) (ba_sender b)) \<and>
     RepliesOff \<notin> set (warnStartupGaps (ba_config b) (ba_store b) (ba_sender b)) \<and> ba_poller b = None"
proof -
  obtain b where b: "build_app sample_build local_config = (Inr b, [DBOpened])" "ba_store b = []" "ba_config b = local_config"
    by (simp add: build_app_def openDB_def sample_build_def store_reload_def local_config_start)
  let ?v = "sample_env\<lparr>v_cfg := service_config (ba_config b), v_store := ba_store b\<rparr>"
  have "runs_with ?v b" by (simp add: runs_with_def)
  note w = startup_warnings_truthful [OF b(1) this]
  have "store_all (v_store ?v) = []" "firstDigestRecipient ?v = ''''" "\<not> replies_disabled (v_cfg ?v)"
    using local_config_start(6)
    by (simp_all add: b store_all_def firstDigestRecipient_def service_config_def local_config_def default_config_def)
  then show ?thesis using b(1) w local_config_start(4,5) by blast
qed

end
