(* ===== verification/Imap_Session.thy ===== *)
theory Imap_Session
  imports App_Model
begin

text \<open>
  The mailbox adapter of \<open>internal/delivery/imap/client.go\<close> as a refinement of the mailbox the poller sees: each command of the
  poller (mark read, flag, file) as the commands it sends to the server, with the server's answers as a parameter, and the end of a
  connection. Reading is in \<open>Imap_Client\<close>, connecting in \<open>App_Model\<close>.

  The lemmas show that whatever the poller asks for and whatever the server answers, no message is removed that the poller
  did not file and the server did not confirm to have copied.
\<close>

section \<open>Commands on the wire\<close>

datatype imap_flag = FlagSeen | FlagFlagged | FlagDeleted

text \<open>A store adds one flag, silently; \<open>UID EXPUNGE\<close> names its message.\<close>

datatype wire_cmd = WLogin string string | WStoreAdd int imap_flag | WMove int string | WCopy int string | WCreate string | WUIDExpunge int | WLogout

type_synonym wire_log = "(wire_cmd \<times> bool) list"

definition wire_send :: "(nat \<Rightarrow> bool) \<Rightarrow> wire_cmd \<Rightarrow> wire_log \<Rightarrow> bool \<times> wire_log" where
  "wire_send answers c l = (answers (length l), l @ [(c, answers (length l))])"

definition passwordAuth :: "string \<Rightarrow> string \<Rightarrow> (nat \<Rightarrow> bool) \<Rightarrow> wire_log \<Rightarrow> bool \<times> wire_log" where
  "passwordAuth username password answers l = wire_send answers (WLogin username password) l"

definition imap_MarkSeen :: "(nat \<Rightarrow> bool) \<Rightarrow> int \<Rightarrow> wire_log \<Rightarrow> bool \<times> wire_log" where
  "imap_MarkSeen answers uid l = wire_send answers (WStoreAdd uid FlagSeen) l"

definition imap_Flag :: "(nat \<Rightarrow> bool) \<Rightarrow> int \<Rightarrow> wire_log \<Rightarrow> bool \<times> wire_log" where
  "imap_Flag answers uid l = wire_send answers (WStoreAdd uid FlagFlagged) l"

text \<open>\<open>clientFiler\<close>: the operations of the ladder as commands.\<close>

primrec clientFiler :: "file_op \<Rightarrow> wire_cmd" where
  "clientFiler (FMove uid mailbox) = WMove uid mailbox"
| "clientFiler (FCopy uid mailbox) = WCopy uid mailbox"
| "clientFiler (FCreate mailbox) = WCreate mailbox"
| "clientFiler (FMarkDeleted uid) = WStoreAdd uid FlagDeleted"
| "clientFiler (FExpunge uid) = WUIDExpunge uid"

record imap_caps =
  cap_Move :: bool
  cap_UIDPlus :: bool

definition imap_File :: "imap_caps \<Rightarrow> imap_mailbox \<Rightarrow> (nat \<Rightarrow> bool) \<Rightarrow> int \<Rightarrow> string \<Rightarrow> wire_log \<Rightarrow> bool \<times> wire_log" where
  "imap_File caps m answers uid folder l =
     (let (ok, ops) = fileByLadder (\<lambda>n. answers (length l + n)) (cap_Move caps) (cap_UIDPlus caps) uid
                        (folderPath (im_folderPrefix m) (im_delim m) folder) []
      in (ok, l @ map (\<lambda>(f, b). (clientFiler f, b)) ops))"

text \<open>The commands of the poller, and a sequence of them.\<close>

primrec imap_run :: "imap_caps \<Rightarrow> imap_mailbox \<Rightarrow> (nat \<Rightarrow> bool) \<Rightarrow> mb_cmd \<Rightarrow> wire_log \<Rightarrow> bool \<times> wire_log" where
  "imap_run caps m answers (MarkSeen uid) l = imap_MarkSeen answers uid l"
| "imap_run caps m answers (SetFlag uid) l = imap_Flag answers uid l"
| "imap_run caps m answers (FileInto uid folder) l = imap_File caps m answers uid folder l"

definition imap_run_all :: "imap_caps \<Rightarrow> imap_mailbox \<Rightarrow> (nat \<Rightarrow> bool) \<Rightarrow> mb_cmd list \<Rightarrow> wire_log \<Rightarrow> wire_log" where
  "imap_run_all caps m answers cmds l = fold (\<lambda>c l. snd (imap_run caps m answers c l)) cmds l"

section \<open>The end of a connection\<close>

text \<open>The stop channel, how often it was closed (a second time panics), and how often the connection was.\<close>

record imap_conn =
  ic_stopped :: bool
  ic_stopCloses :: nat
  ic_connCloses :: nat
  ic_loggedOut :: bool

definition fresh_conn :: imap_conn where
  "fresh_conn = \<lparr>ic_stopped = False, ic_stopCloses = 0, ic_connCloses = 0, ic_loggedOut = False\<rparr>"

definition mailbox_Close :: "imap_conn \<Rightarrow> imap_conn" where
  "mailbox_Close c =
     (let c1 = (if ic_stopped c then c else c\<lparr>ic_stopped := True, ic_stopCloses := Suc (ic_stopCloses c)\<rparr>)
      in c1\<lparr>ic_loggedOut := True, ic_connCloses := Suc (ic_connCloses c1)\<rparr>)"

text \<open>The goroutine beside a connection: it returns when either channel is closed, and closes the connection on cancellation.\<close>

definition closeOnCancel :: "bool \<Rightarrow> imap_conn \<Rightarrow> imap_conn option" where
  "closeOnCancel cancelled c =
     (if cancelled then Some (c\<lparr>ic_connCloses := Suc (ic_connCloses c)\<rparr>) else if ic_stopped c then Some c else None)"

lemma mailbox_Close_once:
  "ic_stopCloses ((mailbox_Close ^^ Suc n) fresh_conn) = 1 \<and> ic_stopped ((mailbox_Close ^^ Suc n) fresh_conn)"
  by (induction n) (simp_all add: mailbox_Close_def fresh_conn_def Let_def)

lemma closed_watcher_returns: "\<exists>c'. closeOnCancel cancelled (mailbox_Close c) = Some c'"
  by (simp add: closeOnCancel_def mailbox_Close_def Let_def)

section \<open>Nothing is removed that was not filed\<close>

text \<open>A log in which every removal of a message follows a confirmed copy of it into one of the given places.\<close>

definition copied_before :: "(int \<times> string) set \<Rightarrow> wire_log \<Rightarrow> bool" where
  "copied_before places l \<longleftrightarrow> (\<forall>i<length l. \<forall>uid. fst (l ! i) \<in> {WStoreAdd uid FlagDeleted, WUIDExpunge uid} \<longrightarrow>
     (\<exists>j<i. \<exists>path. l ! j = (WCopy uid path, True) \<and> (uid, path) \<in> places))"

definition named_only :: "(int \<times> string) set \<Rightarrow> int set \<Rightarrow> wire_log \<Rightarrow> bool" where
  "named_only places marked l \<longleftrightarrow> (\<forall>(c, b)\<in>set l. case c of
       WMove uid path \<Rightarrow> (uid, path) \<in> places
     | WCopy uid path \<Rightarrow> (uid, path) \<in> places
     | WStoreAdd uid f \<Rightarrow> f = FlagDeleted \<and> uid \<in> fst ` places \<or> f \<noteq> FlagDeleted \<and> uid \<in> marked
     | WCreate path \<Rightarrow> path \<in> snd ` places
     | WUIDExpunge uid \<Rightarrow> uid \<in> fst ` places
     | _ \<Rightarrow> False)"

lemma copied_before_append:
  assumes "copied_before P l" and "copied_before P l'"
  shows "copied_before P (l @ l')"
  unfolding copied_before_def
proof (intro allI impI)
  fix i uid
  assume i: "i < length (l @ l')" and r: "fst ((l @ l') ! i) \<in> {WStoreAdd uid FlagDeleted, WUIDExpunge uid}"
  show "\<exists>j<i. \<exists>path. (l @ l') ! j = (WCopy uid path, True) \<and> (uid, path) \<in> P"
  proof (cases "i < length l")
    case True
    then have "fst (l ! i) \<in> {WStoreAdd uid FlagDeleted, WUIDExpunge uid}" using r by (simp add: nth_append)
    then obtain j path where "j < i" "l ! j = (WCopy uid path, True)" "(uid, path) \<in> P" using assms(1) True unfolding copied_before_def by blast
    then show ?thesis using True by (intro exI [of _ j]) (auto simp: nth_append)
  next
    case False
    then have "i - length l < length l'" "fst (l' ! (i - length l)) \<in> {WStoreAdd uid FlagDeleted, WUIDExpunge uid}"
      using i r by (auto simp: nth_append)
    then obtain j path where "j < i - length l" "l' ! j = (WCopy uid path, True)" "(uid, path) \<in> P"
      using assms(2) unfolding copied_before_def by blast
    then show ?thesis using False by (intro exI [of _ "length l + j"]) (auto simp: nth_append)
  qed
qed

lemma named_only_append [simp]: "named_only P M (l @ l') \<longleftrightarrow> named_only P M l \<and> named_only P M l'"
  unfolding named_only_def by auto

text \<open>The logs of one filing: a move or a copy, perhaps after creating the folder, and the removal after a confirmed copy.\<close>

lemma withCreate_logs:
  "withCreate answers path f [] = (ok, ops) \<Longrightarrow> (\<exists>b. ops = [(f, b)]) \<or> (\<exists>b b'. ops = [(f, False), (FCreate path, b), (f, b')])"
  by (auto simp: withCreate_def do_op_def split: bool.splits)

lemma withCreate_ok: "withCreate answers path f [] = (ok, ops) \<Longrightarrow> snd (last ops) = ok"
  by (auto simp: withCreate_def do_op_def split: bool.splits)

lemma ladder_logs:
  assumes "fileByLadder answers mv up uid path [] = (ok, ops)"
  obtains (one) f b where "f = FMove uid path \<or> f = FCopy uid path" "ops = [(f, b)]"
  | (created) f b b' where "f = FMove uid path \<or> f = FCopy uid path" "ops = [(f, False), (FCreate path, b), (f, b')]"
  | (removed) pre b post where "pre = [] \<or> (\<exists>b. pre = [(FCopy uid path, False), (FCreate path, b)])"
      "ops = pre @ (FCopy uid path, True) # (FMarkDeleted uid, b) # post" "post = [] \<or> (\<exists>b. post = [(FExpunge uid, b)])"
proof -
  show thesis
  proof (cases "\<not> mv \<and> up")
    case False
    define f where "f = (if mv then FMove uid path else FCopy uid path)"
    have "withCreate answers path f [] = (ok, ops)" using assms False by (auto simp: fileByLadder_def f_def split: if_splits)
    then have "(\<exists>b. ops = [(f, b)]) \<or> (\<exists>b b'. ops = [(f, False), (FCreate path, b), (f, b')])" using withCreate_logs by blast
    moreover have "f = FMove uid path \<or> f = FCopy uid path" by (simp add: f_def)
    ultimately show thesis using one created by blast
  next
    case True
    obtain ok1 pre where w: "withCreate answers path (FCopy uid path) [] = (ok1, pre)" by fastforce
    show ?thesis
    proof (cases ok1)
      case False
      then have "ops = pre" using assms True w by (simp add: fileByLadder_def)
      then show thesis using withCreate_logs [OF w] one created by blast
    next
      case ok1: True
      then have "\<exists>b post. ops = pre @ (FMarkDeleted uid, b) # post \<and> (post = [] \<or> (\<exists>b. post = [(FExpunge uid, b)]))"
        using assms True w by (auto simp: fileByLadder_def do_op_def split: bool.splits)
      then obtain b post where ops: "ops = pre @ (FMarkDeleted uid, b) # post" "post = [] \<or> (\<exists>b. post = [(FExpunge uid, b)])" by blast
      have "\<exists>pre0. pre = pre0 @ [(FCopy uid path, True)] \<and> (pre0 = [] \<or> (\<exists>b. pre0 = [(FCopy uid path, False), (FCreate path, b)]))"
        using withCreate_logs [OF w]
      proof
        assume "\<exists>b. pre = [(FCopy uid path, b)]"
        then show ?thesis using withCreate_ok [OF w] ok1 by (intro exI [of _ "[]"]) auto
      next
        assume "\<exists>b b'. pre = [(FCopy uid path, False), (FCreate path, b), (FCopy uid path, b')]"
        then obtain b b' where pre: "pre = [(FCopy uid path, False), (FCreate path, b), (FCopy uid path, b')]" by blast
        then show ?thesis using withCreate_ok [OF w] ok1 by (intro exI [of _ "[(FCopy uid path, False), (FCreate path, b)]"]) auto
      qed
      then obtain pre0 where pre: "pre = pre0 @ [(FCopy uid path, True)]"
        "pre0 = [] \<or> (\<exists>b. pre0 = [(FCopy uid path, False), (FCreate path, b)])" by blast
      have "ops = pre0 @ (FCopy uid path, True) # (FMarkDeleted uid, b) # post" using ops(1) pre(1) by simp
      then show thesis by (rule removed [OF pre(2) _ ops(2)])
    qed
  qed
qed

lemma copied_before_plain:
  "\<forall>(c, b)\<in>set l. \<forall>uid. c \<noteq> WStoreAdd uid FlagDeleted \<and> c \<noteq> WUIDExpunge uid \<Longrightarrow> copied_before P l"
  unfolding copied_before_def
proof (intro allI impI)
  fix i uid
  assume all: "\<forall>(c, b)\<in>set l. \<forall>uid. c \<noteq> WStoreAdd uid FlagDeleted \<and> c \<noteq> WUIDExpunge uid"
    and i: "i < length l" "fst (l ! i) \<in> {WStoreAdd uid FlagDeleted, WUIDExpunge uid}"
  have False using bspec [OF all nth_mem [OF i(1)]] i(2) by (cases "l ! i") auto
  then show "\<exists>j<i. \<exists>path. l ! j = (WCopy uid path, True) \<and> (uid, path) \<in> P" ..
qed

lemma copied_before_removal:
  assumes "(uid, path) \<in> P" and "\<forall>(c, b)\<in>set l. c = WStoreAdd uid FlagDeleted \<or> c = WUIDExpunge uid"
  shows "copied_before P ((WCopy uid path, True) # l)"
  unfolding copied_before_def
proof (intro allI impI)
  fix i u
  assume i: "i < length ((WCopy uid path, True) # l)" and r: "fst (((WCopy uid path, True) # l) ! i) \<in> {WStoreAdd u FlagDeleted, WUIDExpunge u}"
  then obtain k where k: "i = Suc k" by (cases i) auto
  then have "l ! k \<in> set l" using i by simp
  from bspec [OF assms(2) this] have "u = uid" using r k by (cases "l ! k") auto
  then show "\<exists>j<i. \<exists>p. ((WCopy uid path, True) # l) ! j = (WCopy u p, True) \<and> (u, p) \<in> P" using assms(1) k by (intro exI [of _ 0]) auto
qed

lemma imap_File_log:
  assumes "snd (imap_File caps m answers uid folder l) = l'" and "(uid, folderPath (im_folderPrefix m) (im_delim m) folder) \<in> P"
  shows "\<exists>new. l' = l @ new \<and> copied_before P new \<and> named_only P M new"
proof -
  let ?path = "folderPath (im_folderPrefix m) (im_delim m) folder"
  obtain ok ops where run: "fileByLadder (\<lambda>n. answers (length l + n)) (cap_Move caps) (cap_UIDPlus caps) uid ?path [] = (ok, ops)" by fastforce
  define new where "new = map (\<lambda>(f, b). (clientFiler f, b)) ops"
  have l': "l' = l @ new" using assms(1) run by (simp add: imap_File_def new_def)
  have img: "uid \<in> fst ` P" "?path \<in> snd ` P" using assms(2) by force+
  from run have "copied_before P new \<and> named_only P M new"
  proof (cases rule: ladder_logs)
    case (one f b)
    then have new: "new = [(clientFiler f, b)]" by (simp add: new_def)
    have "copied_before P new" using one(1) new by (intro copied_before_plain) auto
    moreover have "named_only P M new" using one(1) assms(2) by (elim disjE) (simp_all add: new named_only_def)
    ultimately show ?thesis by blast
  next
    case (created f b b')
    then have new: "new = [(clientFiler f, False), (WCreate ?path, b), (clientFiler f, b')]" by (simp add: new_def)
    have "copied_before P new" using created(1) new by (intro copied_before_plain) auto
    moreover have "named_only P M new" using created(1) assms(2) img by (elim disjE) (simp_all add: new named_only_def)
    ultimately show ?thesis by blast
  next
    case (removed pre b post)
    let ?conv = "map (\<lambda>(f, b). (clientFiler f, b))"
    have new: "new = ?conv pre @ (WCopy uid ?path, True) # ?conv ((FMarkDeleted uid, b) # post)" by (simp add: new_def removed(2))
    have "copied_before P (?conv pre)" using removed(1) by (intro copied_before_plain) auto
    moreover have "copied_before P ((WCopy uid ?path, True) # ?conv ((FMarkDeleted uid, b) # post))"
      by (rule copied_before_removal [OF assms(2)]) (use removed(3) in auto)
    moreover have "named_only P M new" unfolding new using removed(1,3) assms(2) img by (elim disjE exE) (simp_all add: named_only_def)
    ultimately show ?thesis unfolding new by (simp add: copied_before_append)
  qed
  then show ?thesis using l' by blast
qed

text \<open>The places the poller files into, and the messages it marks.\<close>

definition filed_places :: "imap_mailbox \<Rightarrow> mb_cmd list \<Rightarrow> (int \<times> string) set" where
  "filed_places m cmds = {(uid, folderPath (im_folderPrefix m) (im_delim m) folder) |uid folder. FileInto uid folder \<in> set cmds}"

definition marked_uids :: "mb_cmd list \<Rightarrow> int set" where
  "marked_uids cmds = {uid. MarkSeen uid \<in> set cmds \<or> SetFlag uid \<in> set cmds}"

lemma imap_run_log:
  assumes "c \<in> set cmds"
  shows "\<exists>new. snd (imap_run caps m answers c l) = l @ new \<and> copied_before (filed_places m cmds) new \<and>
    named_only (filed_places m cmds) (marked_uids cmds) new"
proof (cases c)
  case (FileInto uid folder)
  then have "(uid, folderPath (im_folderPrefix m) (im_delim m) folder) \<in> filed_places m cmds" using assms by (auto simp: filed_places_def)
  from imap_File_log [OF refl this] FileInto show ?thesis by simp
qed (use assms in \<open>auto simp: imap_MarkSeen_def imap_Flag_def wire_send_def named_only_def marked_uids_def intro!: copied_before_plain\<close>)

text \<open>
  C18. The adapter refines the poller's mailbox without losing mail: whatever sequence of commands the poller gives, whatever the
  server can do and answers, every message that is flagged deleted or expunged was before copied, with the server's
  confirmation, to a folder the poller filed it into; and no message is moved, copied, removed or marked that the
  poller did not name for it.
\<close>

theorem adapter_removes_only_copied:
  "copied_before (filed_places m cmds) (imap_run_all caps m answers cmds []) \<and>
   named_only (filed_places m cmds) (marked_uids cmds) (imap_run_all caps m answers cmds [])"
proof -
  have "\<exists>new. fold (\<lambda>c l. snd (imap_run caps m answers c l)) cs l = l @ new \<and> copied_before (filed_places m cmds) new \<and>
      named_only (filed_places m cmds) (marked_uids cmds) new" if "set cs \<subseteq> set cmds" for cs l
    using that
  proof (induction cs arbitrary: l)
    case Nil
    then show ?case by (simp add: copied_before_def named_only_def)
  next
    case (Cons c cs)
    obtain n1 where n1: "snd (imap_run caps m answers c l) = l @ n1" "copied_before (filed_places m cmds) n1"
      "named_only (filed_places m cmds) (marked_uids cmds) n1" using imap_run_log [of c cmds caps m answers l] Cons.prems by (meson list.set_intros(1) subsetD)
    obtain n2 where n2: "fold (\<lambda>c l. snd (imap_run caps m answers c l)) cs (l @ n1) = (l @ n1) @ n2" "copied_before (filed_places m cmds) n2"
      "named_only (filed_places m cmds) (marked_uids cmds) n2" using Cons.IH Cons.prems by (metis list.set_intros(2) subsetD subsetI)
    show ?case by (rule exI [of _ "n1 @ n2"]) (use n1 n2 copied_before_append in auto)
  qed
  from this [of cmds "[]"] show ?thesis by (auto simp: imap_run_all_def)
qed

end
