(* ===== verification/Runtime_Model.thy ===== *)
theory Runtime_Model
  imports App_Model
begin

text \<open>
  The process around the service: the listener and the shutdown of \<open>internal/app/app.go\<close> with \<open>Shutdown\<close> of
  \<open>internal/service/submissions.go\<close>, the build information, and \<open>pkg/logger/logger.go\<close>.

  Time is explicit: a wait is given the instant at which what it waits for is over, if ever, and
  returns the instant at which it returns. The instants may depend on when sends are cancelled and on when the job channel is
  closed, so that a worker may ignore either. The lemmas show that shutting down is bounded whatever the workers do.
\<close>

section \<open>Build information\<close>

text \<open>What \<open>debug.ReadBuildInfo\<close> reports: the version of the main module and the settings.\<close>

definition buildInfo :: "(string \<times> (string \<times> string) list) option \<Rightarrow> string \<times> string" where
  "buildInfo bi = (case bi of
       None \<Rightarrow> (''dev'', ''unknown'')
     | Some (mainVersion, settings) \<Rightarrow>
         (if mainVersion \<noteq> '''' then mainVersion else ''dev'',
          fold (\<lambda>(k, x) revision. if k = ''vcs.revision'' then x else revision) settings ''unknown''))"

section \<open>The listener\<close>

record http_server =
  hs_Addr :: string
  hs_ReadTimeout :: duration
  hs_ReadHeaderTimeout :: duration
  hs_WriteTimeout :: duration
  hs_IdleTimeout :: duration
  hs_MaxHeaderBytes :: int

definition startHTTPServer :: "http_config \<Rightarrow> http_server" where
  "startHTTPServer h =
     \<lparr>hs_Addr = ''0.0.0.0:'' @ int_str (http_Port h), hs_ReadTimeout = readTimeout h, hs_ReadHeaderTimeout = 5 * dur_second,
      hs_WriteTimeout = writeTimeout h, hs_IdleTimeout = 60 * dur_second, hs_MaxHeaderBytes = 2 ^ 20\<rparr>"

text \<open>How \<open>ListenAndServe\<close> may end: by \<open>Shutdown\<close>, or with an error of its own, which is kept for the exit.\<close>

datatype listen_end = ServerClosed | ListenFailed string

definition listen_error :: "listen_end \<Rightarrow> string option" where
  "listen_error r = (case r of ServerClosed \<Rightarrow> None | ListenFailed e \<Rightarrow> Some e)"

section \<open>Bounded waits\<close>

definition waitBounded :: "gotime \<Rightarrow> gotime option \<Rightarrow> duration \<Rightarrow> bool \<times> gotime" where
  "waitBounded now over d =
     (let deadline = now + max 0 d in
      case over of
        Some t \<Rightarrow> if t \<le> deadline then (True, max now t) else (False, deadline)
      | None \<Rightarrow> (False, deadline))"

definition defaultReplyDrainGrace :: duration where "defaultReplyDrainGrace = 10 * dur_second"
definition shutdownHardDeadline :: duration where "shutdownHardDeadline = 5 * dur_second"

definition drainGrace :: "http_config \<Rightarrow> duration" where
  "drainGrace h = (if shutdownTimeout h \<le> 0 then defaultReplyDrainGrace else shutdownTimeout h)"

datatype shutdown_note = HttpShutdownError | WorkersLate | SendsCancelled | RepliesAbandoned | PoolAbandoned

text \<open>
  \<open>Shutdown\<close> of the service: \<open>inFlight\<close> tells when the replies in flight are done, given when they were cancelled if
  they were, and \<open>pool\<close> when the workers have stopped, given when the job channel was closed.
\<close>

definition svc_Shutdown ::
  "http_config \<Rightarrow> bool \<Rightarrow> (gotime option \<Rightarrow> gotime option) \<Rightarrow> (gotime \<Rightarrow> gotime option) \<Rightarrow> gotime \<Rightarrow> shutdown_note list \<times> gotime" where
  "svc_Shutdown h isClosed inFlight pool now =
     (if isClosed then ([], now)
      else let (drained, t1) = waitBounded now (inFlight None) (drainGrace h);
               (notes, t2) =
                 (if drained then ([], t1)
                  else let (stopped, t) = waitBounded t1 (inFlight (Some t1)) shutdownHardDeadline
                       in ([SendsCancelled] @ (if stopped then [] else [RepliesAbandoned]), t));
               (ended, t3) = waitBounded t2 (pool t2) shutdownHardDeadline
           in (notes @ (if ended then [] else [PoolAbandoned]), t3))"

text \<open>
  What the rest of the process does once the root context is done: when the open requests are over, when the
  workers and the listener are, and the two of the service.
\<close>

record stopping =
  st_requests :: "gotime option"
  st_workers :: "gotime option"
  st_inFlight :: "gotime option \<Rightarrow> gotime option"
  st_pool :: "gotime \<Rightarrow> gotime option"

text \<open>\<open>server.Shutdown\<close> waits for the open requests and returns the error of its context when that expires first.\<close>

definition awaitShutdownAndStop :: "http_config \<Rightarrow> stopping \<Rightarrow> gotime \<Rightarrow> shutdown_note list \<times> gotime" where
  "awaitShutdownAndStop h s cancelled =
     (let (quiet, t1) = waitBounded cancelled (st_requests s) (shutdownTimeout h);
          (stopped, t2) = waitBounded t1 (st_workers s) (shutdownTimeout h);
          (notes, t3) = svc_Shutdown h False (st_inFlight s) (st_pool s) t2
      in ((if quiet then [] else [HttpShutdownError]) @ (if stopped then [] else [WorkersLate]) @ notes, t3))"

text \<open>The root context is done at the first of a signal and a failure of the listener.\<close>

definition root_done :: "gotime option \<Rightarrow> (gotime \<times> listen_end) option \<Rightarrow> gotime option" where
  "root_done sig listen =
     (let failed = (case listen of Some (t, ListenFailed _) \<Rightarrow> Some t | _ \<Rightarrow> None)
      in case (sig, failed) of (Some a, Some b) \<Rightarrow> Some (min a b) | (Some a, None) \<Rightarrow> Some a | (None, f) \<Rightarrow> f)"

text \<open>
  The calls \<open>Run\<close> has deferred, in the order in which it registers them; a returning function runs them backwards.
  Their errors are dropped.
\<close>

datatype deferred = CloseLog | CancelRoot | CloseDB

definition run_deferred :: "deferred list" where
  "run_deferred = rev [CloseLog, CancelRoot, CloseDB]"

text \<open>
  The serving part of \<open>Run\<close>: the exit is the listener's error when it has come by the end. The result is the error, what the
  shutdown noted, the instant at which the shutdown is over, and the deferred calls that are then run. \<^const>\<open>None\<close> when nothing
  ever ends it.
\<close>

definition run_serving ::
  "http_config \<Rightarrow> stopping \<Rightarrow> gotime option \<Rightarrow> (gotime \<times> listen_end) option \<Rightarrow> (string option \<times> shutdown_note list \<times> gotime \<times> deferred list) option" where
  "run_serving h s sig listen =
     (case root_done sig listen of
        None \<Rightarrow> None
      | Some t0 \<Rightarrow>
          (let (notes, t) = awaitShutdownAndStop h s t0
           in Some (case listen of
                      Some (t', r) \<Rightarrow> if t' \<le> t then map_option (\<lambda>e. ''http server failed: '' @ e) (listen_error r) else None
                    | None \<Rightarrow> None, notes, t, run_deferred)))"

section \<open>Shutting down is bounded\<close>

lemma waitBounded_bounds:
  assumes "waitBounded now over d = (b, t)"
  shows "now \<le> t \<and> t \<le> now + max 0 d \<and> (b \<longleftrightarrow> (\<exists>x. over = Some x \<and> x \<le> now + max 0 d))"
  using assms by (auto simp: waitBounded_def Let_def split: option.splits if_splits)

lemma drainGrace_pos: "0 < drainGrace h"
  by (simp add: drainGrace_def defaultReplyDrainGrace_def dur_second_def)

lemma svc_Shutdown_bounds:
  assumes "svc_Shutdown h isClosed inFlight pool now = (notes, t)"
  shows "now \<le> t \<and> t \<le> now + drainGrace h + 2 * shutdownHardDeadline \<and>
    (SendsCancelled \<in> set notes \<longleftrightarrow> \<not> isClosed \<and> (\<nexists>x. inFlight None = Some x \<and> x \<le> now + drainGrace h))"
proof (cases isClosed)
  case True
  then show ?thesis using assms drainGrace_pos [of h] by (auto simp: svc_Shutdown_def shutdownHardDeadline_def dur_second_def)
next
  case False
  obtain drained t1 where 1: "waitBounded now (inFlight None) (drainGrace h) = (drained, t1)" by fastforce
  obtain stopped t1' where 2: "waitBounded t1 (inFlight (Some t1)) shutdownHardDeadline = (stopped, t1')" by fastforce
  define t2 where "t2 = (if drained then t1 else t1')"
  obtain ended t3 where 3: "waitBounded t2 (pool t2) shutdownHardDeadline = (ended, t3)" by fastforce
  have run: "t = t3" "SendsCancelled \<in> set notes \<longleftrightarrow> \<not> drained"
    using assms False 1 2 3 by (auto simp: svc_Shutdown_def t2_def Let_def split: if_splits)
  have "0 < shutdownHardDeadline" by (simp add: shutdownHardDeadline_def dur_second_def)
  then show ?thesis
    using waitBounded_bounds [OF 1] waitBounded_bounds [OF 2] waitBounded_bounds [OF 3] run drainGrace_pos [of h] False
    by (auto simp: t2_def split: if_splits)
qed

lemma awaitShutdown_bounds:
  assumes "awaitShutdownAndStop h s now = (notes, t)"
  shows "now \<le> t \<and> t \<le> now + 2 * max 0 (shutdownTimeout h) + drainGrace h + 2 * shutdownHardDeadline"
proof -
  obtain quiet t1 where 1: "waitBounded now (st_requests s) (shutdownTimeout h) = (quiet, t1)" by fastforce
  obtain stopped t2 where 2: "waitBounded t1 (st_workers s) (shutdownTimeout h) = (stopped, t2)" by fastforce
  obtain ns t3 where 3: "svc_Shutdown h False (st_inFlight s) (st_pool s) t2 = (ns, t3)" by fastforce
  have "t = t3" using assms 1 2 3 by (simp add: awaitShutdownAndStop_def)
  then show ?thesis using waitBounded_bounds [OF 1] waitBounded_bounds [OF 2] svc_Shutdown_bounds [OF 3] by simp
qed

text \<open>
  C36. The process always exits: once a signal has come or the listener has failed, it is over within twice the shutdown timeout, the
  grace for replies and two hard deadlines, whatever requests, workers, sends or the pool do, even if they never
  return, and then closes the database before the log; and a failure of the listener that started the shutdown is the error the process exits with. Without either it keeps serving.
\<close>

theorem shutdown_always_ends:
  "(\<forall>t0. (sig = Some t0 \<or> (\<exists>e. listen = Some (t0, ListenFailed e))) \<longrightarrow>
      (\<exists>err notes t. run_serving h s sig listen = Some (err, notes, t, [CloseDB, CancelRoot, CloseLog]) \<and>
         t \<le> t0 + 2 * max 0 (shutdownTimeout h) + drainGrace h + 2 * shutdownHardDeadline)) \<and>
   (\<forall>t0 e. listen = Some (t0, ListenFailed e) \<and> (\<forall>t1. sig = Some t1 \<longrightarrow> t0 \<le> t1) \<longrightarrow>
      map_option fst (run_serving h s sig listen) = Some (Some (''http server failed: '' @ e))) \<and>
   (sig = None \<and> (listen = None \<or> (\<exists>t0. listen = Some (t0, ServerClosed))) \<longrightarrow> run_serving h s sig listen = None)"
proof (intro conjI allI impI)
  fix t0
  assume "sig = Some t0 \<or> (\<exists>e. listen = Some (t0, ListenFailed e))"
  then have "\<exists>b. root_done sig listen = Some b \<and> b \<le> t0"
    by (auto simp: root_done_def Let_def split: option.split prod.split listen_end.split)
  then obtain b where b: "root_done sig listen = Some b" "b \<le> t0" by blast
  obtain ns t where a: "awaitShutdownAndStop h s b = (ns, t)" by fastforce
  then show "\<exists>err notes t. run_serving h s sig listen = Some (err, notes, t, [CloseDB, CancelRoot, CloseLog]) \<and>
      t \<le> t0 + 2 * max 0 (shutdownTimeout h) + drainGrace h + 2 * shutdownHardDeadline"
    using awaitShutdown_bounds [OF a] b by (simp add: run_serving_def run_deferred_def)
next
  fix t0 e
  assume l: "listen = Some (t0, ListenFailed e) \<and> (\<forall>t1. sig = Some t1 \<longrightarrow> t0 \<le> t1)"
  obtain ns t where a: "awaitShutdownAndStop h s t0 = (ns, t)" by fastforce
  have "t0 \<le> t" using awaitShutdown_bounds [OF a] by simp
  moreover have "sig = Some t1 \<Longrightarrow> min t1 t0 = t0" for t1 using l by (simp add: min_absorb2)
  ultimately show "map_option fst (run_serving h s sig listen) = Some (Some (''http server failed: '' @ e))"
    using l a by (cases sig) (simp_all add: run_serving_def root_done_def listen_error_def)
qed (auto simp: run_serving_def root_done_def)

text \<open>A process whose workers, requests, sends and pool never end.\<close>

definition stuck :: stopping where
  "stuck = \<lparr>st_requests = None, st_workers = None, st_inFlight = (\<lambda>_. None), st_pool = (\<lambda>_. None)\<rparr>"

theorem shutdown_always_ends_witness:
  "(\<exists>err ns t. run_serving (ac_HTTP default_config) stuck (Some 0) None = Some (err, ns, t, [CloseDB, CancelRoot, CloseLog]) \<and> t \<le> 40 * dur_second) \<and>
   map_option fst (run_serving (ac_HTTP default_config) stuck None (Some (0, ListenFailed ''in use''))) = Some (Some ''http server failed: in use'') \<and>
   run_serving (ac_HTTP default_config) stuck None None = None"
proof -
  have t: "shutdownTimeout (ac_HTTP default_config) = 10 * dur_second" "drainGrace (ac_HTTP default_config) = 10 * dur_second"
    by (simp_all add: drainGrace_def shutdownTimeout_def default_config_def dur_times_def dur_second_def int64_def mod_pos_pos_trivial)
  then show ?thesis
    using shutdown_always_ends [of "Some 0" None "ac_HTTP default_config" stuck]
      shutdown_always_ends [of None "Some (0, ListenFailed ''in use'')" "ac_HTTP default_config" stuck]
      shutdown_always_ends [of None None "ac_HTTP default_config" stuck]
    by (simp add: shutdownHardDeadline_def dur_second_def)
qed

section \<open>The logger\<close>

text \<open>\<open>filepath.Join\<close> on the platforms with a slash: the non-empty elements joined and cleaned.\<close>

fun path_segments :: "string \<Rightarrow> string \<Rightarrow> string list" where
  "path_segments acc [] = [rev acc]"
| "path_segments acc (c # cs) = (if c = CHR ''/'' then rev acc # path_segments [] cs else path_segments (c # acc) cs)"

definition clean_segment :: "bool \<Rightarrow> string \<Rightarrow> string list \<Rightarrow> string list" where
  "clean_segment rooted seg stack =
     (if seg = '''' \<or> seg = ''.'' then stack
      else if seg = ''..'' then (case stack of
          [] \<Rightarrow> if rooted then [] else [''..'']
        | parent # rest \<Rightarrow> if parent = ''..'' then ''..'' # stack else rest)
      else seg # stack)"

definition render_path :: "bool \<Rightarrow> string list \<Rightarrow> string" where
  "render_path rooted stack =
     (let out = str_join (rev stack) ''/'' in if rooted then CHR ''/'' # out else if out = '''' then ''.'' else out)"

definition filepath_Clean :: "string \<Rightarrow> string" where
  "filepath_Clean p =
     (let rooted = (p \<noteq> [] \<and> hd p = CHR ''/'') in render_path rooted (fold (clean_segment rooted) (path_segments [] p) []))"

definition filepath_Join :: "string list \<Rightarrow> string" where
  "filepath_Join es = (let ne = filter (\<lambda>e. e \<noteq> '''') es in if ne = [] then '''' else filepath_Clean (str_join ne ''/''))"

datatype log_format = JSONFormat | TextFormat

record log_rotation =
  lr_Pattern :: string
  lr_MaxAge :: duration
  lr_RotationTime :: duration
  lr_LinkName :: "string option"

record logger =
  lo_Level :: string
  lo_Format :: log_format
  lo_Rotation :: "log_rotation option"
  lo_Fields :: "(string \<times> string) list"

text \<open>
  \<open>SetupLogger\<close>: \<open>parseLevel\<close> is logrus', \<open>mkdir\<close> the outcome of creating the directory, \<open>newRotation\<close> that of the
  rotating writer. The entry writes to the standard output, and to the rotating files when there is a directory.
\<close>

definition log_rotation_of :: "string \<Rightarrow> string \<Rightarrow> string \<Rightarrow> int \<Rightarrow> int \<Rightarrow> log_rotation" where
  "log_rotation_of goos serviceName logDir maxAgeDays rotationHours =
     (let datePattern = (if rotationHours < 24 then ''%Y%m%d-%H'' else ''%Y%m%d'')
      in \<lparr>lr_Pattern = filepath_Join [logDir, serviceName @ ''.'' @ datePattern @ ''.log''],
          lr_MaxAge = int64 (int64 (maxAgeDays * 24) * dur_hour), lr_RotationTime = dur_times rotationHours dur_hour,
          lr_LinkName = (if goos \<noteq> ''windows'' then Some (filepath_Join [logDir, serviceName @ ''.log'']) else None)\<rparr>)"

definition setupLogger ::
  "(string \<Rightarrow> string + string) \<Rightarrow> string option \<Rightarrow> (log_rotation \<Rightarrow> string option) \<Rightarrow> string \<Rightarrow>
   string \<Rightarrow> string \<Rightarrow> string \<Rightarrow> string \<Rightarrow> int \<Rightarrow> int \<Rightarrow> string + logger" where
  "setupLogger parseLevel mkdir newRotation goos level format serviceName logDir maxAgeDays rotationHours =
     (case parseLevel level of
        Inl e \<Rightarrow> Inl (''parse log level: '' @ e)
      | Inr lvl \<Rightarrow>
          (let lg = \<lparr>lo_Level = lvl, lo_Format = (if to_lower format = ''json'' then JSONFormat else TextFormat), lo_Rotation = None,
                     lo_Fields = [(''service'', serviceName)]\<rparr>
           in if logDir = '''' then Inr lg
              else case mkdir of
                Some e \<Rightarrow> Inl (''create log dir '' @ logDir @ '': '' @ e)
              | None \<Rightarrow>
                  (let rl = log_rotation_of goos serviceName logDir maxAgeDays rotationHours
                   in case newRotation rl of
                        Some e \<Rightarrow> Inl (''init rotating log: '' @ e)
                      | None \<Rightarrow> Inr (lg\<lparr>lo_Rotation := Some rl\<rparr>))))"

text \<open>Contexts carry a logger and a request id; \<^const>\<open>None\<close> is the nil context.\<close>

datatype ctx_value = CtxLogger "logger option" | CtxRequestID string
datatype ctx_key = LoggerCtxKey | RequestIDCtxKey

type_synonym go_context = "(ctx_key \<times> ctx_value) list"

definition contextWithLogger :: "logger option \<Rightarrow> go_context \<Rightarrow> go_context" where
  "contextWithLogger entry ctx = (LoggerCtxKey, CtxLogger entry) # ctx"

definition getLoggerFromContext :: "logger \<Rightarrow> go_context option \<Rightarrow> logger" where
  "getLoggerFromContext standard ctx = (case ctx of
       None \<Rightarrow> standard
     | Some c \<Rightarrow> (case map_of c LoggerCtxKey of Some (CtxLogger (Some entry)) \<Rightarrow> entry | _ \<Rightarrow> standard))"

definition contextWithRequestID :: "string \<Rightarrow> go_context \<Rightarrow> go_context" where
  "contextWithRequestID rid ctx = (RequestIDCtxKey, CtxRequestID rid) # ctx"

definition requestIDFromContext :: "go_context option \<Rightarrow> string" where
  "requestIDFromContext ctx = (case ctx of
       None \<Rightarrow> ''''
     | Some c \<Rightarrow> (case map_of c RequestIDCtxKey of Some (CtxRequestID rid) \<Rightarrow> rid | _ \<Rightarrow> ''''))"

lemma context_round_trip:
  "getLoggerFromContext std (Some (contextWithRequestID rid (contextWithLogger (Some lg) ctx))) = lg"
  "requestIDFromContext (Some (contextWithLogger e (contextWithRequestID rid ctx))) = rid"
  by (simp_all add: getLoggerFromContext_def requestIDFromContext_def contextWithLogger_def contextWithRequestID_def)

text \<open>
  A plain name joined to a directory stays below it: the rotated files and the link are entries of the log
  directory, whatever the directory is called.
\<close>

lemma path_segments_append: "path_segments acc (p @ CHR ''/'' # q) = path_segments acc p @ path_segments [] q"
  by (induction acc p rule: path_segments.induct) auto

lemma path_segments_plain: "CHR ''/'' \<notin> set p \<Longrightarrow> path_segments acc p = [rev acc @ p]"
  by (induction acc p rule: path_segments.induct) auto

lemma path_segments_nonempty: "path_segments acc p \<noteq> []"
  by (induction acc p rule: path_segments.induct) auto

lemma str_join_snoc: "str_join (xs @ [x]) sep = (if xs = [] then x else str_join xs sep @ sep @ x)"
  by (induction xs sep rule: str_join.induct) auto

definition plain_name :: "string \<Rightarrow> bool" where
  "plain_name n \<longleftrightarrow> CHR ''/'' \<notin> set n \<and> n \<notin> {'''', ''.'', ''..''}"

lemma path_segments_free: "x \<in> set (path_segments acc p) \<Longrightarrow> CHR ''/'' \<notin> set acc \<Longrightarrow> CHR ''/'' \<notin> set x"
  by (induction acc p rule: path_segments.induct) (auto split: if_splits)

lemma clean_segment_cases:
  assumes "x \<in> set (clean_segment rooted seg stack)"
  shows "x \<in> set stack \<or> x = ''..'' \<or> (x = seg \<and> seg \<noteq> '''' \<and> seg \<noteq> ''.'')"
proof (cases "seg = '''' \<or> seg = ''.'' \<or> seg = ''..''")
  case True
  then show ?thesis using assms by (cases stack) (auto simp: clean_segment_def split: if_splits)
next
  case False
  then show ?thesis using assms by (simp add: clean_segment_def) blast
qed

definition path_part :: "string \<Rightarrow> bool" where
  "path_part x \<longleftrightarrow> x \<noteq> '''' \<and> x \<noteq> ''.'' \<and> CHR ''/'' \<notin> set x"

lemma fold_clean_segment:
  assumes "\<forall>x\<in>set segs. CHR ''/'' \<notin> set x" and "\<forall>x\<in>set stack. path_part x"
  shows "\<forall>x\<in>set (fold (clean_segment rooted) segs stack). path_part x"
  using assms
proof (induction segs arbitrary: stack)
  case (Cons seg segs)
  have "path_part ''..''" by code_simp
  then have "\<forall>x\<in>set (clean_segment rooted seg stack). path_part x"
    using clean_segment_cases [of _ rooted seg stack] Cons.prems by (metis list.set_intros(1) path_part_def)
  then show ?case using Cons.IH [of "clean_segment rooted seg stack"] Cons.prems(1) by simp
qed simp

lemma str_join_segments:
  assumes "xs \<noteq> []" and "\<forall>x\<in>set xs. path_part x"
  shows "str_join xs ''/'' \<noteq> '''' \<and> str_join xs ''/'' \<noteq> ''.'' \<and> hd (str_join xs ''/'') \<noteq> CHR ''/''"
proof -
  obtain x ys where xs: "xs = x # ys" using assms(1) by (cases xs) auto
  have p: "path_part x" using assms(2) by (simp add: xs)
  then have x: "x \<noteq> ''''" "x \<noteq> ''.''" "hd x \<noteq> CHR ''/''" using hd_in_set [of x] unfolding path_part_def by metis+
  show ?thesis
  proof (cases ys)
    case (Cons y zs)
    then have "str_join xs ''/'' = x @ CHR ''/'' # str_join (y # zs) ''/''" by (simp add: xs)
    moreover have "x @ CHR ''/'' # s \<noteq> ''.''" for s using x(1) by (cases x) auto
    ultimately show ?thesis using x by simp
  qed (use x xs in simp)
qed

lemma filepath_Join_below:
  assumes "plain_name n" and "d \<noteq> ''''"
  shows "filepath_Join [d, n] =
    (if filepath_Clean d = ''.'' then n else if filepath_Clean d = ''/'' then ''/'' @ n else filepath_Clean d @ ''/'' @ n)"
proof -
  let ?rooted = "hd d = CHR ''/''"
  define st where "st = fold (clean_segment ?rooted) (path_segments [] d) []"
  have n: "n \<noteq> ''''" "n \<noteq> ''.''" using assms(1) by (auto simp: plain_name_def)
  have clean: "filepath_Clean d = render_path ?rooted st" using assms(2) by (simp add: filepath_Clean_def Let_def st_def)
  have "filepath_Join [d, n] = filepath_Clean (d @ CHR ''/'' # n)" using assms(2) n by (simp add: filepath_Join_def)
  also have "\<dots> = render_path ?rooted (fold (clean_segment ?rooted) (path_segments [] (d @ CHR ''/'' # n)) [])"
    using assms(2) by (simp add: filepath_Clean_def Let_def)
  also have "fold (clean_segment ?rooted) (path_segments [] (d @ CHR ''/'' # n)) [] = n # st"
    using assms(1) by (simp add: path_segments_append path_segments_plain st_def [symmetric] clean_segment_def plain_name_def)
  finally have join: "filepath_Join [d, n] = render_path ?rooted (n # st)" .
  have "\<forall>x\<in>set st. path_part x" unfolding st_def by (rule fold_clean_segment) (use path_segments_free [of _ "[]" d] in auto)
  then have one: "st \<noteq> [] \<Longrightarrow> str_join (rev st) ''/'' \<noteq> '''' \<and> str_join (rev st) ''/'' \<noteq> ''.'' \<and> hd (str_join (rev st) ''/'') \<noteq> CHR ''/''"
    using str_join_segments [of "rev st"] by simp
  show ?thesis
    using join clean one n(1) by (cases "st = []"; cases ?rooted) (simp_all add: render_path_def str_join_snoc, auto)
qed

section \<open>Opening the database\<close>

definition filepath_Dir :: "string \<Rightarrow> string" where
  "filepath_Dir p = filepath_Clean (rev (dropWhile (\<lambda>c. c \<noteq> CHR ''/'') (rev p)))"

record open_env =
  op_mkdir :: "string \<Rightarrow> string option"
  op_open :: "string \<Rightarrow> string option"
  op_ping :: "string option"

record sql_pool =
  po_DSN :: string
  po_MaxOpen :: int
  po_MaxIdle :: int
  po_MaxLifetime :: duration

definition sqlite_dsn :: "string \<Rightarrow> string" where
  "sqlite_dsn path = ''file:'' @ path @
     ''?_pragma=journal_mode(WAL)&_pragma=foreign_keys(on)&_pragma=busy_timeout(5000)&_pragma=synchronous(NORMAL)''"

text \<open>The result, and the pools the call leaves open.\<close>

definition sqlite_Open :: "open_env \<Rightarrow> string \<Rightarrow> (string + sql_pool) \<times> sql_pool list" where
  "sqlite_Open v path =
     (if path = '''' then (Inl ''sqlite: empty path'', [])
      else let dir = filepath_Dir path;
               made = (if dir \<noteq> '''' \<and> dir \<noteq> ''.'' then op_mkdir v dir else None)
           in case made of
                Some e \<Rightarrow> (Inl (''sqlite: create dir '' @ dir @ '': '' @ e), [])
              | None \<Rightarrow> (case op_open v (sqlite_dsn path) of
                  Some e \<Rightarrow> (Inl (''sqlite open: '' @ e), [])
                | None \<Rightarrow>
                    (let db = \<lparr>po_DSN = sqlite_dsn path, po_MaxOpen = 8, po_MaxIdle = 4, po_MaxLifetime = 0\<rparr>
                     in case op_ping v of Some e \<Rightarrow> (Inl (''sqlite ping: '' @ e), [db]) | None \<Rightarrow> (Inr db, [db]))))"

definition sqlite_Vacuum :: "(string \<Rightarrow> string option) \<Rightarrow> string option" where
  "sqlite_Vacuum exec = (case exec ''VACUUM'' of
       Some e \<Rightarrow> Some (''sqlite vacuum: '' @ e)
     | None \<Rightarrow> map_option (\<lambda>e. ''sqlite wal checkpoint: '' @ e) (exec ''PRAGMA wal_checkpoint(TRUNCATE)''))"

text \<open>
  A database that opens enforces foreign keys, and all connections of the pool are opened with the same settings. A
  failed ping, unlike every other failure, leaves the pool open.
\<close>

lemma sqlite_Open_cases:
  "case sqlite_Open v path of
     (Inr db, pools) \<Rightarrow> pools = [db] \<and> str_contains (po_DSN db) ''foreign_keys(on)'' \<and> op_ping v = None
   | (Inl e, pools) \<Rightarrow> pools \<noteq> [] \<longrightarrow> (\<exists>p. op_ping v = Some p \<and> e = ''sqlite ping: '' @ p)"
proof -
  have "sqlite_dsn path = (''file:'' @ path @ ''?_pragma=journal_mode(WAL)&_pragma='') @ ''foreign_keys(on)'' @ ''&_pragma=busy_timeout(5000)&_pragma=synchronous(NORMAL)''"
    by (simp add: sqlite_dsn_def)
  then have "str_contains (sqlite_dsn path) ''foreign_keys(on)''" unfolding str_contains_iff by blast
  then show ?thesis by (simp add: sqlite_Open_def Let_def split: option.split)
qed

theorem failed_ping_leaves_pool_open:
  "\<exists>v e pools. sqlite_Open v ''data/triage.db'' = (Inl e, pools) \<and> pools \<noteq> []"
proof -
  let ?v = "\<lparr>op_mkdir = (\<lambda>_. None), op_open = (\<lambda>_. None), op_ping = Some ''disk I/O error''\<rparr>"
  have "sqlite_Open ?v ''data/triage.db'' = (Inl ''sqlite ping: disk I/O error'', snd (sqlite_Open ?v ''data/triage.db'')) \<and>
      snd (sqlite_Open ?v ''data/triage.db'') \<noteq> []" by (simp add: sqlite_Open_def Let_def split: if_split)
  then show ?thesis by metis
qed

end
