(* ===== verification/Authorize_Model.thy ===== *)
theory Authorize_Model
  imports Platform_Model
begin

text \<open>
  \<open>cmd/authorize/main.go\<close>: the one-time Google consent flow. The command opens a loopback listener, sends the user to the
  consent page with a random state, waits for the callback, the error or the end of its patience, exchanges the
  code and prints the refresh token. The listener, the random source, the browser and the token endpoint are parameters.

  The callback handlers run beside the main function and reach it through two channels of capacity one, so the flow is a
  step relation; its invariant is that a code in a channel came with the right state.
\<close>

section \<open>The pieces\<close>

definition consentTimeout :: duration where "consentTimeout = 5 * 60 * 1000000000"
definition exchangeTimeout :: duration where "exchangeTimeout = 30 * 1000000000"

record consent_config =
  cc_ClientID :: string
  cc_ClientSecret :: string
  cc_AuthURL :: string
  cc_TokenURL :: string
  cc_Scopes :: "string list"
  cc_RedirectURL :: string

definition googleConsentConfig :: "string \<Rightarrow> string \<Rightarrow> string \<Rightarrow> consent_config" where
  "googleConsentConfig clientID clientSecret redirectURL =
     \<lparr>cc_ClientID = clientID, cc_ClientSecret = clientSecret, cc_AuthURL = ''https://accounts.google.com/o/oauth2/auth'',
      cc_TokenURL = ''https://oauth2.googleapis.com/token'', cc_Scopes = [''https://mail.google.com/''], cc_RedirectURL = redirectURL\<rparr>"

text \<open>\<open>hex.EncodeToString\<close> of the sixteen random bytes.\<close>

definition hex_digit :: "nat \<Rightarrow> char" where
  "hex_digit n = ''0123456789abcdef'' ! n"

definition hex_EncodeToString :: "nat list \<Rightarrow> string" where
  "hex_EncodeToString bs = concat (map (\<lambda>b. [hex_digit (b div 16), hex_digit (b mod 16)]) bs)"

definition randomState :: "string + nat list \<Rightarrow> string + string" where
  "randomState rnd = (case rnd of Inl e \<Rightarrow> Inl (''generate state: '' @ e) | Inr bs \<Rightarrow> Inr (hex_EncodeToString bs))"

definition openBrowser :: "string \<Rightarrow> string \<Rightarrow> string \<times> string list" where
  "openBrowser goos url =
     (if goos = ''windows'' then (''rundll32'', [''url.dll,FileProtocolHandler'', url])
      else if goos = ''darwin'' then (''open'', [url])
      else (''xdg-open'', [url]))"

text \<open>The parameters of a request, in the order of the URL; \<open>Get\<close> reads the first.\<close>

type_synonym url_query = "(string \<times> string) list"

definition query_Get :: "url_query \<Rightarrow> string \<Rightarrow> string" where
  "query_Get q k = (case map_of q k of None \<Rightarrow> '''' | Some x \<Rightarrow> x)"

text \<open>The handler of \<open>/callback\<close>: the answer, and what it sends to the main function, an error or the code.\<close>

definition callback :: "string \<Rightarrow> url_query \<Rightarrow> (int \<times> string) \<times> (string + string)" where
  "callback state q =
     (if query_Get q ''state'' \<noteq> state
      then ((400, ''state mismatch'' @ [LF]), Inl ''state mismatch (possible CSRF); aborting'')
      else if query_Get q ''error'' \<noteq> ''''
      then ((400, query_Get q ''error'' @ [LF]), Inl (''consent denied: '' @ query_Get q ''error''))
      else ((200, ''Authorization received. You can close this tab and return to the terminal.'' @ [LF]), Inr (query_Get q ''code'')))"

text \<open>What becomes of the exchange: the error, or the refresh token that is printed.\<close>

definition exchanged :: "string + string \<Rightarrow> string + string" where
  "exchanged r = (case r of
       Inl e \<Rightarrow> Inl (''exchange code: '' @ e)
     | Inr tok \<Rightarrow> if tok = '''' then Inl ''no refresh token returned; revoke prior access at https://myaccount.google.com/permissions and retry''
                  else Inr tok)"

section \<open>The flow\<close>

text \<open>The main function waits, exchanges a code, or has returned: with an error, or having printed a token.\<close>

datatype consent_pc = Waiting | Exchanging string | Exited "string + string"

record consent =
  cn_code :: "string option"
  cn_err :: "string option"
  cn_answered :: "(url_query \<times> int \<times> string) list"
  cn_pc :: consent_pc

definition consent_start :: consent where
  "consent_start = \<lparr>cn_code = None, cn_err = None, cn_answered = [], cn_pc = Waiting\<rparr>"

text \<open>
  A handler sends when its channel has room and waits otherwise. When several cases of the select are ready, any of
  them may be taken. Once the main function has returned the server is closed.
\<close>

inductive consent_step :: "string \<Rightarrow> (string \<Rightarrow> string + string) \<Rightarrow> consent \<Rightarrow> consent \<Rightarrow> bool" for state exchange where
  granted: "\<forall>r. cn_pc c \<noteq> Exited r \<Longrightarrow> callback state q = (answer, Inr code) \<Longrightarrow> cn_code c = None \<Longrightarrow>
    consent_step state exchange c (c\<lparr>cn_code := Some code, cn_answered := cn_answered c @ [(q, answer)]\<rparr>)"
| refused: "\<forall>r. cn_pc c \<noteq> Exited r \<Longrightarrow> callback state q = (answer, Inl err) \<Longrightarrow> cn_err c = None \<Longrightarrow>
    consent_step state exchange c (c\<lparr>cn_err := Some err, cn_answered := cn_answered c @ [(q, answer)]\<rparr>)"
| take_code: "cn_pc c = Waiting \<Longrightarrow> cn_code c = Some code \<Longrightarrow>
    consent_step state exchange c (c\<lparr>cn_code := None, cn_pc := Exchanging code\<rparr>)"
| take_error: "cn_pc c = Waiting \<Longrightarrow> cn_err c = Some err \<Longrightarrow>
    consent_step state exchange c (c\<lparr>cn_err := None, cn_pc := Exited (Inl err)\<rparr>)"
| patience: "cn_pc c = Waiting \<Longrightarrow> consent_step state exchange c (c\<lparr>cn_pc := Exited (Inl ''timed out waiting for consent'')\<rparr>)"
| redeem: "cn_pc c = Exchanging code \<Longrightarrow> consent_step state exchange c (c\<lparr>cn_pc := Exited (exchanged (exchange code))\<rparr>)"

inductive_cases consent_stepE [consumes 1, case_names granted refused take_code take_error patience redeem]:
  "consent_step state exchange c c'"

text \<open>The command up to the flow: what it needs, and the address it sends the user to, as the library builds it.\<close>

definition authorize_setup ::
  "string \<Rightarrow> string \<Rightarrow> string + string \<Rightarrow> string + nat list \<Rightarrow> (consent_config \<Rightarrow> string \<Rightarrow> (string \<times> string) list \<Rightarrow> string) \<Rightarrow>
   string + consent_config \<times> string \<times> string" where
  "authorize_setup clientID clientSecret listen rnd authCodeURL =
     (if clientID = '''' \<or> clientSecret = ''''
      then Inl ''set MAIL_OAUTH_CLIENT_ID and MAIL_OAUTH_CLIENT_SECRET from your Google desktop OAuth client''
      else case listen of
        Inl e \<Rightarrow> Inl (''open loopback listener: '' @ e)
      | Inr addr \<Rightarrow>
          (let cfg = googleConsentConfig clientID clientSecret (''http://'' @ addr @ ''/callback'')
           in case randomState rnd of
                Inl e \<Rightarrow> Inl e
              | Inr state \<Rightarrow> Inr (cfg, state, authCodeURL cfg state [(''access_type'', ''offline''), (''prompt'', ''consent'')])))"

section \<open>The state is unguessed\<close>

lemma hex_digit_inj: "m < 16 \<Longrightarrow> n < 16 \<Longrightarrow> hex_digit m = hex_digit n \<Longrightarrow> m = n"
  unfolding hex_digit_def by (subst (asm) nth_eq_iff_index_eq) auto

text \<open>Different random bytes give different states, so a state is as hard to guess as the bytes.\<close>

lemma hex_EncodeToString_inj:
  "length as = length bs \<Longrightarrow> \<forall>b\<in>set as \<union> set bs. b < 256 \<Longrightarrow> hex_EncodeToString as = hex_EncodeToString bs \<Longrightarrow> as = bs"
proof (induction as bs rule: list_induct2)
  case (Cons a as b bs)
  have "a div 16 = b div 16" "a mod 16 = b mod 16"
    using Cons.prems by (auto simp: hex_EncodeToString_def intro: hex_digit_inj)
  then have "a = b" by (metis div_mult_mod_eq)
  then show ?case using Cons by (simp add: hex_EncodeToString_def)
qed simp

lemma hex_EncodeToString_length: "length (hex_EncodeToString bs) = 2 * length bs"
  by (induction bs) (simp_all add: hex_EncodeToString_def)

section \<open>The invariant\<close>

definition vouched :: "string \<Rightarrow> consent \<Rightarrow> string \<Rightarrow> bool" where
  "vouched state c code \<longleftrightarrow> (\<exists>q answer. (q, answer) \<in> set (cn_answered c) \<and> query_Get q ''state'' = state \<and>
     query_Get q ''error'' = '''' \<and> query_Get q ''code'' = code \<and> fst answer = 200)"

definition consent_ok :: "string \<Rightarrow> (string \<Rightarrow> string + string) \<Rightarrow> consent \<Rightarrow> bool" where
  "consent_ok state exchange c \<longleftrightarrow> (\<forall>code. cn_code c = Some code \<longrightarrow> vouched state c code) \<and>
     (case cn_pc c of
        Waiting \<Rightarrow> True
      | Exchanging code \<Rightarrow> vouched state c code
      | Exited (Inl e) \<Rightarrow> True
      | Exited (Inr tok) \<Rightarrow> \<exists>code. vouched state c code \<and> exchange code = Inr tok \<and> tok \<noteq> '''')"

lemma callback_granted:
  "callback state q = (answer, Inr code) \<Longrightarrow>
     query_Get q ''state'' = state \<and> query_Get q ''error'' = '''' \<and> query_Get q ''code'' = code \<and> fst answer = 200"
  by (auto simp: callback_def split: if_splits)

lemma vouched_later: "vouched state c code \<Longrightarrow> set (cn_answered c) \<subseteq> set (cn_answered c') \<Longrightarrow> vouched state c' code"
  unfolding vouched_def by blast

lemma exchanged_token: "exchanged r = Inr tok \<Longrightarrow> r = Inr tok \<and> tok \<noteq> ''''"
  by (auto simp: exchanged_def split: sum.splits if_splits)

interpretation cn: invariant_system "\<lambda>c. c = consent_start" "consent_step state exchange" "consent_ok state exchange" for state exchange
proof unfold_locales
  fix c c'
  assume step: "consent_step state exchange c c'" and ok: "consent_ok state exchange c"
  have later: "vouched state c code \<Longrightarrow> set (cn_answered c) \<subseteq> set (cn_answered c') \<Longrightarrow> vouched state c' code" for code
    by (rule vouched_later)
  from step show "consent_ok state exchange c'"
  proof (cases rule: consent_stepE)
    case (granted q answer code)
    have "(q, answer) \<in> set (cn_answered c')" using granted(1) by simp
    then have "vouched state c' code" unfolding vouched_def using callback_granted [OF granted(3)] by blast
    then show ?thesis using ok granted(1,2) later unfolding consent_ok_def
      by (auto split: consent_pc.splits sum.splits)
  next
    case (refused q answer err)
    then show ?thesis using ok later unfolding consent_ok_def by (auto split: consent_pc.splits sum.splits)
  next
    case (redeem code)
    have v: "vouched state c' code" using ok redeem(2) later unfolding consent_ok_def redeem(1) by simp
    have "\<forall>x. cn_code c' = Some x \<longrightarrow> vouched state c' x" using ok later redeem(1) by (simp add: consent_ok_def)
    then show ?thesis using v exchanged_token [of "exchange code"] redeem(1) unfolding consent_ok_def
      by (cases "exchanged (exchange code)") auto
  qed (use ok later in \<open>auto simp: consent_ok_def split: consent_pc.splits sum.splits\<close>)
qed (simp add: consent_ok_def consent_start_def)

section \<open>Properties\<close>

text \<open>
  C30. The consent flow is safe from forged callbacks: whatever requests reach the loopback listener, in whatever order, and however
  the waits resolve, a refresh token is printed only when a request with the state of this very flow and without an error
  delivered the code it was exchanged for, and the token is not empty; every request with another state is answered 400.
\<close>

theorem consent_needs_state:
  assumes "(consent_step state exchange)\<^sup>*\<^sup>* consent_start c"
  shows "(\<forall>tok. cn_pc c = Exited (Inr tok) \<longrightarrow> tok \<noteq> '''' \<and>
      (\<exists>q answer. (q, answer) \<in> set (cn_answered c) \<and> query_Get q ''state'' = state \<and> query_Get q ''error'' = '''' \<and>
         exchange (query_Get q ''code'') = Inr tok)) \<and>
    (\<forall>(q, answer)\<in>set (cn_answered c). query_Get q ''state'' \<noteq> state \<longrightarrow> fst answer = 400)"
proof -
  have "consent_ok state exchange c" by (rule cn.run_good [OF refl assms])
  then have "\<forall>tok. cn_pc c = Exited (Inr tok) \<longrightarrow> tok \<noteq> '''' \<and>
      (\<exists>q answer. (q, answer) \<in> set (cn_answered c) \<and> query_Get q ''state'' = state \<and> query_Get q ''error'' = '''' \<and>
         exchange (query_Get q ''code'') = Inr tok)"
    unfolding consent_ok_def vouched_def by fastforce
  moreover have "\<forall>(q, answer)\<in>set (cn_answered c). query_Get q ''state'' \<noteq> state \<longrightarrow> fst answer = 400"
    using assms
  proof (induction rule: rtranclp_induct)
    case (step y z)
    from step(2) show ?case
      by (cases rule: consent_stepE) (use step(3) in \<open>auto simp: callback_def split: if_splits\<close>)
  qed (simp add: consent_start_def)
  ultimately show ?thesis by blast
qed

theorem consent_needs_state_witness:
  "\<exists>c. (consent_step ''5f'' (\<lambda>code. Inr (''rt-'' @ code)))\<^sup>*\<^sup>* consent_start c \<and> cn_pc c = Exited (Inr ''rt-k'') \<and>
     (\<exists>q answer. (q, answer) \<in> set (cn_answered c) \<and> query_Get q ''state'' = ''5f'')"
proof -
  let ?step = "consent_step ''5f'' (\<lambda>code. Inr (''rt-'' @ code))"
  let ?q = "[(''state'', ''5f''), (''code'', ''k'')]"
  obtain a where a: "callback ''5f'' ?q = (a, Inr ''k'')" by (simp add: callback_def query_Get_def)
  define c1 where "c1 = consent_start\<lparr>cn_code := Some ''k'', cn_answered := [(?q, a)]\<rparr>"
  define c2 where "c2 = c1\<lparr>cn_code := None, cn_pc := Exchanging ''k''\<rparr>"
  define c3 where "c3 = c2\<lparr>cn_pc := Exited (exchanged (Inr ''rt-k''))\<rparr>"
  have 1: "?step consent_start c1"
    using consent_step.granted [OF _ a, of consent_start] by (simp add: c1_def consent_start_def)
  have 2: "?step c1 c2" unfolding c2_def by (rule consent_step.take_code) (simp_all add: c1_def consent_start_def)
  have 3: "?step c2 c3" using consent_step.redeem [of c2 "''k''" "''5f''" "\<lambda>code. Inr (''rt-'' @ code)"] by (simp add: c3_def c2_def)
  from 1 2 3 have run: "?step\<^sup>*\<^sup>* consent_start c3" by (meson converse_rtranclp_into_rtranclp r_into_rtranclp)
  have "cn_pc c3 = Exited (Inr ''rt-k'')" by (simp add: c3_def exchanged_def)
  then show ?thesis using consent_needs_state [OF run] run by blast
qed

end
