(* ===== verification/Spec2Isabelle.thy ===== *)
theory Spec2Isabelle
  imports Digest_Model Llm_Request Service_Races Service_Types Thread_Model Imap_Session Runtime_Model Authorize_Model
begin

text \<open>
  Verification of the submission-triage service, a Go program (\<open>src/\<close>) that reads an insurance agency's mailbox, files
  every message under a submission, checks the attached documents against a checklist of the policy type, answers the
  broker with what is missing, and escalates and closes submissions over time. The data live in SQLite.

  \<^bold>\<open>The program.\<close> The poller (\<open>internal/delivery/imap\<close>) fetches unseen messages, parses them (\<open>pkg/emlparse\<close>), translates
  them to ingest requests (\<open>internal/delivery/emailingest\<close>) and calls \<open>IngestEmail\<close> of the service
  (\<open>internal/service/submissions.go\<close>). The service extracts text, classifies the documents with patterns and a
  language model, evaluates the checklist, moves the submission through its states, and writes the submission, the
  message and the reply (a row of the outbox) in one transaction. Reply workers and the outbox sweep deliver the
  pending rows over SMTP; the escalation worker, the retention worker and the digest run on timers. All of them share
  the database, the queue of reply jobs and the set of submissions whose delivery is claimed.

  \<^bold>\<open>Theories and the code they model.\<close>

  \<^item> \<open>Triage_Prelude\<close>: errors, 64-bit durations and instants, byte strings with the parts of \<open>strings\<close> and
    \<open>unicode/utf8\<close> the code uses, floating-point numbers, lemmas on lists and tables, and the locale \<open>invariant_system\<close> of transition systems with an invariant.
  \<^item> \<open>Submission_Model\<close>, \<open>Checklist_Model\<close>, \<open>Reply_Model\<close>, \<open>Digest_Model\<close>: \<open>internal/model\<close>. The records of the domain, the
    state machine (\<open>transitionTo\<close>, \<open>markAction\<close>), \<open>evaluateChecklist\<close>, the reply texts with \<open>replyFingerprint\<close>, and the digest.
  \<^item> \<open>Sql_Table\<close>, \<open>Outbox_Repo\<close>, \<open>Submission_Repo\<close>, \<open>Audit_Repo\<close>: \<open>internal/repository\<close>. Tables are lists of rows in insertion
    order; the locales \<open>keyed_upsert\<close> (\<open>INSERT ... ON CONFLICT\<close>) and \<open>partial_unique\<close> (the index on pending replies) are
    interpreted for every table, and \<open>coalescing_queue\<close> is the contract of the outbox.
  \<^item> \<open>Classifier_Model\<close>: \<open>pkg/glob\<close>, \<open>pkg/textutil\<close>, the classifier and the checklist store. \<open>Extractor_Model\<close>: the text extractors, with
    their contract \<open>limited_extractor\<close>.
  \<^item> \<open>Service_World\<close>, \<open>Document_Service\<close>, \<open>Ingest_Service\<close>, \<open>Delivery_Service\<close>, \<open>Sweep_Service\<close>: the service. The record \<open>world\<close> is
    its state (database, audit trail, queue, claims, sent mail, the day the spend cap was last reported), \<open>env\<close> what a call reads from outside (clock, ids,
    configuration, checklists, extractors, the model, the mail server, and which statement of the database
    fails). Every handler is a function from a world to a result and a world.
  \<^item> \<open>Ingest_Properties\<close>: what an ingest guarantees. \<open>Service_Invariant\<close>: handlers, workers, deliveries in flight, sweeps that
    act on what they listed and a restart of the process as one transition relation \<open>service_step\<close>, with its invariant.
    \<open>Service_Types\<close>: its type invariant. \<open>Service_Races\<close>: what its interleavings and crashes mean for replies.
  \<^item> \<open>Retry_Model\<close> (\<open>pkg/retry\<close>), \<open>Config_Model\<close> (\<open>internal/config\<close> and the start of the workers), \<open>Eml_Model\<close>
    (\<open>pkg/emlparse\<close>), \<open>Translate_Model\<close>, \<open>Poller_Model\<close>, \<open>Imap_Client\<close> (reading) and \<open>Imap_Session\<close> (the commands on the
    wire) for \<open>internal/delivery/imap\<close>, \<open>Smtp_Model\<close> (\<open>internal/infrastructure/email\<close>), \<open>Llm_Client\<close> and \<open>Llm_Request\<close>
    (\<open>internal/infrastructure/llm\<close>), \<open>Platform_Model\<close> (health endpoint, middleware, OAuth), \<open>Migration_Model\<close>
    (\<open>internal/database\<close>), \<open>App_Model\<close> (the wiring of \<open>internal/app\<close> and connecting to the mailbox), \<open>Runtime_Model\<close> (the
    listener, the shutdown, \<open>pkg/logger\<close> and opening the database), \<open>Authorize_Model\<close> (\<open>cmd/authorize\<close>).
  \<^item> \<open>Thread_Model\<close>: the interface of a sender (locale \<open>naming_sender\<close>, interpreted by the SMTP and the log sender) and the way
    of an answer back to its submission, across sender, delivery, translation and ingest.
  \<^item> This theory: the poller as a client of the service, what a whole poll does to the messages it fetched, and what becomes of accepted mail.

  \<^bold>\<open>What is shown.\<close> Data: the integrity of the database under all statements, round trips of submissions stored for the first time and again, the
  outbox as a queue that never loses a superseding reply, migrations applied once and in order. Ingest: all or nothing,
  duplicates recognised, a reply only where the rules allow one. Delivery: one delivery per submission at a time,
  stale listings harmless, suppression respected, failing replies dead-lettered. Sweeps: only due
  submissions are escalated and closed, the Hold folder is mirrored, retention keeps what is recent. Edges: no message
  is marked read or moved before it was handled, a poll settles every message of its batch, poisoned messages are quarantined, parsing, batches, extracted
  texts and the spend on the model are bounded, mail leaves only encrypted and without injected headers, retries end as they should, a classification
  gets through the failures of the model's server and the text around its answer, the mailbox adapter removes only what the server copied, a consent code counts only with the right state.
  Composition: every interleaving of the handlers, the workers and the poller keeps the invariant and the types of the service,
  accepted mail stays stored, a queued reply survives a crash, an answer to a delivered reply finds its submission, and the shutdown ends
  within its limits and closes the database. Two races that the code does not guard against are proved as such in \<open>Service_Races\<close>.

  \<^bold>\<open>Conventions.\<close> Strings are byte lists. Go's \<open>int\<close> and durations are integers, reduced by \<open>int64\<close> where the code
  computes with them and overflow is possible; instants are nanoseconds, the zero time a constant. Amounts of money and
  confidences are exact rationals with the special values of IEEE numbers; their arithmetic is not rounded, but an integer
  converted to a float is, to the nearest of 53 bits with ties to even. Letter case and white space are those of ASCII. Columns that hold JSON are kept
  decoded, except \<open>missing_items\<close> and \<open>reply_json\<close>, whose decoding may fail; the replacement of invalid UTF-8 when such a
  column is written is not modelled. An \<open>error\<close> is a value of a sum type;
  error texts leave out quoted values and the texts of library errors where nothing reads them. A handler reads
  the clock once. Logging is left out; audits are kept. Loops over data are structural; the
  retry loop counts its attempts down, multipart nesting is limited by the code's own depth of 32 and needs no
  further fuel, the workers' loops run over a finite list of ticks. A wait with a limit is a function of the instant at which the awaited event
  happens, if ever.

  \<^bold>\<open>Parameters.\<close> SHA-256, number and time formatting, JSON decoding, MIME, address, YAML and file-format decoding, SQLite's driver
  errors, SMTP, IMAP, HTTP and token servers are arguments of the definitions. Hypotheses on them are
  named where they are used (for instance that ids are fresh, or that formatting a time is undone by parsing it), and each
  property with a hypothesis has a witness on concrete functions.

  \<^bold>\<open>Not modelled.\<close> The main function of \<open>cmd/server\<close>, the loop and the routing of the HTTP server and the writing of log lines
  only call libraries; how long the calls take that \<open>Run\<close> has deferred is the libraries' affair; the generated mocks are test code. What an IMAP server does with its messages is its own affair: the model
  has its answers. In the transition system a handler is atomic, with these exceptions: a delivery is split into its claim, its
  reading of the row, and the send with the record of its outcome, and the escalation and closure sweeps into their listing and one
  step per submission, between which anything may happen. Finer interleavings of the statements of two
  handlers, such as two ingests of the same thread, are not covered.
\<close>

section \<open>The poller and the service\<close>

lemma auditFileFailed_run:
  "service_step\<^sup>*\<^sup>* \<lparr>sv_world = w, sv_flights = fs\<rparr> \<lparr>sv_world = auditFileFailed v sid folder reason w, sv_flights = fs\<rparr>"
  using one_handle [of w fs v "AuditFileFailed sid folder reason"] by simp

lemma file_message_run:
  "service_step\<^sup>*\<^sup>* \<lparr>sv_world = ps_world st, sv_flights = fs\<rparr> \<lparr>sv_world = ps_world (file_message v pl mb uid res st), sv_flights = fs\<rparr>"
  by (simp add: file_message_def Let_def run_cmd_def auditFileFailed_run split: option.split)

lemma settle_message_run:
  "service_step\<^sup>*\<^sup>* \<lparr>sv_world = ps_world st, sv_flights = fs\<rparr> \<lparr>sv_world = ps_world (settle_message v pl mb uid res st), sv_flights = fs\<rparr>"
proof -
  have w: "ps_world (snd (run_cmd mb c st')) = ps_world st'" for c st' by simp
  show ?thesis
  proof (cases "mbx_fault mb (MarkSeen uid)")
    case None
    define st1 where "st1 = snd (run_cmd mb (MarkSeen uid) st)"
    define st2 where "st2 = (if me_clearFault v = None then st1\<lparr>ps_control := clearFailure (mbx_uidValidity mb) uid (ps_control st1)\<rparr> else st1)"
    define st3 where "st3 = (if rs_NeedsReview res then snd (run_cmd mb (SetFlag uid) st2) else st2)"
    have "settle_message v pl mb uid res st = file_message v pl mb uid res st3"
      unfolding settle_message_def st3_def st2_def st1_def by (subst run_cmd_cases) (simp add: None Let_def)
    moreover have "ps_world st3 = ps_world st" by (simp add: st1_def st2_def st3_def w)
    ultimately show ?thesis using file_message_run [of st3] by simp
  next
    case (Some e)
    then have "settle_message v pl mb uid res st = snd (run_cmd mb (MarkSeen uid) st)"
      unfolding settle_message_def by (subst run_cmd_cases) (simp add: Some)
    then show ?thesis by (simp add: w)
  qed
qed

lemma process_run:
  "service_step\<^sup>*\<^sup>* \<lparr>sv_world = ps_world st, sv_flights = fs\<rparr> \<lparr>sv_world = ps_world (process v pl mb m st), sv_flights = fs\<rparr>"
proof (cases "fromReader (me_eml v) (snd m)")
  case (Inr p)
  let ?req = "translate (me_translate v) p ''imap''"
  obtain r w where i: "ingestEmail (me_env v) ?req (ps_world st) = (r, w)" by (cases "ingestEmail (me_env v) ?req (ps_world st)")
  have "service_step\<^sup>*\<^sup>* \<lparr>sv_world = ps_world st, sv_flights = fs\<rparr> \<lparr>sv_world = ps_world (st\<lparr>ps_world := w\<rparr>), sv_flights = fs\<rparr>"
    using one_handle [of "ps_world st" fs "me_env v" "Ingest ?req"] i by simp
  moreover have "service_step\<^sup>*\<^sup>* \<lparr>sv_world = ps_world (st\<lparr>ps_world := w\<rparr>), sv_flights = fs\<rparr> \<lparr>sv_world = ps_world (process v pl mb m st), sv_flights = fs\<rparr>"
    using settle_message_run [of "st\<lparr>ps_world := w\<rparr>"] Inr i by (simp add: process_def handleIngestFailure_effect(1) split: sum.split)
  ultimately show ?thesis by (rule rtranclp_trans)
qed (simp add: process_def)

lemma process_batch_run:
  "service_step\<^sup>*\<^sup>* \<lparr>sv_world = ps_world st, sv_flights = fs\<rparr> \<lparr>sv_world = ps_world (snd (process_batch vs live pl mb i ms st)), sv_flights = fs\<rparr>"
proof (induction ms arbitrary: i st)
  case (Cons m ms)
  then show ?case using rtranclp_trans [OF process_run [of st fs "vs i" pl mb m]] by simp
qed simp

lemma poller_hold_run:
  "service_step\<^sup>*\<^sup>* \<lparr>sv_world = ps_world st, sv_flights = fs\<rparr> \<lparr>sv_world = ps_world (poller_reconcileHold v live pl mb st), sv_flights = fs\<rparr>"
  using one_handle [of "ps_world st" fs v "ReconcileHold _"] by (auto simp: poller_reconcileHold_def split: sum.split)

lemma pollOnce_run:
  "service_step\<^sup>*\<^sup>* \<lparr>sv_world = ps_world st, sv_flights = fs\<rparr> \<lparr>sv_world = ps_world (pollOnce e pl cutoff st), sv_flights = fs\<rparr>"
proof (cases "pe_liveStart e \<and> (\<exists>mb msgs. pe_dial e = Inr mb \<and> mbx_fetch mb (pl_batchLimit pl) cutoff = Inr msgs)")
  case True
  then obtain mb msgs where mb: "pe_liveStart e" "pe_dial e = Inr mb" "mbx_fetch mb (pl_batchLimit pl) cutoff = Inr msgs" by blast
  obtain b st1 where b: "process_batch (pe_messages e) (pe_live e) pl mb 0 msgs (recordSuccess (pe_now e) st) = (b, st1)"
    by (metis surj_pair)
  have "ps_world (recordSuccess (pe_now e) st) = ps_world st" by (simp add: recordSuccess_def)
  then have "service_step\<^sup>*\<^sup>* \<lparr>sv_world = ps_world st, sv_flights = fs\<rparr> \<lparr>sv_world = ps_world st1, sv_flights = fs\<rparr>"
    using process_batch_run [of "recordSuccess (pe_now e) st" fs "pe_messages e" "pe_live e" pl mb 0 msgs] b by simp
  then show ?thesis using mb b rtranclp_trans [OF _ poller_hold_run [of st1 fs]] by (auto simp: pollOnce_def)
qed (auto simp: pollOnce_def poll_recordFailure_def split: sum.split)


text \<open>
  C15. A poll that can connect, fetch and work through its batch settles every message of it, in the order fetched,
  each in the world its predecessors left. The commands issued for the message with a UID are exactly those
  \<^const>\<open>message_fate\<close> demands: an unparseable or excluded message is marked read, an accepted one is in the
  database at the end of the poll, marked read, flagged and filed by its result, with its failures forgotten, and
  a failed one is counted once and marked read only when it has reached the limit. No other message is touched.
  Then the holds are reconciled with the folder, and only when a folder is set, the context is alive and the folder
  could be read; otherwise the batch has the last word.
\<close>

theorem poll_settles_every_message:
  fixes e pl cutoff st mb msgs
  defines "before \<equiv> \<lambda>i. snd (process_batch (pe_messages e) (pe_live e) pl mb 0 (take i msgs) (recordSuccess (pe_now e) st))"
    and "final \<equiv> pollOnce e pl cutoff st" and "fails \<equiv> \<lambda>s i. failures (ps_control s) (mbx_uidValidity mb, fst (msgs ! i))"
  assumes "boots s" and "service_step\<^sup>*\<^sup>* s \<lparr>sv_world = ps_world st, sv_flights = fs\<rparr>"
    and "pe_liveStart e" and "pe_dial e = Inr mb" and "mbx_fetch mb (pl_batchLimit pl) cutoff = Inr msgs"
    and "\<forall>k<length msgs. pe_live e k" and "distinct (map fst msgs)"
  shows "\<exists>cs. ps_cmds final = ps_cmds st @ cs \<and> (\<forall>c\<in>set cs. cmd_uid c \<in> fst ` set msgs) \<and>
    (\<forall>i<length msgs. message_fate (pe_messages e i) pl mb (msgs ! i) (ps_world (before i)) (fails st i)
       (filter (\<lambda>c. cmd_uid c = fst (msgs ! i)) cs) (fails final i) (db_emails (w_db (ps_world final)))) \<and>
    (let w = ps_world (before (length msgs)) in
     if pl_holdFolder pl = '''' \<or> \<not> pe_liveHold e \<or> isl (mbx_scan mb (pl_holdFolder pl) (pl_holdScanLimit pl)) then ps_world final = w
     else faultless (pe_hold e) \<longrightarrow>
       (\<forall>j. row_of j (ps_world final) = map_option (\<lambda>r. r\<lparr>q_on_hold :=
          (j \<in> set (submissionIDsByMessageIDs (projr (mbx_scan mb (pl_holdFolder pl) (pl_holdScanLimit pl))) (w_db w)))\<rparr>) (row_of j w)))"
proof -
  let ?start = "recordSuccess (pe_now e) st"
  let ?batch = "\<lambda>j ms. process_batch (pe_messages e) (pe_live e) pl mb j ms"
  have start: "ps_world ?start = ps_world st" "ps_control ?start = ps_control st" "ps_cmds ?start = ps_cmds st"
    by (simp_all add: recordSuccess_def)
  have at: "snd (?batch 0 (take i msgs) ?start) = before i" for i by (simp add: before_def)
  have all: "before (length msgs) = snd (?batch 0 msgs ?start)" by (simp add: before_def)
  have final: "final = poller_reconcileHold (pe_hold e) (pe_liveHold e) pl mb (before (length msgs))"
    using assms(6-9) process_batch_finished [of msgs "pe_live e" 0 "pe_messages e" pl mb ?start]
    by (auto simp: final_def pollOnce_def all split: prod.split)
  have kept: "ps_cmds final = ps_cmds (before (length msgs))" "ps_control final = ps_control (before (length msgs))"
    unfolding final poller_reconcileHold_def by (simp_all split: sum.split)
  have runs: "service_step\<^sup>*\<^sup>* s \<lparr>sv_world = ps_world (before i), sv_flights = fs\<rparr>" for i
    using rtranclp_trans [OF assms(5)] process_batch_run [of ?start fs] unfolding start before_def by blast
  obtain cs where cs: "ps_cmds (before (length msgs)) = ps_cmds st @ cs" "\<forall>c\<in>set cs. cmd_uid c \<in> fst ` set msgs"
    unfolding all using process_batch_cmds [of "pe_messages e" "pe_live e" pl mb 0 msgs ?start] start by metis
  have fate: "message_fate (pe_messages e i) pl mb (msgs ! i) (ps_world (before i)) (fails st i)
      (filter (\<lambda>c. cmd_uid c = fst (msgs ! i)) cs) (fails final i) (db_emails (w_db (ps_world final)))" if i: "i < length msgs" for i
  proof -
    let ?next = "process (pe_messages e i) pl mb (msgs ! i) (before i)"
    note one = process_batch_fate [OF assms(9,10) i, of "pe_messages e" pl mb ?start cs, folded all, unfolded start at, OF cs(1)]
    have ok: "service_ok \<lparr>sv_world = ps_world ?next, sv_flights = fs\<rparr>"
      by (rule sv.run_good [OF assms(4) rtranclp_trans [OF runs [of i] process_run]])
    have "service_step\<^sup>*\<^sup>* \<lparr>sv_world = ps_world ?next, sv_flights = fs\<rparr> \<lparr>sv_world = ps_world (before (length msgs)), sv_flights = fs\<rparr>"
      unfolding all one(2) by (rule process_batch_run)
    then have "service_step\<^sup>*\<^sup>* \<lparr>sv_world = ps_world ?next, sv_flights = fs\<rparr> \<lparr>sv_world = ps_world final, sv_flights = fs\<rparr>"
      unfolding final by (rule rtranclp_trans [OF _ poller_hold_run])
    then have "set (db_emails (w_db (ps_world ?next))) \<subseteq> set (db_emails (w_db (ps_world final)))"
      using db_steps_emails [OF service_run_db [OF _ ok]] by fastforce
    then show ?thesis using message_fate_more [OF one(1)] by (simp add: fails_def kept(2))
  qed
  have "db_wf (w_db (ps_world (before (length msgs))))"
    using sv.run_good [OF assms(4) runs] by (simp add: service_ok_def)
  note mirrored = reconcileHold_rows [OF _ prod.collapse [symmetric] this, of "pe_hold e"]
  show ?thesis using cs fate kept(1) mirrored
    by (intro exI [of _ cs]) (auto simp: Let_def final poller_reconcileHold_def isl_def split: sum.split)
qed

text \<open>A poll of a mailbox with a good and an unreadable message.\<close>

definition sample_poll :: poll_env where
  "sample_poll = \<lparr>pe_messages = (\<lambda>_. sample_message_env), pe_live = (\<lambda>_. True), pe_liveStart = True, pe_liveHold = True, pe_hold = sample_env,
     pe_now = 100, pe_dial = Inr (sample_mailbox\<lparr>mbx_fetch := (\<lambda>_ _. Inr [(7, Some sample_message), (8, None)])\<rparr>)\<rparr>"

theorem poll_settles_every_message_witness:
  "\<exists>p cs. fromReader sample_eml_env (Some sample_message) = Inr p \<and>
     message_id sample_env (translate (me_translate sample_message_env) p ''imap'') \<in>
       e_DeterministicID ` set (db_emails (w_db (ps_world (pollOnce sample_poll sample_poller 0 start_state)))) \<and>
     ps_cmds (pollOnce sample_poll sample_poller 0 start_state) = cs \<and> MarkSeen 7 \<in> set cs \<and> filter (\<lambda>c. cmd_uid c = 8) cs = [MarkSeen 8]"
proof -
  let ?mb = "sample_mailbox\<lparr>mbx_fetch := (\<lambda>_ _. Inr [(7, Some sample_message), (8, None)])\<rparr>"
  let ?msgs = "[(7, Some sample_message), (8, None)] :: (int \<times> mime_message option) list"
  have b: "boots \<lparr>sv_world = ps_world start_state, sv_flights = []\<rparr>" using boots_empty by (simp add: start_state_def)
  have e: "pe_liveStart sample_poll" "pe_dial sample_poll = Inr ?mb" "mbx_fetch ?mb (pl_batchLimit sample_poller) 0 = Inr ?msgs"
    "\<forall>k<length ?msgs. pe_live sample_poll k" "distinct (map fst ?msgs)" "ps_cmds start_state = []" "mbx_fault sample_mailbox c = None" for c
    by (simp_all add: sample_poll_def start_state_def sample_mailbox_def)
  obtain p where p: "fromReader (me_eml sample_message_env) (Some sample_message) = Inr p"
    and ok: "\<not> isl (fst (ingestEmail (me_env sample_message_env) (translate (me_translate sample_message_env) p ''imap'') (ps_world start_state)))"
    using sample_ingested by (auto split: sum.splits)
  obtain res where i: "fst (ingestEmail (me_env sample_message_env) (translate (me_translate sample_message_env) p ''imap'') (ps_world start_state)) = Inr res"
    using ok by (metis isl_def obj_sumE)
  obtain cs where cs: "ps_cmds (pollOnce sample_poll sample_poller 0 start_state) = cs"
    and fate: "\<forall>i<length ?msgs. message_fate (pe_messages sample_poll i) sample_poller ?mb (?msgs ! i)
       (ps_world (snd (process_batch (pe_messages sample_poll) (pe_live sample_poll) sample_poller ?mb 0 (take i ?msgs) (recordSuccess (pe_now sample_poll) start_state))))
       (failures (ps_control start_state) (mbx_uidValidity ?mb, fst (?msgs ! i))) (filter (\<lambda>c. cmd_uid c = fst (?msgs ! i)) cs)
       (failures (ps_control (pollOnce sample_poll sample_poller 0 start_state)) (mbx_uidValidity ?mb, fst (?msgs ! i)))
       (db_emails (w_db (ps_world (pollOnce sample_poll sample_poller 0 start_state))))"
    using poll_settles_every_message [OF b rtranclp.rtrancl_refl e(1-5)] unfolding e(6) append_Nil by blast
  have v: "pe_messages sample_poll k = sample_message_env" for k by (simp add: sample_poll_def)
  have w: "ps_world (recordSuccess (pe_now sample_poll) start_state) = ps_world start_state" by (simp add: recordSuccess_def)
  have first: "message_id (me_env sample_message_env) (translate (me_translate sample_message_env) p ''imap'') \<in>
      e_DeterministicID ` set (db_emails (w_db (ps_world (pollOnce sample_poll sample_poller 0 start_state)))) \<and>
      filter (\<lambda>c. cmd_uid c = 7) cs = settling sample_poller ?mb 7 res"
    using spec [OF fate, of 0] p i by (simp add: v w message_fate_def Let_def e(7))
  then have "MarkSeen 7 \<in> set (filter (\<lambda>c. cmd_uid c = 7) cs)" using e(7) by (simp add: settling_def)
  then have "MarkSeen 7 \<in> set cs" unfolding set_filter by blast
  moreover have "isl (fromReader (me_eml sample_message_env) None)"
    by code_simp
  then have "filter (\<lambda>c. cmd_uid c = 8) cs = [MarkSeen 8]"
    using spec [OF fate, of 1] by (auto simp: v message_fate_def Let_def e(7) isl_def)
  ultimately show ?thesis using first p cs by (intro exI [of _ p] exI [of _ cs]) (simp add: sample_message_env_def)
qed

text \<open>
  C3. From the mailbox to the database: once the poller has processed a message that parses and is accepted, the
  message is stored, and stays stored under its identity whatever the service, its workers and the deliveries
  in flight do afterwards, in any order.
\<close>

theorem accepted_mail_stays_stored:
  assumes "boots s" and "service_step\<^sup>*\<^sup>* s \<lparr>sv_world = ps_world st, sv_flights = fs\<rparr>"
    and "fromReader (me_eml v) (snd m) = Inr p"
    and "ingestEmail (me_env v) (translate (me_translate v) p ''imap'') (ps_world st) = (Inr res, w)"
    and "service_step\<^sup>*\<^sup>* \<lparr>sv_world = ps_world (process v pl mb m st), sv_flights = fs\<rparr> u"
  shows "message_id (me_env v) (translate (me_translate v) p ''imap'') \<in> e_DeterministicID ` set (db_emails (w_db (sv_world u)))"
proof -
  let ?t = "\<lparr>sv_world = ps_world (process v pl mb m st), sv_flights = fs\<rparr>"
  have "service_ok ?t" by (rule sv.run_good [OF assms(1) rtranclp_trans [OF assms(2) process_run]])
  then have kept: "set (db_emails (w_db (sv_world ?t))) \<subseteq> set (db_emails (w_db (sv_world u)))"
    by (rule db_steps_emails [OF service_run_db [OF assms(5)]])
  have "w_db (sv_world ?t) = w_db w" using assms(3,4) by (simp add: process_def settle_message_effect(2))
  then show ?thesis using kept ingest_mail_stored [OF assms(4)] by auto
qed

theorem accepted_mail_stays_stored_witness:
  "\<exists>p. fromReader sample_eml_env (Some sample_message) = Inr p \<and>
     message_id sample_env (translate (me_translate sample_message_env) p ''imap'') \<in>
       e_DeterministicID ` set (db_emails (w_db (replyWorker sample_env
         (ps_world (process sample_message_env sample_poller sample_mailbox (7, Some sample_message) start_state)))))"
proof -
  obtain p where p: "fromReader (me_eml sample_message_env) (Some sample_message) = Inr p"
    and ok: "\<not> isl (fst (ingestEmail (me_env sample_message_env) (translate (me_translate sample_message_env) p ''imap'') (ps_world start_state)))"
    using sample_ingested by (auto split: sum.splits)
  obtain res w where i: "ingestEmail (me_env sample_message_env) (translate (me_translate sample_message_env) p ''imap'') (ps_world start_state) = (Inr res, w)"
    using ok by (metis eq_fst_iff isl_def obj_sumE)
  have b: "boots \<lparr>sv_world = ps_world start_state, sv_flights = []\<rparr>" using boots_empty by (simp add: start_state_def)
  have "fromReader (me_eml sample_message_env) (snd (7 :: int, Some sample_message)) = Inr p" using p by simp
  from accepted_mail_stays_stored [OF b rtranclp.rtrancl_refl this i replyWorker_run] p show ?thesis by (auto simp: sample_message_env_def)
qed

end
